(* ===== verification/Rojoc_Prelude.thy ===== *)
theory Rojoc_Prelude
  imports Main "HOL-Library.Word"
begin

unbundle bit_operations_syntax

text \<open>
  Shared vocabulary of the development: the C integer types of \<^verbatim>\<open>lib/stdint.h\<close> as machine words,
  the byte-addressed memory the kernel works on, little-endian encodings of words (the layout
  of every integer the kernel keeps in memory or on disk), and the generic lemmas on lists,
  words and memory that the component theories use.
\<close>

section \<open>Types\<close>

type_synonym byte = "8 word"
type_synonym uint16 = "16 word"
type_synonym uint32 = "32 word"
type_synonym uint64 = "64 word"
type_synonym uint128 = "128 word"

type_synonym addr = "64 word"
type_synonym mem = "addr \<Rightarrow> byte"

text \<open>
  A C function that either fails with a (negative) error code or succeeds: \<open>Inl e\<close> is the
  returned error code, \<open>Inr v\<close> the success value.
\<close>

type_synonym 'a result = "int + 'a"

named_theorems mem_simps \<open>reading back what was stored in memory\<close>
named_theorems codec_simps \<open>lengths and round trips of byte encodings\<close>

section \<open>Little-endian encodings\<close>

primrec le_of_word :: "nat \<Rightarrow> 'a::len word \<Rightarrow> byte list" where
  "le_of_word 0 w = []"
| "le_of_word (Suc n) w = ucast w # le_of_word n (drop_bit 8 w)"

primrec word_of_le :: "byte list \<Rightarrow> 'a::len word" where
  "word_of_le [] = 0"
| "word_of_le (b # bs) = ucast b OR push_bit 8 (word_of_le bs)"

lemma length_le_of_word [simp, codec_simps]: "length (le_of_word n w) = n"
  by (induction n arbitrary: w) auto

lemma bit_word_of_le:
  "bit (word_of_le bs :: 'a::len word) k \<longleftrightarrow>
     k < LENGTH('a) \<and> k < 8 * length bs \<and> bit (bs ! (k div 8)) (k mod 8)"
proof (induction bs arbitrary: k)
  case Nil
  then show ?case by simp
next
  case (Cons b bs)
  show ?case
  proof (cases "k < 8")
    case True
    then show ?thesis by (auto simp: bit_simps)
  next
    case False
    then have "\<not> bit b k" by (simp add: bit_word.rep_eq)
    moreover from False have "k div 8 = Suc ((k - 8) div 8)" by (simp add: le_div_geq)
    moreover from False have "(k - 8) mod 8 = k mod 8" by (simp add: le_mod_geq)
    moreover from False have "k - 8 < 8 * length bs \<longleftrightarrow> k < 8 * length (b # bs)" by auto
    ultimately show ?thesis using False by (auto simp: bit_simps Cons.IH)
  qed
qed

lemma nth_le_of_word: "i < n \<Longrightarrow> le_of_word n w ! i = ucast (drop_bit (8 * i) w)"
proof (induction n arbitrary: w i)
  case 0
  then show ?case by simp
next
  case (Suc n)
  then show ?case by (cases i) (simp_all add: drop_bit_drop_bit add.commute)
qed

lemma word_of_le_le_of_word [codec_simps]:
  fixes w :: "'a::len word"
  assumes "LENGTH('a) \<le> 8 * n"
  shows "word_of_le (le_of_word n w) = w"
proof (rule bit_word_eqI)
  fix k assume k: "k < LENGTH('a)"
  with assms have "k div 8 < n" by (simp add: less_mult_imp_div_less mult.commute)
  moreover have "8 * (k div 8) + k mod 8 = k" by simp
  ultimately show "bit (word_of_le (le_of_word n w) :: 'a word) k = bit w k"
    using k assms by (simp add: bit_word_of_le nth_le_of_word bit_simps)
qed

lemma le_of_word_word_of_le [codec_simps]:
  assumes "length bs = n" and "8 * n \<le> LENGTH('a::len)"
  shows "le_of_word n (word_of_le bs :: 'a word) = bs"
proof (rule nth_equalityI)
  show "length (le_of_word n (word_of_le bs :: 'a word)) = length bs" using assms by simp
next
  fix i assume "i < length (le_of_word n (word_of_le bs :: 'a word))"
  then have i: "i < n" by simp
  show "le_of_word n (word_of_le bs :: 'a word) ! i = bs ! i"
  proof (rule bit_word_eqI)
    fix k assume "k < LENGTH(8)"
    then have k: "k < 8" by simp
    have "8 * i + k < 8 * n" using i k by linarith
    then show "bit (le_of_word n (word_of_le bs :: 'a word) ! i) k = bit (bs ! i) k"
      using i k assms by (simp add: nth_le_of_word bit_simps bit_word_of_le)
  qed
qed

text \<open>The value under a mask determines the value under every smaller mask.\<close>

lemma and_submask:
  fixes w :: "'a::len word"
  assumes "w AND a = v" and "a AND b = b"
  shows "w AND b = v AND b"
  using assms by (metis and.assoc)

text \<open>Rounding an address down to a multiple of a power of two.\<close>

lemma unat_round_down:
  fixes a :: uint64
  assumes "k < 64"
  shows "unat (a AND NOT (mask k)) = unat a div 2 ^ k * 2 ^ k"
proof -
  have "a AND NOT (mask k) = push_bit k (drop_bit k a)"
    by (rule bit_word_eqI) (auto simp: bit_simps not_less)
  moreover have "unat (push_bit k (drop_bit k a)) = push_bit k (drop_bit k (unat a)) mod 2 ^ 64"
    using unsigned_less [where 'a = nat, of a] by (simp add: unsigned_push_bit_eq unsigned_drop_bit_eq take_bit_eq_mod)
  moreover have "unat a div 2 ^ k * 2 ^ k < 2 ^ 64"
    using unsigned_less [where 'a = nat, of a] le_less_trans [OF div_times_less_eq_dividend [of "unat a" "2 ^ k"]] by simp
  ultimately show ?thesis by (simp add: push_bit_eq_mult drop_bit_eq_div)
qed

section \<open>Memory\<close>

text \<open>
  Memory is a total function from 64-bit addresses to bytes, as the flat physical memory the
  kernel runs on (identity mapped). A region \<open>rgn a n\<close> is the set of the \<open>n\<close> addresses from
  \<open>a\<close> on, with the wrap-around of 64-bit address arithmetic.
\<close>

definition rgn :: "addr \<Rightarrow> nat \<Rightarrow> addr set" where
  "rgn a n = {x. unat (x - a) < n}"

definition load_bytes :: "mem \<Rightarrow> addr \<Rightarrow> nat \<Rightarrow> byte list" where
  "load_bytes m a n = map (\<lambda>i. m (a + of_nat i)) [0..<n]"

primrec store_bytes :: "byte list \<Rightarrow> addr \<Rightarrow> mem \<Rightarrow> mem" where
  "store_bytes [] a m = m"
| "store_bytes (b # bs) a m = store_bytes bs (a + 1) (m(a := b))"

definition load64 :: "mem \<Rightarrow> addr \<Rightarrow> uint64" where
  "load64 m a = word_of_le (load_bytes m a 8)"

definition store64 :: "addr \<Rightarrow> uint64 \<Rightarrow> mem \<Rightarrow> mem" where
  "store64 a v m = store_bytes (le_of_word 8 v) a m"

definition load32 :: "mem \<Rightarrow> addr \<Rightarrow> uint32" where
  "load32 m a = word_of_le (load_bytes m a 4)"

definition store32 :: "addr \<Rightarrow> uint32 \<Rightarrow> mem \<Rightarrow> mem" where
  "store32 a v m = store_bytes (le_of_word 4 v) a m"

lemma length_load_bytes [simp, codec_simps]: "length (load_bytes m a n) = n"
  by (simp add: load_bytes_def)

lemma nth_load_bytes [simp]: "i < n \<Longrightarrow> load_bytes m a n ! i = m (a + of_nat i)"
  by (simp add: load_bytes_def)

lemma rgn_Suc: "x \<in> rgn a (Suc n) \<longleftrightarrow> x = a \<or> (x \<noteq> a \<and> x \<in> rgn (a + 1) n)"
proof (cases "x = a")
  case True
  then show ?thesis by (simp add: rgn_def)
next
  case False
  then have "x - a \<noteq> 0" by simp
  then have "unat (x - (a + 1)) = unat (x - a) - 1" and "0 < unat (x - a)"
    by (simp_all add: unat_minus_one unat_gt_0 diff_diff_eq [symmetric])
  with False show ?thesis by (auto simp: rgn_def)
qed

lemma store_bytes_apply [mem_simps]:
  assumes "length bs \<le> 2 ^ 64"
  shows "store_bytes bs a m x = (if x \<in> rgn a (length bs) then bs ! unat (x - a) else m x)"
  using assms
proof (induction bs arbitrary: a m)
  case Nil
  then show ?case by (simp add: rgn_def)
next
  case (Cons b bs)
  show ?case
  proof (cases "x = a")
    case True
    have "unat (- 1 :: addr) = 2 ^ 64 - 1" by (simp add: unsigned_minus_1_eq_mask mask_eq_exp_minus_1)
    then have "a \<notin> rgn (a + 1) (length bs)" using Cons.prems by (simp add: rgn_def)
    with True Cons show ?thesis by (simp add: rgn_def)
  next
    case False
    then have "x - a \<noteq> 0" by simp
    then have "unat (x - (a + 1)) = unat (x - a) - 1" and "0 < unat (x - a)"
      by (simp_all add: unat_minus_one unat_gt_0 diff_diff_eq [symmetric])
    with False Cons show ?thesis by (auto simp: rgn_Suc)
  qed
qed

lemma in_rgn_offset: "i < n \<Longrightarrow> n \<le> 2 ^ 64 \<Longrightarrow> a + of_nat i \<in> rgn a n"
  by (simp add: rgn_def unat_of_nat)

lemma load_store_bytes [mem_simps]:
  "length bs \<le> 2 ^ 64 \<Longrightarrow> load_bytes (store_bytes bs a m) a (length bs) = bs"
  by (rule nth_equalityI) (simp_all add: store_bytes_apply in_rgn_offset unat_of_nat)

lemma load_bytes_cong:
  assumes "\<And>x. x \<in> rgn a n \<Longrightarrow> m x = m' x" and "n \<le> 2 ^ 64"
  shows "load_bytes m a n = load_bytes m' a n"
  by (rule nth_equalityI) (simp_all add: assms(1) [OF in_rgn_offset [OF _ assms(2)]])

lemma load_store_bytes_disjoint:
  assumes "rgn a (length bs) \<inter> rgn b n = {}" and "length bs \<le> 2 ^ 64" and "n \<le> 2 ^ 64"
  shows "load_bytes (store_bytes bs a m) b n = load_bytes m b n"
  by (rule load_bytes_cong) (use assms in \<open>auto simp: store_bytes_apply\<close>)

lemma store_bytes_append:
  "store_bytes (xs @ ys) a m = store_bytes ys (a + of_nat (length xs)) (store_bytes xs a m)"
  by (induction xs arbitrary: a m) (simp_all add: algebra_simps)

lemma load64_store64 [simp, mem_simps]: "load64 (store64 a v m) a = v"
  using load_store_bytes [of "le_of_word 8 v" a m]
  by (simp add: load64_def store64_def word_of_le_le_of_word)

lemma load64_store64_disjoint:
  "rgn a 8 \<inter> rgn b 8 = {} \<Longrightarrow> load64 (store64 a v m) b = load64 m b"
  by (simp add: load64_def store64_def load_store_bytes_disjoint)

lemma store64_apply_outside: "x \<notin> rgn a 8 \<Longrightarrow> store64 a v m x = m x"
  by (simp add: store64_def store_bytes_apply)

lemma load64_cong: "(\<And>x. x \<in> rgn a 8 \<Longrightarrow> m x = m' x) \<Longrightarrow> load64 m a = load64 m' a"
  unfolding load64_def by (simp add: load_bytes_cong [of a 8 m m'])

lemma load32_store32 [simp, mem_simps]: "load32 (store32 a v m) a = v"
  using load_store_bytes [of "le_of_word 4 v" a m]
  by (simp add: load32_def store32_def word_of_le_le_of_word)

lemma store32_apply_outside: "x \<notin> rgn a 4 \<Longrightarrow> store32 a v m x = m x"
  by (simp add: store32_def store_bytes_apply)

lemma load32_cong: "(\<And>x. x \<in> rgn a 4 \<Longrightarrow> m x = m' x) \<Longrightarrow> load32 m a = load32 m' a"
  unfolding load32_def by (simp add: load_bytes_cong [of a 4 m m'])

text \<open>A region that does not wrap is an interval of the natural-number addresses.\<close>

lemma rgn_nat:
  assumes "unat a + n \<le> 2 ^ 64"
  shows "x \<in> rgn a n \<longleftrightarrow> unat a \<le> unat x \<and> unat x < unat a + n"
proof (cases "a \<le> x")
  case True
  then have "unat (x - a) = unat x - unat a" and "unat a \<le> unat x"
    by (simp_all add: unat_sub word_le_nat_alt)
  then show ?thesis by (auto simp: rgn_def)
next
  case False
  then have lt: "unat x < unat a" by (simp add: word_le_nat_alt)
  have "unat (x - a) = 2 ^ 64 + unat x - unat a"
    using lt unat_sub_if' [of x a] by simp
  then show ?thesis using lt assms by (auto simp: rgn_def)
qed

lemma rgn_disjointI:
  assumes "unat a + n \<le> unat b \<or> unat b + k \<le> unat a"
    and "unat a + n \<le> 2 ^ 64" and "unat b + k \<le> 2 ^ 64"
  shows "rgn a n \<inter> rgn b k = {}"
  using assms by (auto simp: rgn_nat)

end
