(* ===== verification/AES.thy ===== *)
theory AES
  imports Rojoc_Prelude
begin

unbundle bit_operations_syntax

text \<open>
  The cipher library \<^verbatim>\<open>lib-aes/aes.c\<close>, as it is configured in \<^verbatim>\<open>lib-aes/aes.h\<close> (AES-128, with
  the ECB, CBC and CTR modes). A \<open>state_t\<close>, the C array \<open>uint8_t[4][4]\<close>, is the list of its 16
  bytes in memory order, so \<open>(*state)[i][j]\<close> is \<open>st ! (4 * i + j)\<close>; it is how the C code itself
  casts a byte buffer to a state. Every assignment of the source is a list update, every
  counting loop a \<open>fold\<close> over its counter.
\<close>

section \<open>Constants and data\<close>

definition AES_BLOCKLEN :: nat where "AES_BLOCKLEN = 16"
definition AES_KEYLEN :: nat where "AES_KEYLEN = 16"
definition AES_keyExpSize :: nat where "AES_keyExpSize = 176"
definition Nb :: nat where "Nb = 4"
definition Nk :: nat where "Nk = 4"
definition Nr :: nat where "Nr = 10"

lemmas aes_consts = AES_BLOCKLEN_def AES_KEYLEN_def AES_keyExpSize_def Nb_def Nk_def Nr_def

record AES_ctx =
  RoundKey :: "byte list"
  Iv :: "byte list"

type_synonym state_t = "byte list"

definition sbox :: "byte list" where
  "sbox =
    [0x63, 0x7c, 0x77, 0x7b, 0xf2, 0x6b, 0x6f, 0xc5, 0x30, 0x01, 0x67, 0x2b, 0xfe, 0xd7, 0xab, 0x76,
     0xca, 0x82, 0xc9, 0x7d, 0xfa, 0x59, 0x47, 0xf0, 0xad, 0xd4, 0xa2, 0xaf, 0x9c, 0xa4, 0x72, 0xc0,
     0xb7, 0xfd, 0x93, 0x26, 0x36, 0x3f, 0xf7, 0xcc, 0x34, 0xa5, 0xe5, 0xf1, 0x71, 0xd8, 0x31, 0x15,
     0x04, 0xc7, 0x23, 0xc3, 0x18, 0x96, 0x05, 0x9a, 0x07, 0x12, 0x80, 0xe2, 0xeb, 0x27, 0xb2, 0x75,
     0x09, 0x83, 0x2c, 0x1a, 0x1b, 0x6e, 0x5a, 0xa0, 0x52, 0x3b, 0xd6, 0xb3, 0x29, 0xe3, 0x2f, 0x84,
     0x53, 0xd1, 0x00, 0xed, 0x20, 0xfc, 0xb1, 0x5b, 0x6a, 0xcb, 0xbe, 0x39, 0x4a, 0x4c, 0x58, 0xcf,
     0xd0, 0xef, 0xaa, 0xfb, 0x43, 0x4d, 0x33, 0x85, 0x45, 0xf9, 0x02, 0x7f, 0x50, 0x3c, 0x9f, 0xa8,
     0x51, 0xa3, 0x40, 0x8f, 0x92, 0x9d, 0x38, 0xf5, 0xbc, 0xb6, 0xda, 0x21, 0x10, 0xff, 0xf3, 0xd2,
     0xcd, 0x0c, 0x13, 0xec, 0x5f, 0x97, 0x44, 0x17, 0xc4, 0xa7, 0x7e, 0x3d, 0x64, 0x5d, 0x19, 0x73,
     0x60, 0x81, 0x4f, 0xdc, 0x22, 0x2a, 0x90, 0x88, 0x46, 0xee, 0xb8, 0x14, 0xde, 0x5e, 0x0b, 0xdb,
     0xe0, 0x32, 0x3a, 0x0a, 0x49, 0x06, 0x24, 0x5c, 0xc2, 0xd3, 0xac, 0x62, 0x91, 0x95, 0xe4, 0x79,
     0xe7, 0xc8, 0x37, 0x6d, 0x8d, 0xd5, 0x4e, 0xa9, 0x6c, 0x56, 0xf4, 0xea, 0x65, 0x7a, 0xae, 0x08,
     0xba, 0x78, 0x25, 0x2e, 0x1c, 0xa6, 0xb4, 0xc6, 0xe8, 0xdd, 0x74, 0x1f, 0x4b, 0xbd, 0x8b, 0x8a,
     0x70, 0x3e, 0xb5, 0x66, 0x48, 0x03, 0xf6, 0x0e, 0x61, 0x35, 0x57, 0xb9, 0x86, 0xc1, 0x1d, 0x9e,
     0xe1, 0xf8, 0x98, 0x11, 0x69, 0xd9, 0x8e, 0x94, 0x9b, 0x1e, 0x87, 0xe9, 0xce, 0x55, 0x28, 0xdf,
     0x8c, 0xa1, 0x89, 0x0d, 0xbf, 0xe6, 0x42, 0x68, 0x41, 0x99, 0x2d, 0x0f, 0xb0, 0x54, 0xbb, 0x16]"

definition rsbox :: "byte list" where
  "rsbox =
    [0x52, 0x09, 0x6a, 0xd5, 0x30, 0x36, 0xa5, 0x38, 0xbf, 0x40, 0xa3, 0x9e, 0x81, 0xf3, 0xd7, 0xfb,
     0x7c, 0xe3, 0x39, 0x82, 0x9b, 0x2f, 0xff, 0x87, 0x34, 0x8e, 0x43, 0x44, 0xc4, 0xde, 0xe9, 0xcb,
     0x54, 0x7b, 0x94, 0x32, 0xa6, 0xc2, 0x23, 0x3d, 0xee, 0x4c, 0x95, 0x0b, 0x42, 0xfa, 0xc3, 0x4e,
     0x08, 0x2e, 0xa1, 0x66, 0x28, 0xd9, 0x24, 0xb2, 0x76, 0x5b, 0xa2, 0x49, 0x6d, 0x8b, 0xd1, 0x25,
     0x72, 0xf8, 0xf6, 0x64, 0x86, 0x68, 0x98, 0x16, 0xd4, 0xa4, 0x5c, 0xcc, 0x5d, 0x65, 0xb6, 0x92,
     0x6c, 0x70, 0x48, 0x50, 0xfd, 0xed, 0xb9, 0xda, 0x5e, 0x15, 0x46, 0x57, 0xa7, 0x8d, 0x9d, 0x84,
     0x90, 0xd8, 0xab, 0x00, 0x8c, 0xbc, 0xd3, 0x0a, 0xf7, 0xe4, 0x58, 0x05, 0xb8, 0xb3, 0x45, 0x06,
     0xd0, 0x2c, 0x1e, 0x8f, 0xca, 0x3f, 0x0f, 0x02, 0xc1, 0xaf, 0xbd, 0x03, 0x01, 0x13, 0x8a, 0x6b,
     0x3a, 0x91, 0x11, 0x41, 0x4f, 0x67, 0xdc, 0xea, 0x97, 0xf2, 0xcf, 0xce, 0xf0, 0xb4, 0xe6, 0x73,
     0x96, 0xac, 0x74, 0x22, 0xe7, 0xad, 0x35, 0x85, 0xe2, 0xf9, 0x37, 0xe8, 0x1c, 0x75, 0xdf, 0x6e,
     0x47, 0xf1, 0x1a, 0x71, 0x1d, 0x29, 0xc5, 0x89, 0x6f, 0xb7, 0x62, 0x0e, 0xaa, 0x18, 0xbe, 0x1b,
     0xfc, 0x56, 0x3e, 0x4b, 0xc6, 0xd2, 0x79, 0x20, 0x9a, 0xdb, 0xc0, 0xfe, 0x78, 0xcd, 0x5a, 0xf4,
     0x1f, 0xdd, 0xa8, 0x33, 0x88, 0x07, 0xc7, 0x31, 0xb1, 0x12, 0x10, 0x59, 0x27, 0x80, 0xec, 0x5f,
     0x60, 0x51, 0x7f, 0xa9, 0x19, 0xb5, 0x4a, 0x0d, 0x2d, 0xe5, 0x7a, 0x9f, 0x93, 0xc9, 0x9c, 0xef,
     0xa0, 0xe0, 0x3b, 0x4d, 0xae, 0x2a, 0xf5, 0xb0, 0xc8, 0xeb, 0xbb, 0x3c, 0x83, 0x53, 0x99, 0x61,
     0x17, 0x2b, 0x04, 0x7e, 0xba, 0x77, 0xd6, 0x26, 0xe1, 0x69, 0x14, 0x63, 0x55, 0x21, 0x0c, 0x7d]"

definition Rcon :: "byte list" where
  "Rcon = [0x8d, 0x01, 0x02, 0x04, 0x08, 0x10, 0x20, 0x40, 0x80, 0x1b, 0x36]"

definition getSBoxValue :: "byte \<Rightarrow> byte" where
  "getSBoxValue num = sbox ! unat num"

definition getSBoxInvert :: "byte \<Rightarrow> byte" where
  "getSBoxInvert num = rsbox ! unat num"

section \<open>Key schedule\<close>

definition key_copy_step :: "byte list \<Rightarrow> nat \<Rightarrow> byte list \<Rightarrow> byte list" where
  "key_copy_step Key i rk =
     rk[i * 4 + 0 := Key ! (i * 4 + 0), i * 4 + 1 := Key ! (i * 4 + 1),
        i * 4 + 2 := Key ! (i * 4 + 2), i * 4 + 3 := Key ! (i * 4 + 3)]"

definition RotWord :: "byte list \<Rightarrow> byte list" where
  "RotWord tempa =
     (let u8tmp = tempa ! 0;
          tempa = tempa[0 := tempa ! 1];
          tempa = tempa[1 := tempa ! 2];
          tempa = tempa[2 := tempa ! 3]
      in tempa[3 := u8tmp])"

definition SubWord :: "byte list \<Rightarrow> byte list" where
  "SubWord tempa =
     (let tempa = tempa[0 := getSBoxValue (tempa ! 0)];
          tempa = tempa[1 := getSBoxValue (tempa ! 1)];
          tempa = tempa[2 := getSBoxValue (tempa ! 2)]
      in tempa[3 := getSBoxValue (tempa ! 3)])"

definition key_expand_step :: "nat \<Rightarrow> byte list \<Rightarrow> byte list" where
  "key_expand_step i rk =
     (let k = (i - 1) * 4;
          tempa = [rk ! (k + 0), rk ! (k + 1), rk ! (k + 2), rk ! (k + 3)];
          tempa = (if i mod Nk = 0
                   then let t = SubWord (RotWord tempa) in t[0 := t ! 0 XOR Rcon ! (i div Nk)]
                   else tempa);
          j = i * 4; k = (i - Nk) * 4;
          rk = rk[j + 0 := rk ! (k + 0) XOR tempa ! 0];
          rk = rk[j + 1 := rk ! (k + 1) XOR tempa ! 1];
          rk = rk[j + 2 := rk ! (k + 2) XOR tempa ! 2]
      in rk[j + 3 := rk ! (k + 3) XOR tempa ! 3])"

definition KeyExpansion :: "byte list \<Rightarrow> byte list \<Rightarrow> byte list" where
  "KeyExpansion rk Key =
     fold key_expand_step [Nk..<Nb * (Nr + 1)] (fold (key_copy_step Key) [0..<Nk] rk)"

definition AES_init_ctx :: "AES_ctx \<Rightarrow> byte list \<Rightarrow> AES_ctx" where
  "AES_init_ctx ctx key = ctx\<lparr>RoundKey := KeyExpansion (RoundKey ctx) key\<rparr>"

definition AES_init_ctx_iv :: "AES_ctx \<Rightarrow> byte list \<Rightarrow> byte list \<Rightarrow> AES_ctx" where
  "AES_init_ctx_iv ctx key iv =
     ctx\<lparr>RoundKey := KeyExpansion (RoundKey ctx) key, Iv := take AES_BLOCKLEN iv\<rparr>"

definition AES_ctx_set_iv :: "AES_ctx \<Rightarrow> byte list \<Rightarrow> AES_ctx" where
  "AES_ctx_set_iv ctx iv = ctx\<lparr>Iv := take AES_BLOCKLEN iv\<rparr>"

section \<open>Round functions\<close>

definition AddRoundKey :: "nat \<Rightarrow> byte list \<Rightarrow> state_t \<Rightarrow> state_t" where
  "AddRoundKey round rk st =
     fold (\<lambda>i st. fold (\<lambda>j st.
        st[4 * i + j := st ! (4 * i + j) XOR rk ! (round * Nb * 4 + i * Nb + j)]) [0..<4] st)
      [0..<4] st"

definition SubBytes :: "state_t \<Rightarrow> state_t" where
  "SubBytes st =
     fold (\<lambda>i st. fold (\<lambda>j st. st[4 * j + i := getSBoxValue (st ! (4 * j + i))]) [0..<4] st)
      [0..<4] st"

definition ShiftRows :: "state_t \<Rightarrow> state_t" where
  "ShiftRows st =
     (let temp = st ! 1;
          st = st[1 := st ! 5]; st = st[5 := st ! 9]; st = st[9 := st ! 13]; st = st[13 := temp];
          temp = st ! 2; st = st[2 := st ! 10]; st = st[10 := temp];
          temp = st ! 6; st = st[6 := st ! 14]; st = st[14 := temp];
          temp = st ! 3;
          st = st[3 := st ! 15]; st = st[15 := st ! 11]; st = st[11 := st ! 7]
      in st[7 := temp])"

definition xtime :: "byte \<Rightarrow> byte" where
  "xtime x = push_bit 1 x XOR ((drop_bit 7 x AND 1) * 0x1b)"

definition mix_column :: "nat \<Rightarrow> state_t \<Rightarrow> state_t" where
  "mix_column i st =
     (let t = st ! (4 * i);
          Tmp = st ! (4 * i) XOR st ! (4 * i + 1) XOR st ! (4 * i + 2) XOR st ! (4 * i + 3);
          Tm = xtime (st ! (4 * i) XOR st ! (4 * i + 1));
          st = st[4 * i := st ! (4 * i) XOR (Tm XOR Tmp)];
          Tm = xtime (st ! (4 * i + 1) XOR st ! (4 * i + 2));
          st = st[4 * i + 1 := st ! (4 * i + 1) XOR (Tm XOR Tmp)];
          Tm = xtime (st ! (4 * i + 2) XOR st ! (4 * i + 3));
          st = st[4 * i + 2 := st ! (4 * i + 2) XOR (Tm XOR Tmp)];
          Tm = xtime (st ! (4 * i + 3) XOR t)
      in st[4 * i + 3 := st ! (4 * i + 3) XOR (Tm XOR Tmp)])"

definition MixColumns :: "state_t \<Rightarrow> state_t" where
  "MixColumns st = fold mix_column [0..<4] st"

definition Multiply :: "byte \<Rightarrow> byte \<Rightarrow> byte" where
  "Multiply x y =
     ((y AND 1) * x) XOR
     ((drop_bit 1 y AND 1) * xtime x) XOR
     ((drop_bit 2 y AND 1) * xtime (xtime x)) XOR
     ((drop_bit 3 y AND 1) * xtime (xtime (xtime x))) XOR
     ((drop_bit 4 y AND 1) * xtime (xtime (xtime (xtime x))))"

definition inv_mix_column :: "nat \<Rightarrow> state_t \<Rightarrow> state_t" where
  "inv_mix_column i st =
     (let a = st ! (4 * i); b = st ! (4 * i + 1); c = st ! (4 * i + 2); d = st ! (4 * i + 3)
      in st[4 * i := Multiply a 0x0e XOR Multiply b 0x0b XOR Multiply c 0x0d XOR Multiply d 0x09,
            4 * i + 1 := Multiply a 0x09 XOR Multiply b 0x0e XOR Multiply c 0x0b XOR Multiply d 0x0d,
            4 * i + 2 := Multiply a 0x0d XOR Multiply b 0x09 XOR Multiply c 0x0e XOR Multiply d 0x0b,
            4 * i + 3 := Multiply a 0x0b XOR Multiply b 0x0d XOR Multiply c 0x09 XOR Multiply d 0x0e])"

definition InvMixColumns :: "state_t \<Rightarrow> state_t" where
  "InvMixColumns st = fold inv_mix_column [0..<4] st"

definition InvSubBytes :: "state_t \<Rightarrow> state_t" where
  "InvSubBytes st =
     fold (\<lambda>i st. fold (\<lambda>j st. st[4 * j + i := getSBoxInvert (st ! (4 * j + i))]) [0..<4] st)
      [0..<4] st"

definition InvShiftRows :: "state_t \<Rightarrow> state_t" where
  "InvShiftRows st =
     (let temp = st ! 13;
          st = st[13 := st ! 9]; st = st[9 := st ! 5]; st = st[5 := st ! 1]; st = st[1 := temp];
          temp = st ! 2; st = st[2 := st ! 10]; st = st[10 := temp];
          temp = st ! 6; st = st[6 := st ! 14]; st = st[14 := temp];
          temp = st ! 3;
          st = st[3 := st ! 7]; st = st[7 := st ! 11]; st = st[11 := st ! 15]
      in st[15 := temp])"

section \<open>Cipher and inverse cipher\<close>

text \<open>
  The loop of \<open>Cipher\<close> leaves in the middle of the body when \<open>round == Nr\<close>: rounds \<open>1\<close> to
  \<open>Nr - 1\<close> run the whole body, round \<open>Nr\<close> its first two calls.
\<close>

definition Cipher :: "state_t \<Rightarrow> byte list \<Rightarrow> state_t" where
  "Cipher st rk =
     (let st = AddRoundKey 0 rk st;
          st = fold (\<lambda>round st. AddRoundKey round rk (MixColumns (ShiftRows (SubBytes st))))
                 [1..<Nr] st;
          st = ShiftRows (SubBytes st)
      in AddRoundKey Nr rk st)"

definition InvCipher :: "state_t \<Rightarrow> byte list \<Rightarrow> state_t" where
  "InvCipher st rk =
     (let st = AddRoundKey Nr rk st;
          st = fold (\<lambda>round st. InvMixColumns (AddRoundKey round rk (InvSubBytes (InvShiftRows st))))
                 (rev [1..<Nr]) st
      in AddRoundKey 0 rk (InvSubBytes (InvShiftRows st)))"

definition AES_ECB_encrypt :: "AES_ctx \<Rightarrow> byte list \<Rightarrow> byte list" where
  "AES_ECB_encrypt ctx buf = Cipher (take 16 buf) (RoundKey ctx) @ drop 16 buf"

definition AES_ECB_decrypt :: "AES_ctx \<Rightarrow> byte list \<Rightarrow> byte list" where
  "AES_ECB_decrypt ctx buf = InvCipher (take 16 buf) (RoundKey ctx) @ drop 16 buf"

section \<open>CBC\<close>

definition XorWithIv :: "byte list \<Rightarrow> byte list \<Rightarrow> byte list" where
  "XorWithIv iv buf = fold (\<lambda>i buf. buf[i := buf ! i XOR iv ! i]) [0..<AES_BLOCKLEN] buf"

text \<open>
  The loops advance \<open>buf\<close> by one block while \<open>i < length\<close>; the models recurse on the bytes
  that are left (\<open>length - i\<close>, which stops at 0) and return the rewritten buffer and the IV
  the context keeps.
\<close>

function cbc_encrypt_loop :: "byte list \<Rightarrow> byte list \<Rightarrow> nat \<Rightarrow> byte list \<Rightarrow> byte list \<times> byte list" where
  "cbc_encrypt_loop rk iv left buf =
     (if left = 0 then (buf, iv)
      else let blk = Cipher (XorWithIv iv (take 16 buf)) rk;
               (rest, iv') = cbc_encrypt_loop rk blk (left - AES_BLOCKLEN) (drop 16 buf)
           in (blk @ rest, iv'))"
  by pat_completeness auto
termination
  by (relation "measure (\<lambda>(rk, iv, left, buf). left)") (auto simp: aes_consts)

definition AES_CBC_encrypt_buffer :: "AES_ctx \<Rightarrow> byte list \<Rightarrow> nat \<Rightarrow> byte list \<times> AES_ctx" where
  "AES_CBC_encrypt_buffer ctx buf len =
     (let (out, iv) = cbc_encrypt_loop (RoundKey ctx) (Iv ctx) len buf
      in (out, ctx\<lparr>Iv := iv\<rparr>))"

function cbc_decrypt_loop :: "byte list \<Rightarrow> byte list \<Rightarrow> nat \<Rightarrow> byte list \<Rightarrow> byte list \<times> byte list" where
  "cbc_decrypt_loop rk iv left buf =
     (if left = 0 then (buf, iv)
      else let storeNextIv = take AES_BLOCKLEN buf;
               blk = XorWithIv iv (InvCipher (take 16 buf) rk);
               (rest, iv') = cbc_decrypt_loop rk storeNextIv (left - AES_BLOCKLEN) (drop 16 buf)
           in (blk @ rest, iv'))"
  by pat_completeness auto
termination
  by (relation "measure (\<lambda>(rk, iv, left, buf). left)") (auto simp: aes_consts)

definition AES_CBC_decrypt_buffer :: "AES_ctx \<Rightarrow> byte list \<Rightarrow> nat \<Rightarrow> byte list \<times> AES_ctx" where
  "AES_CBC_decrypt_buffer ctx buf len =
     (let (out, iv) = cbc_decrypt_loop (RoundKey ctx) (Iv ctx) len buf
      in (out, ctx\<lparr>Iv := iv\<rparr>))"

section \<open>CTR\<close>

text \<open>
  \<open>increment_iv b iv\<close> is the inner loop over \<open>bi\<close> from \<open>b - 1\<close> down to 0. The outer loop runs
  over the bytes of the buffer with the counter \<open>bi\<close> of the key-stream block; \<open>buffer\<close> is not
  initialised in the source and is always written before it is read.
\<close>

primrec increment_iv :: "nat \<Rightarrow> byte list \<Rightarrow> byte list" where
  "increment_iv 0 iv = iv"
| "increment_iv (Suc bi) iv =
     (if iv ! bi = 255 then increment_iv bi (iv[bi := 0]) else iv[bi := iv ! bi + 1])"

primrec ctr_loop :: "byte list \<Rightarrow> byte list \<Rightarrow> AES_ctx \<Rightarrow> byte list \<Rightarrow> nat \<Rightarrow> byte list \<times> AES_ctx" where
  "ctr_loop [] out ctx buffer bi = (out, ctx)"
| "ctr_loop (x # xs) out ctx buffer bi =
     (let (ctx, buffer, bi) =
            (if bi = AES_BLOCKLEN
             then (ctx\<lparr>Iv := increment_iv AES_BLOCKLEN (Iv ctx)\<rparr>,
                   Cipher (take AES_BLOCKLEN (Iv ctx)) (RoundKey ctx), 0)
             else (ctx, buffer, bi))
      in ctr_loop xs (out @ [x XOR buffer ! bi]) ctx buffer (bi + 1))"

definition AES_CTR_xcrypt_buffer :: "AES_ctx \<Rightarrow> byte list \<Rightarrow> nat \<Rightarrow> byte list \<times> AES_ctx" where
  "AES_CTR_xcrypt_buffer ctx buf len =
     (let (out, ctx') = ctr_loop (take len buf) [] ctx [] AES_BLOCKLEN
      in (out @ drop len buf, ctx'))"

end
