(* ===== verification/AES_Correct.thy ===== *)
theory AES_Correct
  imports AES
begin

unbundle bit_operations_syntax

text \<open>
  Correctness of the cipher library: the inverse cipher undoes the cipher for every key
  schedule, the CBC and CTR modes are undone by their counterparts, and counter mode is the
  exclusive or with the key stream of the big-endian counter.
\<close>

section \<open>Exclusive or and the field multiplication by x\<close>

lemma xor_cancel_left: "(x::'a::len word) XOR (x XOR y) = y"
  by (simp add: xor.assoc [symmetric])

lemmas xor_ac = xor.assoc xor.commute xor.left_commute xor_cancel_left

lemma xtime_alt: "xtime x = push_bit 1 x XOR (if bit x 7 then 0x1b else 0)"
  by (simp add: xtime_def and_one_eq bit_iff_odd_drop_bit mod_2_eq_odd)

lemma xtime_xor: "xtime (a XOR b) = xtime a XOR xtime b"
  by (auto simp only: xtime_alt push_bit_xor bit_xor_iff xor_ac xor_self_eq xor.left_neutral
      split: if_splits)

lemma Multiply_consts:
  "Multiply x 0x09 = x XOR xtime (xtime (xtime x))"
  "Multiply x 0x0b = x XOR xtime x XOR xtime (xtime (xtime x))"
  "Multiply x 0x0d = x XOR xtime (xtime x) XOR xtime (xtime (xtime x))"
  "Multiply x 0x0e = xtime x XOR xtime (xtime x) XOR xtime (xtime (xtime x))"
  by (simp_all add: Multiply_def)

section \<open>The substitution tables are inverse\<close>

lemma inverse_sbox_table:
  "list_all (\<lambda>i. getSBoxInvert (getSBoxValue (of_nat i)) = of_nat i) [0..<256]"
  by code_simp

lemma getSBoxInvert_Value [simp]: "getSBoxInvert (getSBoxValue x) = x"
proof -
  have "unat x < 256" using unsigned_less [of x] by simp
  then have "unat x \<in> set [0..<256]" by simp
  with inverse_sbox_table have "getSBoxInvert (getSBoxValue (of_nat (unat x))) = of_nat (unat x)"
    unfolding list_all_iff by blast
  then show ?thesis by simp
qed

section \<open>Sixteen-byte states\<close>

lemma length_16E:
  assumes "length xs = (16::nat)"
  obtains a b c d e f g h i j k l m n p q where "xs = [a,b,c,d,e,f,g,h,i,j,k,l,m,n,p,q]"
  using assms by (auto simp: length_Suc_conv numeral_eq_Suc)

lemma upto4: "[0..<4] = [0, 1, 2, 3::nat]"
  by (simp add: upt_rec)

lemma upto16: "[0..<16] = [0, 1, 2, 3, 4, 5, 6, 7, 8, 9, 10, 11, 12, 13, 14, 15::nat]"
  by (simp add: upt_rec)

lemma length_fold:
  assumes "\<And>i st. length (f i st) = length st"
  shows "length (fold f is st) = length st"
  by (induction "is" arbitrary: st) (simp_all add: assms)

lemma length_AddRoundKey [simp]: "length (AddRoundKey r rk st) = length st"
  by (simp add: AddRoundKey_def length_fold)

lemma length_SubBytes [simp]: "length (SubBytes st) = length st"
  by (simp add: SubBytes_def length_fold)

lemma length_InvSubBytes [simp]: "length (InvSubBytes st) = length st"
  by (simp add: InvSubBytes_def length_fold)

lemma length_ShiftRows [simp]: "length (ShiftRows st) = length st"
  by (simp add: ShiftRows_def Let_def)

lemma length_InvShiftRows [simp]: "length (InvShiftRows st) = length st"
  by (simp add: InvShiftRows_def Let_def)

lemma length_MixColumns [simp]: "length (MixColumns st) = length st"
  by (simp add: MixColumns_def mix_column_def Let_def length_fold)

lemma length_InvMixColumns [simp]: "length (InvMixColumns st) = length st"
  by (simp add: InvMixColumns_def inv_mix_column_def Let_def length_fold)

lemma length_XorWithIv [simp]: "length (XorWithIv iv buf) = length buf"
  by (simp add: XorWithIv_def length_fold)

lemma length_Cipher [simp]: "length (Cipher st rk) = length st"
  by (simp add: Cipher_def Let_def length_fold)

lemma length_InvCipher [simp]: "length (InvCipher st rk) = length st"
  by (simp add: InvCipher_def Let_def length_fold)

section \<open>Every round function is undone by its inverse\<close>

lemma AddRoundKey_twice [simp]:
  assumes "length st = 16" shows "AddRoundKey r rk (AddRoundKey r rk st) = st"
  using assms
  by (elim length_16E) (simp add: AddRoundKey_def upto4 Nb_def xor.assoc)

lemma InvSubBytes_SubBytes [simp]:
  assumes "length st = 16" shows "InvSubBytes (SubBytes st) = st"
  using assms by (elim length_16E) (simp add: SubBytes_def InvSubBytes_def upto4)

lemma InvShiftRows_ShiftRows [simp]:
  assumes "length st = 16" shows "InvShiftRows (ShiftRows st) = st"
  using assms by (elim length_16E) (simp add: ShiftRows_def InvShiftRows_def Let_def)

lemma InvMixColumns_MixColumns [simp]:
  assumes "length st = 16" shows "InvMixColumns (MixColumns st) = st"
proof -
  from assms obtain a b c d e f g h i j k l m n p q where
    st: "st = [a,b,c,d,e,f,g,h,i,j,k,l,m,n,p,q]" by (rule length_16E)
  show ?thesis unfolding st
    by (simp add: InvMixColumns_def MixColumns_def upto4 mix_column_def inv_mix_column_def Let_def)
      (simp add: Multiply_consts xtime_xor xor_ac)
qed

section \<open>The inverse cipher\<close>

definition enc_round :: "byte list \<Rightarrow> nat \<Rightarrow> state_t \<Rightarrow> state_t" where
  "enc_round rk round st = AddRoundKey round rk (MixColumns (ShiftRows (SubBytes st)))"

definition dec_round :: "byte list \<Rightarrow> nat \<Rightarrow> state_t \<Rightarrow> state_t" where
  "dec_round rk round st = InvMixColumns (AddRoundKey round rk (InvSubBytes (InvShiftRows st)))"

lemma length_enc_round [simp]: "length (enc_round rk r st) = length st"
  by (simp add: enc_round_def)

lemma length_enc_rounds [simp]: "length (fold (enc_round rk) rs st) = length st"
  by (simp add: length_fold)

lemma dec_rounds_enc_rounds:
  assumes "length st = 16"
  shows "fold (dec_round rk) (rev rs) (ShiftRows (SubBytes (fold (enc_round rk) rs st)))
       = ShiftRows (SubBytes st)"
  using assms
proof (induction rs arbitrary: st)
  case Nil
  then show ?case by simp
next
  case (Cons r rs)
  then have "fold (dec_round rk) (rev rs)
      (ShiftRows (SubBytes (fold (enc_round rk) rs (enc_round rk r st))))
    = ShiftRows (SubBytes (enc_round rk r st))" by simp
  moreover have "dec_round rk r (ShiftRows (SubBytes (enc_round rk r st))) = ShiftRows (SubBytes st)"
    using Cons.prems by (simp add: dec_round_def) (simp add: enc_round_def)
  ultimately show ?case by simp
qed

lemma InvCipher_Cipher:
  assumes "length st = 16" shows "InvCipher (Cipher st rk) rk = st"
proof -
  have enc: "(\<lambda>round st. AddRoundKey round rk (MixColumns (ShiftRows (SubBytes st)))) = enc_round rk"
    and dec: "(\<lambda>round st. InvMixColumns (AddRoundKey round rk (InvSubBytes (InvShiftRows st)))) = dec_round rk"
    by (simp_all add: fun_eq_iff enc_round_def dec_round_def)
  show ?thesis using assms
    by (simp add: Cipher_def InvCipher_def Let_def enc dec dec_rounds_enc_rounds)
qed

section \<open>CBC\<close>

lemma XorWithIv_nth:
  assumes "length buf = 16"
  shows "XorWithIv iv buf = map (\<lambda>i. buf ! i XOR iv ! i) [0..<16]"
  using assms
  by (elim length_16E) (simp add: XorWithIv_def aes_consts upt_rec)

lemma XorWithIv_twice [simp]:
  assumes "length buf = 16" shows "XorWithIv iv (XorWithIv iv buf) = buf"
  by (rule nth_equalityI) (simp_all add: assms XorWithIv_nth xor.assoc)

declare cbc_encrypt_loop.simps [simp del] cbc_decrypt_loop.simps [simp del]

lemma cbc_loop_0 [simp]:
  "cbc_encrypt_loop rk iv 0 buf = (buf, iv)" "cbc_decrypt_loop rk iv 0 buf = (buf, iv)"
  by (subst cbc_encrypt_loop.simps cbc_decrypt_loop.simps, simp)+

lemma cbc_decrypt_encrypt_loop:
  assumes "length buf = 16 * n" and "cbc_encrypt_loop rk iv (16 * n) buf = (out, iv')"
  shows "length out = 16 * n \<and> cbc_decrypt_loop rk iv (16 * n) out = (buf, iv')"
  using assms
proof (induction n arbitrary: iv buf out)
  case 0
  then show ?case by simp
next
  case (Suc n)
  define blk where "blk = Cipher (XorWithIv iv (take 16 buf)) rk"
  have len: "length (take 16 buf) = 16" "length blk = 16" and rest: "length (drop 16 buf) = 16 * n"
    using Suc.prems(1) by (simp_all add: blk_def)
  from Suc.prems(2) obtain out' where
    loop: "cbc_encrypt_loop rk blk (16 * n) (drop 16 buf) = (out', iv')" and out: "out = blk @ out'"
    by (subst (asm) cbc_encrypt_loop.simps) (auto simp: Let_def aes_consts blk_def split: prod.splits)
  have "InvCipher blk rk = XorWithIv iv (take 16 buf)"
    using len by (simp add: blk_def InvCipher_Cipher)
  then have "XorWithIv iv (InvCipher blk rk) = take 16 buf" using len by simp
  with Suc.IH [OF rest loop] show ?case using len
    by (subst cbc_decrypt_loop.simps) (simp add: Let_def aes_consts out)
qed

section \<open>CTR: the counter and the key stream\<close>

text \<open>
  The counter block read as a big-endian number; \<open>increment_iv\<close> adds one to it modulo
  \<open>2 ^ 128\<close>.
\<close>

definition be_value :: "byte list \<Rightarrow> nat" where
  "be_value bs = foldl (\<lambda>acc b. acc * 256 + unat b) 0 bs"

lemma be_value_snoc [simp]:
  "be_value [] = 0" "be_value (bs @ [b]) = be_value bs * 256 + unat b"
  by (simp_all add: be_value_def)

lemma unat_less_256: "unat (b::byte) < 256"
  using unsigned_less [of b] by simp

lemma unat_255: "unat (255::byte) = 255"
  by simp

lemma be_value_less: "be_value bs < 256 ^ length bs"
proof (induction bs rule: rev_induct)
  case Nil
  then show ?case by simp
next
  case (snoc b bs)
  then have "be_value bs * 256 + unat b < (be_value bs + 1) * 256"
    using unat_less_256 [of b] by (simp add: algebra_simps)
  also have "\<dots> \<le> 256 ^ length bs * 256" using snoc by (intro mult_right_mono) auto
  finally show ?case by (simp add: mult.commute)
qed

lemma length_increment_iv [simp]: "length (increment_iv n iv) = length iv"
  by (induction n arbitrary: iv) auto

lemma increment_iv_prefix:
  assumes "n = length xs"
  shows "increment_iv n (xs @ ys) = increment_iv n xs @ ys"
  using assms
proof (induction n arbitrary: xs ys)
  case 0
  then show ?case by simp
next
  case (Suc n)
  then obtain zs z where xs: "xs = zs @ [z]" and n: "n = length zs"
    by (metis length_Suc_conv_rev)
  show ?case
    using Suc.IH [OF n, of "0 # ys"] Suc.IH [OF n, of "[0]"]
    by (simp add: xs n nth_append list_update_append)
qed

lemma be_value_increment_iv:
  "be_value (increment_iv (length iv) iv) = (be_value iv + 1) mod 256 ^ length iv"
proof (induction iv rule: rev_induct)
  case Nil
  then show ?case by simp
next
  case (snoc z zs)
  show ?case
  proof (cases "z = 255")
    case True
    have "increment_iv (length (zs @ [z])) (zs @ [z]) = increment_iv (length zs) zs @ [0]"
      using True increment_iv_prefix [of "length zs" zs "[0]"] by (simp add: nth_append list_update_append)
    then have "be_value (increment_iv (length (zs @ [z])) (zs @ [z])) =
        ((be_value zs + 1) mod 256 ^ length zs) * 256"
      by (simp add: snoc)
    also have "\<dots> = ((be_value zs + 1) * 256) mod (256 ^ length zs * 256)"
      by (simp only: mod_mult_mult2)
    also have "(be_value zs + 1) * 256 = be_value (zs @ [z]) + 1" using True by (simp add: unat_255)
    finally show ?thesis by (simp add: mult.commute [of 256])
  next
    case False
    have "unat z \<noteq> 255" using False by (metis unat_255 word_unat_eq_iff)
    then have z: "unat (z + 1) = unat z + 1" using unat_less_256 [of z]
      by (simp add: unat_word_ariths)
    have lt: "be_value (zs @ [z + 1]) < 256 ^ length (zs @ [z])"
      using be_value_less [of "zs @ [z + 1]"] by simp
    show ?thesis using False lt by (simp add: nth_append list_update_append z)
  qed
qed


definition counter_block :: "AES_ctx \<Rightarrow> nat \<Rightarrow> byte list" where
  "counter_block ctx k = (increment_iv AES_BLOCKLEN ^^ k) (Iv ctx)"

definition key_stream :: "AES_ctx \<Rightarrow> nat \<Rightarrow> byte" where
  "key_stream ctx i = Cipher (counter_block ctx (i div 16)) (RoundKey ctx) ! (i mod 16)"

lemma length_counter_block [simp]: "length (counter_block ctx k) = length (Iv ctx)"
  by (induction k) (simp_all add: counter_block_def)

lemma counter_block_Suc: "counter_block ctx (Suc k) = increment_iv AES_BLOCKLEN (counter_block ctx k)"
  by (simp add: counter_block_def)

lemma be_value_counter_block:
  assumes "length (Iv ctx) = 16"
  shows "be_value (counter_block ctx k) = (be_value (Iv ctx) + k) mod 2 ^ 128"
proof (induction k)
  case 0
  then show ?case using be_value_less [of "Iv ctx"] assms
    by (simp add: counter_block_def)
next
  case (Suc k)
  then show ?case
    using be_value_increment_iv [of "counter_block ctx k"] assms
    by (simp add: counter_block_Suc aes_consts mod_Suc_eq)
qed

definition ctr_inv :: "AES_ctx \<Rightarrow> nat \<Rightarrow> AES_ctx \<Rightarrow> byte list \<Rightarrow> nat \<Rightarrow> bool" where
  "ctr_inv ctx0 i ctx buffer bi \<longleftrightarrow>
     ctx = ctx0\<lparr>Iv := counter_block ctx0 ((i + 15) div 16)\<rparr> \<and>
     (if i mod 16 = 0 then bi = 16
      else bi = i mod 16 \<and> buffer = Cipher (counter_block ctx0 (i div 16)) (RoundKey ctx0))"

lemma div_round_up16: "((i::nat) + 15) div 16 = (if i mod 16 = 0 then i div 16 else Suc (i div 16))"
proof -
  have "(i mod 16 + 15) div 16 = Suc 0" if "i mod 16 \<noteq> 0"
    using that by (intro div_nat_eqI) simp_all
  then show ?thesis by (subst div_add1_eq) simp
qed

lemmas block_arith = div_round_up16 div_Suc mod_Suc

lemma ctr_loop_spec:
  assumes "length (Iv ctx0) = 16" and "ctr_inv ctx0 i ctx buffer bi"
  shows "ctr_loop xs out ctx buffer bi =
    (out @ map (\<lambda>j. xs ! j XOR key_stream ctx0 (i + j)) [0..<length xs],
     ctx0\<lparr>Iv := counter_block ctx0 ((i + length xs + 15) div 16)\<rparr>)"
  using assms(2)
proof (induction xs arbitrary: out ctx buffer bi i)
  case Nil
  then show ?case by (simp add: ctr_inv_def)
next
  case (Cons x xs)
  define upd where "upd = (if bi = AES_BLOCKLEN
     then (ctx\<lparr>Iv := increment_iv AES_BLOCKLEN (Iv ctx)\<rparr>,
           Cipher (take AES_BLOCKLEN (Iv ctx)) (RoundKey ctx), 0)
     else (ctx, buffer, bi))"
  obtain ctx' buffer' bi' where upd_eq: "upd = (ctx', buffer', bi')" by (cases upd)
  have step: "x XOR buffer' ! bi' = x XOR key_stream ctx0 i \<and> ctr_inv ctx0 (Suc i) ctx' buffer' (bi' + 1)"
  proof (cases "i mod 16 = 0")
    case True
    then have d: "(i + 15) div 16 = i div 16" "Suc i mod 16 = 1" "Suc i div 16 = i div 16"
      "(Suc i + 15) div 16 = Suc (i div 16)" by (simp_all only: block_arith) (auto split: if_splits)
    from True Cons.prems have bi: "bi = 16"
      and ctx: "ctx = ctx0\<lparr>Iv := counter_block ctx0 (i div 16)\<rparr>" by (simp_all add: ctr_inv_def d)
    have "upd = (ctx0\<lparr>Iv := counter_block ctx0 (Suc (i div 16))\<rparr>,
        Cipher (counter_block ctx0 (i div 16)) (RoundKey ctx0), 0)"
      using assms(1) by (simp add: upd_def bi ctx counter_block_Suc aes_consts)
    with upd_eq True d show ?thesis by (simp add: ctr_inv_def key_stream_def)
  next
    case False
    then have d: "Suc i mod 16 = 0 \<Longrightarrow> i mod 16 = 15" "Suc i mod 16 \<noteq> 0 \<Longrightarrow> Suc i mod 16 = Suc (i mod 16)"
      "Suc i mod 16 \<noteq> 0 \<Longrightarrow> Suc i div 16 = i div 16" "(Suc i + 15) div 16 = (i + 15) div 16"
      by (simp_all only: block_arith) (auto split: if_splits)
    from False Cons.prems have bi: "bi = i mod 16" by (simp add: ctr_inv_def)
    then have "bi \<noteq> 16" by (metis mod_less_divisor nat_neq_iff zero_less_numeral)
    then have "upd = (ctx, buffer, bi)" by (simp add: upd_def aes_consts)
    with upd_eq False Cons.prems d show ?thesis
      by (auto simp: ctr_inv_def key_stream_def)
  qed
  have "ctr_loop (x # xs) out ctx buffer bi
      = ctr_loop xs (out @ [x XOR buffer' ! bi']) ctx' buffer' (bi' + 1)"
    using upd_eq by (simp add: upd_def)
  also have "\<dots> = (out @ [x XOR key_stream ctx0 i] @
       map (\<lambda>j. xs ! j XOR key_stream ctx0 (Suc i + j)) [0..<length xs],
      ctx0\<lparr>Iv := counter_block ctx0 ((Suc i + length xs + 15) div 16)\<rparr>)"
    using step Cons.IH [of "Suc i"] by simp
  also have "[x XOR key_stream ctx0 i] @ map (\<lambda>j. xs ! j XOR key_stream ctx0 (Suc i + j)) [0..<length xs]
      = map (\<lambda>j. (x # xs) ! j XOR key_stream ctx0 (i + j)) [0..<length (x # xs)]"
    by (simp add: upt_conv_Cons map_Suc_upt [symmetric] o_def del: upt_Suc)
  finally show ?case by simp
qed

lemma AES_CTR_spec:
  assumes "length (Iv ctx) = 16" and "len \<le> length buf"
  shows "AES_CTR_xcrypt_buffer ctx buf len =
    (map (\<lambda>i. buf ! i XOR key_stream ctx i) [0..<len] @ drop len buf,
     ctx\<lparr>Iv := counter_block ctx ((len + 15) div 16)\<rparr>)"
proof -
  have "ctr_inv ctx 0 ctx [] 16" by (simp add: ctr_inv_def counter_block_def)
  from ctr_loop_spec [OF assms(1) this, of "take len buf" "[]"] show ?thesis
    using assms(2) by (simp add: AES_CTR_xcrypt_buffer_def aes_consts cong: map_cong)
qed

lemma AES_CTR_twice:
  assumes "length (Iv ctx) = 16" and "len \<le> length buf"
  shows "fst (AES_CTR_xcrypt_buffer ctx (fst (AES_CTR_xcrypt_buffer ctx buf len)) len) = buf"
proof -
  have "map (\<lambda>i. buf ! i) [0..<len] = take len buf"
    by (rule nth_equalityI) (use assms(2) in simp_all)
  then have "map (\<lambda>i. buf ! i) [0..<len] @ drop len buf = buf" by simp
  moreover have "map (\<lambda>i. (map (\<lambda>i. buf ! i XOR key_stream ctx i) [0..<len] @ drop len buf) ! i
      XOR key_stream ctx i) [0..<len] = map (\<lambda>i. buf ! i) [0..<len]"
    by (rule map_cong) (simp_all add: nth_append xor.assoc)
  ultimately show ?thesis using assms by (simp add: AES_CTR_spec del: map_eq_conv)
qed

section \<open>The cipher of FIPS 197\<close>

text \<open>
  The reference definitions follow the text of the standard: the byte in row \<open>r\<close> and column
  \<open>c\<close> of the state is byte \<open>r + 4 * c\<close> of the block, row \<open>r\<close> is rotated left by \<open>r\<close> columns,
  and each column is multiplied by the circulant matrix with first row \<open>2 3 1 1\<close>.
\<close>

definition fips_AddRoundKey :: "nat \<Rightarrow> byte list \<Rightarrow> byte list \<Rightarrow> byte list" where
  "fips_AddRoundKey round w st = map (\<lambda>n. st ! n XOR w ! (16 * round + n)) [0..<16]"

definition fips_SubBytes :: "byte list \<Rightarrow> byte list" where
  "fips_SubBytes st = map getSBoxValue st"

definition fips_ShiftRows :: "byte list \<Rightarrow> byte list" where
  "fips_ShiftRows st = map (\<lambda>n. st ! (n mod 4 + 4 * ((n div 4 + n mod 4) mod 4))) [0..<16]"

definition fips_MixColumns :: "byte list \<Rightarrow> byte list" where
  "fips_MixColumns st =
     map (\<lambda>n. xtime (st ! n)
             XOR (xtime (st ! (4 * (n div 4) + (n + 1) mod 4)) XOR st ! (4 * (n div 4) + (n + 1) mod 4))
             XOR st ! (4 * (n div 4) + (n + 2) mod 4)
             XOR st ! (4 * (n div 4) + (n + 3) mod 4)) [0..<16]"

definition fips_Cipher :: "byte list \<Rightarrow> byte list \<Rightarrow> byte list" where
  "fips_Cipher st w =
     fips_AddRoundKey 10 w (fips_ShiftRows (fips_SubBytes
       (fold (\<lambda>r st. fips_AddRoundKey r w (fips_MixColumns (fips_ShiftRows (fips_SubBytes st))))
         [1..<10] (fips_AddRoundKey 0 w st))))"

lemma AddRoundKey_fips: "length st = 16 \<Longrightarrow> AddRoundKey r rk st = fips_AddRoundKey r rk st"
  by (elim length_16E) (simp add: AddRoundKey_def fips_AddRoundKey_def upto4 upto16 Nb_def algebra_simps)

lemma SubBytes_fips: "length st = 16 \<Longrightarrow> SubBytes st = fips_SubBytes st"
  by (elim length_16E) (simp add: SubBytes_def fips_SubBytes_def upto4)

lemma ShiftRows_fips: "length st = 16 \<Longrightarrow> ShiftRows st = fips_ShiftRows st"
  by (elim length_16E) (simp add: ShiftRows_def fips_ShiftRows_def upto16 Let_def)

lemma MixColumns_fips: "length st = 16 \<Longrightarrow> MixColumns st = fips_MixColumns st"
  by (elim length_16E)
    (simp add: MixColumns_def mix_column_def fips_MixColumns_def upto4 upto16 Let_def xtime_xor xor_ac)

lemmas round_fips = AddRoundKey_fips SubBytes_fips ShiftRows_fips MixColumns_fips

lemma fold_cong_length:
  assumes "\<And>r st. length st = n \<Longrightarrow> f r st = g r st \<and> length (f r st) = n" and "length st = n"
  shows "fold f rs st = fold g rs st"
  using assms(2) by (induction rs arbitrary: st) (simp_all add: assms(1), metis assms(1))

lemma Cipher_fips:
  assumes "length st = 16" shows "Cipher st rk = fips_Cipher st rk"
proof -
  let ?f = "\<lambda>r st. AddRoundKey r rk (MixColumns (ShiftRows (SubBytes st)))"
  let ?g = "\<lambda>r st. fips_AddRoundKey r rk (fips_MixColumns (fips_ShiftRows (fips_SubBytes st)))"
  have step: "?f r st = ?g r st \<and> length (?f r st) = 16" if "length st = 16" for r st
    using that by (simp flip: round_fips)
  have rounds: "fold ?f rs (AddRoundKey 0 rk st) = fold ?g rs (AddRoundKey 0 rk st)" for rs
    by (rule fold_cong_length [where n = 16, OF step]) (simp_all add: assms)
  have len: "length (fold ?f rs (AddRoundKey 0 rk st)) = 16" for rs
    using assms by (simp add: length_fold)
  have "fips_Cipher st rk =
      fips_AddRoundKey 10 rk (fips_ShiftRows (fips_SubBytes (fold ?f [1..<10] (AddRoundKey 0 rk st))))"
    unfolding rounds by (simp add: fips_Cipher_def AddRoundKey_fips [OF assms])
  also have "\<dots> = Cipher st rk"
    using len [of "[1..<10]"] by (simp add: Cipher_def Let_def Nr_def flip: round_fips)
  finally show ?thesis ..
qed

section \<open>The key schedule of FIPS 197\<close>

text \<open>
  The standard builds the schedule by appending one four-byte word at a time: word \<open>i\<close> is word
  \<open>i - 4\<close> exclusive-ored with the previous word, which at every fourth word is first rotated,
  substituted and exclusive-ored with the round constant.
\<close>

definition fips_temp :: "nat \<Rightarrow> byte list \<Rightarrow> byte list" where
  "fips_temp i w =
     (let k = (i - 1) * 4 in
      if i mod 4 = 0
      then [getSBoxValue (w ! (k + 1)) XOR Rcon ! (i div 4), getSBoxValue (w ! (k + 2)),
            getSBoxValue (w ! (k + 3)), getSBoxValue (w ! k)]
      else [w ! k, w ! (k + 1), w ! (k + 2), w ! (k + 3)])"

definition fips_key_word :: "nat \<Rightarrow> byte list \<Rightarrow> byte list" where
  "fips_key_word i w =
     (let k = (i - 4) * 4; t = fips_temp i w
      in [w ! k XOR t ! 0, w ! (k + 1) XOR t ! 1, w ! (k + 2) XOR t ! 2, w ! (k + 3) XOR t ! 3])"

definition fips_KeyExpansion :: "byte list \<Rightarrow> byte list" where
  "fips_KeyExpansion key = fold (\<lambda>i w. w @ fips_key_word i w) [4..<44] key"

lemma length_fips_key_word [simp]: "length (fips_key_word i w) = 4"
  by (simp add: fips_key_word_def Let_def)

lemma key_expand_step_append:
  assumes w: "length w = 4 * i" and i: "4 \<le> i"
  shows "key_expand_step i (w @ a # b # c # d # r) = (w @ fips_key_word i w) @ r"
proof -
  let ?rk = "w @ a # b # c # d # r"
  have nth: "?rk ! n = w ! n" if "n < 4 * i" for n using that w by (simp add: nth_append)
  have lt: "(i - 1) * 4 < 4 * i" "(i - 1) * 4 + 1 < 4 * i" "(i - 1) * 4 + 2 < 4 * i"
      "(i - 1) * 4 + 3 < 4 * i" "(i - 4) * 4 < 4 * i" "(i - 4) * 4 + 1 < 4 * i"
      "(i - 4) * 4 + 2 < 4 * i" "(i - 4) * 4 + 3 < 4 * i" using i by arith+
  define t where "t = fips_temp i w"
  have temp: "(if i mod Nk = 0
       then let t = SubWord (RotWord [w ! ((i - 1) * 4), w ! ((i - 1) * 4 + 1), w ! ((i - 1) * 4 + 2), w ! ((i - 1) * 4 + 3)])
            in t[0 := t ! 0 XOR Rcon ! (i div Nk)]
       else [w ! ((i - 1) * 4), w ! ((i - 1) * 4 + 1), w ! ((i - 1) * 4 + 2), w ! ((i - 1) * 4 + 3)]) = t"
    by (simp add: t_def fips_temp_def SubWord_def RotWord_def Nk_def Let_def)
  have u: "?rk[i * 4 := x0] = w @ x0 # b # c # d # r"
       "(w @ x0 # b # c # d # r)[i * 4 + 1 := x1] = w @ x0 # x1 # c # d # r"
       "(w @ x0 # x1 # c # d # r)[i * 4 + 2 := x2] = w @ x0 # x1 # x2 # d # r"
       "(w @ x0 # x1 # x2 # d # r)[i * 4 + 3 := x3] = w @ x0 # x1 # x2 # x3 # r" for x0 x1 x2 x3
    using w by (simp_all add: list_update_append numeral_eq_Suc)
  have nth': "(w @ ys) ! n = w ! n" if "n < 4 * i" for n ys using that w by (simp add: nth_append)
  show ?thesis
    unfolding key_expand_step_def Let_def add_0_right nth [OF lt(1)] nth [OF lt(2)] nth [OF lt(3)] nth [OF lt(4)]
      temp [unfolded Let_def] u nth' [OF lt(5)] nth' [OF lt(6)] nth' [OF lt(7)] nth' [OF lt(8)]
    using lt by (simp add: u nth' fips_key_word_def Let_def t_def Nk_def)
qed

abbreviation fips_words :: "nat \<Rightarrow> byte list \<Rightarrow> byte list" where
  "fips_words m key \<equiv> fold (\<lambda>i w. w @ fips_key_word i w) [4..<m] key"

lemma length_fips_words: "4 \<le> m \<Longrightarrow> length (fips_words m key) = length key + 4 * m - 16"
  by (induction m rule: dec_induct) simp_all

lemma drop_4_decomp:
  assumes "n + 4 \<le> length xs"
  obtains a b c d where "drop n xs = a # b # c # d # drop (n + 4) xs"
proof -
  have "drop n xs = xs ! n # xs ! (n + 1) # xs ! (n + 2) # xs ! (n + 3) # drop (n + 4) xs"
    using assms by (simp add: Cons_nth_drop_Suc numeral_eq_Suc)
  then show ?thesis by (rule that)
qed

lemma key_expand_fips:
  assumes "length key = 16" and "4 \<le> m" and "4 * m \<le> length rk"
  shows "fold key_expand_step [4..<m] (key @ drop 16 rk) = fips_words m key @ drop (4 * m) rk"
  using assms(2,3)
proof (induction m rule: dec_induct)
  case base
  then show ?case by simp
next
  case (step m)
  have len: "length (fips_words m key) = 4 * m" using assms(1) step.hyps by (simp add: length_fips_words)
  have "4 * m + 4 \<le> length rk" using step.prems by simp
  then obtain a b c d where dr: "drop (4 * m) rk = a # b # c # d # drop (4 * m + 4) rk"
    by (rule drop_4_decomp)
  have "fold key_expand_step [4..<Suc m] (key @ drop 16 rk)
      = key_expand_step m (fips_words m key @ drop (4 * m) rk)" using step by simp
  also have "\<dots> = (fips_words m key @ fips_key_word m (fips_words m key)) @ drop (4 * m + 4) rk"
    unfolding dr by (rule key_expand_step_append [OF len step.hyps(1)])
  finally show ?case using step.hyps by (simp add: add.commute)
qed

lemma key_copy_16:
  assumes "length Key = 16" "length xs = 16"
  shows "fold (key_copy_step Key) [0..<Nk] (xs @ ys) = Key @ ys"
  using assms by (elim length_16E) (simp add: Nk_def upto4 key_copy_step_def)

lemma KeyExpansion_fips:
  assumes "length rk = 176" and "length Key = 16"
  shows "KeyExpansion rk Key = fips_KeyExpansion Key"
proof -
  have "fold (key_copy_step Key) [0..<Nk] (take 16 rk @ drop 16 rk) = Key @ drop 16 rk"
    using assms by (intro key_copy_16) simp_all
  moreover have "fold key_expand_step [4..<44] (Key @ drop 16 rk) = fips_words 44 Key @ drop (4 * 44) rk"
    by (rule key_expand_fips) (use assms in simp_all)
  moreover have "drop (4 * 44) rk = []" using assms by simp
  moreover have "[Nk..<Nb * (Nr + 1)] = [4..<44]" by (simp only: Nk_def Nb_def Nr_def) simp
  ultimately show ?thesis by (simp only: KeyExpansion_def fips_KeyExpansion_def append_take_drop_id append_Nil2)
qed

section \<open>Properties\<close>



text \<open>
  decrypting a block with the same round keys undoes its encryption, for every context
  and every buffer that holds a block.\<close>

theorem aes_ecb_roundtrip:
  assumes "16 \<le> length buf"
  shows "AES_ECB_decrypt ctx (AES_ECB_encrypt ctx buf) = buf"
  using assms by (simp add: AES_ECB_encrypt_def AES_ECB_decrypt_def InvCipher_Cipher)

theorem aes_ecb_roundtrip_witness:
  "AES_ECB_decrypt \<lparr>RoundKey = replicate 176 3, Iv = []\<rparr>
     (AES_ECB_encrypt \<lparr>RoundKey = replicate 176 3, Iv = []\<rparr> (replicate 20 9)) = replicate 20 9"
  by (rule aes_ecb_roundtrip) simp

text \<open>
  C2: CBC decryption from the same context undoes CBC encryption of any whole number of blocks,
  and both leave the same IV in the context for the next call.\<close>

theorem aes_cbc_roundtrip:
  assumes "length buf = 16 * n" and "AES_CBC_encrypt_buffer ctx buf (16 * n) = (out, ctx')"
  shows "AES_CBC_decrypt_buffer ctx out (16 * n) = (buf, ctx')"
  using assms cbc_decrypt_encrypt_loop [of buf n "RoundKey ctx" "Iv ctx"]
  by (auto simp: AES_CBC_encrypt_buffer_def AES_CBC_decrypt_buffer_def split: prod.splits)

theorem aes_cbc_roundtrip_witness:
  "AES_CBC_decrypt_buffer \<lparr>RoundKey = replicate 176 3, Iv = replicate 16 5\<rparr>
     (fst (AES_CBC_encrypt_buffer \<lparr>RoundKey = replicate 176 3, Iv = replicate 16 5\<rparr> (replicate 48 9) 48)) 48
   = (replicate 48 9,
      snd (AES_CBC_encrypt_buffer \<lparr>RoundKey = replicate 176 3, Iv = replicate 16 5\<rparr> (replicate 48 9) 48))"
  using aes_cbc_roundtrip [of "replicate 48 9" 3 "\<lparr>RoundKey = replicate 176 3, Iv = replicate 16 5\<rparr>"]
  by simp

text \<open>
  C3: counter mode changes exactly the first \<open>len\<close> bytes; byte \<open>i\<close> is exclusive-ored with byte
  \<open>i mod 16\<close> of the cipher of counter block \<open>i div 16\<close>, whose big-endian value is the IV's plus
  \<open>i div 16\<close> modulo \<open>2 ^ 128\<close>; the context is left with the counter after the last block used
  and unchanged round keys.\<close>

theorem aes_ctr_key_stream:
  assumes "length (Iv ctx) = 16" and "len \<le> length buf"
    and "AES_CTR_xcrypt_buffer ctx buf len = (out, ctx')"
  shows "length out = length buf \<and> drop len out = drop len buf
    \<and> (\<forall>i < len. \<exists>blk. length blk = 16 \<and> be_value blk = (be_value (Iv ctx) + i div 16) mod 2 ^ 128
            \<and> out ! i = buf ! i XOR Cipher blk (RoundKey ctx) ! (i mod 16))
    \<and> RoundKey ctx' = RoundKey ctx
    \<and> be_value (Iv ctx') = (be_value (Iv ctx) + (len + 15) div 16) mod 2 ^ 128"
proof -
  from assms have out: "out = map (\<lambda>i. buf ! i XOR key_stream ctx i) [0..<len] @ drop len buf"
    and ctx': "ctx' = ctx\<lparr>Iv := counter_block ctx ((len + 15) div 16)\<rparr>"
    by (simp_all add: AES_CTR_spec)
  have "out ! i = buf ! i XOR Cipher (counter_block ctx (i div 16)) (RoundKey ctx) ! (i mod 16)"
    if "i < len" for i using that by (simp add: out nth_append key_stream_def)
  then have stream: "\<forall>i < len. \<exists>blk. length blk = 16
      \<and> be_value blk = (be_value (Iv ctx) + i div 16) mod 2 ^ 128
      \<and> out ! i = buf ! i XOR Cipher blk (RoundKey ctx) ! (i mod 16)"
    using assms(1) be_value_counter_block [OF assms(1)] length_counter_block [of ctx] by metis
  have "be_value (Iv ctx') = (be_value (Iv ctx) + (len + 15) div 16) mod 2 ^ 128"
    using be_value_counter_block [OF assms(1), of "(len + 15) div 16"] by (simp add: ctx')
  with stream show ?thesis using assms(2) by (simp add: out ctx')
qed

theorem aes_ctr_key_stream_witness:
  "length (fst (AES_CTR_xcrypt_buffer \<lparr>RoundKey = replicate 176 3, Iv = replicate 16 255\<rparr> (replicate 40 9) 33)) = 40
   \<and> be_value (Iv (snd (AES_CTR_xcrypt_buffer \<lparr>RoundKey = replicate 176 3, Iv = replicate 16 255\<rparr> (replicate 40 9) 33)))
     = (be_value (replicate 16 255) + 3) mod 2 ^ 128"
  using aes_ctr_key_stream [of "\<lparr>RoundKey = replicate 176 3, Iv = replicate 16 255\<rparr>" 33 "replicate 40 9"]
  by (cases "AES_CTR_xcrypt_buffer \<lparr>RoundKey = replicate 176 3, Iv = replicate 16 255\<rparr> (replicate 40 9) 33") simp

text \<open>
  Counter mode is its own inverse: applying it again from the same context restores the
  buffer.\<close>

theorem aes_ctr_involution:
  assumes "length (Iv ctx) = 16" and "len \<le> length buf"
  shows "fst (AES_CTR_xcrypt_buffer ctx (fst (AES_CTR_xcrypt_buffer ctx buf len)) len) = buf"
  using assms by (rule AES_CTR_twice)

theorem aes_ctr_involution_witness:
  "fst (AES_CTR_xcrypt_buffer \<lparr>RoundKey = replicate 176 3, Iv = replicate 16 255\<rparr>
     (fst (AES_CTR_xcrypt_buffer \<lparr>RoundKey = replicate 176 3, Iv = replicate 16 255\<rparr> (replicate 40 9) 33)) 33)
   = replicate 40 9"
  by (rule aes_ctr_involution) simp_all

end
