(* ===== verification/C_Library.thy ===== *)
theory C_Library
  imports Rojoc_Prelude "HOL-Library.List_Lexorder"
begin

unbundle bit_operations_syntax

text \<open>
  The C library subset of \<^verbatim>\<open>lib/lib.c\<close>. The block functions work on the explicit memory, since
  overlap of source and destination matters. A \<open>const char*\<close> is modelled by the bytes of its
  object from the pointer to the end of the object; a function that would read or write past
  the end of the object returns \<open>None\<close>.
\<close>

section \<open>Memory blocks\<close>

primrec memcpy_loop :: "nat \<Rightarrow> addr \<Rightarrow> addr \<Rightarrow> mem \<Rightarrow> mem" where
  "memcpy_loop 0 d s m = m"
| "memcpy_loop (Suc n) d s m = memcpy_loop n (d + 1) (s + 1) (m(d := m s))"

definition memcpy :: "addr \<Rightarrow> addr \<Rightarrow> nat \<Rightarrow> mem \<Rightarrow> mem" where
  "memcpy dst src n m = memcpy_loop n dst src m"

primrec memmove_down :: "nat \<Rightarrow> addr \<Rightarrow> addr \<Rightarrow> mem \<Rightarrow> mem" where
  "memmove_down 0 d s m = m"
| "memmove_down (Suc n) d s m = memmove_down n (d - 1) (s - 1) (m(d - 1 := m (s - 1)))"

primrec memmove_up :: "nat \<Rightarrow> addr \<Rightarrow> addr \<Rightarrow> mem \<Rightarrow> mem" where
  "memmove_up 0 d s m = m"
| "memmove_up (Suc n) d s m = memmove_up n (d + 1) (s + 1) (m(d := m s))"

definition memmove :: "addr \<Rightarrow> addr \<Rightarrow> nat \<Rightarrow> mem \<Rightarrow> mem" where
  "memmove dst src n m =
     (if src < dst \<and> src + of_nat n > dst
      then memmove_down n (dst + of_nat n) (src + of_nat n) m
      else memmove_up n dst src m)"

primrec memset_loop :: "nat \<Rightarrow> addr \<Rightarrow> byte \<Rightarrow> mem \<Rightarrow> mem" where
  "memset_loop 0 p c m = m"
| "memset_loop (Suc n) p c m = memset_loop n (p + 1) c (m(p := c))"

definition memset :: "addr \<Rightarrow> uint32 \<Rightarrow> nat \<Rightarrow> mem \<Rightarrow> mem" where
  "memset v c n m = memset_loop n v (ucast c) m"

section \<open>Strings\<close>

fun strlen :: "byte list \<Rightarrow> nat option" where
  "strlen [] = None"
| "strlen (c # s) = (if c \<noteq> 0 then map_option Suc (strlen s) else Some 0)"

fun strnlen :: "byte list \<Rightarrow> nat \<Rightarrow> nat option" where
  "strnlen s 0 = Some 0"
| "strnlen [] (Suc maxlen) = None"
| "strnlen (c # s) (Suc maxlen) = (if c \<noteq> 0 then map_option Suc (strnlen s maxlen) else Some 0)"

fun strcpy :: "byte list \<Rightarrow> byte list \<Rightarrow> byte list option" where
  "strcpy (d # dst) (c # src) =
     (if c \<noteq> 0 then map_option ((#) c) (strcpy dst src) else Some (c # dst))"
| "strcpy _ _ = None"

fun strcmp :: "byte list \<Rightarrow> byte list \<Rightarrow> int option" where
  "strcmp (a # as) (b # bs) =
     (if a \<noteq> 0 \<and> b \<noteq> 0 \<and> a = b then strcmp as bs
      else Some (of_bool (a > b) - of_bool (a < b)))"
| "strcmp _ _ = None"

text \<open>
  \<open>strchr\<close> returns the offset of the character found (\<open>Some (Some k)\<close>) or a null pointer
  (\<open>Some None\<close>).
\<close>

fun strchr :: "byte list \<Rightarrow> uint32 \<Rightarrow> nat option option" where
  "strchr [] c = None"
| "strchr (x # s) c =
     (if x \<noteq> 0 \<and> x \<noteq> ucast c then map_option (map_option Suc) (strchr s c)
      else if x = ucast c then Some (Some 0) else Some None)"

section \<open>Pseudo-random numbers\<close>

record rand_state =
  rand_seed_set :: bool
  rand_seed :: uint32

definition RAND_MAX :: uint32 where "RAND_MAX = 0x7FFFFFFF"

definition srand :: "uint32 \<Rightarrow> rand_state \<Rightarrow> rand_state" where
  "srand seed st = st\<lparr>rand_seed := seed, rand_seed_set := True\<rparr>"

text \<open>
  \<open>rand\<close> takes the seed that the first call obtains: \<open>get_entropy_value()\<close> in the kernel build
  and \<open>user_seed\<close> of the results of the system calls and the cycle counter in the user build.
\<close>

definition user_seed :: "uint32 \<Rightarrow> uint64 \<Rightarrow> uint32 \<Rightarrow> uint32" where
  "user_seed getrandom cycle_counter pid =
     (if getrandom = 0 then ucast cycle_counter XOR push_bit 16 pid else getrandom)"

definition rand :: "uint32 \<Rightarrow> rand_state \<Rightarrow> uint32 \<times> rand_state" where
  "rand seed st =
     (let st = (if \<not> rand_seed_set st then srand seed st else st);
          st = st\<lparr>rand_seed := rand_seed st * 1664525 + 1013904223\<rparr>
      in (rand_seed st AND RAND_MAX, st))"

section \<open>Decimal strings\<close>

definition digit_of :: "byte \<Rightarrow> uint32 option" where
  "digit_of c = (if 48 \<le> c \<and> c \<le> 57 then Some (ucast (c - 48)) else None)"

text \<open>
  Both functions return the value of the C function and, for \<open>string_to_char\<close>, the final value
  of \<open>*dest\<close>, which is also written when the string is rejected.
\<close>

fun string_to_char_loop :: "byte list \<Rightarrow> uint32 \<Rightarrow> (int \<times> uint32) option" where
  "string_to_char_loop [] dest = None"
| "string_to_char_loop (c # s) dest =
     (if c = 0 then Some (0, dest)
      else case digit_of c of
             None \<Rightarrow> Some (- 1, dest)
           | Some digit \<Rightarrow> string_to_char_loop s (dest * 10 + digit))"

definition string_to_char :: "byte list \<Rightarrow> uint32 \<Rightarrow> (int \<times> uint32) option" where
  "string_to_char str dest =
     (case str of
        [] \<Rightarrow> None
      | c # _ \<Rightarrow> if c = 0 then Some (- 1, dest) else string_to_char_loop str 0)"

fun atoi_loop :: "byte list \<Rightarrow> uint32 \<Rightarrow> int option" where
  "atoi_loop [] n = None"
| "atoi_loop (c # s) n =
     (if c = 0 then Some 0
      else case digit_of c of
             None \<Rightarrow> Some (- 1)
           | Some digit \<Rightarrow> atoi_loop s (n * 10 + digit))"

definition atoi :: "byte list \<Rightarrow> int option" where
  "atoi str =
     (case str of [] \<Rightarrow> None | c # _ \<Rightarrow> if c = 0 then Some (- 1) else atoi_loop str 0)"

section \<open>Lemmas on memory blocks\<close>

lemma memcpy_loop_up: "memcpy_loop n d s m = memmove_up n d s m"
  by (induction n arbitrary: d s m) auto

lemma rgn_Suc_cases: "rgn a (Suc n) = insert a (rgn (a + 1) n)"
  by (auto simp: rgn_Suc)

lemma memset_eq_store: "memset v c n m = store_bytes (replicate n (ucast c)) v m"
proof -
  have "memset_loop n p b m = store_bytes (replicate n b) p m" for p b
    by (induction n arbitrary: p m) auto
  then show ?thesis by (simp add: memset_def)
qed

lemma load_bytes_Suc: "load_bytes m a (Suc n) = m a # load_bytes m (a + 1) n"
  by (simp add: load_bytes_def upt_conv_Cons map_Suc_upt [symmetric] o_def algebra_simps del: upt_Suc)

lemma load_bytes_snoc: "load_bytes m a (Suc n) = load_bytes m a n @ [m (a + of_nat n)]"
  by (simp add: load_bytes_def)

text \<open>
  Copying upwards is right when no byte is written before it is read: the destination does
  not lie strictly inside the source.
\<close>

lemma memmove_up_eq:
  assumes "\<And>i. i < n \<Longrightarrow> d \<notin> rgn (s + 1) i" and "n < 2 ^ 64"
  shows "memmove_up n d s m = store_bytes (load_bytes m s n) d m"
  using assms
proof (induction n arbitrary: d s m)
  case 0
  then show ?case by (simp add: load_bytes_def)
next
  case (Suc n)
  have "d \<notin> rgn (s + 1) n" using Suc.prems(1) by simp
  then have "load_bytes (m(d := m s)) (s + 1) n = load_bytes m (s + 1) n"
    using Suc.prems(2) by (intro load_bytes_cong) auto
  moreover have "d + 1 \<notin> rgn (s + 1 + 1) i" if "i < n" for i
    using Suc.prems(1) [of i] that by (simp add: rgn_def diff_diff_eq)
  ultimately show ?case using Suc by (simp add: load_bytes_Suc)
qed

lemma memmove_down_eq:
  assumes "\<And>i. i < n \<Longrightarrow> d + of_nat i \<notin> rgn s i" and "n < 2 ^ 64"
  shows "memmove_down n (d + of_nat n) (s + of_nat n) m = store_bytes (load_bytes m s n) d m"
  using assms
proof (induction n arbitrary: m)
  case 0
  then show ?case by (simp add: load_bytes_def)
next
  case (Suc n)
  let ?d = "d + of_nat n" and ?v = "m (s + of_nat n)"
  have "load_bytes (m(?d := ?v)) s n = load_bytes m s n"
    using Suc.prems by (intro load_bytes_cong) auto
  then have "memmove_down (Suc n) (d + of_nat (Suc n)) (s + of_nat (Suc n)) m
      = store_bytes (load_bytes m s n) d (m(?d := ?v))"
    using Suc by (simp add: algebra_simps)
  also have "\<dots> = store_bytes (load_bytes m s n @ [?v]) d m"
  proof
    fix x
    have "?d \<notin> rgn d n" using Suc.prems(2) by (simp add: rgn_def unat_of_nat)
    then show "store_bytes (load_bytes m s n) d (m(?d := ?v)) x
        = store_bytes (load_bytes m s n @ [?v]) d m x"
      using Suc.prems(2) by (auto simp: store_bytes_append store_bytes_apply)
  qed
  finally show ?case by (simp add: load_bytes_snoc)
qed


lemma memmove_eq_store:
  assumes "unat src + n < 2 ^ 64" and "unat dst + n < 2 ^ 64"
  shows "memmove dst src n m = store_bytes (load_bytes m src n) dst m"
proof (cases "src < dst \<and> src + of_nat n > dst")
  case True
  have "dst + of_nat i \<notin> rgn src i" if "i < n" for i
  proof -
    have "unat (dst + of_nat i) = unat dst + i"
      using assms that by (simp add: unat_word_ariths unat_of_nat)
    then show ?thesis using True assms that by (simp add: rgn_nat word_less_nat_alt)
  qed
  then show ?thesis using True assms by (simp add: memmove_def memmove_down_eq)
next
  case False
  have "dst \<notin> rgn (src + 1) i" if "i < n" for i
  proof -
    have "unat (src + 1) = unat src + 1" and "unat (src + of_nat n) = unat src + n"
      using assms that by (simp_all add: unat_word_ariths unat_of_nat)
    then show ?thesis using False assms that
      by (auto simp: rgn_nat word_less_nat_alt not_less)
  qed
  then have "memmove_up n dst src m = store_bytes (load_bytes m src n) dst m"
    using assms by (intro memmove_up_eq) auto
  then show ?thesis using False by (auto simp: memmove_def)
qed


lemma memcpy_eq_store:
  assumes "rgn dst n \<inter> rgn src n = {}" and "n < 2 ^ 64"
  shows "memcpy dst src n m = store_bytes (load_bytes m src n) dst m"
proof -
  have "dst \<notin> rgn (src + 1) i" if "i < n" for i
  proof
    assume "dst \<in> rgn (src + 1) i"
    then have "dst \<in> rgn src (Suc i)" by (simp add: rgn_Suc_cases)
    then have "dst \<in> rgn src n" using that by (simp add: rgn_def)
    moreover have "dst \<in> rgn dst n" using that by (simp add: rgn_def)
    ultimately show False using assms(1) by blast
  qed
  then show ?thesis using assms(2) by (simp add: memcpy_def memcpy_loop_up memmove_up_eq)
qed

section \<open>Lemmas on strings\<close>

text \<open>\<open>cstr s\<close> is the text of the C string that starts at \<open>s\<close>: the bytes before the first NUL.\<close>

definition cstr :: "byte list \<Rightarrow> byte list" where
  "cstr s = takeWhile (\<lambda>c. c \<noteq> 0) s"

lemma cstr_simps [simp]:
  "cstr [] = []" "cstr (c # s) = (if c = 0 then [] else c # cstr s)"
  by (simp_all add: cstr_def)

lemma cstr_no_nul: "0 \<notin> set (cstr s)"
  by (induction s) auto

lemma cstr_append_nul: "0 \<notin> set t \<Longrightarrow> cstr (t @ 0 # r) = t"
  by (induction t) auto

lemma strlen_cstr: "0 \<in> set s \<Longrightarrow> strlen s = Some (length (cstr s))"
  by (induction s) auto

lemma strnlen_cstr: "0 \<in> set s \<or> n \<le> length s \<Longrightarrow> strnlen s n = Some (min n (length (cstr s)))"
  by (induction s n rule: strnlen.induct) auto

lemma strcpy_cstr:
  "0 \<in> set src \<Longrightarrow> length (cstr src) < length dst \<Longrightarrow>
   strcpy dst src = Some (cstr src @ 0 # drop (Suc (length (cstr src))) dst)"
  by (induction dst src rule: strcpy.induct) auto

lemma strcpy_overrun:
  "0 \<in> set src \<Longrightarrow> length dst \<le> length (cstr src) \<Longrightarrow> strcpy dst src = None"
  by (induction dst src rule: strcpy.induct) (auto split: if_splits)

lemma strchr_cstr:
  "0 \<in> set s \<Longrightarrow> ucast c \<noteq> (0 :: byte) \<Longrightarrow>
   strchr s c = Some (if ucast c \<in> set (cstr s)
                      then Some (length (takeWhile (\<lambda>x. x \<noteq> ucast c) (cstr s))) else None)"
  by (induction s c rule: strchr.induct) auto

lemma strcmp_cstr:
  assumes "0 \<in> set a" and "0 \<in> set b"
  shows "strcmp a b = Some (if cstr a = cstr b then 0 else if cstr a < cstr b then - 1 else 1)"
  using assms
proof (induction a b rule: strcmp.induct)
  case (1 a as b bs)
  have pos: "x \<noteq> 0 \<Longrightarrow> 0 < x" for x :: byte by (simp add: word_neq_0_conv)
  show ?case using 1 by (auto simp: pos)
qed auto

lemma cstr_append: "0 \<in> set s \<Longrightarrow> cstr (s @ r) = cstr s"
  by (induction s) auto

text \<open>The number that a list of decimal digits denotes.\<close>

definition is_digit :: "byte \<Rightarrow> bool" where
  "is_digit c \<longleftrightarrow> 48 \<le> c \<and> c \<le> 57"

definition decimal :: "byte list \<Rightarrow> nat" where
  "decimal ds = foldl (\<lambda>n c. n * 10 + (unat c - 48)) 0 ds"

lemma decimal_snoc: "decimal (ds @ [c]) = decimal ds * 10 + (unat c - 48)"
  by (simp add: decimal_def)

lemma digit_of_is_digit:
  "digit_of c = (if is_digit c then Some (of_nat (unat c - 48)) else None)"
proof -
  have "ucast (c - 48) = (of_nat (unat c - 48) :: uint32)" if "48 \<le> c"
  proof -
    have "unat (c - 48) = unat c - 48" using that by (simp add: unat_sub)
    then show ?thesis by (metis of_nat_unat)
  qed
  then show ?thesis by (auto simp: digit_of_def is_digit_def)
qed

lemma is_digit_nonzero: "is_digit c \<Longrightarrow> c \<noteq> 0"
  by (auto simp: is_digit_def)

lemma string_to_char_loop_spec:
  "0 \<in> set s \<Longrightarrow> list_all is_digit (cstr s) \<Longrightarrow>
   string_to_char_loop s (of_nat k) =
     Some (0, of_nat (foldl (\<lambda>n c. n * 10 + (unat c - 48)) k (cstr s)))"
proof (induction s arbitrary: k)
  case Nil
  then show ?case by simp
next
  case (Cons c s)
  then show ?case
    using Cons.IH [of "k * 10 + (unat c - 48)"]
    by (cases "c = 0") (auto simp: digit_of_is_digit algebra_simps)
qed

lemma string_to_char_loop_reject:
  "0 \<in> set s \<Longrightarrow> \<not> list_all is_digit (cstr s) \<Longrightarrow>
   \<exists>d'. string_to_char_loop s d = Some (- 1, d')"
  by (induction s arbitrary: d) (auto simp: digit_of_is_digit)


text \<open>
  \<open>atoi\<close> accumulates the number in a local variable and then returns the constant 0: its result
  does not depend on which decimal string it is given.
\<close>

lemma atoi_returns_zero:
  assumes "0 \<in> set s" and "cstr s \<noteq> []" and "list_all is_digit (cstr s)"
  shows "atoi s = Some 0"
proof -
  have "0 \<in> set s \<Longrightarrow> list_all is_digit (cstr s) \<Longrightarrow> atoi_loop s n = Some 0" for n
    by (induction s arbitrary: n) (auto simp: digit_of_is_digit split: if_splits)
  with assms show ?thesis by (cases s) (auto simp: atoi_def)
qed

section \<open>Properties\<close>

text \<open>
  C4: \<open>memmove\<close> copies correctly whatever the overlap of the two blocks: the destination then holds
  the bytes the source held before the call, and no byte outside the destination changes.
\<close>

theorem memmove_correct:
  assumes "unat src + n < 2 ^ 64" and "unat dst + n < 2 ^ 64"
  shows "load_bytes (memmove dst src n m) dst n = load_bytes m src n \<and>
         (\<forall>x. x \<notin> rgn dst n \<longrightarrow> memmove dst src n m x = m x)"
  using load_store_bytes [of "load_bytes m src n" dst m] assms
  by (auto simp: memmove_eq_store store_bytes_apply)

theorem memmove_correct_witness:
  "load_bytes (memmove 4097 4096 16 ucast) 4097 16 = load_bytes ucast 4096 16 \<and>
   memmove 4097 4096 16 ucast 4113 = 17"
proof -
  have "(4113 :: addr) \<notin> rgn 4097 16" by (simp add: rgn_def)
  moreover have "(ucast (4113 :: addr) :: byte) = 17" by simp
  ultimately show ?thesis using memmove_correct [of 4096 16 4097 ucast] by simp
qed

text \<open>
  C5: \<open>strcmp\<close> decides the lexicographic order of the texts of two NUL-terminated strings, with the
  characters compared as unsigned bytes: 0 for equal texts, -1 and 1 for a smaller and a
  greater first argument. It never reads past the terminators.
\<close>

theorem strcmp_lexicographic:
  assumes "0 \<in> set a" and "0 \<in> set b"
  shows "strcmp a b = Some (if cstr a = cstr b then 0 else if cstr a < cstr b then - 1 else 1)"
  using assms by (rule strcmp_cstr)

theorem strcmp_lexicographic_witness:
  "strcmp [108, 115, 0, 7] [108, 115, 47, 0] = Some (- 1)"
  using strcmp_lexicographic [of "[108, 115, 0, 7]" "[108, 115, 47, 0]"] by simp

text \<open>
  \<open>string_to_char\<close> parses exactly the nonempty decimal strings. On one it returns 0 and leaves
  the denoted number, modulo the 32-bit \<open>int\<close>, in \<open>*dest\<close>; on every other NUL-terminated string
  it returns -1.
\<close>

theorem string_to_char_parses_decimal:
  assumes "0 \<in> set s"
  shows "\<exists>d. string_to_char s dest = Some (if cstr s \<noteq> [] \<and> list_all is_digit (cstr s)
              then (0, of_nat (decimal (cstr s))) else (- 1, d))"
proof (cases s)
  case Nil
  then show ?thesis using assms by simp
next
  case (Cons c r)
  show ?thesis
    using assms string_to_char_loop_spec [of s 0] string_to_char_loop_reject [of s 0] Cons
    by (auto simp: string_to_char_def decimal_def)
qed

theorem string_to_char_parses_decimal_witness:
  "string_to_char [52, 48, 57, 54, 0] 7 = Some (0, 4096)"
  using string_to_char_parses_decimal [of "[52, 48, 57, 54, 0]" 7]
  by (simp add: is_digit_def decimal_def)

end
