(* ===== verification/Paths.thy ===== *)
theory Paths
  imports C_Library
begin

text \<open>
  Path handling: \<open>join_path\<close> of \<^verbatim>\<open>lib/lib.c\<close>, which resolves a path against a working directory, and
  \<open>split_path\<close>, \<open>copy_to_buffer\<close> and \<open>equal_to_buffer\<close> of \<^verbatim>\<open>lib/string.c\<close>. A NUL-terminated argument is
  given by its text, a \<open>string\<close> (pointer and length) by its bytes, and a \<open>char*\<close> buffer by the bytes
  up to the end of its object; running out of the object is \<open>None\<close>.
\<close>

abbreviation slash :: byte where "slash \<equiv> 47"
abbreviation dot :: byte where "dot \<equiv> 46"

section \<open>Strings with a length\<close>

primrec last_slash :: "nat \<Rightarrow> byte list \<Rightarrow> nat option \<Rightarrow> nat option" where
  "last_slash i [] found = found"
| "last_slash i (c # path) found = last_slash (Suc i) path (if c = slash then Some i else found)"

definition split_path :: "byte list \<Rightarrow> (byte list \<times> byte list) option" where
  "split_path path =
     (case last_slash 0 path None of
        None \<Rightarrow> None
      | Some i \<Rightarrow> Some (take (if i = 0 then 1 else i) path, drop (Suc i) path))"

fun copy_to_buffer :: "byte list \<Rightarrow> byte list \<Rightarrow> byte list option" where
  "copy_to_buffer [] str = None"
| "copy_to_buffer (b # buffer) [] = Some (0 # buffer)"
| "copy_to_buffer (b # buffer) (c # str) = map_option ((#) c) (copy_to_buffer buffer str)"

fun equal_to_buffer :: "byte list \<Rightarrow> byte list \<Rightarrow> bool option" where
  "equal_to_buffer [] str = None"
| "equal_to_buffer (b # buffer) [] = Some (b = 0)"
| "equal_to_buffer (b # buffer) (c # str) =
     (if b \<noteq> c then Some False else equal_to_buffer buffer str)"

section \<open>Joining paths\<close>

definition TEMP_SIZE :: nat where "TEMP_SIZE = 512"

text \<open>The absolute case copies the path after its first slash, run of slashes by run.\<close>

function copy_absolute :: "byte list \<Rightarrow> byte list \<Rightarrow> byte list" where
  "copy_absolute [] d = d"
| "copy_absolute (c # src) d =
     (if c = slash
      then let src = dropWhile (\<lambda>x. x = slash) src
           in if src = [] then d else copy_absolute src (d @ [slash])
      else copy_absolute src (d @ [c]))"
  by pat_completeness auto
termination
  by (relation "measure (\<lambda>(src, d). length src)") (auto simp: le_imp_less_Suc length_dropWhile_le)

definition drop_trailing :: "byte list \<Rightarrow> byte list" where
  "drop_trailing d = (if length d > 1 \<and> last d = slash then butlast d else d)"

function drop_component :: "byte list \<Rightarrow> byte list" where
  "drop_component t = (if length t > 1 \<and> last t \<noteq> slash then drop_component (butlast t) else t)"
  by pat_completeness auto
termination by (relation "measure length") auto

declare drop_component.simps [simp del]

definition go_up :: "byte list \<Rightarrow> byte list" where
  "go_up t = (if length t > 1 then drop_component (if last t = slash then butlast t else t) else t)"

definition add_component :: "byte list \<Rightarrow> byte list \<Rightarrow> byte list" where
  "add_component cname t =
     (let t = (if t = [] \<or> last t \<noteq> slash
               then if length t < TEMP_SIZE - 1 then t @ [slash] else t else t)
      in t @ take (TEMP_SIZE - 1 - length t) cname)"

lemma component_shorter:
  assumes "dropWhile (\<lambda>x. x = slash) src = c # s"
  shows "c \<noteq> slash" and "length (dropWhile (\<lambda>x. x \<noteq> slash) s) < length src"
proof -
  show "c \<noteq> slash" using hd_dropWhile [of "\<lambda>x. x = slash" src] assms by simp
  have "length (c # s) \<le> length src" unfolding assms [symmetric] by (rule length_dropWhile_le)
  moreover have "length (dropWhile (\<lambda>x. x \<noteq> slash) s) \<le> length s" by (rule length_dropWhile_le)
  ultimately show "length (dropWhile (\<lambda>x. x \<noteq> slash) s) < length src" by simp
qed

definition join_component :: "byte list \<Rightarrow> byte list \<Rightarrow> byte list" where
  "join_component cname t =
     (if cname = [dot] then t
      else if cname = [dot, dot] then go_up t
      else if cname \<noteq> [] then add_component cname t else t)"

function join_loop :: "byte list \<Rightarrow> byte list \<Rightarrow> byte list" where
  "join_loop src t =
     (case dropWhile (\<lambda>x. x = slash) src of
        [] \<Rightarrow> t
      | c # s \<Rightarrow>
          join_loop (dropWhile (\<lambda>x. x \<noteq> slash) s)
            (join_component (c # takeWhile (\<lambda>x. x \<noteq> slash) s) t))"
  by pat_completeness auto
termination
  by (relation "measure (\<lambda>(src, t). length src)") (auto dest: component_shorter(2))

declare join_loop.simps [simp del]

definition join_path :: "byte list \<Rightarrow> byte list \<Rightarrow> byte list" where
  "join_path abs_path path =
     (if path \<noteq> [] \<and> hd path = slash
      then drop_trailing (copy_absolute (tl path) [slash])
      else let d = drop_trailing ((if abs_path = [] \<or> hd abs_path \<noteq> slash then [slash] else []) @ abs_path);
               t = join_loop path (take (TEMP_SIZE - 1) d)
           in drop_trailing (if t = [] then [slash] else t))"

section \<open>Splitting\<close>

lemma last_slash_append:
  "last_slash i (p @ q) found = last_slash (i + length p) q (last_slash i p found)"
  by (induction p arbitrary: i found) auto

lemma last_slash_none: "slash \<notin> set c \<Longrightarrow> last_slash i c found = found"
  by (induction c arbitrary: i found) auto

lemma split_path_append:
  assumes "slash \<notin> set c"
  shows "split_path (p @ slash # c) = Some (if p = [] then [slash] else p, c)"
  using assms by (simp add: split_path_def last_slash_append last_slash_none)

lemma split_path_none: "slash \<notin> set c \<Longrightarrow> split_path c = None"
  by (simp add: split_path_def last_slash_none)

lemma copy_to_buffer_spec:
  "length str < length buffer \<Longrightarrow>
   copy_to_buffer buffer str = Some (str @ 0 # drop (Suc (length str)) buffer)"
  by (induction buffer str rule: copy_to_buffer.induct) auto

lemma equal_to_buffer_spec:
  "0 \<in> set buffer \<Longrightarrow> 0 \<notin> set str \<Longrightarrow> equal_to_buffer buffer str = Some (cstr buffer = str)"
  by (induction buffer str rule: equal_to_buffer.induct) auto


section \<open>Paths as lists of components\<close>

text \<open>
  The reference semantics of a path: its components, and how a relative path moves through the
  directory tree. \<open>render\<close> writes a list of components as an absolute path.
\<close>

function components :: "byte list \<Rightarrow> byte list list" where
  "components src =
     (case dropWhile (\<lambda>x. x = slash) src of
        [] \<Rightarrow> []
      | c # s \<Rightarrow> (c # takeWhile (\<lambda>x. x \<noteq> slash) s) # components (dropWhile (\<lambda>x. x \<noteq> slash) s))"
  by pat_completeness auto
termination
  by (relation "measure length") (auto dest: component_shorter(2))

declare components.simps [simp del]

definition move :: "byte list list \<Rightarrow> byte list \<Rightarrow> byte list list" where
  "move cs x = (if x = [dot] then cs else if x = [dot, dot] then butlast cs else cs @ [x])"

definition resolve :: "byte list list \<Rightarrow> byte list list \<Rightarrow> byte list list" where
  "resolve cs xs = foldl move cs xs"

definition render :: "byte list list \<Rightarrow> byte list" where
  "render cs = (if cs = [] then [slash] else concat (map ((#) slash) cs))"

definition clean :: "byte list list \<Rightarrow> bool" where
  "clean cs \<longleftrightarrow> (\<forall>c\<in>set cs. c \<noteq> [] \<and> slash \<notin> set c)"

text \<open>After \<open>..\<close> the working buffer keeps a trailing slash until the next component.\<close>

definition represents :: "byte list \<Rightarrow> byte list list \<Rightarrow> bool" where
  "represents t cs \<longleftrightarrow> t = render cs \<or> (cs \<noteq> [] \<and> t = render cs @ [slash])"

lemma render_snoc: "render (cs @ [c]) = (if cs = [] then [] else render cs) @ slash # c"
  by (simp add: render_def)

lemma drop_component_strip: "slash \<notin> set c \<Longrightarrow> drop_component (q @ slash # c) = q @ [slash]"
proof (induction c rule: rev_induct)
  case Nil
  then show ?case by (subst drop_component.simps) simp
next
  case (snoc x c)
  have "drop_component (q @ slash # c @ [x]) = drop_component (q @ slash # c)"
    using snoc.prems by (subst drop_component.simps) (auto simp: butlast_append)
  then show ?case using snoc by simp
qed

lemma last_render:
  assumes "clean cs" and "cs \<noteq> []"
  shows "last (render cs) \<noteq> slash" and "length (render cs) > 1"
proof -
  obtain ds c where cs: "cs = ds @ [c]" using assms(2) by (metis rev_exhaust)
  then have c: "c \<noteq> []" "slash \<notin> set c" using assms(1) by (auto simp: clean_def)
  then show "last (render cs) \<noteq> slash" unfolding cs render_snoc
    by (metis last_append last_ConsR last_in_set list.distinct(1))
  show "length (render cs) > 1" unfolding cs render_snoc using c(1) by (cases c) auto
qed

lemma go_up_represents:
  assumes "clean cs" and "represents t cs"
  shows "represents (go_up t) (butlast cs)"
proof (cases cs rule: rev_cases)
  case Nil
  then show ?thesis using assms(2) by (simp add: represents_def go_up_def render_def)
next
  case (snoc ds c)
  then have c: "c \<noteq> []" "slash \<notin> set c" using assms(1) by (auto simp: clean_def)
  have "(if last t = slash then butlast t else t) = render cs" "length t > 1"
    using assms(2) last_render [OF assms(1)] snoc by (auto simp: represents_def)
  then have "go_up t = drop_component (render cs)" by (simp add: go_up_def)
  also have "\<dots> = (if ds = [] then [] else render ds) @ [slash]"
    using drop_component_strip [OF c(2)] by (simp add: snoc render_snoc)
  finally show ?thesis using snoc by (auto simp: represents_def render_def)
qed

lemma add_component_represents:
  assumes "clean cs" and "represents t cs" and "length (render cs) + 1 + length c \<le> TEMP_SIZE - 1"
  shows "add_component c t = render (cs @ [c])"
proof (cases "cs = []")
  case True
  then show ?thesis
    using assms(2,3) by (simp add: represents_def add_component_def render_def Let_def)
next
  case False
  then have "(if t = [] \<or> last t \<noteq> slash then if length t < TEMP_SIZE - 1 then t @ [slash] else t else t)
      = render cs @ [slash]"
    using assms last_render [OF assms(1) False] by (auto simp: represents_def)
  then show ?thesis using assms(3) False by (simp add: add_component_def Let_def render_snoc)
qed

text \<open>The room that the rest \<open>src\<close> of the path may still need.\<close>

definition need :: "byte list \<Rightarrow> nat" where
  "need src = length src + (if src \<noteq> [] \<and> hd src \<noteq> slash then 1 else 0)"

lemma need_step:
  assumes "dropWhile (\<lambda>x. x = slash) src = c # s"
  shows "1 + length (c # takeWhile (\<lambda>x. x \<noteq> slash) s) + need (dropWhile (\<lambda>x. x \<noteq> slash) s) \<le> need src"
proof -
  let ?r = "dropWhile (\<lambda>x. x \<noteq> slash) s"
  have "need ?r = length ?r" using hd_dropWhile [of "\<lambda>x. x \<noteq> slash" s] by (auto simp: need_def)
  moreover have "length (takeWhile (\<lambda>x. x \<noteq> slash) s) + length ?r = length s"
    by (metis length_append takeWhile_dropWhile_id)
  moreover have "1 + length (c # s) \<le> need src"
  proof (cases src)
    case (Cons x r)
    have "length (dropWhile (\<lambda>x. x = slash) r) \<le> length r" by (rule length_dropWhile_le)
    then show ?thesis using assms Cons by (cases "x = slash") (auto simp: need_def)
  qed (use assms in simp)
  ultimately show ?thesis by simp
qed

lemma length_render_move:
  "length (render (move cs x)) \<le> length (render cs) + 1 + length x"
proof -
  have "length (render (butlast cs)) \<le> length (render cs)"
  proof (cases cs rule: rev_cases)
    case (snoc ds c)
    then show ?thesis by (simp add: render_snoc) (simp add: render_def)
  qed simp
  then show ?thesis by (auto simp: move_def render_snoc)
qed

lemma join_loop_represents:
  assumes "clean cs" and "represents t cs" and "length (render cs) + need src \<le> TEMP_SIZE - 1"
  shows "represents (join_loop src t) (resolve cs (components src)) \<and> clean (resolve cs (components src))"
  using assms
proof (induction src t arbitrary: cs rule: join_loop.induct)
  case (1 src t)
  show ?case
  proof (cases "dropWhile (\<lambda>x. x = slash) src")
    case Nil
    have "join_loop src t = t" by (subst join_loop.simps) (simp only: Nil list.case)
    moreover have "components src = []" by (subst components.simps) (simp only: Nil list.case)
    ultimately show ?thesis using "1.prems" by (simp add: resolve_def)
  next
    case (Cons c s)
    define x where "x = c # takeWhile (\<lambda>x. x \<noteq> slash) s"
    have x: "x \<noteq> []" "slash \<notin> set x"
      using component_shorter(1) [OF Cons] by (auto simp: x_def dest: set_takeWhileD)
    have room: "length (render cs) + (1 + length x + need (dropWhile (\<lambda>x. x \<noteq> slash) s)) \<le> TEMP_SIZE - 1"
      using need_step [OF Cons] "1.prems"(3) by (simp add: x_def)
    have cl: "clean (move cs x)"
      using "1.prems"(1) x by (auto simp: clean_def move_def dest: in_set_butlastD)
    have rep: "represents (join_component x t) (move cs x)"
      using "1.prems"(1,2) x(1) room go_up_represents add_component_represents
      by (auto simp: join_component_def move_def represents_def)
    have "length (render (move cs x)) + need (dropWhile (\<lambda>x. x \<noteq> slash) s) \<le> TEMP_SIZE - 1"
      using length_render_move [of cs x] room by linarith
    from "1.IH" [OF Cons cl _ this] rep show ?thesis
      by (simp add: join_loop.simps [of src] components.simps [of src] Cons resolve_def x_def)
  qed
qed

lemma drop_trailing_represents:
  "clean cs \<Longrightarrow> represents t cs \<Longrightarrow> drop_trailing t = render cs"
  using last_render [of cs] by (auto simp: represents_def drop_trailing_def render_def)

lemma hd_render: "hd (render cs) = slash \<and> render cs \<noteq> []"
  by (cases cs) (auto simp: render_def)

section \<open>Properties\<close>

text \<open>
  C13: \<open>join_path\<close> with a relative path computes the absolute path that the components of the path lead to from the
  working directory: \<open>.\<close> stays, \<open>..\<close> goes to the parent (and stays at the root), every other
  component goes down, and repeated or trailing slashes do not matter. The working directory is
  in the form that \<open>join_path\<close> itself produces, and the result fits into the 512-byte buffer.
\<close>

theorem join_path_relative:
  assumes "clean cs" and "path = [] \<or> hd path \<noteq> slash"
    and "length (render cs) + length path + 1 < TEMP_SIZE"
  shows "join_path (render cs) path = render (resolve cs (components path))"
proof -
  have t: "drop_trailing ((if render cs = [] \<or> hd (render cs) \<noteq> slash then [slash] else []) @ render cs) = render cs"
    using hd_render [of cs] drop_trailing_represents [OF assms(1), of "render cs"]
    by (simp add: represents_def)
  have "length (render cs) + need path \<le> TEMP_SIZE - 1" using assms(3) by (auto simp: need_def)
  from join_loop_represents [OF assms(1) _ this, of "render cs"]
  have j: "represents (join_loop path (render cs)) (resolve cs (components path))"
      "clean (resolve cs (components path))"
    by (simp_all add: represents_def)
  have "join_loop path (render cs) \<noteq> []" using j(1) hd_render by (auto simp: represents_def)
  then show ?thesis
    using assms(2,3) t drop_trailing_represents [OF j(2,1)] by (auto simp: join_path_def Let_def)
qed

theorem join_path_relative_witness:
  "join_path [47, 97, 47, 98] [46, 46, 47, 46, 47, 47, 99, 47] = [47, 97, 47, 99]"
proof -
  have "components [46, 46, 47, 46, 47, 47, 99, 47] = [[46, 46], [46], [99]]"
    by (simp add: components.simps)
  moreover have "render [[97], [98]] = [47, 97, 47, 98]" by (simp add: render_def)
  ultimately show ?thesis
    using join_path_relative [of "[[97], [98]]" "[46, 46, 47, 46, 47, 47, 99, 47]"]
    by (simp add: clean_def TEMP_SIZE_def resolve_def move_def render_def)
qed

text \<open>
  In the absolute case the slash that starts the result is written before the leading slashes of
  the path are skipped: a path that starts with two slashes keeps two.
\<close>

lemma join_path_keeps_double_slash: "join_path cwd [47, 47, 97] = [47, 47, 97]"
  by (simp add: join_path_def drop_trailing_def)

end
