(* ===== verification/Kernel_IO.thy ===== *)
theory Kernel_IO
  imports Rojoc_Prelude
begin

text \<open>
  The state-and-error monad in which the disk driver, the file system and the system calls are
  written. A C function that talks to a device takes the device state and either returns a value
  (\<open>Ok\<close>), returns a negative error code (\<open>Err\<close>), or does not return (\<open>Stuck\<close>): an assertion failed, it
  ran into undefined behaviour, or a loop did not end. The device state is kept in all cases.
\<close>

datatype 'a outcome = Ok 'a | Err int | Stuck

type_synonym ('d, 'a) io = "'d \<Rightarrow> 'a outcome \<times> 'd"

definition io_return :: "'a \<Rightarrow> ('d, 'a) io" where
  "io_return x = (\<lambda>d. (Ok x, d))"

definition io_fail :: "int \<Rightarrow> ('d, 'a) io" where
  "io_fail e = (\<lambda>d. (Err e, d))"

definition io_stuck :: "('d, 'a) io" where
  "io_stuck = (\<lambda>d. (Stuck, d))"

definition io_bind :: "('d, 'a) io \<Rightarrow> ('a \<Rightarrow> ('d, 'b) io) \<Rightarrow> ('d, 'b) io" where
  "io_bind m f = (\<lambda>d. case m d of
     (Ok x, d) \<Rightarrow> f x d | (Err e, d) \<Rightarrow> (Err e, d) | (Stuck, d) \<Rightarrow> (Stuck, d))"

text \<open>A call whose result code is ignored, as in a C expression statement.\<close>

definition io_ignore :: "('d, 'a) io \<Rightarrow> ('d, unit) io" where
  "io_ignore m = (\<lambda>d. case m d of (Stuck, d) \<Rightarrow> (Stuck, d) | (_, d) \<Rightarrow> (Ok (), d))"

text \<open>A call whose error code the caller inspects: \<open>Inl e\<close> is the negative result.\<close>

definition io_try :: "('d, 'a) io \<Rightarrow> ('d, 'a result) io" where
  "io_try m = (\<lambda>d. case m d of
     (Ok x, d) \<Rightarrow> (Ok (Inr x), d) | (Err e, d) \<Rightarrow> (Ok (Inl e), d) | (Stuck, d) \<Rightarrow> (Stuck, d))"

definition io_assert :: "bool \<Rightarrow> ('d, unit) io" where
  "io_assert b = (if b then io_return () else io_stuck)"

definition io_some :: "'a option \<Rightarrow> ('d, 'a) io" where
  "io_some v = (case v of None \<Rightarrow> io_stuck | Some x \<Rightarrow> io_return x)"

named_theorems io_simps \<open>running the combinators on a device state\<close>

lemma io_return_run [simp, io_simps]: "io_return x d = (Ok x, d)"
  by (simp add: io_return_def)

lemma io_fail_run [simp, io_simps]: "io_fail e d = (Err e, d)"
  by (simp add: io_fail_def)

lemma io_stuck_run [simp, io_simps]: "io_stuck d = (Stuck, d)"
  by (simp add: io_stuck_def)

lemma io_assert_run [simp, io_simps]: "io_assert b d = (if b then (Ok (), d) else (Stuck, d))"
  by (simp add: io_assert_def)

lemma io_some_run [simp, io_simps]: "io_some (Some x) d = (Ok x, d)" "io_some None d = (Stuck, d)"
  by (simp_all add: io_some_def)

lemma io_bind_Ok [io_simps]: "m d = (Ok x, d') \<Longrightarrow> io_bind m f d = f x d'"
  by (simp add: io_bind_def)

lemma io_bind_Err [io_simps]: "m d = (Err e, d') \<Longrightarrow> io_bind m f d = (Err e, d')"
  by (simp add: io_bind_def)

lemma io_bind_Stuck [io_simps]: "m d = (Stuck, d') \<Longrightarrow> io_bind m f d = (Stuck, d')"
  by (simp add: io_bind_def)

lemma io_bind_return [simp]: "io_bind (io_return x) f = f x"
  by (simp add: io_bind_def io_return_def)

lemma io_bind_assert [simp]: "io_bind (io_assert True) f = f ()"
  by (simp add: io_assert_def)

lemma io_bind_some [simp]: "io_bind (io_some (Some x)) f = f x"
  by (simp add: io_some_def)

lemma io_bind_fail [simp]: "io_bind (io_fail e) f = io_fail e"
  by (simp add: io_bind_def io_fail_def)

lemma io_bind_assoc: "io_bind (io_bind m f) g = io_bind m (\<lambda>x. io_bind (f x) g)"
  by (auto simp: io_bind_def fun_eq_iff split: prod.split outcome.split)

lemma io_ignore_Ok [io_simps]: "m d = (Ok x, d') \<Longrightarrow> io_ignore m d = (Ok (), d')"
  by (simp add: io_ignore_def)

lemma io_try_run [io_simps]:
  "m d = (Ok x, d') \<Longrightarrow> io_try m d = (Ok (Inr x), d')"
  "m d = (Err e, d') \<Longrightarrow> io_try m d = (Ok (Inl e), d')"
  "m d = (Stuck, d') \<Longrightarrow> io_try m d = (Stuck, d')"
  by (simp_all add: io_try_def)

lemma io_bind_OkE:
  assumes "io_bind m f d = (Ok y, d')"
  obtains x d1 where "m d = (Ok x, d1)" and "f x d1 = (Ok y, d')"
  using assms by (auto simp: io_bind_def split: prod.splits outcome.splits)

end
