(* ===== verification/Disk.thy ===== *)
theory Disk
  imports Kernel_IO
begin

unbundle bit_operations_syntax

text \<open>
  The disk driver of \<^verbatim>\<open>kernel/k-hardware.c\<close>: programmed I/O on the primary ATA channel (\<open>waitdisk\<close>, \<open>readsect\<close>,
  \<open>writesect\<close>) and reading and writing arbitrary byte ranges (\<open>readdisk\<close>, \<open>writedisk\<close>). The port instructions act on the controller, which is hardware: they are the
  parameter \<open>ports\<close>, and what the ATA standard promises of a controller is the locale \<open>ata_device\<close>.
  A destination buffer is the returned list of bytes; after an error nobody looks at it.
\<close>

section \<open>Port instructions\<close>

record 'd ports =
  inb :: "uint16 \<Rightarrow> 'd \<Rightarrow> byte \<times> 'd"
  outb :: "uint16 \<Rightarrow> byte \<Rightarrow> 'd \<Rightarrow> 'd"
  insl :: "uint16 \<Rightarrow> nat \<Rightarrow> 'd \<Rightarrow> byte list \<times> 'd"
  outsl :: "uint16 \<Rightarrow> byte list \<Rightarrow> 'd \<Rightarrow> 'd"

definition io_inb :: "'d ports \<Rightarrow> uint16 \<Rightarrow> ('d, byte) io" where
  "io_inb io p = (\<lambda>d. case inb io p d of (v, d) \<Rightarrow> (Ok v, d))"

definition io_outb :: "'d ports \<Rightarrow> uint16 \<Rightarrow> byte \<Rightarrow> ('d, unit) io" where
  "io_outb io p v = (\<lambda>d. (Ok (), outb io p v d))"

definition io_insl :: "'d ports \<Rightarrow> uint16 \<Rightarrow> nat \<Rightarrow> ('d, byte list) io" where
  "io_insl io p n = (\<lambda>d. case insl io p n d of (v, d) \<Rightarrow> (Ok v, d))"

definition io_outsl :: "'d ports \<Rightarrow> uint16 \<Rightarrow> byte list \<Rightarrow> ('d, unit) io" where
  "io_outsl io p bs = (\<lambda>d. (Ok (), outsl io p bs d))"

section \<open>Sectors\<close>

definition SECTORSIZE :: nat where "SECTORSIZE = 512"

definition DISKSIZE_MAX :: nat where "DISKSIZE_MAX = 2 ^ 32 * SECTORSIZE"

text \<open>Polling the status register until a condition on it holds may never end.\<close>

partial_function (option) poll :: "'d ports \<Rightarrow> (byte \<Rightarrow> bool) \<Rightarrow> 'd \<Rightarrow> 'd option" where
  "poll io ready d = (case inb io 0x1F7 d of (st, d) \<Rightarrow> if ready st then Some d else poll io ready d)"

definition io_poll :: "'d ports \<Rightarrow> (byte \<Rightarrow> bool) \<Rightarrow> ('d, unit) io" where
  "io_poll io ready = (\<lambda>d. case poll io ready d of Some d' \<Rightarrow> (Ok (), d') | None \<Rightarrow> (Stuck, d))"

definition waitdisk :: "'d ports \<Rightarrow> ('d, unit) io" where
  "waitdisk io = io_poll io (\<lambda>st. st AND 0xC0 = 0x40)"

text \<open>The common first part of both transfers: the sector number and the command.\<close>

definition send_command :: "'d ports \<Rightarrow> uint32 \<Rightarrow> byte \<Rightarrow> ('d, unit) io" where
  "send_command io s cmd =
     io_bind (waitdisk io) (\<lambda>_.
     io_bind (io_outb io 0x1F2 1) (\<lambda>_.
     io_bind (io_outb io 0x1F3 (ucast s)) (\<lambda>_.
     io_bind (io_outb io 0x1F4 (ucast (drop_bit 8 s))) (\<lambda>_.
     io_bind (io_outb io 0x1F5 (ucast (drop_bit 16 s))) (\<lambda>_.
     io_bind (io_outb io 0x1F6 (ucast (drop_bit 24 s OR 0xE0))) (\<lambda>_.
     io_outb io 0x1F7 cmd))))))"

text \<open>
  The error check after a transfer reads the error register when the ERR bit of the status is
  set. The functions return the negated error code; a code of 0 reads as success, in \<open>readsect\<close>
  with a buffer that was never filled.
\<close>

definition check_error :: "'d ports \<Rightarrow> ('d, byte option) io" where
  "check_error io =
     io_bind (io_inb io 0x1F7) (\<lambda>st.
       if st AND 0x01 \<noteq> 0 then io_bind (io_inb io 0x1F1) (\<lambda>e. io_return (Some e))
       else io_return None)"

definition readsect :: "'d ports \<Rightarrow> uint32 \<Rightarrow> ('d, byte list) io" where
  "readsect io src_sect =
     io_bind (send_command io src_sect 0x20) (\<lambda>_.
     io_bind (waitdisk io) (\<lambda>_.
     io_bind (check_error io) (\<lambda>err.
     case err of
       None \<Rightarrow> io_insl io 0x1F0 (SECTORSIZE div 4)
     | Some e \<Rightarrow> if e = 0 then io_stuck else io_fail (- int (unat e)))))"

definition writesect :: "'d ports \<Rightarrow> byte list \<Rightarrow> uint32 \<Rightarrow> ('d, unit) io" where
  "writesect io src dst_sect =
     io_bind (send_command io dst_sect 0x30) (\<lambda>_.
     io_bind (io_poll io (\<lambda>st. st AND 0x80 = 0 \<and> st AND 0x08 \<noteq> 0)) (\<lambda>_.
     io_bind (io_outsl io 0x1F0 src) (\<lambda>_.
     io_bind (waitdisk io) (\<lambda>_.
     io_bind (check_error io) (\<lambda>err.
     case err of
       None \<Rightarrow> io_return ()
     | Some e \<Rightarrow> if e = 0 then io_return () else io_fail (- int (unat e)))))))"

section \<open>Byte ranges\<close>

primrec read_sectors :: "'d ports \<Rightarrow> nat \<Rightarrow> uint32 \<Rightarrow> ('d, byte list) io" where
  "read_sectors io 0 s = io_return []"
| "read_sectors io (Suc n) s =
     io_bind (readsect io s) (\<lambda>bs.
     io_bind (read_sectors io n (s + 1)) (\<lambda>rest. io_return (bs @ rest)))"

definition readdisk :: "'d ports \<Rightarrow> uint64 \<Rightarrow> nat \<Rightarrow> ('d, byte list) io" where
  "readdisk io start sz =
     (if sz = 0 then io_return []
      else if unat start \<ge> DISKSIZE_MAX \<or> sz \<ge> DISKSIZE_MAX \<or> unat start + sz \<ge> DISKSIZE_MAX
      then io_fail (- 1)
      else let src_sect = ucast (start div 512) :: uint32;
               off = unat start mod SECTORSIZE;
               count = min (SECTORSIZE - off) sz;
               n = (sz - count) div SECTORSIZE;
               count' = count + n * SECTORSIZE
           in io_bind (readsect io src_sect) (\<lambda>buffer.
              io_bind (read_sectors io n (src_sect + 1)) (\<lambda>mid.
              let got = take count (drop off buffer) @ mid
              in if count' = sz then io_return got
                 else io_bind (readsect io (src_sect + 1 + of_nat n)) (\<lambda>buffer.
                      io_return (got @ take (sz - count') buffer)))))"

text \<open>\<open>overlay tmp off bs\<close> is the buffer after \<open>memcpy(tmp + off, bs, ...)\<close>.\<close>

definition overlay :: "byte list \<Rightarrow> nat \<Rightarrow> byte list \<Rightarrow> byte list" where
  "overlay tmp off bs = take off tmp @ bs @ drop (off + length bs) tmp"

definition update_sector :: "'d ports \<Rightarrow> uint32 \<Rightarrow> nat \<Rightarrow> byte list \<Rightarrow> ('d, unit) io" where
  "update_sector io s off bs =
     io_bind (readsect io s) (\<lambda>tmp. writesect io (overlay tmp off bs) s)"

function write_sectors :: "'d ports \<Rightarrow> byte list \<Rightarrow> uint32 \<Rightarrow> ('d, byte list \<times> uint32) io" where
  "write_sectors io bs s =
     (if length bs \<ge> SECTORSIZE
      then io_bind (writesect io (take SECTORSIZE bs) s) (\<lambda>_.
             write_sectors io (drop SECTORSIZE bs) (s + 1))
      else io_return (bs, s))"
  by pat_completeness auto
termination by (relation "measure (\<lambda>(io, bs, s). length bs)") (auto simp: SECTORSIZE_def)

declare write_sectors.simps [simp del]

definition writedisk :: "'d ports \<Rightarrow> byte list \<Rightarrow> uint64 \<Rightarrow> ('d, unit) io" where
  "writedisk io bs start =
     (let sz = length bs
      in if sz = 0 then io_return ()
         else if unat start \<ge> DISKSIZE_MAX \<or> sz \<ge> DISKSIZE_MAX \<or> unat start + sz > DISKSIZE_MAX
         then io_fail (- 1)
         else let dst_sect = ucast (start div 512) :: uint32;
                  off = unat start mod SECTORSIZE;
                  n = (if off \<noteq> 0 then min (SECTORSIZE - off) sz else 0)
              in io_bind (if off \<noteq> 0 then update_sector io dst_sect off (take n bs) else io_return ()) (\<lambda>_.
                 io_bind (write_sectors io (drop n bs) (if off \<noteq> 0 then dst_sect + 1 else dst_sect))
                   (\<lambda>(bs, s). if bs \<noteq> [] then update_sector io s 0 bs else io_return ())))"


section \<open>The disk callbacks of the file system\<close>

definition EIO :: int where "EIO = 5"

definition FILESYSTEM_DISK_OFFSET :: nat where "FILESYSTEM_DISK_OFFSET = 1024 * 512"

text \<open>A negative result of the driver becomes \<open>-EIO\<close>.\<close>

definition to_eio :: "('d, 'a) io \<Rightarrow> ('d, 'a) io" where
  "to_eio m = (\<lambda>d. case m d of (Err e, d') \<Rightarrow> (Err (- EIO), d') | r \<Rightarrow> r)"

definition fs_read_disk :: "'d ports \<Rightarrow> uint64 \<Rightarrow> nat \<Rightarrow> ('d, byte list) io" where
  "fs_read_disk io start sz = to_eio (readdisk io (start + of_nat FILESYSTEM_DISK_OFFSET) sz)"

definition fs_write_disk :: "'d ports \<Rightarrow> byte list \<Rightarrow> uint64 \<Rightarrow> ('d, unit) io" where
  "fs_write_disk io bs start = to_eio (writedisk io bs (start + of_nat FILESYSTEM_DISK_OFFSET))"

section \<open>The controller\<close>

datatype ata_phase = Idle | DataIn nat | DataOut nat

text \<open>The 28-bit sector number in the task file registers, for the master drive in LBA mode.\<close>

definition ata_lba :: "(uint16 \<Rightarrow> byte) \<Rightarrow> nat option" where
  "ata_lba r = (if r 0x1F6 AND 0xF0 = 0xE0
     then Some (unat (r 0x1F3) + 2 ^ 8 * unat (r 0x1F4) + 2 ^ 16 * unat (r 0x1F5)
                + 2 ^ 24 * unat (r 0x1F6 AND 0x0F)) else None)"

text \<open>
  What the driver relies on: \<open>sect\<close>, \<open>reg\<close>, \<open>phase\<close> and \<open>busy\<close> are the contents of the \<open>nsect\<close> sectors, the task
  file registers, the state of the current transfer and the number of status reads for which
  the controller stays busy.
\<close>

locale ata_device =
  fixes io :: "'d ports" and sect :: "'d \<Rightarrow> nat \<Rightarrow> byte list" and reg :: "'d \<Rightarrow> uint16 \<Rightarrow> byte"
    and phase :: "'d \<Rightarrow> ata_phase" and busy :: "'d \<Rightarrow> nat" and ok :: "'d \<Rightarrow> bool" and nsect :: nat
  assumes nsect_lba28: "nsect \<le> 2 ^ 28"
    and sect_length: "ok d \<Longrightarrow> length (sect d k) = 512"
    and out_reg: "ok d \<Longrightarrow> phase d = Idle \<Longrightarrow> p \<in> {0x1F2, 0x1F3, 0x1F4, 0x1F5, 0x1F6} \<Longrightarrow>
      ok (outb io p v d) \<and> phase (outb io p v d) = Idle \<and> sect (outb io p v d) = sect d \<and>
      reg (outb io p v d) = (reg d)(p := v) \<and> busy (outb io p v d) = busy d"
    and in_status: "ok d \<Longrightarrow> inb io 0x1F7 d = (st, d') \<Longrightarrow>
      ok d' \<and> phase d' = phase d \<and> sect d' = sect d \<and> reg d' = reg d \<and>
      (if busy d = 0 then busy d' = 0 \<and> st AND 0xC1 = 0x40 \<and> (st AND 0x08 \<noteq> 0 \<longleftrightarrow> phase d \<noteq> Idle)
       else busy d' < busy d \<and> st AND 0x80 \<noteq> 0)"
    and cmd_read: "ok d \<Longrightarrow> phase d = Idle \<Longrightarrow> busy d = 0 \<Longrightarrow> reg d 0x1F2 = 1 \<Longrightarrow>
      ata_lba (reg d) = Some l \<Longrightarrow> l < nsect \<Longrightarrow>
      ok (outb io 0x1F7 0x20 d) \<and> phase (outb io 0x1F7 0x20 d) = DataIn l \<and>
      sect (outb io 0x1F7 0x20 d) = sect d"
    and cmd_write: "ok d \<Longrightarrow> phase d = Idle \<Longrightarrow> busy d = 0 \<Longrightarrow> reg d 0x1F2 = 1 \<Longrightarrow>
      ata_lba (reg d) = Some l \<Longrightarrow> l < nsect \<Longrightarrow>
      ok (outb io 0x1F7 0x30 d) \<and> phase (outb io 0x1F7 0x30 d) = DataOut l \<and>
      sect (outb io 0x1F7 0x30 d) = sect d"
    and data_in: "ok d \<Longrightarrow> phase d = DataIn l \<Longrightarrow> busy d = 0 \<Longrightarrow> insl io 0x1F0 128 d = (bs, d') \<Longrightarrow>
      bs = sect d l \<and> ok d' \<and> phase d' = Idle \<and> sect d' = sect d"
    and data_out: "ok d \<Longrightarrow> phase d = DataOut l \<Longrightarrow> busy d = 0 \<Longrightarrow> length bs = 512 \<Longrightarrow>
      ok (outsl io 0x1F0 bs d) \<and> phase (outsl io 0x1F0 bs d) = Idle \<and>
      sect (outsl io 0x1F0 bs d) = (sect d)(l := bs)"

lemma ata_bits:
  fixes st :: byte
  shows "st AND 0x80 \<noteq> 0 \<Longrightarrow> st AND 0xC0 \<noteq> 0x40"
    and "st AND 0xC1 = 0x40 \<Longrightarrow> st AND 0xC0 = 0x40 \<and> st AND 0x80 = 0 \<and> st AND 0x01 = 0"
proof -
  show "st AND 0x80 \<noteq> 0 \<Longrightarrow> st AND 0xC0 \<noteq> 0x40"
    using and_submask [of st "0xC0" "0x40" "0x80"] by auto
  assume "st AND 0xC1 = 0x40"
  from and_submask [OF this, of "0xC0"] and_submask [OF this, of "0x80"] and_submask [OF this, of "0x01"]
  show "st AND 0xC0 = 0x40 \<and> st AND 0x80 = 0 \<and> st AND 0x01 = 0" by simp
qed

lemma byte_digits:
  "x = x mod 256 + 2 ^ 8 * (x div 2 ^ 8 mod 256) + 2 ^ 16 * (x div 2 ^ 16 mod 256)
      + 2 ^ 24 * (x div 2 ^ 24)" for x :: nat
proof -
  define q1 q2 q3 where "q1 = x div 256" and "q2 = q1 div 256" and "q3 = q2 div 256"
  have q: "x div 2 ^ 8 = q1" "x div 2 ^ 16 = q2" "x div 2 ^ 24 = q3"
    using div_mult2_eq [of x 256 256] div_mult2_eq [of x 65536 256] by (simp_all add: q1_def q2_def q3_def)
  have "x = 256 * q1 + x mod 256" "q1 = 256 * q2 + q1 mod 256" "q2 = 256 * q3 + q2 mod 256"
    by (simp_all add: q1_def q2_def q3_def)
  then show ?thesis unfolding q by simp
qed

text \<open>The register values that the driver writes address the sector it means, below 2^28.\<close>

lemma ata_lba_registers:
  assumes "unat s < 2 ^ 28" and "r 0x1F3 = ucast s" and "r 0x1F4 = ucast (drop_bit 8 s)"
    and "r 0x1F5 = ucast (drop_bit 16 s)" and "r 0x1F6 = ucast (drop_bit 24 (s :: uint32) OR 0xE0)"
  shows "ata_lba r = Some (unat s)"
proof -
  define h where "h = (ucast (drop_bit 24 s) :: byte)"
  have hs: "unat h = unat s div 2 ^ 24"
  proof -
    have "unat s div 2 ^ 24 < 16" using assms(1) by (simp add: less_mult_imp_div_less)
    moreover have "unat (drop_bit 24 s) = unat s div 2 ^ 24" by (simp add: drop_bit_eq_div unat_div)
    ultimately show ?thesis by (simp add: h_def unsigned_ucast_eq take_bit_nat_eq_self)
  qed
  have "unat h < 16" using assms(1) hs by (simp add: less_mult_imp_div_less)
  then have "h \<in> {0,1,2,3,4,5,6,7,8,9,10,11,12,13,14,15}"
    by (simp add: word_unat_eq_iff) presburger
  moreover have "r 0x1F6 = h OR 0xE0"
    unfolding assms(5) h_def by (simp add: unsigned_or_eq)
  ultimately have h: "r 0x1F6 AND 0xF0 = 0xE0" "r 0x1F6 AND 0x0F = h" by auto
  have b: "unat (ucast (drop_bit n s) :: byte) = unat s div 2 ^ n mod 256" if "n < 32" for n
    using that assms(1) by (simp add: unsigned_ucast_eq unsigned_drop_bit_eq)
      (simp add: take_bit_eq_mod drop_bit_eq_div)
  have "unat s = unat s mod 256 + 2 ^ 8 * (unat s div 2 ^ 8 mod 256)
      + 2 ^ 16 * (unat s div 2 ^ 16 mod 256) + 2 ^ 24 * (unat s div 2 ^ 24)"
    by (rule byte_digits)
  then show ?thesis
    unfolding ata_lba_def h assms(2-4) hs using b [of 0] b [of 8] b [of 16] h by simp
qed


context ata_device
begin

lemma poll_ends:
  assumes "ok d" and ready: "\<And>st. st AND 0xC1 = 0x40 \<Longrightarrow> (st AND 0x08 \<noteq> 0 \<longleftrightarrow> phase d \<noteq> Idle) \<Longrightarrow> ready st"
    and busy: "\<And>st. st AND 0x80 \<noteq> 0 \<Longrightarrow> \<not> ready st"
  shows "\<exists>d'. poll io ready d = Some d' \<and> ok d' \<and> phase d' = phase d \<and> sect d' = sect d \<and>
    reg d' = reg d \<and> busy d' = 0"
  using assms(1,2)
proof (induction "busy d" arbitrary: d rule: less_induct)
  case less
  obtain st d1 where s: "inb io 0x1F7 d = (st, d1)" by force
  note i = in_status [OF less.prems(1) s]
  show ?case
  proof (cases "busy d = 0")
    case True
    then show ?thesis using i s less.prems(2) by (subst poll.simps) auto
  next
    case False
    then have "\<not> ready st" "busy d1 < busy d" using i busy by auto
    moreover from this(2) have "\<exists>d'. poll io ready d1 = Some d' \<and> ok d' \<and> phase d' = phase d1 \<and>
        sect d' = sect d1 \<and> reg d' = reg d1 \<and> busy d' = 0"
      using i less.prems(2) by (intro less.hyps) auto
    ultimately show ?thesis using i s by (subst poll.simps) auto
  qed
qed

lemma waitdisk_ends:
  assumes "ok d"
  shows "\<exists>d'. waitdisk io d = (Ok (), d') \<and> ok d' \<and> phase d' = phase d \<and> sect d' = sect d \<and>
    reg d' = reg d \<and> busy d' = 0"
  using poll_ends [OF assms, of "\<lambda>st. st AND 0xC0 = 0x40"] ata_bits
  by (auto simp: waitdisk_def io_poll_def)

lemma send_command_spec:
  assumes "ok d" and "phase d = Idle" and "unat s < nsect"
  shows "\<exists>d1. send_command io s cmd d = (Ok (), outb io 0x1F7 cmd d1) \<and> ok d1 \<and> phase d1 = Idle \<and>
    sect d1 = sect d \<and> busy d1 = 0 \<and> reg d1 0x1F2 = 1 \<and> ata_lba (reg d1) = Some (unat s)"
proof -
  obtain d0 where d0: "waitdisk io d = (Ok (), d0)" "ok d0" "phase d0 = Idle" "sect d0 = sect d" "busy d0 = 0"
    using waitdisk_ends [OF assms(1)] assms(2) by auto
  define d1 where "d1 = outb io 0x1F2 1 d0"
  define d2 where "d2 = outb io 0x1F3 (ucast s) d1"
  define d3 where "d3 = outb io 0x1F4 (ucast (drop_bit 8 s)) d2"
  define d4 where "d4 = outb io 0x1F5 (ucast (drop_bit 16 s)) d3"
  define d5 where "d5 = outb io 0x1F6 (ucast (drop_bit 24 s OR 0xE0)) d4"
  have 1: "ok d1 \<and> phase d1 = Idle \<and> sect d1 = sect d \<and> busy d1 = 0 \<and> reg d1 = (reg d0)(0x1F2 := 1)"
    using out_reg [of d0 "0x1F2" 1] d0 by (simp add: d1_def)
  have 2: "ok d2 \<and> phase d2 = Idle \<and> sect d2 = sect d \<and> busy d2 = 0 \<and> reg d2 = (reg d1)(0x1F3 := ucast s)"
    using out_reg [of d1 "0x1F3" "ucast s"] 1 by (simp add: d2_def)
  have 3: "ok d3 \<and> phase d3 = Idle \<and> sect d3 = sect d \<and> busy d3 = 0 \<and>
      reg d3 = (reg d2)(0x1F4 := ucast (drop_bit 8 s))"
    using out_reg [of d2 "0x1F4" "ucast (drop_bit 8 s)"] 2 by (simp add: d3_def)
  have 4: "ok d4 \<and> phase d4 = Idle \<and> sect d4 = sect d \<and> busy d4 = 0 \<and>
      reg d4 = (reg d3)(0x1F5 := ucast (drop_bit 16 s))"
    using out_reg [of d3 "0x1F5" "ucast (drop_bit 16 s)"] 3 by (simp add: d4_def)
  have 5: "ok d5 \<and> phase d5 = Idle \<and> sect d5 = sect d \<and> busy d5 = 0 \<and>
      reg d5 = (reg d4)(0x1F6 := ucast (drop_bit 24 s OR 0xE0))"
    using out_reg [of d4 "0x1F6" "ucast (drop_bit 24 s OR 0xE0)"] 4 by (simp add: d5_def)
  have "unat s < 2 ^ 28" using assms(3) nsect_lba28 by linarith
  then have "ata_lba (reg d5) = Some (unat s)"
    using 1 2 3 4 5 by (intro ata_lba_registers) simp_all
  moreover have "send_command io s cmd d = (Ok (), outb io 0x1F7 cmd d5)"
    using d0(1) by (simp add: send_command_def io_bind_def io_outb_def d1_def d2_def d3_def d4_def d5_def)
  ultimately show ?thesis using 1 2 3 4 5 by (intro exI [of _ d5]) simp
qed

lemma check_error_none:
  assumes "ok d" and "busy d = 0"
  shows "\<exists>d'. check_error io d = (Ok None, d') \<and> ok d' \<and> phase d' = phase d \<and> sect d' = sect d \<and> busy d' = 0"
proof -
  obtain st d' where s: "inb io 0x1F7 d = (st, d')" by force
  then show ?thesis
    using in_status [OF assms(1) s] assms(2) ata_bits(2) [of st]
    by (auto simp: check_error_def io_bind_def io_inb_def)
qed

lemma readsect_spec:
  assumes "ok d" and "phase d = Idle" and "unat s < nsect"
  shows "\<exists>d'. readsect io s d = (Ok (sect d (unat s)), d') \<and> ok d' \<and> phase d' = Idle \<and> sect d' = sect d"
proof -
  obtain d1 where d1: "send_command io s 0x20 d = (Ok (), outb io 0x1F7 0x20 d1)" "ok d1" "phase d1 = Idle"
      "sect d1 = sect d" "busy d1 = 0" "reg d1 0x1F2 = 1" "ata_lba (reg d1) = Some (unat s)"
    using send_command_spec [OF assms] by blast
  have c: "ok (outb io 0x1F7 0x20 d1)" "phase (outb io 0x1F7 0x20 d1) = DataIn (unat s)"
      "sect (outb io 0x1F7 0x20 d1) = sect d"
    using cmd_read [OF d1(2,3,5,6,7) assms(3)] d1(4) by auto
  obtain d2 where d2: "waitdisk io (outb io 0x1F7 0x20 d1) = (Ok (), d2)" "ok d2" "phase d2 = DataIn (unat s)"
      "sect d2 = sect d" "busy d2 = 0"
    using waitdisk_ends [OF c(1)] c by auto
  obtain d3 where d3: "check_error io d2 = (Ok None, d3)" "ok d3" "phase d3 = DataIn (unat s)"
      "sect d3 = sect d" "busy d3 = 0"
    using check_error_none [OF d2(2,5)] d2 by auto
  obtain bs d4 where d4: "insl io 0x1F0 128 d3 = (bs, d4)" by force
  show ?thesis
    using data_in [OF d3(2,3,5) d4] d1(1) d2(1) d3(1,4) d4
    by (simp add: readsect_def io_bind_def io_insl_def SECTORSIZE_def)
qed

lemma writesect_spec:
  assumes "ok d" and "phase d = Idle" and "unat s < nsect" and "length bs = 512"
  shows "\<exists>d'. writesect io bs s d = (Ok (), d') \<and> ok d' \<and> phase d' = Idle \<and> sect d' = (sect d)(unat s := bs)"
proof -
  obtain d1 where d1: "send_command io s 0x30 d = (Ok (), outb io 0x1F7 0x30 d1)" "ok d1" "phase d1 = Idle"
      "sect d1 = sect d" "busy d1 = 0" "reg d1 0x1F2 = 1" "ata_lba (reg d1) = Some (unat s)"
    using send_command_spec [OF assms(1-3)] by blast
  have c: "ok (outb io 0x1F7 0x30 d1)" "phase (outb io 0x1F7 0x30 d1) = DataOut (unat s)"
      "sect (outb io 0x1F7 0x30 d1) = sect d"
    using cmd_write [OF d1(2,3,5,6,7) assms(3)] d1(4) by auto
  obtain d2 where d2: "poll io (\<lambda>st. st AND 0x80 = 0 \<and> st AND 0x08 \<noteq> 0) (outb io 0x1F7 0x30 d1) = Some d2"
      "ok d2" "phase d2 = DataOut (unat s)" "sect d2 = sect d" "busy d2 = 0"
    using poll_ends [OF c(1), of "\<lambda>st. st AND 0x80 = 0 \<and> st AND 0x08 \<noteq> 0"] c ata_bits(2) by auto
  have d3: "ok (outsl io 0x1F0 bs d2)" "phase (outsl io 0x1F0 bs d2) = Idle"
      "sect (outsl io 0x1F0 bs d2) = (sect d)(unat s := bs)"
    using data_out [OF d2(2,3,5) assms(4)] d2(4) by auto
  obtain d4 where d4: "waitdisk io (outsl io 0x1F0 bs d2) = (Ok (), d4)" "ok d4" "phase d4 = Idle"
      "sect d4 = (sect d)(unat s := bs)" "busy d4 = 0"
    using waitdisk_ends [OF d3(1)] d3 by auto
  obtain d5 where "check_error io d4 = (Ok None, d5)" "ok d5" "phase d5 = Idle"
      "sect d5 = (sect d)(unat s := bs)"
    using check_error_none [OF d4(2,5)] d4 by auto
  then show ?thesis
    using d1(1) d2(1) d4(1) by (simp add: writesect_def io_bind_def io_poll_def io_outsl_def)
qed

end


section \<open>The disk as a sequence of bytes\<close>

definition disk_byte :: "(nat \<Rightarrow> byte list) \<Rightarrow> nat \<Rightarrow> byte" where
  "disk_byte f a = f (a div 512) ! (a mod 512)"

definition disk_bytes :: "(nat \<Rightarrow> byte list) \<Rightarrow> nat \<Rightarrow> nat \<Rightarrow> byte list" where
  "disk_bytes f a n = map (disk_byte f) [a..<a + n]"

text \<open>\<open>written f a bs f'\<close>: the sectors \<open>f'\<close> are \<open>f\<close> with the bytes \<open>bs\<close> stored from address \<open>a\<close> on.\<close>

definition written :: "(nat \<Rightarrow> byte list) \<Rightarrow> nat \<Rightarrow> byte list \<Rightarrow> (nat \<Rightarrow> byte list) \<Rightarrow> bool" where
  "written f a bs f' \<longleftrightarrow>
     (\<forall>x. disk_byte f' x = (if a \<le> x \<and> x < a + length bs then bs ! (x - a) else disk_byte f x))"

lemma length_disk_bytes [simp]: "length (disk_bytes f a n) = n"
  by (simp add: disk_bytes_def)

lemma disk_bytes_0 [simp]: "disk_bytes f a 0 = []"
  by (simp add: disk_bytes_def)

lemma disk_bytes_add: "disk_bytes f a (m + n) = disk_bytes f a m @ disk_bytes f (a + m) n"
  using upt_add_eq_append [of a "a + m" n] by (simp add: disk_bytes_def add.assoc)

lemma sector_div: "r < 512 \<Longrightarrow> (512 * k + r) div 512 = k \<and> (512 * k + r) mod 512 = (r :: nat)"
  by simp

lemma disk_bytes_sector:
  assumes "length (f k) = 512" and "off + n \<le> 512"
  shows "take n (drop off (f k)) = disk_bytes f (512 * k + off) n"
proof (rule nth_equalityI)
  show "length (take n (drop off (f k))) = length (disk_bytes f (512 * k + off) n)"
    using assms by simp
next
  fix i assume "i < length (take n (drop off (f k)))"
  then have i: "i < n" by simp
  have "disk_bytes f (512 * k + off) n ! i = disk_byte f (512 * k + (off + i))"
    using i by (simp add: disk_bytes_def add.assoc)
  also have "\<dots> = f k ! (off + i)"
    using sector_div [of "off + i" k] i assms(2) by (simp add: disk_byte_def)
  finally show "take n (drop off (f k)) ! i = disk_bytes f (512 * k + off) n ! i"
    using i assms by simp
qed

lemma written_append:
  "written f a bs f' \<Longrightarrow> written f' (a + length bs) cs f'' \<Longrightarrow> written f a (bs @ cs) f''"
  by (auto simp: written_def nth_append add.assoc)

lemma written_Nil: "written f a [] f"
  by (auto simp: written_def)

lemma length_overlay: "off + length bs \<le> length tmp \<Longrightarrow> length (overlay tmp off bs) = length tmp"
  by (simp add: overlay_def)

lemma nth_overlay:
  assumes "off + length bs \<le> length tmp"
  shows "overlay tmp off bs ! i = (if off \<le> i \<and> i < off + length bs then bs ! (i - off) else tmp ! i)"
proof -
  have "drop (off + length bs) tmp ! (i - off - length bs) = tmp ! i" if "off + length bs \<le> i"
    using assms that by (subst nth_drop) simp_all
  then show ?thesis using assms by (auto simp: overlay_def nth_append)
qed

lemma written_sector:
  assumes "length (f k) = 512" and "off + length bs \<le> 512"
  shows "written f (512 * k + off) bs (f(k := overlay (f k) off bs))"
  unfolding written_def
proof
  fix x :: nat
  obtain q r where x: "x = 512 * q + r" and r: "r < 512"
    by (metis mult_div_mod_eq mod_less_divisor zero_less_numeral)
  have byte: "disk_byte g x = g q ! r" for g using sector_div [OF r, of q] by (simp add: disk_byte_def x)
  show "disk_byte (f(k := overlay (f k) off bs)) x =
      (if 512 * k + off \<le> x \<and> x < 512 * k + off + length bs then bs ! (x - (512 * k + off)) else disk_byte f x)"
  proof (cases "q = k")
    case True
    then have "512 * k + off \<le> x \<and> x < 512 * k + off + length bs \<longleftrightarrow> off \<le> r \<and> r < off + length bs"
      "x - (512 * k + off) = r - off"
      using x by auto
    then show ?thesis using True assms unfolding byte by (simp add: nth_overlay)
  next
    case False
    then have "\<not> (512 * k + off \<le> x \<and> x < 512 * k + off + length bs)"
      using x r assms(2) by linarith
    then show ?thesis using False unfolding byte by auto
  qed
qed

lemma overlay_whole: "length bs = length tmp \<Longrightarrow> overlay tmp 0 bs = bs"
  by (simp add: overlay_def)

text \<open>
  How \<open>readdisk\<close> cuts the range of \<open>sz\<close> bytes at offset \<open>off\<close> of sector \<open>k\<close>: \<open>count\<close> bytes of the first
  sector, \<open>n\<close> whole sectors and \<open>rest\<close> bytes of a last one.
\<close>

lemma range_parts:
  fixes off sz :: nat
  assumes "off < 512" and "0 < sz"
  defines "count \<equiv> min (512 - off) sz"
  defines "n \<equiv> (sz - count) div 512"
  defines "rest \<equiv> sz - (count + n * 512)"
  shows "off + count \<le> 512" and "count + (512 * n + rest) = sz" and "rest < 512"
    and "rest = 0 \<longleftrightarrow> count + n * 512 = sz" and "0 < n \<or> 0 < rest \<Longrightarrow> off + count = 512"
proof -
  have c: "count \<le> sz" by (simp add: count_def)
  show "off + count \<le> 512" using assms(1) by (simp add: count_def)
  show sum: "count + (512 * n + rest) = sz" and "rest < 512" "rest = 0 \<longleftrightarrow> count + n * 512 = sz"
    using c by (auto simp: rest_def n_def)
  show "off + count = 512" if "0 < n \<or> 0 < rest"
    using that sum assms(1) by (auto simp: count_def min_def split: if_splits)
qed

lemma disk_bytes_range:
  assumes len: "\<And>j. length (f j) = 512" and "off + count \<le> 512" and "rest < 512"
    and more: "0 < n \<or> 0 < rest \<Longrightarrow> off + count = 512"
  shows "disk_bytes f (512 * k + off) (count + (512 * n + rest)) =
    take count (drop off (f k)) @ disk_bytes f (512 * (k + 1)) (512 * n) @ take rest (f (k + 1 + n))"
proof -
  have "disk_bytes f (512 * k + off + count) (512 * n + rest)
      = disk_bytes f (512 * (k + 1)) (512 * n) @ disk_bytes f (512 * (k + 1 + n)) rest"
  proof (cases "0 < n \<or> 0 < rest")
    case True
    then have "512 * k + off + count = 512 * (k + 1)" "512 * (k + 1) + 512 * n = 512 * (k + 1 + n)"
      using more by simp_all
    then show ?thesis by (simp only: disk_bytes_add)
  qed simp
  then show ?thesis
    using disk_bytes_sector [of f k off count] disk_bytes_sector [of f "k + 1 + n" 0 rest] len assms(2,3)
    by (simp add: disk_bytes_add)
qed

context ata_device
begin

lemma read_sectors_spec:
  assumes "ok d" and "phase d = Idle" and "unat s + n \<le> nsect"
  shows "\<exists>d'. read_sectors io n s d = (Ok (disk_bytes (sect d) (512 * unat s) (512 * n)), d') \<and>
    ok d' \<and> phase d' = Idle \<and> sect d' = sect d"
  using assms
proof (induction n arbitrary: s d)
  case (Suc n)
  obtain d1 where d1: "readsect io s d = (Ok (sect d (unat s)), d1)" "ok d1" "phase d1 = Idle" "sect d1 = sect d"
    using readsect_spec [of d s] Suc.prems by auto
  have s: "unat (s + 1) + n \<le> nsect \<and> (n = 0 \<or> unat (s + 1) = unat s + 1)"
  proof (cases "n = 0")
    case False
    then have "unat s + 1 < 2 ^ 32" using Suc.prems(3) nsect_lba28 by simp
    then show ?thesis using Suc.prems(3) by (simp add: unat_word_ariths)
  next
    case True
    then show ?thesis using Suc.prems(3) nsect_lba28 by (simp add: unat_word_ariths)
  qed
  obtain d2 where d2: "read_sectors io n (s + 1) d1 =
        (Ok (disk_bytes (sect d) (512 * unat (s + 1)) (512 * n)), d2)" "ok d2" "phase d2 = Idle" "sect d2 = sect d"
    using Suc.IH [OF d1(2,3), of "s + 1"] s d1(4) by auto
  have "disk_bytes (sect d) (512 * unat s) (512 * Suc n) =
      sect d (unat s) @ disk_bytes (sect d) (512 * unat s + 512) (512 * n)"
    using disk_bytes_sector [of "sect d" "unat s" 0 512] sect_length [OF Suc.prems(1)]
      disk_bytes_add [of "sect d" "512 * unat s" 512 "512 * n"] by simp
  then show ?case using d1(1) d2 s by (auto simp: io_bind_def add.commute)
qed simp

lemma readdisk_spec:
  assumes "ok d" and "phase d = Idle" and "unat start + sz \<le> 512 * nsect"
  shows "\<exists>d'. readdisk io start sz d = (Ok (disk_bytes (sect d) (unat start) sz), d') \<and>
    ok d' \<and> phase d' = Idle \<and> sect d' = sect d"
proof (cases "sz = 0")
  case True
  then show ?thesis using assms by (simp add: readdisk_def)
next
  case False
  define k off where "k = unat start div 512" and "off = unat start mod 512"
  define count where "count = min (512 - off) sz"
  define n where "n = (sz - count) div 512"
  define rest where "rest = sz - (count + n * 512)"
  define s :: uint32 where "s = ucast (start div 512)"
  have a: "unat start = 512 * k + off" "off < 512" by (simp_all add: k_def off_def)
  note parts = range_parts [OF a(2), of sz, folded count_def, folded n_def, folded rest_def]
  have kn: "k < nsect" "k + 1 + n \<le> nsect" "0 < rest \<Longrightarrow> k + 1 + n < nsect"
    using assms(3) a False parts(2,5) by (auto simp: not_less)
  have s: "unat s = k"
    using kn(1) nsect_lba28 by (simp add: s_def unsigned_ucast_eq unat_div k_def take_bit_nat_eq_self)
  have s1: "unat (s + 1) = k + 1" "unat (s + 1 + of_nat n) = k + 1 + n"
    using s kn(2) nsect_lba28 by (simp_all add: unat_word_ariths unat_of_nat)
  obtain d1 where d1: "readsect io s d = (Ok (sect d k), d1)" "ok d1" "phase d1 = Idle" "sect d1 = sect d"
    using readsect_spec [OF assms(1,2), of s] s kn by auto
  obtain d2 where d2: "read_sectors io n (s + 1) d1 = (Ok (disk_bytes (sect d) (512 * (k + 1)) (512 * n)), d2)"
      "ok d2" "phase d2 = Idle" "sect d2 = sect d"
    using read_sectors_spec [OF d1(2,3), of "s + 1" n] s1 kn(2) d1(4) by auto
  have bound: "\<not> (unat start \<ge> DISKSIZE_MAX \<or> sz \<ge> DISKSIZE_MAX \<or> unat start + sz \<ge> DISKSIZE_MAX)"
    using assms(3) nsect_lba28 by (simp add: DISKSIZE_MAX_def SECTORSIZE_def)
  let ?got = "take count (drop off (sect d k)) @ disk_bytes (sect d) (512 * (k + 1)) (512 * n)"
  have run: "readdisk io start sz d = (if rest = 0 then (Ok ?got, d2)
      else io_bind (readsect io (s + 1 + of_nat n)) (\<lambda>buffer. io_return (?got @ take rest buffer)) d2)"
    using False bound d1(1) d2(1) parts(4)
    by (simp add: readdisk_def io_bind_def Let_def SECTORSIZE_def off_def [symmetric]
        count_def [symmetric] n_def [symmetric] s_def [symmetric] rest_def [symmetric])
  have split: "disk_bytes (sect d) (unat start) sz = ?got @ take rest (sect d (k + 1 + n))"
    using disk_bytes_range [of "sect d" off count rest n k] sect_length [OF assms(1)] parts False a(1) by simp
  show ?thesis
  proof (cases "rest = 0")
    case True
    then show ?thesis using run split d2 by simp
  next
    case False
    obtain d3 where "readsect io (s + 1 + of_nat n) d2 = (Ok (sect d (k + 1 + n)), d3)" "ok d3"
        "phase d3 = Idle" "sect d3 = sect d"
      using readsect_spec [OF d2(2,3), of "s + 1 + of_nat n"] s1 kn(3) False d2(4) by auto
    then show ?thesis using run split False by (simp add: io_bind_Ok)
  qed
qed

lemma update_sector_spec:
  assumes "ok d" and "phase d = Idle" and "unat s < nsect" and "off + length bs \<le> 512"
  shows "\<exists>d'. update_sector io s off bs d = (Ok (), d') \<and> ok d' \<and> phase d' = Idle \<and>
    written (sect d) (512 * unat s + off) bs (sect d')"
proof -
  obtain d1 where d1: "readsect io s d = (Ok (sect d (unat s)), d1)" "ok d1" "phase d1 = Idle" "sect d1 = sect d"
    using readsect_spec [OF assms(1-3)] by blast
  have l: "length (sect d (unat s)) = 512" using sect_length [OF assms(1)] .
  obtain d2 where "writesect io (overlay (sect d (unat s)) off bs) s d1 = (Ok (), d2)" "ok d2" "phase d2 = Idle"
      "sect d2 = (sect d)(unat s := overlay (sect d (unat s)) off bs)"
    using writesect_spec [OF d1(2,3) assms(3), of "overlay (sect d (unat s)) off bs"] length_overlay l assms(4) d1(4)
    by auto
  then show ?thesis
    using d1(1) written_sector [of "sect d" "unat s", OF l assms(4)] by (auto simp: update_sector_def io_bind_def)
qed

lemma write_sectors_spec:
  assumes "ok d" and "phase d = Idle" and "512 * unat s + length bs \<le> 512 * nsect"
  shows "\<exists>d'. write_sectors io bs s d = (Ok (drop (length bs div 512 * 512) bs, s + of_nat (length bs div 512)), d') \<and>
    ok d' \<and> phase d' = Idle \<and> written (sect d) (512 * unat s) (take (length bs div 512 * 512) bs) (sect d')"
  using assms
proof (induction "length bs" arbitrary: bs s d rule: less_induct)
  case less
  show ?case
  proof (cases "512 \<le> length bs")
    case False
    then have "length bs div 512 = 0" by simp
    then show ?thesis
      using False less.prems(1,2) by (subst write_sectors.simps) (simp add: SECTORSIZE_def written_Nil)
  next
    case True
    define n where "n = (length bs - 512) div 512"
    have n: "length bs div 512 = Suc n" using True by (simp add: n_def le_div_geq)
    have s: "unat s < nsect" using less.prems(3) True by simp
    then have s1: "unat (s + 1) = unat s + 1" using nsect_lba28 by (simp add: unat_word_ariths)
    obtain d1 where d1: "writesect io (take 512 bs) s d = (Ok (), d1)" "ok d1" "phase d1 = Idle"
        "sect d1 = (sect d)(unat s := take 512 bs)"
      using writesect_spec [OF less.prems(1,2) s, of "take 512 bs"] True by auto
    have w1: "written (sect d) (512 * unat s) (take 512 bs) (sect d1)"
      using written_sector [of "sect d" "unat s" 0 "take 512 bs"] sect_length [OF less.prems(1)] True d1(4)
      by (simp add: overlay_whole)
    obtain d2 where d2: "write_sectors io (drop 512 bs) (s + 1) d1 =
          (Ok (drop (n * 512) (drop 512 bs), s + 1 + of_nat n), d2)" "ok d2" "phase d2 = Idle"
        "written (sect d1) (512 * unat (s + 1)) (take (n * 512) (drop 512 bs)) (sect d2)"
    proof -
      have "length (drop 512 bs) < length bs" using True by (cases bs) simp_all
      from less.hyps [OF this d1(2,3), of "s + 1"] less.prems(3) True s1 that
      show thesis by (auto simp: n_def)
    qed
    have "take (length bs div 512 * 512) bs = take 512 bs @ take (n * 512) (drop 512 bs)"
      using n True by (simp add: take_add [symmetric])
    moreover have "written (sect d) (512 * unat s) (take 512 bs @ take (n * 512) (drop 512 bs)) (sect d2)"
    proof (rule written_append [OF w1])
      have "512 * unat (s + 1) = 512 * unat s + length (take 512 bs)" using s1 True by simp
      then show "written (sect d1) (512 * unat s + length (take 512 bs)) (take (n * 512) (drop 512 bs)) (sect d2)"
        using d2(4) by simp
    qed
    ultimately show ?thesis
      using d1(1) d2(1-3) True n
      by (subst write_sectors.simps) (auto simp: io_bind_def SECTORSIZE_def algebra_simps)
  qed
qed

lemma write_tail_spec:
  assumes "ok d" and "phase d = Idle" and "512 * unat s + length bs \<le> 512 * nsect"
  shows "\<exists>d'. io_bind (write_sectors io bs s)
      (\<lambda>(bs, s). if bs \<noteq> [] then update_sector io s 0 bs else io_return ()) d = (Ok (), d') \<and>
    ok d' \<and> phase d' = Idle \<and> written (sect d) (512 * unat s) bs (sect d')"
proof -
  define n where "n = length bs div 512"
  obtain d1 where d1: "write_sectors io bs s d = (Ok (drop (n * 512) bs, s + of_nat n), d1)" "ok d1" "phase d1 = Idle"
      "written (sect d) (512 * unat s) (take (n * 512) bs) (sect d1)"
    using write_sectors_spec [OF assms] unfolding n_def by blast
  have nb: "n * 512 \<le> length bs" by (simp add: n_def)
  show ?thesis
  proof (cases "drop (n * 512) bs = []")
    case True
    then show ?thesis using d1 by (auto simp: io_bind_def)
  next
    case False
    have lt: "length bs - n * 512 < 512" "0 < length bs - n * 512" using False by (auto simp: n_def)
    then have k: "unat s + n < nsect" using assms(3) nb by linarith
    then have sn: "unat (s + of_nat n) = unat s + n"
      using nsect_lba28 by (simp add: unat_word_ariths unat_of_nat)
    obtain d2 where "update_sector io (s + of_nat n) 0 (drop (n * 512) bs) d1 = (Ok (), d2)" "ok d2" "phase d2 = Idle"
        "written (sect d1) (512 * (unat s + n)) (drop (n * 512) bs) (sect d2)"
      using update_sector_spec [OF d1(2,3), of "s + of_nat n" 0 "drop (n * 512) bs"] sn k lt by auto
    then show ?thesis
      using d1(1) False written_append [OF d1(4), of "drop (n * 512) bs"] nb
      by (auto simp: io_bind_def min_def algebra_simps)
  qed
qed

lemma writedisk_spec:
  assumes "ok d" and "phase d = Idle" and "unat start + length bs \<le> 512 * nsect"
  shows "\<exists>d'. writedisk io bs start d = (Ok (), d') \<and> ok d' \<and> phase d' = Idle \<and>
    written (sect d) (unat start) bs (sect d')"
proof (cases "bs = []")
  case True
  then show ?thesis using assms by (auto simp: writedisk_def written_Nil)
next
  case False
  define k off where "k = unat start div 512" and "off = unat start mod 512"
  define n where "n = (if off \<noteq> 0 then min (512 - off) (length bs) else 0)"
  define s :: uint32 where "s = ucast (start div 512)"
  have a: "unat start = 512 * k + off" "off < 512" by (simp_all add: k_def off_def)
  have kn: "k < nsect" using assms(3) a(1) False by (simp add: not_less [symmetric]) (cases bs, auto)
  have s: "unat s = k"
    using kn nsect_lba28 by (simp add: s_def unsigned_ucast_eq unat_div k_def take_bit_nat_eq_self)
  have bound: "\<not> (unat start \<ge> DISKSIZE_MAX \<or> length bs \<ge> DISKSIZE_MAX \<or> unat start + length bs > DISKSIZE_MAX)"
    using assms(3) nsect_lba28 False by (simp add: DISKSIZE_MAX_def SECTORSIZE_def)
  have run: "writedisk io bs start d =
      io_bind (if off \<noteq> 0 then update_sector io s off (take n bs) else io_return ()) (\<lambda>_.
      io_bind (write_sectors io (drop n bs) (if off \<noteq> 0 then s + 1 else s))
        (\<lambda>(bs, s). if bs \<noteq> [] then update_sector io s 0 bs else io_return ())) d"
    using False bound
    by (simp add: writedisk_def Let_def SECTORSIZE_def off_def [symmetric] n_def s_def [symmetric])
  show ?thesis
  proof (cases "off = 0")
    case True
    then show ?thesis
      using write_tail_spec [OF assms(1,2), of s bs] run s a assms(3) by (simp add: n_def)
  next
    case nz: False
    obtain d1 where d1: "update_sector io s off (take n bs) d = (Ok (), d1)" "ok d1" "phase d1 = Idle"
        "written (sect d) (unat start) (take n bs) (sect d1)"
    proof -
      have "off + length (take n bs) \<le> 512" using a(2) nz by (simp add: n_def)
      from update_sector_spec [OF assms(1,2) _ this, of s] s kn a(1) that show thesis by auto
    qed
    show ?thesis
    proof (cases "n = length bs")
      case True
      then show ?thesis using run nz d1 write_sectors.simps [of io "[]"]
        by (simp add: io_bind_def SECTORSIZE_def)
    next
      case more: False
      have n: "off + n = 512" "n < length bs" using nz more a(2) by (auto simp: n_def min_def split: if_splits)
      have s1: "unat (s + 1) = k + 1" using s kn nsect_lba28 by (simp add: unat_word_ariths)
      have pos: "512 * (k + 1) = unat start + n" using a(1) n(1) by simp
      obtain d2 where "io_bind (write_sectors io (drop n bs) (s + 1))
          (\<lambda>(bs, s). if bs \<noteq> [] then update_sector io s 0 bs else io_return ()) d1 = (Ok (), d2)"
          "ok d2" "phase d2 = Idle" "written (sect d1) (unat start + n) (drop n bs) (sect d2)"
        using write_tail_spec [OF d1(2,3), of "s + 1" "drop n bs"] s1 pos n assms(3) by auto
      then show ?thesis
        using run nz d1(1) written_append [OF d1(4), of "drop n bs"] n by (auto simp: io_bind_Ok min_def)
    qed
  qed
qed

end


section \<open>The interface of the file system to its disk\<close>

text \<open>
  What the file system relies on: in range, reading returns the contents and writing replaces
  exactly the bytes written. The kernel's callbacks provide it on every ATA controller.
\<close>

definition content_upd :: "(nat \<Rightarrow> byte) \<Rightarrow> nat \<Rightarrow> byte list \<Rightarrow> nat \<Rightarrow> byte" where
  "content_upd c a bs = (\<lambda>x. if a \<le> x \<and> x < a + length bs then bs ! (x - a) else c x)"

definition content_read :: "(nat \<Rightarrow> byte) \<Rightarrow> nat \<Rightarrow> nat \<Rightarrow> byte list" where
  "content_read c a n = map c [a..<a + n]"

locale byte_store =
  fixes rd :: "uint64 \<Rightarrow> nat \<Rightarrow> ('d, byte list) io" and wr :: "byte list \<Rightarrow> uint64 \<Rightarrow> ('d, unit) io"
    and content :: "'d \<Rightarrow> nat \<Rightarrow> byte" and good :: "'d \<Rightarrow> bool" and cap :: nat
  assumes rd_ok: "good d \<Longrightarrow> unat a + n \<le> cap \<Longrightarrow>
      \<exists>d'. rd a n d = (Ok (content_read (content d) (unat a) n), d') \<and> good d' \<and> content d' = content d"
    and wr_ok: "good d \<Longrightarrow> unat a + length bs \<le> cap \<Longrightarrow>
      \<exists>d'. wr bs a d = (Ok (), d') \<and> good d' \<and> content d' = content_upd (content d) (unat a) bs"

lemma unat_fs_offset:
  fixes a :: uint64
  assumes "unat a + n \<le> 512 * nsect - FILESYSTEM_DISK_OFFSET" and "nsect \<le> 2 ^ 28"
    and "FILESYSTEM_DISK_OFFSET \<le> 512 * nsect"
  shows "unat (a + of_nat FILESYSTEM_DISK_OFFSET) = unat a + FILESYSTEM_DISK_OFFSET"
  using assms by (simp add: FILESYSTEM_DISK_OFFSET_def unat_word_ariths)

locale fs_disk = ata_device +
  assumes nsect_fs: "FILESYSTEM_DISK_OFFSET \<le> 512 * nsect"
begin

lemma fs_read_disk_spec:
  assumes "ok d \<and> phase d = Idle" and "unat a + n \<le> 512 * nsect - FILESYSTEM_DISK_OFFSET"
  shows "\<exists>d'. fs_read_disk io a n d =
      (Ok (content_read (\<lambda>x. disk_byte (sect d) (x + FILESYSTEM_DISK_OFFSET)) (unat a) n), d') \<and>
    (ok d' \<and> phase d' = Idle) \<and> sect d' = sect d"
proof -
  note u = unat_fs_offset [OF assms(2) nsect_lba28 nsect_fs]
  have "unat (a + of_nat FILESYSTEM_DISK_OFFSET) + n \<le> 512 * nsect" using u assms(2) nsect_fs by simp
  then obtain d' where "readdisk io (a + of_nat FILESYSTEM_DISK_OFFSET) n d =
        (Ok (disk_bytes (sect d) (unat a + FILESYSTEM_DISK_OFFSET) n), d')" "ok d'" "phase d' = Idle" "sect d' = sect d"
    using readdisk_spec [of d "a + of_nat FILESYSTEM_DISK_OFFSET" n] assms(1) u by auto
  moreover have "disk_bytes (sect d) (unat a + FILESYSTEM_DISK_OFFSET) n =
      content_read (\<lambda>x. disk_byte (sect d) (x + FILESYSTEM_DISK_OFFSET)) (unat a) n"
    by (rule nth_equalityI) (simp_all add: disk_bytes_def content_read_def algebra_simps)
  ultimately show ?thesis by (simp add: fs_read_disk_def to_eio_def)
qed

lemma fs_write_disk_spec:
  assumes "ok d \<and> phase d = Idle" and "unat a + length bs \<le> 512 * nsect - FILESYSTEM_DISK_OFFSET"
  shows "\<exists>d'. fs_write_disk io bs a d = (Ok (), d') \<and> (ok d' \<and> phase d' = Idle) \<and>
    (\<lambda>x. disk_byte (sect d') (x + FILESYSTEM_DISK_OFFSET)) =
      content_upd (\<lambda>x. disk_byte (sect d) (x + FILESYSTEM_DISK_OFFSET)) (unat a) bs"
proof -
  note u = unat_fs_offset [OF assms(2) nsect_lba28 nsect_fs]
  have "unat (a + of_nat FILESYSTEM_DISK_OFFSET) + length bs \<le> 512 * nsect" using u assms(2) nsect_fs by simp
  then obtain d' where "writedisk io bs (a + of_nat FILESYSTEM_DISK_OFFSET) d = (Ok (), d')" "ok d'"
      "phase d' = Idle" "written (sect d) (unat a + FILESYSTEM_DISK_OFFSET) bs (sect d')"
    using writedisk_spec [of d "a + of_nat FILESYSTEM_DISK_OFFSET" bs] assms(1) u by auto
  then show ?thesis by (auto simp: fs_write_disk_def to_eio_def written_def content_upd_def)
qed

end

sublocale fs_disk \<subseteq> byte_store "fs_read_disk io" "fs_write_disk io"
  "\<lambda>d x. disk_byte (sect d) (x + FILESYSTEM_DISK_OFFSET)" "\<lambda>d. ok d \<and> phase d = Idle"
  "512 * nsect - FILESYSTEM_DISK_OFFSET"
proof
  fix d :: 'a and a :: uint64 and n :: nat
  assume "ok d \<and> phase d = Idle" and "unat a + n \<le> 512 * nsect - FILESYSTEM_DISK_OFFSET"
  from fs_read_disk_spec [OF this]
  show "\<exists>d'. fs_read_disk io a n d =
      (Ok (content_read (\<lambda>x. disk_byte (sect d) (x + FILESYSTEM_DISK_OFFSET)) (unat a) n), d') \<and>
    (ok d' \<and> phase d' = Idle) \<and> (\<lambda>x. disk_byte (sect d') (x + FILESYSTEM_DISK_OFFSET)) =
      (\<lambda>x. disk_byte (sect d) (x + FILESYSTEM_DISK_OFFSET))"
    by auto
next
  fix d :: 'a and a :: uint64 and bs :: "byte list"
  assume "ok d \<and> phase d = Idle" and "unat a + length bs \<le> 512 * nsect - FILESYSTEM_DISK_OFFSET"
  from fs_write_disk_spec [OF this]
  show "\<exists>d'. fs_write_disk io bs a d = (Ok (), d') \<and> (ok d' \<and> phase d' = Idle) \<and>
    (\<lambda>x. disk_byte (sect d') (x + FILESYSTEM_DISK_OFFSET)) =
      content_upd (\<lambda>x. disk_byte (sect d) (x + FILESYSTEM_DISK_OFFSET)) (unat a) bs" .
qed


section \<open>A controller\<close>

text \<open>
  A controller that meets the contract: it stays busy for two status reads after a command and
  after a written sector, and then reports ready, with DRQ during a transfer. The machine also has
  a keyboard whose data register always holds the code of the key \<open>a\<close>.
\<close>

record ata_sim =
  sim_sect :: "nat \<Rightarrow> byte list"
  sim_reg :: "uint16 \<Rightarrow> byte"
  sim_phase :: ata_phase
  sim_busy :: nat

definition sim_inb :: "uint16 \<Rightarrow> ata_sim \<Rightarrow> byte \<times> ata_sim" where
  "sim_inb p d =
     (if p = 0x1F7
      then if sim_busy d > 0 then (0x80, d\<lparr>sim_busy := sim_busy d - 1\<rparr>)
           else (if sim_phase d = Idle then 0x40 else 0x48, d)
      else if p = 0x64 then (0x01, d)
      else if p = 0x60 then (0x1E, d)
      else (sim_reg d p, d))"

definition sim_outb :: "uint16 \<Rightarrow> byte \<Rightarrow> ata_sim \<Rightarrow> ata_sim" where
  "sim_outb p v d =
     (if p = 0x1F7
      then (case ata_lba (sim_reg d) of
              None \<Rightarrow> d
            | Some l \<Rightarrow> if v = 0x20 then d\<lparr>sim_phase := DataIn l, sim_busy := 2\<rparr>
                        else if v = 0x30 then d\<lparr>sim_phase := DataOut l, sim_busy := 2\<rparr> else d)
      else d\<lparr>sim_reg := (sim_reg d)(p := v)\<rparr>)"

definition sim_insl :: "uint16 \<Rightarrow> nat \<Rightarrow> ata_sim \<Rightarrow> byte list \<times> ata_sim" where
  "sim_insl p n d = (case sim_phase d of
     DataIn l \<Rightarrow> (take (4 * n) (sim_sect d l), d\<lparr>sim_phase := Idle\<rparr>) | _ \<Rightarrow> (replicate (4 * n) 0, d))"

definition sim_outsl :: "uint16 \<Rightarrow> byte list \<Rightarrow> ata_sim \<Rightarrow> ata_sim" where
  "sim_outsl p bs d = (case sim_phase d of
     DataOut l \<Rightarrow> d\<lparr>sim_sect := (sim_sect d)(l := bs), sim_phase := Idle, sim_busy := 2\<rparr> | _ \<Rightarrow> d)"

definition sim_ports :: "ata_sim ports" where
  "sim_ports = \<lparr>inb = sim_inb, outb = sim_outb, insl = sim_insl, outsl = sim_outsl\<rparr>"

definition sim_ok :: "ata_sim \<Rightarrow> bool" where
  "sim_ok d \<longleftrightarrow> (\<forall>k. length (sim_sect d k) = 512)"

interpretation sim: fs_disk sim_ports sim_sect sim_reg sim_phase sim_busy sim_ok 65536
  by unfold_locales
    (auto simp: sim_ok_def sim_ports_def sim_inb_def sim_outb_def sim_insl_def sim_outsl_def
      FILESYSTEM_DISK_OFFSET_def split: if_splits)

definition blank_disk :: ata_sim where
  "blank_disk = \<lparr>sim_sect = \<lambda>_. replicate 512 0, sim_reg = \<lambda>_. 0, sim_phase = Idle, sim_busy = 0\<rparr>"

lemma blank_disk_ok: "sim_ok blank_disk \<and> sim_phase blank_disk = Idle"
  by (simp add: blank_disk_def sim_ok_def)

section \<open>Properties\<close>

text \<open>
  C12: Writing a range of bytes and reading any range back, at any alignment: on a controller that meets the ATA
  contract the driver's polling loops end, \<open>writedisk\<close> succeeds, and \<open>readdisk\<close> then returns
  the written bytes inside the written range and the old contents outside it. The ranges lie on
  the disk, whose sectors have 28-bit numbers.
\<close>

theorem writedisk_readdisk:
  assumes "ata_device io sect reg phase busy ok nsect" and "ok d" and "phase d = Idle"
    and "unat a + length bs \<le> 512 * nsect" and "unat b + n \<le> 512 * nsect"
  shows "\<exists>d1 d2. writedisk io bs a d = (Ok (), d1) \<and>
    readdisk io b n d1 = (Ok (content_read (content_upd (disk_byte (sect d)) (unat a) bs) (unat b) n), d2)"
proof -
  obtain d1 where d1: "writedisk io bs a d = (Ok (), d1)" "ok d1" "phase d1 = Idle"
      "written (sect d) (unat a) bs (sect d1)"
    using ata_device.writedisk_spec [OF assms(1-4)] by blast
  obtain d2 where d2: "readdisk io b n d1 = (Ok (disk_bytes (sect d1) (unat b) n), d2)"
    using ata_device.readdisk_spec [OF assms(1) d1(2,3) assms(5)] by blast
  have "disk_byte (sect d1) = content_upd (disk_byte (sect d)) (unat a) bs"
    using d1(4) by (auto simp: written_def content_upd_def)
  then show ?thesis using d1(1) d2 by (auto simp: disk_bytes_def content_read_def)
qed

theorem writedisk_readdisk_witness:
  "\<exists>d1 d2. writedisk sim_ports [1, 2, 3] 511 blank_disk = (Ok (), d1) \<and>
     readdisk sim_ports 510 5 d1 = (Ok [0, 1, 2, 3, 0], d2)"
proof -
  have "ata_device sim_ports sim_sect sim_reg sim_phase sim_busy sim_ok 65536"
    by (rule sim.ata_device_axioms)
  from writedisk_readdisk [OF this, of blank_disk 511 "[1, 2, 3]" 510 5] blank_disk_ok
  show ?thesis
    by (simp add: content_read_def content_upd_def disk_byte_def blank_disk_def upt_rec)
qed

text \<open>
  The sector number is a 32-bit value and \<open>DISKSIZE_MAX\<close> admits all of them, but only 28 bits fit
  in the task file: bit 28 of the number becomes the drive select bit.
\<close>

lemma sector_2_28_not_addressable:
  assumes "r 0x1F6 = ucast (drop_bit 24 (0x10000000 :: uint32) OR 0xE0)"
  shows "ata_lba r = None"
  using assms by (simp add: ata_lba_def)

end
