(* ===== verification/Filesystem.thy ===== *)
theory Filesystem
  imports AES_Correct Paths Disk
begin

unbundle bit_operations_syntax

text \<open>
  The encrypted file system of \<^verbatim>\<open>lib-filesystem/filesystem.c\<close>. The disk and the random generator are the
  callbacks of the descriptor (\<open>fsdr\<close>, \<open>fsdw\<close>, \<open>fsrng\<close>), acting on the device state. Structures are
  read from and written to the disk as their C memory image, so inodes and tree nodes come with
  their byte encodings, padding included. A local buffer that a callback fills is the value it
  returns.
\<close>

section \<open>Constants and structures\<close>

definition ENOENT :: int where "ENOENT = 2"
definition EEXIST :: int where "EEXIST = 17"
definition EINVAL :: int where "EINVAL = 22"
definition ENOSPC :: int where "ENOSPC = 28"
definition ENAMETOOLONG :: int where "ENAMETOOLONG = 36"

lemmas errno_defs = ENOENT_def EIO_def EEXIST_def EINVAL_def ENOSPC_def ENAMETOOLONG_def

definition METADATA_SIZE :: nat where "METADATA_SIZE = 12"
definition BLOCK_SIZE :: nat where "BLOCK_SIZE = 4096"
definition FS_KEY_SIZE :: nat where "FS_KEY_SIZE = 256"
definition FS_IV_SIZE :: nat where "FS_IV_SIZE = 16"
definition FS_IO_MAX_SIZE :: nat where "FS_IO_MAX_SIZE = 0x7FFFFFFFFFFFFFFF"
definition NAME_SIZE :: nat where "NAME_SIZE = 32"
definition MAX_CHILDREN :: nat where "MAX_CHILDREN = 32"
definition NODE_SIZE :: nat where "NODE_SIZE = 1160"
definition INODE_ENTRY_SIZE :: nat where "INODE_ENTRY_SIZE = 304"

lemmas fs_consts = METADATA_SIZE_def BLOCK_SIZE_def FS_KEY_SIZE_def FS_IV_SIZE_def NAME_SIZE_def
  MAX_CHILDREN_def NODE_SIZE_def INODE_ENTRY_SIZE_def FS_IO_MAX_SIZE_def

definition SIZE_TO_BLOCK :: "uint64 \<Rightarrow> uint32" where
  "SIZE_TO_BLOCK x = ucast ((x + of_nat BLOCK_SIZE - 1) div of_nat BLOCK_SIZE)"

record fs_metadata =
  m_inode_count :: uint32
  m_block_count :: uint32
  m_node_count :: uint32

record 'd fs_descriptor =
  fsdr :: "uint64 \<Rightarrow> nat \<Rightarrow> ('d, byte list) io"
  fsdw :: "byte list \<Rightarrow> uint64 \<Rightarrow> ('d, unit) io"
  fsrng :: "nat \<Rightarrow> ('d, byte list) io"
  metadata :: fs_metadata
  avail_block_table_offset :: uint64
  inode_table_offset :: uint64
  block_usage_offset :: uint64
  tree_usage_offset :: uint64
  tree_offset :: uint64
  data_offset :: uint64

text \<open>The two padding fields are the bytes that the alignment of \<open>size\<close> and \<open>cipher_iv\<close> inserts.\<close>

record fs_inode_entry =
  i_ref :: byte
  i_pad1 :: "byte list"
  i_size :: uint64
  i_start_block :: uint32
  i_block_count :: uint32
  i_cipher_key :: "byte list"
  i_pad2 :: "byte list"
  i_cipher_iv :: uint128

definition enc_inode :: "fs_inode_entry \<Rightarrow> byte list" where
  "enc_inode e = i_ref e # i_pad1 e @ le_of_word 8 (i_size e) @ le_of_word 4 (i_start_block e)
     @ le_of_word 4 (i_block_count e) @ i_cipher_key e @ i_pad2 e @ le_of_word 16 (i_cipher_iv e)"

definition dec_inode :: "byte list \<Rightarrow> fs_inode_entry" where
  "dec_inode bs = \<lparr>i_ref = hd bs, i_pad1 = take 7 (drop 1 bs), i_size = word_of_le (take 8 (drop 8 bs)),
     i_start_block = word_of_le (take 4 (drop 16 bs)), i_block_count = word_of_le (take 4 (drop 20 bs)),
     i_cipher_key = take 256 (drop 24 bs), i_pad2 = take 8 (drop 280 bs),
     i_cipher_iv = word_of_le (take 16 (drop 288 bs))\<rparr>"

record fd_node_child =
  c_name :: "byte list"
  c_index :: uint32

record fs_node =
  n_value :: uint32
  n_children_count :: uint32
  n_children :: "fd_node_child list"

definition enc_child :: "fd_node_child \<Rightarrow> byte list" where
  "enc_child c = c_name c @ le_of_word 4 (c_index c)"

definition dec_child :: "byte list \<Rightarrow> fd_node_child" where
  "dec_child bs = \<lparr>c_name = take 32 bs, c_index = word_of_le (take 4 (drop 32 bs))\<rparr>"

definition enc_node :: "fs_node \<Rightarrow> byte list" where
  "enc_node n = le_of_word 4 (n_value n) @ le_of_word 4 (n_children_count n)
     @ concat (map enc_child (n_children n))"

definition dec_node :: "byte list \<Rightarrow> fs_node" where
  "dec_node bs = \<lparr>n_value = word_of_le (take 4 bs), n_children_count = word_of_le (take 4 (drop 4 bs)),
     n_children = map (\<lambda>i. dec_child (take 36 (drop (8 + 36 * i) bs))) [0..<MAX_CHILDREN]\<rparr>"

text \<open>The structures that \<open>memset(&entry, 0, ...)\<close> and \<open>memset(&node, 0, ...)\<close> leave.\<close>

definition zero_inode :: fs_inode_entry where
  "zero_inode = dec_inode (replicate INODE_ENTRY_SIZE 0)"

definition zero_node :: fs_node where
  "zero_node = dec_node (replicate NODE_SIZE 0)"

section \<open>Inodes\<close>

definition inode_addr :: "'d fs_descriptor \<Rightarrow> uint32 \<Rightarrow> uint64" where
  "inode_addr fs ino = inode_table_offset fs + ucast ino * of_nat INODE_ENTRY_SIZE"

definition read_inode :: "'d fs_descriptor \<Rightarrow> uint64 \<Rightarrow> ('d, fs_inode_entry) io" where
  "read_inode fs a = io_bind (fsdr fs a INODE_ENTRY_SIZE) (\<lambda>bs. io_return (dec_inode bs))"

text \<open>
  The loop of \<open>unref_inode\<close> over the blocks of the file comes after the entry was cleared, so
  that it has no iteration; one would read 4096 bytes from the one-byte object \<open>ZERO\<close>.
\<close>

definition unref_inode :: "'d fs_descriptor \<Rightarrow> uint32 \<Rightarrow> ('d, unit) io" where
  "unref_inode fs ino =
     io_bind (read_inode fs (inode_addr fs ino)) (\<lambda>entry.
     io_bind (io_assert (i_ref entry > 0)) (\<lambda>_.
     let entry = entry\<lparr>i_ref := i_ref entry - 1\<rparr>;
         entry' = (if i_ref entry = 0 then zero_inode else entry)
     in io_bind (if i_ref entry = 0 \<and> i_block_count entry' \<noteq> 0 then io_stuck else io_return ()) (\<lambda>_.
        fsdw fs (enc_inode entry') (inode_addr fs ino))))"

primrec search_inode_loop :: "nat \<Rightarrow> 'd fs_descriptor \<Rightarrow> uint32 \<Rightarrow> ('d, uint32) io" where
  "search_inode_loop 0 fs i = io_fail (- ENOSPC)"
| "search_inode_loop (Suc n) fs i =
     io_bind (fsdr fs (inode_addr fs i) 1) (\<lambda>used.
       if hd used = 0 then io_return i else search_inode_loop n fs (i + 1))"

definition search_available_inode :: "'d fs_descriptor \<Rightarrow> ('d, uint32) io" where
  "search_available_inode fs = search_inode_loop (unat (m_inode_count (metadata fs)) - 1) fs 1"

definition fs_alloc_inode :: "'d fs_descriptor \<Rightarrow> ('d, uint32) io" where
  "fs_alloc_inode fs =
     io_bind (search_available_inode fs) (\<lambda>inode.
     io_bind (read_inode fs (inode_addr fs inode)) (\<lambda>entry.
     io_bind (fsdw fs (enc_inode (entry\<lparr>i_ref := i_ref entry + 1\<rparr>)) (inode_addr fs inode)) (\<lambda>_.
     io_return inode)))"

section \<open>Blocks\<close>

definition block_addr :: "'d fs_descriptor \<Rightarrow> uint32 \<Rightarrow> uint64" where
  "block_addr fs index = data_offset fs + ucast (index * of_nat BLOCK_SIZE)"

definition decrypt_block :: "'d fs_descriptor \<Rightarrow> uint32 \<Rightarrow> AES_ctx \<Rightarrow> ('d, byte list \<times> AES_ctx) io" where
  "decrypt_block fs index ctx =
     io_bind (fsdr fs (block_addr fs index) BLOCK_SIZE) (\<lambda>buffer.
       io_return (AES_CTR_xcrypt_buffer ctx buffer BLOCK_SIZE))"

text \<open>
  \<open>encrypt_block\<close> encrypts the first block of the caller's buffer in place: the result is the
  buffer as it is left, and the context.
\<close>

definition encrypt_block ::
  "'d fs_descriptor \<Rightarrow> uint32 \<Rightarrow> AES_ctx \<Rightarrow> byte list \<Rightarrow> ('d, byte list \<times> AES_ctx) io" where
  "encrypt_block fs index ctx buffer =
     (case AES_CTR_xcrypt_buffer ctx buffer BLOCK_SIZE of (buffer, ctx) \<Rightarrow>
      io_bind (fsdw fs (take BLOCK_SIZE buffer) (block_addr fs index)) (\<lambda>_.
      io_bind (fsdw fs [1] (block_usage_offset fs + ucast index)) (\<lambda>_.
      io_return (buffer, ctx))))"

text \<open>
  The loop of \<open>search_free_blocks\<close> advances \<open>start_block + count\<close> by one in every iteration and
  stops at \<open>block_count\<close>; the first argument bounds the iterations by \<open>block_count\<close>.
\<close>

primrec free_blocks_loop ::
  "nat \<Rightarrow> 'd fs_descriptor \<Rightarrow> uint32 \<Rightarrow> uint32 \<Rightarrow> uint32 \<Rightarrow> uint64 \<Rightarrow> ('d, uint32 \<times> uint32) io" where
  "free_blocks_loop 0 fs n start_block count a = io_return (start_block, count)"
| "free_blocks_loop (Suc k) fs n start_block count a =
     (if start_block + count < m_block_count (metadata fs) \<and> count < n
      then io_bind (fsdr fs a 1) (\<lambda>dest.
             if hd dest \<noteq> 0
             then free_blocks_loop k fs n (start_block + (count + 1)) 0 (a + 1)
             else free_blocks_loop k fs n start_block (count + 1) (a + 1))
      else io_return (start_block, count))"

definition search_free_blocks :: "'d fs_descriptor \<Rightarrow> uint32 \<Rightarrow> ('d, uint32) io" where
  "search_free_blocks fs n =
     io_bind (free_blocks_loop (unat (m_block_count (metadata fs))) fs n 0 0 (avail_block_table_offset fs))
       (\<lambda>(start_block, count). if count = n then io_return start_block else io_fail (- ENOSPC))"

text \<open>\<open>addr\<close> and the index \<open>i\<close> both advance, so that iteration \<open>i\<close> reads the entry \<open>2 i\<close>.\<close>

primrec blocks_available_loop ::
  "nat \<Rightarrow> 'd fs_descriptor \<Rightarrow> uint64 \<Rightarrow> uint32 \<Rightarrow> uint32 \<Rightarrow> ('d, bool) io" where
  "blocks_available_loop 0 fs a start_block i = io_return True"
| "blocks_available_loop (Suc n) fs a start_block i =
     io_bind (fsdr fs (a + scast start_block + ucast i) 1) (\<lambda>dest.
       if hd dest \<noteq> 0 then io_return False
       else blocks_available_loop n fs (a + 1) start_block (i + 1))"

definition are_blocks_avaiblable :: "'d fs_descriptor \<Rightarrow> uint32 \<Rightarrow> uint32 \<Rightarrow> ('d, bool) io" where
  "are_blocks_avaiblable fs start_block n =
     blocks_available_loop (unat n) fs (avail_block_table_offset fs) start_block 0"

definition set_availability :: "'d fs_descriptor \<Rightarrow> uint32 \<Rightarrow> byte \<Rightarrow> ('d, unit) io" where
  "set_availability fs block value = fsdw fs [value] (avail_block_table_offset fs + scast block)"

text \<open>The contents of a context that has not been initialised.\<close>

definition uninit_ctx :: AES_ctx where
  "uninit_ctx = \<lparr>RoundKey = replicate AES_keyExpSize 0, Iv = replicate AES_BLOCKLEN 0\<rparr>"

definition block_ctx :: "byte list \<Rightarrow> uint128 \<Rightarrow> AES_ctx" where
  "block_ctx key iv = AES_init_ctx_iv uninit_ctx key (le_of_word 16 iv)"

primrec copy_block_loop ::
  "nat \<Rightarrow> 'd fs_descriptor \<Rightarrow> uint32 \<Rightarrow> AES_ctx \<Rightarrow> uint32 \<Rightarrow> AES_ctx \<Rightarrow> ('d, unit) io" where
  "copy_block_loop 0 fs src ctx_dec dst ctx_enc = io_return ()"
| "copy_block_loop (Suc n) fs src ctx_dec dst ctx_enc =
     io_bind (decrypt_block fs src ctx_dec) (\<lambda>(buf, ctx_dec).
     io_bind (encrypt_block fs dst ctx_enc buf) (\<lambda>(buf, ctx_enc).
     copy_block_loop n fs (src + 1) ctx_dec (dst + 1) ctx_enc))"

definition copy_block ::
  "'d fs_descriptor \<Rightarrow> uint32 \<Rightarrow> byte list \<Rightarrow> uint128 \<Rightarrow> uint32 \<Rightarrow> byte list \<Rightarrow> uint128 \<Rightarrow> uint32 \<Rightarrow> ('d, unit) io"
  where
  "copy_block fs src_index src_key src_iv dst_index dst_key dst_iv n =
     copy_block_loop (unat n) fs src_index (block_ctx src_key src_iv) dst_index (block_ctx dst_key dst_iv)"

section \<open>Initialisation\<close>

text \<open>\<open>avail_block_table_offset\<close> keeps the value it had in the descriptor.\<close>

definition fs_init ::
  "'d fs_descriptor \<Rightarrow> (uint64 \<Rightarrow> nat \<Rightarrow> ('d, byte list) io) \<Rightarrow> (byte list \<Rightarrow> uint64 \<Rightarrow> ('d, unit) io) \<Rightarrow>
   (nat \<Rightarrow> ('d, byte list) io) \<Rightarrow> ('d, 'd fs_descriptor) io" where
  "fs_init fs rd wr rng =
     io_bind (rd 0 METADATA_SIZE) (\<lambda>_.
     let md = \<lparr>m_inode_count = 16, m_block_count = 16, m_node_count = 16\<rparr>;
         inode_table = of_nat METADATA_SIZE;
         block_usage = inode_table + ucast (m_inode_count md) * of_nat INODE_ENTRY_SIZE;
         tree_usage = block_usage + ucast (m_inode_count md);
         tree = tree_usage + ucast (m_block_count md * of_nat BLOCK_SIZE);
         data = tree + ucast (m_node_count md) * of_nat NODE_SIZE
     in io_return (fs\<lparr>fsdr := rd, fsdw := wr, fsrng := rng, metadata := md,
          inode_table_offset := inode_table, block_usage_offset := block_usage,
          tree_usage_offset := tree_usage, tree_offset := tree, data_offset := data\<rparr>))"


section \<open>Reading and writing files\<close>

text \<open>
  The loop of \<open>fs_read\<close> runs while \<open>block_idx <= end_block\<close> on 32-bit numbers, which never stops for
  \<open>end_block = 2^32 - 1\<close>: the first argument is fuel, and running out of it is \<open>Stuck\<close>.
\<close>

primrec read_loop ::
  "nat \<Rightarrow> 'd fs_descriptor \<Rightarrow> fs_inode_entry \<Rightarrow> uint64 \<Rightarrow> uint32 \<Rightarrow> uint32 \<Rightarrow> uint32 \<Rightarrow> uint32 \<Rightarrow> byte list
   \<Rightarrow> ('d, byte list) io" where
  "read_loop 0 fs entry sz start_block end_block offset_in_block block_idx dst = io_stuck"
| "read_loop (Suc fuel) fs entry sz start_block end_block offset_in_block block_idx dst =
     (if block_idx \<le> end_block
      then io_bind (decrypt_block fs (i_start_block entry + block_idx)
                      (block_ctx (i_cipher_key entry) (i_cipher_iv entry + ucast block_idx)))
             (\<lambda>(block_buf, ctx).
               let block_offset = (if block_idx = start_block then unat offset_in_block else 0);
                   bytes_to_copy = BLOCK_SIZE - block_offset;
                   bytes_to_copy = (if bytes_to_copy > unat sz - length dst then unat sz - length dst
                                    else bytes_to_copy)
               in read_loop fuel fs entry sz start_block end_block offset_in_block (block_idx + 1)
                    (dst @ take bytes_to_copy (drop block_offset block_buf)))
      else io_return dst)"

text \<open>\<open>fs_read\<close> returns the bytes that it stores in the destination; their number is the C result.\<close>

definition fs_read :: "nat \<Rightarrow> 'd fs_descriptor \<Rightarrow> uint32 \<Rightarrow> uint64 \<Rightarrow> uint64 \<Rightarrow> ('d, byte list) io" where
  "fs_read fuel fs ino sz offset =
     (if unat sz > FS_IO_MAX_SIZE then io_fail (- EINVAL)
      else io_bind (read_inode fs (of_nat METADATA_SIZE + ucast ino * of_nat INODE_ENTRY_SIZE)) (\<lambda>entry.
        if offset \<ge> i_size entry then io_return []
        else let sz = (if sz + offset > i_size entry then i_size entry - offset else sz);
                 start_block = ucast (offset div of_nat BLOCK_SIZE);
                 end_block = ucast ((offset + sz - 1) div of_nat BLOCK_SIZE);
                 offset_in_block = ucast (offset mod of_nat BLOCK_SIZE)
             in read_loop fuel fs entry sz start_block end_block offset_in_block start_block []))"

text \<open>
  The loop of \<open>fs_write\<close> over the new blocks ignores the result of \<open>encrypt_block\<close>. The buffer is the
  memory from \<open>buf\<close> to the end of its object; \<open>done\<close> is the part before the current \<open>buf\<close>.
\<close>

primrec write_blocks_loop ::
  "nat \<Rightarrow> 'd fs_descriptor \<Rightarrow> uint32 \<Rightarrow> AES_ctx \<Rightarrow> byte list \<Rightarrow> byte list \<Rightarrow> ('d, byte list) io" where
  "write_blocks_loop 0 fs index ctx done buf = io_return (done @ buf)"
| "write_blocks_loop (Suc n) fs index ctx done buf =
     (if length buf < BLOCK_SIZE then io_stuck
      else io_bind (io_ignore (encrypt_block fs index ctx buf)) (\<lambda>_.
           case AES_CTR_xcrypt_buffer ctx buf BLOCK_SIZE of (buf, ctx) \<Rightarrow>
             write_blocks_loop n fs (index + 1) ctx (done @ take BLOCK_SIZE buf) (drop BLOCK_SIZE buf)))"

primrec set_availability_loop :: "nat \<Rightarrow> 'd fs_descriptor \<Rightarrow> uint32 \<Rightarrow> ('d, unit) io" where
  "set_availability_loop 0 fs block = io_return ()"
| "set_availability_loop (Suc n) fs block =
     io_bind (set_availability fs block 0) (\<lambda>_. set_availability_loop n fs (block + 1))"

definition read_partial ::
  "'d fs_descriptor \<Rightarrow> fs_inode_entry \<Rightarrow> byte list \<Rightarrow> uint64 \<Rightarrow> ('d, byte list) io" where
  "read_partial fs entry buf offset =
     (let off = unat (offset mod of_nat BLOCK_SIZE)
      in if off = 0 then io_return []
         else io_bind (decrypt_block fs (ucast (ucast (i_start_block entry) + offset div of_nat BLOCK_SIZE))
                         (block_ctx (i_cipher_key entry) (i_cipher_iv entry + ucast (offset div of_nat BLOCK_SIZE))))
                (\<lambda>(partial_block, ctx).
                  if length buf < BLOCK_SIZE - off then io_stuck
                  else io_return (take off partial_block @ take (BLOCK_SIZE - off) buf)))"

definition relocate ::
  "'d fs_descriptor \<Rightarrow> fs_inode_entry \<Rightarrow> uint32 \<Rightarrow> uint64 \<Rightarrow> ('d, fs_inode_entry) io" where
  "relocate fs entry total_block offset =
     io_bind (search_free_blocks fs total_block) (\<lambda>new_start_block.
     io_bind (fsrng fs FS_KEY_SIZE) (\<lambda>dst_key.
     io_bind (fsrng fs FS_IV_SIZE) (\<lambda>iv_bytes.
     let dst_iv = word_of_le iv_bytes
     in io_bind (io_ignore (copy_block fs (i_start_block entry) (i_cipher_key entry) (i_cipher_iv entry)
                   new_start_block dst_key dst_iv (ucast (offset div of_nat BLOCK_SIZE)))) (\<lambda>_.
        io_return (entry\<lparr>i_start_block := new_start_block, i_cipher_key := dst_key, i_cipher_iv := dst_iv\<rparr>)))))"

text \<open>
  The end of \<open>fs_write\<close>, once the blocks of the file are known: it encrypts the first block when
  it is a partial one and the new blocks, and stores the inode. It returns the C result and the
  buffer as it is left.
\<close>

definition write_out ::
  "'d fs_descriptor \<Rightarrow> uint64 \<Rightarrow> fs_inode_entry \<Rightarrow> bool option \<Rightarrow> byte list \<Rightarrow> byte list \<Rightarrow> uint64 \<Rightarrow> uint64 \<Rightarrow>
   uint32 \<Rightarrow> uint32 \<Rightarrow> ('d, uint64 \<times> byte list) io" where
  "write_out fs entry_addr entry aba partial_block buf sz offset total_block new_block =
     (let ctx = block_ctx (i_cipher_key entry) (i_cipher_iv entry + ucast (offset div of_nat BLOCK_SIZE))
      in
      io_bind (if offset mod of_nat BLOCK_SIZE \<noteq> 0
               then io_bind (encrypt_block fs (ucast (ucast (i_start_block entry) + offset div of_nat BLOCK_SIZE))
                               ctx partial_block) (\<lambda>(_, ctx). io_return ctx)
               else io_return ctx) (\<lambda>ctx.
      io_bind (if new_block \<noteq> 0
               then io_bind (write_blocks_loop (unat new_block) fs
                               (i_start_block entry + SIZE_TO_BLOCK offset) ctx [] buf)
                      (\<lambda>buf. io_return (entry\<lparr>i_block_count := total_block\<rparr>, buf))
               else io_return (entry, buf)) (\<lambda>(entry, buf).
      let entry = entry\<lparr>i_size := offset + sz\<rparr>
      in
      io_bind (fsdw fs (enc_inode entry) entry_addr) (\<lambda>_.
      io_bind (if aba = Some False
               then set_availability_loop (unat (total_block - new_block)) fs (i_start_block entry)
               else io_return ()) (\<lambda>_.
      io_return (sz, buf))))))"

definition fs_write ::
  "'d fs_descriptor \<Rightarrow> uint32 \<Rightarrow> byte list \<Rightarrow> uint64 \<Rightarrow> uint64 \<Rightarrow> ('d, uint64 \<times> byte list) io" where
  "fs_write fs ino buf sz offset =
     (if unat sz > FS_IO_MAX_SIZE then io_fail (- EINVAL)
      else let entry_addr = of_nat METADATA_SIZE + ucast ino * of_nat INODE_ENTRY_SIZE
      in io_bind (read_inode fs entry_addr) (\<lambda>entry.
        if i_size entry < offset then io_fail (- EINVAL)
        else
          let total_block = SIZE_TO_BLOCK (offset + sz);
              new_block = total_block - i_block_count entry
          in
          io_bind (if new_block > 0
                   then io_bind (are_blocks_avaiblable fs (i_start_block entry + i_block_count entry) new_block)
                          (\<lambda>b. io_return (Some b))
                   else io_return None) (\<lambda>aba.
          io_bind (read_partial fs entry buf offset) (\<lambda>partial_block.
          io_bind (if aba = Some False then relocate fs entry total_block offset else io_return entry) (\<lambda>entry.
          write_out fs entry_addr entry aba partial_block buf sz offset total_block new_block)))))"

definition fs_truncate :: "'d fs_descriptor \<Rightarrow> uint32 \<Rightarrow> uint64 \<Rightarrow> ('d, unit) io" where
  "fs_truncate fs ino sz = io_fail (- 9)"

section \<open>The directory tree\<close>

definition node_addr :: "'d fs_descriptor \<Rightarrow> uint32 \<Rightarrow> uint64" where
  "node_addr fs i = tree_offset fs + ucast i * of_nat NODE_SIZE"

definition read_node :: "'d fs_descriptor \<Rightarrow> uint32 \<Rightarrow> ('d, fs_node) io" where
  "read_node fs i = io_bind (fsdr fs (node_addr fs i) NODE_SIZE) (\<lambda>bs. io_return (dec_node bs))"

text \<open>The memory from \<open>children[i].name\<close> to the end of the node.\<close>

definition name_from :: "fs_node \<Rightarrow> nat \<Rightarrow> byte list" where
  "name_from node i = drop (8 + 36 * i) (enc_node node)"

text \<open>\<open>follow_loop n\<close> looks at the last \<open>n\<close> slots; \<open>None\<close>: a string comparison leaves the node.\<close>

primrec follow_loop :: "nat \<Rightarrow> fs_node \<Rightarrow> byte list \<Rightarrow> uint32 option option" where
  "follow_loop 0 node edge = Some None"
| "follow_loop (Suc n) node edge =
     (let i = MAX_CHILDREN - Suc n
      in case strcmp (name_from node i) edge of
           None \<Rightarrow> None
         | Some r \<Rightarrow> if r = 0 then Some (Some (c_index (n_children node ! i)))
                     else follow_loop n node edge)"

definition follow_node ::
  "'d fs_descriptor \<Rightarrow> fs_node \<Rightarrow> byte list \<Rightarrow> ('d, uint32 \<times> fs_node) io" where
  "follow_node fs src_node edge =
     io_bind (io_some (follow_loop MAX_CHILDREN src_node edge)) (\<lambda>found.
       case found of
         None \<Rightarrow> io_fail (- ENOENT)
       | Some node_index \<Rightarrow> io_bind (read_node fs node_index) (\<lambda>node. io_return (node_index, node)))"

function search_loop :: "'d fs_descriptor \<Rightarrow> byte list \<Rightarrow> uint32 \<Rightarrow> fs_node \<Rightarrow> ('d, uint32 \<times> fs_node) io" where
  "search_loop fs [] node_index node = io_return (node_index, node)"
| "search_loop fs (c # path) node_index node =
     (let path = (if c = slash then path else c # path);
          name = takeWhile (\<lambda>x. x \<noteq> slash) path
      in if length name \<ge> NAME_SIZE - 1 then io_fail (- ENAMETOOLONG)
         else io_bind (follow_node fs node (name @ [0])) (\<lambda>(node_index, node).
                search_loop fs (dropWhile (\<lambda>x. x \<noteq> slash) path) node_index node))"
  by pat_completeness auto
termination
proof (relation "measure (\<lambda>(fs, path, i, node). length path)")
  fix fs :: "'d fs_descriptor" and c path i node path' name x j node'
  assume "path' = (if c = slash then path else c # path)"
  then have "length (dropWhile (\<lambda>x. x \<noteq> slash) path') \<le> length path"
    by (auto simp: length_dropWhile_le)
  then show "((fs, dropWhile (\<lambda>x. x \<noteq> slash) path', j, node'), fs, c # path, i, node)
      \<in> measure (\<lambda>(fs, path, i, node). length path)"
    by simp
qed simp

definition search_node :: "'d fs_descriptor \<Rightarrow> byte list \<Rightarrow> ('d, uint32 \<times> fs_node) io" where
  "search_node fs path =
     io_bind (io_assert (path \<noteq> [] \<and> hd path = slash)) (\<lambda>_.
     io_bind (read_node fs 0) (\<lambda>node. search_loop fs path 0 node))"

definition fs_getattr :: "'d fs_descriptor \<Rightarrow> byte list \<Rightarrow> ('d, uint32) io" where
  "fs_getattr fs path = io_bind (search_node fs path) (\<lambda>(_, node). io_return (n_value node))"


text \<open>\<open>fs_readdir_init\<close> returns the number of children and the reader.\<close>

record 'd fs_dirreader =
  dr_fsdesc :: "'d fs_descriptor"
  dr_node_index :: uint32
  dr_offset :: uint32

definition fs_readdir_init :: "'d fs_descriptor \<Rightarrow> byte list \<Rightarrow> ('d, uint32 \<times> 'd fs_dirreader) io" where
  "fs_readdir_init fs path =
     io_bind (search_node fs path) (\<lambda>(node_index, node).
       io_return (n_children_count node, \<lparr>dr_fsdesc = fs, dr_node_index = node_index, dr_offset = 0\<rparr>))"

text \<open>\<open>fs_readdir_next\<close> copies the name of the next child into the buffer, whatever the slot holds.\<close>

definition fs_readdir_next ::
  "'d fs_dirreader \<Rightarrow> byte list \<Rightarrow> ('d, byte list \<times> 'd fs_dirreader) io" where
  "fs_readdir_next dr buffer =
     io_bind (read_node (dr_fsdesc dr) (dr_node_index dr)) (\<lambda>node.
     io_bind (io_assert (unat (dr_offset dr) < MAX_CHILDREN)) (\<lambda>_.
     io_bind (io_some (strcpy buffer (name_from node (unat (dr_offset dr))))) (\<lambda>buffer.
     io_return (buffer, dr\<lparr>dr_offset := dr_offset dr + 1\<rparr>))))"

primrec search_node_loop :: "nat \<Rightarrow> 'd fs_descriptor \<Rightarrow> uint32 \<Rightarrow> ('d, uint32) io" where
  "search_node_loop 0 fs i = io_fail (- ENOSPC)"
| "search_node_loop (Suc n) fs i =
     io_bind (fsdr fs (tree_usage_offset fs + ucast i) 1) (\<lambda>used.
       if hd used = 0 then io_return i else search_node_loop n fs (i + 1))"

definition search_available_node :: "'d fs_descriptor \<Rightarrow> ('d, uint32) io" where
  "search_available_node fs = search_node_loop (unat (m_node_count (metadata fs)) - 1) fs 1"

text \<open>
  The loops of \<open>fs_touch\<close> and \<open>fs_remove\<close> over the first \<open>children_count\<close> slots: \<open>find_child n node name\<close> looks
  at slot \<open>i\<close> and the \<open>n - 1\<close> after it. Slots past the 32 of the node do not exist (\<open>None\<close>).
\<close>

fun find_child :: "nat \<Rightarrow> fs_node \<Rightarrow> byte list \<Rightarrow> nat \<Rightarrow> nat option option" where
  "find_child 0 node name i = Some None"
| "find_child (Suc n) node name i =
     (if i \<ge> MAX_CHILDREN then None
      else if c_index (n_children node ! i) = 0 then find_child n node name (Suc i)
      else case equal_to_buffer (name_from node i) name of
             None \<Rightarrow> None
           | Some eq \<Rightarrow> if eq then Some (Some i) else find_child n node name (Suc i))"

definition child_slots :: "fs_node \<Rightarrow> nat" where
  "child_slots node = nat (sint (n_children_count node))"

definition add_child :: "fs_node \<Rightarrow> byte list \<Rightarrow> uint32 \<Rightarrow> fs_node option" where
  "add_child node name index =
     (let k = child_slots node
      in if sint (n_children_count node) < 0 \<or> k \<ge> MAX_CHILDREN then None
         else map_option (\<lambda>nm. node\<lparr>n_children := (n_children node)[k := \<lparr>c_name = nm, c_index = index\<rparr>],
                                   n_children_count := n_children_count node + 1\<rparr>)
                (copy_to_buffer (c_name (n_children node ! k)) name))"

definition fs_touch :: "'d fs_descriptor \<Rightarrow> byte list \<Rightarrow> uint32 \<Rightarrow> ('d, unit) io" where
  "fs_touch fs path value =
     io_bind (io_some (split_path path)) (\<lambda>(parent_path, child_name).
     io_bind (io_assert (length child_name < NAME_SIZE)) (\<lambda>_.
     io_bind (search_node fs parent_path) (\<lambda>(parent_node_index, node).
     io_bind (io_some (find_child (child_slots node) node child_name 0)) (\<lambda>found.
       if found \<noteq> None then io_fail (- EEXIST)
       else if n_children_count node = of_nat MAX_CHILDREN then io_fail (- ENOSPC)
       else
       io_bind (search_available_node fs) (\<lambda>child_node_index.
       io_bind (io_some (add_child node child_name child_node_index)) (\<lambda>node.
       io_bind (io_ignore (fsdw fs (enc_node node) (node_addr fs parent_node_index))) (\<lambda>_.
       io_bind (io_ignore (fsdw fs [1] (tree_usage_offset fs + ucast child_node_index))) (\<lambda>_.
       io_ignore (fsdw fs (enc_node (zero_node\<lparr>n_value := value\<rparr>)) (node_addr fs child_node_index))))))))))"

text \<open>
  \<open>fs_remove\<close> takes the entry that replaces the removed one from \<open>children[children_count - 1]\<close> after
  \<open>children_count\<close> was decremented; there is none before the first slot (\<open>None\<close>).
\<close>

definition remove_child :: "fs_node \<Rightarrow> nat \<Rightarrow> fs_node option" where
  "remove_child node i =
     (let k = child_slots node - 1
      in if k = 0 then None
         else Some (node\<lparr>n_children_count := n_children_count node - 1,
                         n_children := (n_children node)[i := n_children node ! (k - 1)]\<rparr>))"

definition fs_remove :: "'d fs_descriptor \<Rightarrow> byte list \<Rightarrow> ('d, unit) io" where
  "fs_remove fs path =
     io_bind (io_some (split_path path)) (\<lambda>(parent_path, child_name).
     io_bind (search_node fs parent_path) (\<lambda>(parent_node_index, node).
     io_bind (io_some (find_child (child_slots node) node child_name 0)) (\<lambda>found.
       case found of
         None \<Rightarrow> io_fail (- ENOENT)
       | Some i \<Rightarrow>
           let child_node_index = c_index (n_children node ! i)
           in
           io_bind (io_some (remove_child node i)) (\<lambda>node.
           io_bind (fsdw fs (enc_node node) (node_addr fs parent_node_index)) (\<lambda>_.
           io_bind (read_node fs child_node_index) (\<lambda>node.
           io_bind (if n_value node \<noteq> 0 then io_ignore (unref_inode fs (n_value node)) else io_return ()) (\<lambda>_.
           io_bind (fsdw fs (enc_node zero_node) (node_addr fs child_node_index)) (\<lambda>_.
           fsdw fs [0] (tree_usage_offset fs + ucast child_node_index)))))))))"

section \<open>Encodings\<close>

definition inode_wf :: "fs_inode_entry \<Rightarrow> bool" where
  "inode_wf e \<longleftrightarrow> length (i_pad1 e) = 7 \<and> length (i_cipher_key e) = 256 \<and> length (i_pad2 e) = 8"

lemma length_enc_inode [codec_simps]: "inode_wf e \<Longrightarrow> length (enc_inode e) = INODE_ENTRY_SIZE"
  by (simp add: enc_inode_def inode_wf_def INODE_ENTRY_SIZE_def)

lemma inode_wf_dec: "length bs = INODE_ENTRY_SIZE \<Longrightarrow> inode_wf (dec_inode bs)"
  by (simp add: inode_wf_def dec_inode_def INODE_ENTRY_SIZE_def)

lemma dec_enc_inode [codec_simps]:
  assumes "inode_wf e"
  shows "dec_inode (enc_inode e) = e"
  using assms unfolding inode_wf_def enc_inode_def dec_inode_def
  by (simp add: word_of_le_le_of_word)

lemma take_drop_join: "take k (drop n xs) @ drop (n + k) xs = drop n xs"
  by (metis append_take_drop_id drop_drop add.commute)

lemma enc_dec_inode [codec_simps]:
  assumes "length bs = INODE_ENTRY_SIZE"
  shows "enc_inode (dec_inode bs) = bs"
proof -
  have len: "length bs = 304" using assms by (simp add: INODE_ENTRY_SIZE_def)
  have "take 16 (drop 288 bs) = drop 288 bs" using len by simp
  then have "enc_inode (dec_inode bs) = hd bs # take 7 (drop 1 bs) @ take 8 (drop 8 bs)
      @ take 4 (drop 16 bs) @ take 4 (drop 20 bs) @ take 256 (drop 24 bs) @ take 8 (drop 280 bs) @ drop 288 bs"
    using len by (simp add: enc_inode_def dec_inode_def le_of_word_word_of_le)
  also have "\<dots> = hd bs # drop 1 bs"
    using take_drop_join [of 7 1 bs] take_drop_join [of 8 8 bs] take_drop_join [of 4 16 bs]
      take_drop_join [of 4 20 bs] take_drop_join [of 256 24 bs] take_drop_join [of 8 280 bs] by simp
  also have "\<dots> = bs" using len by (cases bs) simp_all
  finally show ?thesis .
qed

definition child_wf :: "fd_node_child \<Rightarrow> bool" where
  "child_wf c \<longleftrightarrow> length (c_name c) = 32"

definition node_wf :: "fs_node \<Rightarrow> bool" where
  "node_wf n \<longleftrightarrow> length (n_children n) = MAX_CHILDREN \<and> (\<forall>c\<in>set (n_children n). child_wf c)"

lemma length_concat_chunks: "\<forall>xs\<in>set xss. length xs = k \<Longrightarrow> length (concat xss) = k * length xss"
  by (induction xss) auto

lemma chunk_concat:
  "\<forall>xs\<in>set xss. length xs = k \<Longrightarrow> i < length xss \<Longrightarrow> take k (drop (k * i) (concat xss)) = xss ! i"
proof (induction xss arbitrary: i)
  case (Cons xs xss)
  then show ?case by (cases i) auto
qed simp

lemma concat_chunks: "concat (map (\<lambda>i. take k (drop (k * i) xs)) [0..<n]) = take (k * n) xs"
proof (induction n)
  case (Suc n)
  have "take (k * Suc n) xs = take (k * n) xs @ take k (drop (k * n) xs)"
    by (metis mult_Suc_right add.commute take_add)
  then show ?case using Suc by simp
qed simp

lemma length_enc_node [codec_simps]: "node_wf n \<Longrightarrow> length (enc_node n) = NODE_SIZE"
  using length_concat_chunks [of "map enc_child (n_children n)" 36]
  by (auto simp: enc_node_def node_wf_def child_wf_def enc_child_def fs_consts)

lemma dec_enc_child: "child_wf c \<Longrightarrow> dec_child (enc_child c) = c"
  by (simp add: dec_child_def enc_child_def child_wf_def word_of_le_le_of_word)

lemma enc_dec_child: "length bs = 36 \<Longrightarrow> enc_child (dec_child bs) = bs"
  by (simp add: dec_child_def enc_child_def le_of_word_word_of_le)

lemma dec_enc_node [codec_simps]:
  assumes "node_wf n"
  shows "dec_node (enc_node n) = n"
proof -
  let ?cs = "map enc_child (n_children n)"
  have len: "length (n_children n) = 32" "\<forall>c\<in>set (n_children n). length (enc_child c) = 36"
    using assms by (auto simp: node_wf_def child_wf_def enc_child_def MAX_CHILDREN_def)
  have "take 36 (drop (8 + 36 * i) (enc_node n)) = enc_child (n_children n ! i)" if "i < 32" for i
    using chunk_concat [of ?cs 36 i] len that by (simp add: enc_node_def)
  then have "map (\<lambda>i. dec_child (take 36 (drop (8 + 36 * i) (enc_node n)))) [0..<32] =
      map (\<lambda>i. n_children n ! i) [0..<32]"
    using assms len(1) by (auto simp: dec_enc_child node_wf_def)
  also have "\<dots> = n_children n" using len(1) by (metis map_nth)
  finally show ?thesis
    by (simp add: dec_node_def MAX_CHILDREN_def) (simp add: enc_node_def word_of_le_le_of_word)
qed

lemma node_wf_dec: "length bs = NODE_SIZE \<Longrightarrow> node_wf (dec_node bs)"
  by (auto simp: node_wf_def dec_node_def dec_child_def child_wf_def fs_consts)

lemma enc_dec_node [codec_simps]:
  assumes "length bs = NODE_SIZE"
  shows "enc_node (dec_node bs) = bs"
proof -
  have len: "length bs = 1160" using assms by (simp add: NODE_SIZE_def)
  have "concat (map (\<lambda>i. enc_child (dec_child (take 36 (drop (8 + 36 * i) bs)))) [0..<32])
      = concat (map (\<lambda>i. take 36 (drop (36 * i) (drop 8 bs))) [0..<32])"
    using len by (intro arg_cong [where f = concat] map_cong refl) (simp add: enc_dec_child add.commute)
  also have "\<dots> = drop 8 bs" unfolding concat_chunks using len by simp
  finally have "enc_node (dec_node bs) = take 4 bs @ take 4 (drop 4 bs) @ drop 8 bs"
    using len by (simp add: enc_node_def dec_node_def MAX_CHILDREN_def o_def le_of_word_word_of_le)
  also have "\<dots> = bs" using take_drop_join [of 4 4 bs] by simp
  finally show ?thesis .
qed

end
