(* ===== verification/Filesystem_Correct.thy ===== *)
theory Filesystem_Correct
  imports Filesystem
begin

unbundle bit_operations_syntax

text \<open>
  The file system on a disk that stores what is written to it. The operations are judged by what
  they do to the contents of the disk, a function from addresses to bytes: \<open>yields\<close> relates the
  contents before a call, its outcome, and the contents after it. The locale \<open>mounted_fs\<close> is the
  contract between the file system, the layout that \<open>fs_init\<close> computes and the disk callbacks of
  the kernel; it is interpreted on the kernel's callbacks.
\<close>

section \<open>Outcomes and disk contents\<close>

definition yields ::
  "('d \<Rightarrow> bool) \<Rightarrow> ('d \<Rightarrow> nat \<Rightarrow> byte) \<Rightarrow> (nat \<Rightarrow> byte) \<Rightarrow> ('d, 'a) io \<Rightarrow> 'a outcome \<Rightarrow> (nat \<Rightarrow> byte) \<Rightarrow> bool"
  where
  "yields good content c m r c' \<longleftrightarrow>
     (\<forall>d. good d \<and> content d = c \<longrightarrow> (\<exists>d'. m d = (r, d') \<and> good d' \<and> content d' = c'))"

lemma yieldsD:
  "yields good content c m r c' \<Longrightarrow> good d \<Longrightarrow> content d = c \<Longrightarrow>
   \<exists>d'. m d = (r, d') \<and> good d' \<and> content d' = c'"
  by (simp add: yields_def)

lemma yields_return: "yields good content c (io_return x) (Ok x) c"
  by (simp add: yields_def)

lemma yields_fail: "yields good content c (io_fail e) (Err e) c"
  by (simp add: yields_def)

lemma yields_bind:
  assumes "yields good content c m (Ok x) c1" and "yields good content c1 (f x) r c2"
  shows "yields good content c (io_bind m f) r c2"
  unfolding yields_def
proof (intro allI impI)
  fix d assume "good d \<and> content d = c"
  then obtain d1 where d1: "m d = (Ok x, d1)" "good d1" "content d1 = c1"
    using yieldsD [OF assms(1)] by blast
  then obtain d2 where "f x d1 = (r, d2)" "good d2" "content d2 = c2"
    using yieldsD [OF assms(2)] by blast
  with d1(1) show "\<exists>d'. io_bind m f d = (r, d') \<and> good d' \<and> content d' = c2"
    by (auto simp: io_bind_Ok)
qed

lemma yields_bind_Err:
  assumes "yields good content c m (Err e) c1"
  shows "yields good content c (io_bind m f) (Err e) c1"
  unfolding yields_def
proof (intro allI impI)
  fix d assume "good d \<and> content d = c"
  then obtain d1 where "m d = (Err e, d1)" "good d1" "content d1 = c1"
    using yieldsD [OF assms] by blast
  then show "\<exists>d'. io_bind m f d = (Err e, d') \<and> good d' \<and> content d' = c1"
    by (auto simp: io_bind_Err)
qed

lemma yields_ignore:
  assumes "yields good content c m (Ok x) c1"
  shows "yields good content c (io_ignore m) (Ok ()) c1"
  unfolding yields_def
proof (intro allI impI)
  fix d assume "good d \<and> content d = c"
  then obtain d1 where "m d = (Ok x, d1)" "good d1" "content d1 = c1"
    using yieldsD [OF assms] by blast
  then show "\<exists>d'. io_ignore m d = (Ok (), d') \<and> good d' \<and> content d' = c1"
    by (auto simp: io_ignore_Ok)
qed

text \<open>The same for an outcome that is not determined by the contents (random keys).\<close>

definition ensures ::
  "('d \<Rightarrow> bool) \<Rightarrow> ('d \<Rightarrow> nat \<Rightarrow> byte) \<Rightarrow> (nat \<Rightarrow> byte) \<Rightarrow> ('d, 'a) io \<Rightarrow>
   ('a outcome \<Rightarrow> (nat \<Rightarrow> byte) \<Rightarrow> bool) \<Rightarrow> bool" where
  "ensures good content c m Q \<longleftrightarrow>
     (\<forall>d. good d \<and> content d = c \<longrightarrow> (\<exists>r d'. m d = (r, d') \<and> good d' \<and> Q r (content d')))"

lemma ensuresD:
  "ensures good content (content d) m Q \<Longrightarrow> good d \<Longrightarrow> \<exists>r d'. m d = (r, d') \<and> good d' \<and> Q r (content d')"
  by (simp add: ensures_def)

lemma ensures_yields: "yields good content c m r c' \<Longrightarrow> Q r c' \<Longrightarrow> ensures good content c m Q"
  unfolding yields_def ensures_def by metis

lemma ensures_bind:
  assumes "yields good content c m (Ok x) c1" and "ensures good content c1 (f x) Q"
  shows "ensures good content c (io_bind m f) Q"
  unfolding ensures_def
proof (intro allI impI)
  fix d assume "good d \<and> content d = c"
  then obtain d1 where d1: "m d = (Ok x, d1)" "good d1" "content d1 = c1"
    using yieldsD [OF assms(1)] by blast
  then obtain r d2 where "f x d1 = (r, d2)" "good d2" "Q r (content d2)"
    using assms(2) unfolding ensures_def by blast
  with d1(1) show "\<exists>r d'. io_bind m f d = (r, d') \<and> good d' \<and> Q r (content d')"
    by (auto simp: io_bind_Ok)
qed

declare io_return_run [simp del] io_fail_run [simp del] io_stuck_run [simp del]

lemma length_content_read [simp]: "length (content_read c a n) = n"
  by (simp add: content_read_def)

lemma nth_content_read [simp]: "i < n \<Longrightarrow> content_read c a n ! i = c (a + i)"
  by (simp add: content_read_def)

lemma content_read_upd_same: "content_read (content_upd c a bs) a (length bs) = bs"
  by (rule nth_equalityI) (simp_all add: content_upd_def)

lemma content_read_cong:
  assumes "\<And>x. a \<le> x \<Longrightarrow> x < a + n \<Longrightarrow> c x = c' x"
  shows "content_read c a n = content_read c' a n"
  by (rule nth_equalityI) (simp_all add: assms)

lemma content_read_upd_disjoint:
  assumes "a + length bs \<le> b \<or> b + n \<le> a"
  shows "content_read (content_upd c a bs) b n = content_read c b n"
  by (rule content_read_cong) (use assms in \<open>auto simp: content_upd_def\<close>)

lemma content_upd_apply:
  "content_upd c a bs x = (if a \<le> x \<and> x < a + length bs then bs ! (x - a) else c x)"
  by (simp add: content_upd_def)


section \<open>The layout of the disk\<close>

definition fs_layout :: "'d fs_descriptor \<Rightarrow> bool" where
  "fs_layout fs \<longleftrightarrow> metadata fs = \<lparr>m_inode_count = 16, m_block_count = 16, m_node_count = 16\<rparr> \<and>
     avail_block_table_offset fs = 0 \<and> inode_table_offset fs = 12 \<and> block_usage_offset fs = 4876 \<and>
     tree_usage_offset fs = 4892 \<and> tree_offset fs = 70428 \<and> data_offset fs = 88988"

definition fs_end :: nat where "fs_end = 154524"

locale mounted_fs = byte_store "fsdr fs" "fsdw fs" content good cap
  for fs :: "'d fs_descriptor" and content :: "'d \<Rightarrow> nat \<Rightarrow> byte" and good :: "'d \<Rightarrow> bool" and cap :: nat +
  assumes layout: "fs_layout fs" and fits: "fs_end \<le> cap"
    and rng_ok: "good d \<Longrightarrow>
      \<exists>bs d'. fsrng fs n d = (Ok bs, d') \<and> length bs = n \<and> good d' \<and> content d' = content d"

text \<open>What is at a place of the disk: the inodes, the tree nodes and the blocks of the contents.\<close>

definition inode_at :: "(nat \<Rightarrow> byte) \<Rightarrow> nat \<Rightarrow> fs_inode_entry" where
  "inode_at c i = dec_inode (content_read c (12 + 304 * i) INODE_ENTRY_SIZE)"

definition node_at :: "(nat \<Rightarrow> byte) \<Rightarrow> nat \<Rightarrow> fs_node" where
  "node_at c i = dec_node (content_read c (70428 + 1160 * i) NODE_SIZE)"

definition block_at :: "(nat \<Rightarrow> byte) \<Rightarrow> nat \<Rightarrow> byte list" where
  "block_at c k = content_read c (88988 + 4096 * k) BLOCK_SIZE"

lemma inode_wf_at [simp]: "inode_wf (inode_at c i)"
  by (simp add: inode_at_def inode_wf_dec)

lemma node_wf_at [simp]: "node_wf (node_at c i)"
  by (simp add: node_at_def node_wf_dec)

lemma unat_ucast_64 [simp]: "unat (ucast (i :: uint32) :: uint64) = unat i"
  by (simp add: unsigned_ucast_eq take_bit_nat_eq_self_iff less_trans [OF unsigned_less])

lemma scast_small:
  fixes b :: uint32
  assumes "unat b < 2 ^ 31"
  shows "scast b = (ucast b :: uint64)"
proof (rule bit_word_eqI)
  have "\<not> bit b n" if "31 \<le> n" for n
  proof -
    have "unat b div 2 ^ n = 0" using assms power_increasing [OF that, of "2 :: nat"] by simp
    then show ?thesis by (simp add: bit_iff_odd unsigned_eq_0_iff flip: unat_drop_bit_eq drop_bit_eq_div)
  qed
  then show "bit (scast b :: uint64) n = bit (ucast b :: uint64) n" if "n < LENGTH(64)" for n
    using that by (auto simp: bit_simps min_def)
qed

lemma unat_addr:
  fixes i :: uint32
  assumes "unat i < 16" and "b \<le> 2 ^ 32" and "k \<le> 2 ^ 16"
  shows "unat (of_nat b + ucast i * of_nat k :: uint64) = b + unat i * k"
proof -
  have "unat i * k \<le> 16 * 2 ^ 16" using assms by (intro mult_le_mono) auto
  then show ?thesis using assms
    by (simp add: unat_word_ariths unat_of_nat mod_less)
qed

context mounted_fs
begin

lemmas layout_simps = layout [unfolded fs_layout_def, THEN conjunct1]
  layout [unfolded fs_layout_def, THEN conjunct2, THEN conjunct1]
  layout [unfolded fs_layout_def, THEN conjunct2, THEN conjunct2, THEN conjunct1]
  layout [unfolded fs_layout_def, THEN conjunct2, THEN conjunct2, THEN conjunct2, THEN conjunct1]
  layout [unfolded fs_layout_def, THEN conjunct2, THEN conjunct2, THEN conjunct2, THEN conjunct2, THEN conjunct1]
  layout [unfolded fs_layout_def, THEN conjunct2, THEN conjunct2, THEN conjunct2, THEN conjunct2, THEN conjunct2]

abbreviation yield where "yield \<equiv> yields good content"

lemma read_yields:
  "unat a + n \<le> cap \<Longrightarrow> yield c (fsdr fs a n) (Ok (content_read c (unat a) n)) c"
  using rd_ok by (fastforce simp: yields_def)

lemma write_yields:
  "unat a + length bs \<le> cap \<Longrightarrow> yield c (fsdw fs bs a) (Ok ()) (content_upd c (unat a) bs)"
  using wr_ok by (fastforce simp: yields_def)

lemma unat_inode_addr: "unat i < 16 \<Longrightarrow> unat (inode_addr fs i) = 12 + 304 * unat i"
  using unat_addr [of i 12 304] by (simp add: inode_addr_def layout_simps INODE_ENTRY_SIZE_def)

lemma unat_node_addr: "unat i < 16 \<Longrightarrow> unat (node_addr fs i) = 70428 + 1160 * unat i"
  using unat_addr [of i 70428 1160] by (simp add: node_addr_def layout_simps NODE_SIZE_def)

lemma unat_usage_addr: "unat (i :: uint32) < 16 \<Longrightarrow> unat (tree_usage_offset fs + ucast i) = 4892 + unat i"
  using unat_addr [of i 4892 1] by (simp add: layout_simps)

lemma unat_block_addr:
  assumes "unat k < 16"
  shows "unat (block_addr fs k) = 88988 + 4096 * unat k"
proof -
  have "unat (k * of_nat BLOCK_SIZE :: uint32) = unat k * 4096"
    using assms by (simp add: unat_word_ariths BLOCK_SIZE_def)
  then show ?thesis using assms
    by (simp add: block_addr_def layout_simps unat_word_ariths)
qed

lemma read_inode_yields:
  "unat i < 16 \<Longrightarrow> yield c (read_inode fs (inode_addr fs i)) (Ok (inode_at c (unat i))) c"
  unfolding read_inode_def
  by (rule yields_bind [OF read_yields])
    (use fits in \<open>auto simp: unat_inode_addr fs_end_def fs_consts inode_at_def yields_return\<close>)

lemma read_node_yields:
  "unat i < 16 \<Longrightarrow> yield c (read_node fs i) (Ok (node_at c (unat i))) c"
  unfolding read_node_def
  by (rule yields_bind [OF read_yields])
    (use fits in \<open>auto simp: unat_node_addr fs_end_def fs_consts node_at_def yields_return\<close>)

lemma write_inode_yields:
  "unat i < 16 \<Longrightarrow> inode_wf e \<Longrightarrow>
   yield c (fsdw fs (enc_inode e) (inode_addr fs i)) (Ok ()) (content_upd c (12 + 304 * unat i) (enc_inode e))"
  using write_yields [of "inode_addr fs i" "enc_inode e" c] fits
  by (simp add: unat_inode_addr fs_end_def length_enc_inode fs_consts)

lemma write_node_yields:
  "unat i < 16 \<Longrightarrow> node_wf e \<Longrightarrow>
   yield c (fsdw fs (enc_node e) (node_addr fs i)) (Ok ()) (content_upd c (70428 + 1160 * unat i) (enc_node e))"
  using write_yields [of "node_addr fs i" "enc_node e" c] fits
  by (simp add: unat_node_addr fs_end_def length_enc_node fs_consts)

end


section \<open>Allocation of inodes and tree nodes\<close>

text \<open>The first number in a range whose byte on the disk is zero; the error when there is none.\<close>

definition first_free :: "(nat \<Rightarrow> byte) \<Rightarrow> (nat \<Rightarrow> nat) \<Rightarrow> nat \<Rightarrow> nat \<Rightarrow> nat option" where
  "first_free c at i n = find (\<lambda>j. c (at j) = 0) [i..<i + n]"

definition free_outcome :: "nat option \<Rightarrow> uint32 outcome" where
  "free_outcome f = (case f of None \<Rightarrow> Err (- ENOSPC) | Some j \<Rightarrow> Ok (of_nat j))"

lemma first_free_Suc:
  "first_free c at i (Suc n) = (if c (at i) = 0 then Some i else first_free c at (Suc i) n)"
  by (simp add: first_free_def upt_conv_Cons del: upt_Suc)

lemma first_free_Some:
  assumes "first_free c at i n = Some j"
  shows "i \<le> j \<and> j < i + n \<and> c (at j) = 0 \<and> (\<forall>k. i \<le> k \<and> k < j \<longrightarrow> c (at k) \<noteq> 0)"
  using assms
proof (induction n arbitrary: i)
  case (Suc n)
  then show ?case
    by (cases "c (at i) = 0") (auto simp: first_free_Suc dest!: Suc.IH, metis Suc_leI le_eq_less_or_eq)
qed (simp add: first_free_def)

lemma first_free_None: "first_free c at i n = None \<longleftrightarrow> (\<forall>j. i \<le> j \<and> j < i + n \<longrightarrow> c (at j) \<noteq> 0)"
  by (auto simp: first_free_def find_None_iff)

lemma enc_set_ref:
  assumes "length bs = INODE_ENTRY_SIZE"
  shows "enc_inode ((dec_inode bs)\<lparr>i_ref := r\<rparr>) = bs[0 := r]"
proof -
  have "enc_inode ((dec_inode bs)\<lparr>i_ref := r\<rparr>) = (enc_inode (dec_inode bs))[0 := r]"
    by (simp add: enc_inode_def)
  then show ?thesis using assms by (simp add: enc_dec_inode)
qed

lemma content_upd_set_first:
  assumes "0 < n"
  shows "content_upd c a ((content_read c a n)[0 := v]) = c(a := v)"
  by (rule ext) (use assms in \<open>auto simp: content_upd_def nth_list_update\<close>)

context mounted_fs
begin

lemma read_byte_yields:
  "unat a < cap \<Longrightarrow> yield c (fsdr fs a 1) (Ok [c (unat a)]) c"
  using read_yields [of a 1 c] by (simp add: content_read_def)

lemma search_inode_loop_yields:
  "unat i + n \<le> 16 \<Longrightarrow>
   yield c (search_inode_loop n fs i) (free_outcome (first_free c (\<lambda>j. 12 + 304 * j) (unat i) n)) c"
proof (induction n arbitrary: i)
  case 0
  then show ?case by (simp add: first_free_def free_outcome_def yields_fail)
next
  case (Suc n)
  have i: "unat (inode_addr fs i) = 12 + 304 * unat i" using Suc.prems by (simp add: unat_inode_addr)
  have "unat (i + 1) = Suc (unat i)" using Suc.prems by (simp add: unat_word_ariths)
  then have IH: "yield c (search_inode_loop n fs (i + 1))
      (free_outcome (first_free c (\<lambda>j. 12 + 304 * j) (Suc (unat i)) n)) c"
    using Suc.IH [of "i + 1"] Suc.prems by simp
  show ?case unfolding search_inode_loop.simps
    by (rule yields_bind [OF read_byte_yields])
      (use Suc.prems fits i IH in \<open>auto simp: fs_end_def first_free_Suc free_outcome_def yields_return\<close>)
qed

lemma search_node_loop_yields:
  "unat i + n \<le> 16 \<Longrightarrow>
   yield c (search_node_loop n fs i) (free_outcome (first_free c (\<lambda>j. 4892 + j) (unat i) n)) c"
proof (induction n arbitrary: i)
  case 0
  then show ?case by (simp add: first_free_def free_outcome_def yields_fail)
next
  case (Suc n)
  have i: "unat (tree_usage_offset fs + ucast i) = 4892 + unat i" using Suc.prems by (simp add: unat_usage_addr)
  have "unat (i + 1) = Suc (unat i)" using Suc.prems by (simp add: unat_word_ariths)
  then have IH: "yield c (search_node_loop n fs (i + 1))
      (free_outcome (first_free c (\<lambda>j. 4892 + j) (Suc (unat i)) n)) c"
    using Suc.IH [of "i + 1"] Suc.prems by simp
  show ?case unfolding search_node_loop.simps
    by (rule yields_bind [OF read_byte_yields])
      (use Suc.prems fits i IH in \<open>auto simp: fs_end_def first_free_Suc free_outcome_def yields_return\<close>)
qed

lemma search_available_inode_yields:
  "yield c (search_available_inode fs) (free_outcome (first_free c (\<lambda>j. 12 + 304 * j) 1 15)) c"
  using search_inode_loop_yields [of 1 15 c] by (simp add: search_available_inode_def layout_simps)

lemma search_available_node_yields:
  "yield c (search_available_node fs) (free_outcome (first_free c (\<lambda>j. 4892 + j) 1 15)) c"
  using search_node_loop_yields [of 1 15 c] by (simp add: search_available_node_def layout_simps)

lemma fs_alloc_inode_yields:
  "yield c (fs_alloc_inode fs) (free_outcome (first_free c (\<lambda>j. 12 + 304 * j) 1 15))
     (case first_free c (\<lambda>j. 12 + 304 * j) 1 15 of None \<Rightarrow> c | Some j \<Rightarrow> c(12 + 304 * j := 1))"
proof (cases "first_free c (\<lambda>j. 12 + 304 * j) 1 15")
  case None
  then show ?thesis using search_available_inode_yields [of c]
    by (auto simp: fs_alloc_inode_def free_outcome_def intro: yields_bind_Err)
next
  case (Some j)
  note j = first_free_Some [OF Some]
  define w :: uint32 where "w = of_nat j"
  have w: "unat w = j" using j by (simp add: w_def unat_of_nat)
  have found: "yield c (search_available_inode fs) (Ok w) c"
    using search_available_inode_yields [of c] unfolding Some by (simp add: free_outcome_def w_def)
  let ?e = "inode_at c j"
  have "i_ref ?e = 0" using j by (simp add: inode_at_def dec_inode_def content_read_def fs_consts upt_conv_Cons)
  then have upd: "content_upd c (12 + 304 * j) (enc_inode (?e\<lparr>i_ref := i_ref ?e + 1\<rparr>)) = c(12 + 304 * j := 1)"
    unfolding inode_at_def by (simp add: enc_set_ref content_upd_set_first fs_consts)
  have "inode_wf (?e\<lparr>i_ref := i_ref ?e + 1\<rparr>)" using inode_wf_at [of c j] by (simp add: inode_wf_def)
  then have "yield c (fs_alloc_inode fs) (Ok w) (c(12 + 304 * j := 1))"
    unfolding fs_alloc_inode_def
    using found read_inode_yields [of w c] j w upd
      write_inode_yields [of w "?e\<lparr>i_ref := i_ref ?e + 1\<rparr>" c]
    by (intro yields_bind [where x = w and ?c1.0 = c] yields_bind [where x = ?e and ?c1.0 = c]
        yields_bind [where x = "()" and ?c1.0 = "c(12 + 304 * j := 1)"] yields_return)
      simp_all
  then show ?thesis unfolding Some by (simp add: free_outcome_def w_def)
qed

end


section \<open>Files as byte strings\<close>

text \<open>
  The contents of a file: its blocks, each decrypted with the key of the file and the counter
  start \<open>cipher_iv + k\<close> of block \<open>k\<close>, cut to the size of the file.
\<close>

definition crypt :: "AES_ctx \<Rightarrow> byte list \<Rightarrow> byte list" where
  "crypt ctx buf = fst (AES_CTR_xcrypt_buffer ctx buf BLOCK_SIZE)"

definition file_block :: "(nat \<Rightarrow> byte) \<Rightarrow> fs_inode_entry \<Rightarrow> nat \<Rightarrow> byte list" where
  "file_block c e k =
     crypt (block_ctx (i_cipher_key e) (i_cipher_iv e + of_nat k)) (block_at c (unat (i_start_block e) + k))"

definition file_blocks :: "(nat \<Rightarrow> byte) \<Rightarrow> fs_inode_entry \<Rightarrow> nat \<Rightarrow> byte list" where
  "file_blocks c e n = concat (map (file_block c e) [0..<n])"

definition file_bytes :: "(nat \<Rightarrow> byte) \<Rightarrow> fs_inode_entry \<Rightarrow> byte list" where
  "file_bytes c e = take (unat (i_size e)) (file_blocks c e (unat (i_block_count e)))"

text \<open>A file whose blocks lie in the data region and hold its size.\<close>

definition file_ok :: "fs_inode_entry \<Rightarrow> bool" where
  "file_ok e \<longleftrightarrow> unat (i_start_block e) + unat (i_block_count e) \<le> 16 \<and>
     unat (i_size e) \<le> 4096 * unat (i_block_count e)"

lemma Iv_block_ctx [simp]: "length (Iv (block_ctx key iv)) = 16"
  by (simp add: block_ctx_def AES_init_ctx_iv_def aes_consts)

lemma length_block_at [simp]: "length (block_at c k) = BLOCK_SIZE"
  by (simp add: block_at_def)

lemma length_crypt [simp]:
  "length (Iv ctx) = 16 \<Longrightarrow> BLOCK_SIZE \<le> length buf \<Longrightarrow> length (crypt ctx buf) = length buf"
  by (simp add: crypt_def AES_CTR_spec)

lemma crypt_crypt: "length (Iv ctx) = 16 \<Longrightarrow> BLOCK_SIZE \<le> length buf \<Longrightarrow> crypt ctx (crypt ctx buf) = buf"
  unfolding crypt_def by (rule AES_CTR_twice)

lemma length_file_block [simp]: "length (file_block c e k) = BLOCK_SIZE"
  by (simp add: file_block_def)

lemma length_file_blocks [simp]: "length (file_blocks c e n) = BLOCK_SIZE * n"
  by (simp add: file_blocks_def length_concat o_def sum_list_triv)

lemma file_blocks_chunk:
  "k < n \<Longrightarrow> take BLOCK_SIZE (drop (BLOCK_SIZE * k) (file_blocks c e n)) = file_block c e k"
  using chunk_concat [of "map (file_block c e) [0..<n]" BLOCK_SIZE k] by (simp add: file_blocks_def)

lemma last_block: "x \<le> 4096 * Suc ((x - 1) div 4096)" "0 < x \<Longrightarrow> 4096 * ((x - 1) div 4096) < (x :: nat)"
  using div_times_less_eq_dividend [of "x - 1" 4096] dividend_less_div_times [of 4096 "x - 1"] by simp_all

lemma block_numbers:
  fixes offset sz :: uint64
  assumes "0 < unat sz" and lt: "unat offset + unat sz \<le> 65536"
  shows "unat (ucast (offset div of_nat BLOCK_SIZE) :: uint32) = unat offset div 4096"
    and "unat (ucast (offset mod of_nat BLOCK_SIZE) :: uint32) = unat offset mod 4096"
    and "unat (ucast ((offset + sz - 1) div of_nat BLOCK_SIZE) :: uint32) = (unat offset + unat sz - 1) div 4096"
proof -
  have "unat (offset + sz - 1) = unat offset + unat sz - 1"
    using assms by (simp add: unat_word_ariths unat_sub_if')
  then show "unat (ucast ((offset + sz - 1) div of_nat BLOCK_SIZE) :: uint32) = (unat offset + unat sz - 1) div 4096"
    using lt by (simp add: BLOCK_SIZE_def unsigned_ucast_eq unat_div take_bit_nat_eq_self)
qed (use lt in \<open>simp_all add: BLOCK_SIZE_def unsigned_ucast_eq unat_div unat_mod take_bit_nat_eq_self\<close>)

lemma next_piece:
  assumes "take 4096 (drop (4096 * k) F) = blk" and "off div 4096 \<le> k" and "4096 * k < off + sz"
    and p: "p = max off (4096 * k)" and n: "n = min (4096 - (p - 4096 * k)) (off + sz - p)"
  shows "take (p - off) (drop off F) @ take n (drop (p - 4096 * k) blk) =
    take (min (off + sz) (max off (4096 * Suc k)) - off) (drop off F)"
proof -
  have "4096 * k \<le> p" "off \<le> p" using p by auto
  have "p < 4096 * Suc k" using p assms(2) by auto
  have "drop (p - 4096 * k) blk = take (4096 - (p - 4096 * k)) (drop p F)"
    using \<open>4096 * k \<le> p\<close> by (simp add: assms(1) [symmetric] drop_take)
  then have "take n (drop (p - 4096 * k) blk) = take n (drop (p - off) (drop off F))"
    using n \<open>off \<le> p\<close> by simp
  moreover have "p - off + n = min (off + sz) (max off (4096 * Suc k)) - off"
    using n p assms(2,3) \<open>p < 4096 * Suc k\<close> by (auto simp: min_def max_def)
  ultimately show ?thesis by (metis take_add)
qed

context mounted_fs
begin

lemma decrypt_block_yields:
  assumes "unat k < 16"
  shows "yield c (decrypt_block fs k ctx) (Ok (AES_CTR_xcrypt_buffer ctx (block_at c (unat k)) BLOCK_SIZE)) c"
  unfolding decrypt_block_def block_at_def
  by (rule yields_bind [OF read_yields])
    (use assms fits in \<open>auto simp: unat_block_addr fs_end_def BLOCK_SIZE_def yields_return\<close>)

lemma read_loop_yields:
  assumes "file_ok e" and off: "unat off + unat sz \<le> unat (i_size e)" and "0 < unat sz"
    and start: "unat start_block = unat off div 4096" and "unat off_in = unat off mod 4096"
    and last: "unat end_block = (unat off + unat sz - 1) div 4096"
    and "unat start_block \<le> unat k" and "unat k \<le> Suc (unat end_block)"
    and "Suc (unat end_block) - unat k < fuel"
    and "dst = take (min (unat off + unat sz) (max (unat off) (4096 * unat k)) - unat off)
           (drop (unat off) (file_blocks c e (unat (i_block_count e))))"
  shows "yield c (read_loop fuel fs e sz start_block end_block off_in k dst)
     (Ok (take (unat sz) (drop (unat off) (file_bytes c e)))) c"
  using assms(7-10)
proof (induction fuel arbitrary: k dst)
  case (Suc fuel)
  let ?F = "file_blocks c e (unat (i_block_count e))" and ?off = "unat off" and ?sz = "unat sz"
  have bc: "unat (i_start_block e) + unat (i_block_count e) \<le> 16" "unat (i_size e) \<le> 4096 * unat (i_block_count e)"
    using assms(1) by (auto simp: file_ok_def)
  have last_lt: "unat end_block < unat (i_block_count e)"
    using off last bc \<open>0 < unat sz\<close> by (simp add: less_mult_imp_div_less)
  show ?case
  proof (cases "k \<le> end_block")
    case False
    then have "unat k = Suc (unat end_block)" using Suc.prems(2) by (simp add: word_le_nat_alt)
    then have "?off + ?sz \<le> 4096 * unat k" using last_block(1) [of "?off + ?sz"] last by simp
    then have "dst = take ?sz (drop ?off ?F)" using Suc.prems(4) by (simp add: max_def min_def)
    moreover have "take ?sz (drop ?off (file_bytes c e)) = take ?sz (drop ?off ?F)"
      using off by (simp add: file_bytes_def drop_take min_def)
    ultimately show ?thesis using False by (simp add: yields_return)
  next
    case True
    then have kle: "unat k \<le> unat end_block" by (simp add: word_le_nat_alt)
    then have kn: "unat k < unat (i_block_count e)" using last_lt by simp
    have lt: "4096 * unat k < ?off + ?sz" using kle last last_block(2) [of "?off + ?sz"] \<open>0 < unat sz\<close> by simp
    define p where "p = max ?off (4096 * unat k)"
    have dst: "dst = take (p - ?off) (drop ?off ?F)" using Suc.prems(4) lt \<open>0 < unat sz\<close> by (simp add: p_def min_def)
    have plt: "p < ?off + ?sz" "?off \<le> p" "p < 4096 + 4096 * unat k"
      using lt \<open>0 < unat sz\<close> Suc.prems(1) start by (auto simp: p_def)
    have ldst: "length dst = p - ?off"
      using plt off bc by (simp add: dst BLOCK_SIZE_def)
    have blkoff: "(if k = start_block then unat off_in else 0) = p - 4096 * unat k"
      using Suc.prems(1) start assms(5) by (auto simp: p_def word_unat_eq_iff max_def minus_div_mult_eq_mod [symmetric])
    have w: "unat (i_start_block e + k) = unat (i_start_block e) + unat k"
      using bc kn by (simp add: unat_word_ariths)
    have k1: "unat (k + 1) = Suc (unat k)" using kn bc by (simp add: unat_word_ariths)
    have ctx: "block_ctx (i_cipher_key e) (i_cipher_iv e + ucast k) =
        block_ctx (i_cipher_key e) (i_cipher_iv e + of_nat (unat k))" by simp
    define n where "n = min (4096 - (p - 4096 * unat k)) (?off + ?sz - p)"
    have n: "(if BLOCK_SIZE - (p - 4096 * unat k) > ?sz - length dst then ?sz - length dst
        else BLOCK_SIZE - (p - 4096 * unat k)) = n"
      using plt by (auto simp: n_def ldst BLOCK_SIZE_def)
    let ?dst = "dst @ take n (drop (p - 4096 * unat k) (file_block c e (unat k)))"
    have "?dst = take (min (?off + ?sz) (max ?off (4096 * unat (k + 1))) - ?off) (drop ?off ?F)"
      using next_piece [OF _ _ lt p_def n_def, of ?F "file_block c e (unat k)"] file_blocks_chunk [OF kn, of c e]
        Suc.prems(1) start by (simp add: dst k1 BLOCK_SIZE_def)
    then have IH: "yield c (read_loop fuel fs e sz start_block end_block off_in (k + 1) ?dst)
        (Ok (take ?sz (drop ?off (file_bytes c e)))) c"
      using Suc.prems kle k1 by (intro Suc.IH) auto
    show ?thesis
      unfolding read_loop.simps if_P [OF True]
    proof (rule yields_bind [OF decrypt_block_yields])
      show "unat (i_start_block e + k) < 16" using w bc kn by simp
    qed (simp only: blkoff n Let_def case_prod_beta file_block_def crypt_def ctx w
        IH [unfolded file_block_def crypt_def])
  qed
qed simp

lemma entry_addr: "of_nat METADATA_SIZE + ucast ino * of_nat INODE_ENTRY_SIZE = inode_addr fs ino"
  by (simp add: inode_addr_def layout_simps METADATA_SIZE_def)

lemma fs_read_yields:
  assumes "unat ino < 16" and ok: "file_ok (inode_at c (unat ino))" and sz: "0 < unat sz" "unat sz \<le> FS_IO_MAX_SIZE"
    and fuel: "18 \<le> fuel"
  shows "yield c (fs_read fuel fs ino sz offset)
     (Ok (take (unat sz) (drop (unat offset) (file_bytes c (inode_at c (unat ino)))))) c"
proof -
  define e where "e = inode_at c (unat ino)"
  have e: "unat (i_start_block e) + unat (i_block_count e) \<le> 16" "unat (i_size e) \<le> 4096 * unat (i_block_count e)"
    using ok by (simp_all add: e_def file_ok_def)
  show ?thesis
  proof (cases "i_size e \<le> offset")
    case True
    then have "drop (unat offset) (file_bytes c e) = []" by (simp add: file_bytes_def word_le_nat_alt)
    then show ?thesis unfolding fs_read_def entry_addr
      using sz True by (auto intro!: yields_bind [OF read_inode_yields [OF assms(1)]] yields_return simp flip: e_def)
  next
    case False
    then have off: "unat offset < unat (i_size e)" by (simp add: word_le_nat_alt)
    have so: "unat (sz + offset) = unat sz + unat offset"
      using off e sz by (simp add: unat_word_ariths FS_IO_MAX_SIZE_def)
    define sz' where "sz' = (if sz + offset > i_size e then i_size e - offset else sz)"
    have sz': "unat sz' = min (unat sz) (unat (i_size e) - unat offset)"
      using off so by (auto simp: sz'_def word_less_nat_alt unat_sub word_le_nat_alt)
    then have pos: "0 < unat sz'" and le: "unat offset + unat sz' \<le> unat (i_size e)" using off sz by auto
    have lt: "unat offset + unat sz' \<le> 65536" using le e by simp
    note u = block_numbers [OF pos lt]
    have "(unat offset + unat sz' - 1) div 4096 < 16" using lt pos by auto
    with fuel have "Suc ((unat offset + unat sz' - 1) div 4096) - unat offset div 4096 < fuel" by linarith
    then have "yield c (read_loop fuel fs e sz' (ucast (offset div of_nat BLOCK_SIZE))
        (ucast ((offset + sz' - 1) div of_nat BLOCK_SIZE)) (ucast (offset mod of_nat BLOCK_SIZE))
        (ucast (offset div of_nat BLOCK_SIZE)) []) (Ok (take (unat sz') (drop (unat offset) (file_bytes c e)))) c"
      using pos le u ok
      by (intro read_loop_yields) (auto simp: e_def div_le_mono le_SucI intro!: div_le_mono)
    moreover have "take (unat sz') (drop (unat offset) (file_bytes c e)) = take (unat sz) (drop (unat offset) (file_bytes c e))"
      by (simp add: sz' file_bytes_def drop_take min_def)
    ultimately show ?thesis unfolding fs_read_def entry_addr
      using sz False by (auto intro!: yields_bind [OF read_inode_yields [OF assms(1)]] simp: Let_def sz'_def simp flip: e_def)
  qed
qed

end


section \<open>Updates of the disk\<close>

definition put_inode :: "(nat \<Rightarrow> byte) \<Rightarrow> nat \<Rightarrow> fs_inode_entry \<Rightarrow> nat \<Rightarrow> byte" where
  "put_inode c i e = content_upd c (12 + 304 * i) (enc_inode e)"

definition put_node :: "(nat \<Rightarrow> byte) \<Rightarrow> nat \<Rightarrow> fs_node \<Rightarrow> nat \<Rightarrow> byte" where
  "put_node c i n = content_upd c (70428 + 1160 * i) (enc_node n)"

definition put_block :: "(nat \<Rightarrow> byte) \<Rightarrow> nat \<Rightarrow> byte list \<Rightarrow> nat \<Rightarrow> byte" where
  "put_block c k bs = (content_upd c (88988 + 4096 * k) bs)(4876 + k := 1)"

named_theorems disk_simps \<open>reading the disk after an update of another or the same place\<close>

lemma slot_disjoint: "i \<noteq> j \<Longrightarrow> b + k * i + k \<le> b + k * j \<or> b + k * j + k \<le> b + k * (i :: nat)"
  using mult_le_mono2 [of "Suc i" j k] mult_le_mono2 [of "Suc j" i k] by (cases "i < j") auto

lemma inode_at_put_inode [disk_simps]:
  assumes "inode_wf e"
  shows "inode_at (put_inode c i e) j = (if i = j then e else inode_at c j)"
proof (cases "i = j")
  case True
  then show ?thesis
    using content_read_upd_same [of c "12 + 304 * i" "enc_inode e"] assms
    by (simp add: inode_at_def put_inode_def length_enc_inode dec_enc_inode)
next
  case False
  then show ?thesis using slot_disjoint [of i j 12 304] assms
    by (simp add: inode_at_def put_inode_def length_enc_inode content_read_upd_disjoint fs_consts)
qed

lemma node_at_put_node [disk_simps]:
  assumes "node_wf n"
  shows "node_at (put_node c i n) j = (if i = j then n else node_at c j)"
proof (cases "i = j")
  case True
  then show ?thesis
    using content_read_upd_same [of c "70428 + 1160 * i" "enc_node n"] assms
    by (simp add: node_at_def put_node_def length_enc_node dec_enc_node)
next
  case False
  then show ?thesis using slot_disjoint [of i j 70428 1160] assms
    by (simp add: node_at_def put_node_def length_enc_node content_read_upd_disjoint fs_consts)
qed

lemma content_read_fun_upd: "x < a \<or> a + n \<le> x \<Longrightarrow> content_read (c(x := v)) a n = content_read c a n"
  by (rule content_read_cong) auto

lemma block_at_put_block [disk_simps]:
  assumes "length bs = BLOCK_SIZE" and "k < 16"
  shows "block_at (put_block c k bs) j = (if k = j then bs else block_at c j)"
proof (cases "k = j")
  case True
  then show ?thesis
    using content_read_upd_same [of c "88988 + 4096 * k" bs] assms
    by (simp add: block_at_def put_block_def content_read_fun_upd)
next
  case False
  then show ?thesis using slot_disjoint [of k j 88988 4096] assms
    by (simp add: block_at_def put_block_def content_read_fun_upd content_read_upd_disjoint BLOCK_SIZE_def)
qed

lemma inode_at_put_block [disk_simps]: "k < 16 \<Longrightarrow> j < 16 \<Longrightarrow> inode_at (put_block c k bs) j = inode_at c j"
  by (simp add: inode_at_def put_block_def content_read_fun_upd content_read_upd_disjoint fs_consts)

lemma block_at_put_inode [disk_simps]: "inode_wf e \<Longrightarrow> i < 16 \<Longrightarrow> block_at (put_inode c i e) k = block_at c k"
  by (simp add: block_at_def put_inode_def length_enc_inode content_read_upd_disjoint fs_consts)

lemma node_at_put_inode [disk_simps]: "inode_wf e \<Longrightarrow> i < 16 \<Longrightarrow> node_at (put_inode c i e) k = node_at c k"
  by (simp add: node_at_def put_inode_def length_enc_inode content_read_upd_disjoint fs_consts)

lemma node_at_put_block [disk_simps]:
  "length bs = BLOCK_SIZE \<Longrightarrow> k < 16 \<Longrightarrow> j < 16 \<Longrightarrow> node_at (put_block c k bs) j = node_at c j"
  by (simp add: node_at_def put_block_def content_read_fun_upd content_read_upd_disjoint fs_consts)

lemma node_at_fun_upd [disk_simps]: "x < 70428 \<Longrightarrow> node_at (c(x := v)) i = node_at c i"
  by (simp add: node_at_def content_read_fun_upd)

context mounted_fs
begin

lemma put_inode_yields:
  "unat i < 16 \<Longrightarrow> inode_wf e \<Longrightarrow>
   yield c (fsdw fs (enc_inode e) (inode_addr fs i)) (Ok ()) (put_inode c (unat i) e)"
  unfolding put_inode_def by (rule write_inode_yields)

lemma put_node_yields:
  "unat i < 16 \<Longrightarrow> node_wf e \<Longrightarrow>
   yield c (fsdw fs (enc_node e) (node_addr fs i)) (Ok ()) (put_node c (unat i) e)"
  unfolding put_node_def by (rule write_node_yields)

lemma write_byte_yields:
  "unat a < cap \<Longrightarrow> yield c (fsdw fs [v] a) (Ok ()) (c(unat a := v))"
proof -
  have "content_upd c (unat a) [v] = c(unat a := v)" by (auto simp: content_upd_def)
  then show "unat a < cap \<Longrightarrow> yield c (fsdw fs [v] a) (Ok ()) (c(unat a := v))"
    using write_yields [of a "[v]" c] by simp
qed

lemma encrypt_block_yields:
  assumes k: "unat k < 16" and len: "BLOCK_SIZE \<le> length buf" "length (Iv ctx) = 16"
  shows "yield c (encrypt_block fs k ctx buf) (Ok (AES_CTR_xcrypt_buffer ctx buf BLOCK_SIZE))
     (put_block c (unat k) (take BLOCK_SIZE (crypt ctx buf)))"
proof -
  have u: "unat (block_usage_offset fs + ucast k) = 4876 + unat k"
    using unat_addr [of k 4876 1] k by (simp add: layout_simps)
  let ?bs = "take BLOCK_SIZE (crypt ctx buf)"
  have l: "length ?bs = BLOCK_SIZE" using len by simp
  have w: "yield c (fsdw fs ?bs (block_addr fs k)) (Ok ()) (content_upd c (88988 + 4096 * unat k) ?bs)"
    using write_yields [of "block_addr fs k" ?bs c] k fits unfolding l
    by (simp add: unat_block_addr fs_end_def BLOCK_SIZE_def)
  have one: "yield c1 (fsdw fs [1] (block_usage_offset fs + ucast k)) (Ok ()) (c1(4876 + unat k := 1))" for c1
    using write_byte_yields [of "block_usage_offset fs + ucast k" c1 1] k fits by (simp add: u fs_end_def)
  have x: "(crypt ctx buf, snd (AES_CTR_xcrypt_buffer ctx buf BLOCK_SIZE)) = AES_CTR_xcrypt_buffer ctx buf BLOCK_SIZE"
    by (simp add: crypt_def)
  show ?thesis unfolding encrypt_block_def put_block_def case_prod_beta crypt_def [symmetric] x
    by (rule yields_bind [OF w yields_bind [OF one yields_return]])
qed

lemma are_blocks_avaiblable_one:
  assumes "unat b < 16"
  shows "yield c (are_blocks_avaiblable fs b 1) (Ok (c (unat b) = 0)) c"
proof -
  let ?a = "avail_block_table_offset fs + scast b + ucast (0 :: uint32)"
  have a: "unat ?a = unat b" using assms by (simp add: layout_simps scast_small)
  have "yield c (fsdr fs ?a 1) (Ok [c (unat b)]) c"
    using read_byte_yields [of ?a c] assms fits unfolding a by (simp add: fs_end_def)
  then have "yield c (blocks_available_loop (Suc 0) fs (avail_block_table_offset fs) b 0) (Ok (c (unat b) = 0)) c"
    unfolding blocks_available_loop.simps by (rule yields_bind) (simp add: yields_return)
  then show ?thesis by (simp add: are_blocks_avaiblable_def del: blocks_available_loop.simps)
qed

lemma SIZE_TO_BLOCK_one: "0 < unat sz \<Longrightarrow> unat sz \<le> 4096 \<Longrightarrow> SIZE_TO_BLOCK sz = 1"
proof -
  assume "0 < unat sz" "unat sz \<le> 4096"
  then have "unat (sz + 4096 - 1) = unat sz + 4095" by (simp add: unat_word_ariths unat_sub_if')
  then have "unat ((sz + 4096 - 1) div 4096) = 1"
    using \<open>0 < unat sz\<close> \<open>unat sz \<le> 4096\<close> by (simp add: unat_div)
  then show ?thesis by (simp add: SIZE_TO_BLOCK_def BLOCK_SIZE_def word_unat_eq_iff unsigned_ucast_eq)
qed

lemma write_out_first:
  assumes e: "inode_wf e" "unat (i_start_block e) < 16" and ino: "unat ino < 16" and buf: "BLOCK_SIZE \<le> length buf"
  shows "yield c (write_out fs (inode_addr fs ino) e aba pb buf sz 0 1 1)
     (Ok (sz, crypt (block_ctx (i_cipher_key e) (i_cipher_iv e)) buf))
     (put_inode (put_block c (unat (i_start_block e)) (take BLOCK_SIZE (crypt (block_ctx (i_cipher_key e) (i_cipher_iv e)) buf)))
        (unat ino) (e\<lparr>i_block_count := 1, i_size := sz\<rparr>))"
proof -
  let ?ctx = "block_ctx (i_cipher_key e) (i_cipher_iv e)"
  let ?c = "put_block c (unat (i_start_block e)) (take BLOCK_SIZE (crypt ?ctx buf))"
  have s0: "SIZE_TO_BLOCK 0 = 0" by (simp add: SIZE_TO_BLOCK_def BLOCK_SIZE_def)
  have blk: "yield c (io_ignore (encrypt_block fs (i_start_block e) ?ctx buf)) (Ok ()) ?c"
    using e(2) buf by (intro yields_ignore [OF encrypt_block_yields]) simp_all
  have loop: "yield c (write_blocks_loop (Suc 0) fs (i_start_block e) ?ctx [] buf) (Ok (crypt ?ctx buf)) ?c"
    unfolding write_blocks_loop.simps using buf
    by (auto intro!: yields_bind [OF blk] simp: yields_return crypt_def case_prod_beta not_less)
  have "yield ?c (fsdw fs (enc_inode (e\<lparr>i_block_count := 1, i_size := sz\<rparr>)) (inode_addr fs ino)) (Ok ())
      (put_inode ?c (unat ino) (e\<lparr>i_block_count := 1, i_size := sz\<rparr>))"
    by (rule put_inode_yields) (use e ino in \<open>simp_all add: inode_wf_def\<close>)
  then show ?thesis unfolding write_out_def
    by (auto simp: s0 Let_def intro!: yields_bind [OF yields_return] yields_bind [OF yields_bind [OF loop yields_return]]
        yields_bind yields_return simp del: write_blocks_loop.simps)
qed

lemma ensures_rng:
  assumes "\<And>bs. length bs = n \<Longrightarrow> ensures good content c (f bs) Q"
  shows "ensures good content c (io_bind (fsrng fs n) f) Q"
  unfolding ensures_def
proof (intro allI impI)
  fix d assume d: "good d \<and> content d = c"
  then obtain bs d1 where d1: "fsrng fs n d = (Ok bs, d1)" "length bs = n" "good d1" "content d1 = c"
    using rng_ok [of d n] by auto
  then obtain r d2 where "f bs d1 = (r, d2)" "good d2" "Q r (content d2)"
    using assms [of bs] unfolding ensures_def by blast
  with d1(1) show "\<exists>r d'. io_bind (fsrng fs n) f d = (r, d') \<and> good d' \<and> Q r (content d')"
    by (auto simp: io_bind_Ok)
qed

lemma free_blocks_loop_done: "free_blocks_loop k fs 1 s 1 a = io_return (s, 1)"
  by (cases k) simp_all

lemma free_blocks_loop_yields:
  "unat s + k = 16 \<Longrightarrow> unat a = unat s \<Longrightarrow>
   yield c (free_blocks_loop k fs 1 s 0 a)
     (Ok (case first_free c (\<lambda>j. j) (unat s) k of None \<Rightarrow> (16, 0) | Some j \<Rightarrow> (of_nat j, 1))) c"
proof (induction k arbitrary: s a)
  case 0
  then have "s = 16" by (simp add: word_unat_eq_iff)
  then show ?case by (simp add: first_free_def yields_return)
next
  case (Suc k)
  have lt: "s < 16" using Suc.prems by (simp add: word_less_nat_alt)
  have "unat (s + 1) = Suc (unat s)" "unat (a + 1) = Suc (unat a)"
    using Suc.prems by (simp_all add: unat_word_ariths)
  then have IH: "yield c (free_blocks_loop k fs 1 (s + 1) 0 (a + 1))
      (Ok (case first_free c (\<lambda>j. j) (Suc (unat s)) k of None \<Rightarrow> (16, 0) | Some j \<Rightarrow> (of_nat j, 1))) c"
    using Suc.IH [of "s + 1" "a + 1"] Suc.prems by simp
  have rd: "yield c (fsdr fs a 1) (Ok [c (unat s)]) c"
    using read_byte_yields [of a c] Suc.prems fits by (simp add: fs_end_def)
  have "yield c (io_bind (fsdr fs a 1) (\<lambda>dest. if hd dest \<noteq> 0
        then free_blocks_loop k fs 1 (s + 1) 0 (a + 1) else free_blocks_loop k fs 1 s 1 (a + 1)))
      (Ok (case first_free c (\<lambda>j. j) (unat s) (Suc k) of None \<Rightarrow> (16, 0) | Some j \<Rightarrow> (of_nat j, 1))) c"
    by (rule yields_bind [OF rd]) (use IH in \<open>simp add: first_free_Suc free_blocks_loop_done yields_return\<close>)
  then show ?case using lt by (simp add: layout_simps cong: if_cong)
qed

lemma search_free_blocks_yields:
  "yield c (search_free_blocks fs 1) (free_outcome (first_free c (\<lambda>j. j) 0 16)) c"
proof -
  have loop: "yield c (free_blocks_loop 16 fs 1 0 0 0)
      (Ok (case first_free c (\<lambda>j. j) 0 16 of None \<Rightarrow> (16, 0) | Some j \<Rightarrow> (of_nat j, 1))) c"
    using free_blocks_loop_yields [of 0 16 0 c] by simp
  have "unat (16 :: uint32) = 16" by simp
  then show ?thesis unfolding search_free_blocks_def layout_simps fs_metadata.simps
    by (intro yields_bind [OF loop [folded \<open>unat (16 :: uint32) = 16\<close>]])
      (simp add: free_outcome_def yields_return yields_fail split: option.split)
qed

end

text \<open>
  What a successful write leaves: the file has the given contents, and no other inode and no tree
  node has changed.
\<close>

definition stored :: "(nat \<Rightarrow> byte) \<Rightarrow> (nat \<Rightarrow> byte) \<Rightarrow> nat \<Rightarrow> byte list \<Rightarrow> bool" where
  "stored c c' ino bs \<longleftrightarrow> file_ok (inode_at c' ino) \<and> file_bytes c' (inode_at c' ino) = bs \<and>
     (\<forall>j<16. j \<noteq> ino \<longrightarrow> inode_at c' j = inode_at c j) \<and> (\<forall>j<16. node_at c' j = node_at c j)"

lemma file_after_first_write:
  assumes e: "inode_wf e" "unat (i_start_block e) < 16" and ino: "ino < 16" and buf: "BLOCK_SIZE \<le> length buf"
    and sz: "unat sz \<le> 4096"
    and e': "e' = e\<lparr>i_block_count := 1, i_size := sz\<rparr>"
    and c': "c' = put_inode (put_block c (unat (i_start_block e))
          (take BLOCK_SIZE (crypt (block_ctx (i_cipher_key e) (i_cipher_iv e)) buf))) ino e'"
  shows "stored c c' ino (take (unat sz) buf)"
proof -
  let ?ctx = "block_ctx (i_cipher_key e) (i_cipher_iv e)"
  have wf: "inode_wf e'" using e by (simp add: e' inode_wf_def)
  have len: "length (take BLOCK_SIZE (crypt ?ctx buf)) = BLOCK_SIZE" using buf by simp
  have "block_at c' (unat (i_start_block e)) = take BLOCK_SIZE (crypt ?ctx buf)"
    using wf len ino e by (simp add: c' disk_simps)
  then have "file_block c' e' 0 = crypt ?ctx (take BLOCK_SIZE (crypt ?ctx buf))" by (simp add: file_block_def e')
  also have "\<dots> = take BLOCK_SIZE (crypt ?ctx (crypt ?ctx buf))"
    using buf len by (simp add: crypt_def AES_CTR_spec nth_append cong: map_cong)
  also have "\<dots> = take BLOCK_SIZE buf" using buf by (simp add: crypt_crypt)
  finally have "file_bytes c' e' = take (unat sz) buf"
    using sz by (simp add: file_bytes_def file_blocks_def e' BLOCK_SIZE_def min_def)
  moreover have "file_ok e'" using e sz by (simp add: e' file_ok_def)
  moreover have "inode_at c' ino = e'" "\<forall>j<16. j \<noteq> ino \<longrightarrow> inode_at c' j = inode_at c j"
    "\<forall>j<16. node_at c' j = node_at c j"
    using wf e ino len by (simp_all add: c' disk_simps)
  ultimately show ?thesis by (simp add: stored_def)
qed

context mounted_fs
begin

lemma relocate_first:
  assumes post: "\<And>e'. inode_wf e' \<Longrightarrow> unat (i_start_block e') < 16 \<Longrightarrow> ensures good content c (f e') Q"
    and full: "\<forall>k<16. c k \<noteq> 0 \<Longrightarrow> Q (Err (- ENOSPC)) c" and e: "inode_wf e"
  shows "ensures good content c (io_bind (relocate fs e 1 0) f) Q"
proof (cases "first_free c (\<lambda>j. j) 0 16")
  case None
  then have "yield c (search_free_blocks fs 1) (Err (- ENOSPC)) c"
    using search_free_blocks_yields [of c] by (simp add: free_outcome_def)
  then have "yield c (io_bind (relocate fs e 1 0) f) (Err (- ENOSPC)) c"
    by (auto simp: relocate_def intro!: yields_bind_Err)
  then show ?thesis using None full by (auto simp: first_free_None intro: ensures_yields)
next
  case (Some j)
  define s :: uint32 where "s = of_nat j"
  have s: "unat s < 16" using first_free_Some [OF Some] by (simp add: s_def unat_of_nat)
  have found: "yield c (search_free_blocks fs 1) (Ok s) c"
    using search_free_blocks_yields [of c] Some by (simp add: free_outcome_def s_def)
  have copy: "yield c (io_ignore (copy_block fs a k iv b k' iv' (ucast (0 div of_nat BLOCK_SIZE :: uint64)))) (Ok ()) c"
    for a k iv b k' iv'
    by (rule yields_ignore [where x = "()"]) (simp add: copy_block_def yields_return)
  show ?thesis unfolding relocate_def io_bind_assoc Let_def
  proof (intro ensures_bind [OF found] ensures_rng ensures_bind [OF copy])
    fix key iv :: "byte list"
    assume "length key = FS_KEY_SIZE"
    then show "ensures good content c (io_bind (io_return (e\<lparr>i_start_block := s, i_cipher_key := key,
        i_cipher_iv := word_of_le iv\<rparr>)) f) Q"
      using s e by (simp add: post inode_wf_def FS_KEY_SIZE_def)
  qed
qed

lemma fs_write_first_ensures:
  assumes ino: "unat ino < 16" and e: "e = inode_at c (unat ino)" "i_block_count e = 0" "unat (i_start_block e) < 16"
    and sz: "0 < unat sz" "unat sz \<le> 4096" and buf: "BLOCK_SIZE \<le> length buf"
  shows "ensures good content c (fs_write fs ino buf sz 0)
     (\<lambda>r c'. (\<exists>buf'. r = Ok (sz, buf') \<and> stored c c' (unat ino) (take (unat sz) buf)) \<or>
             (r = Err (- ENOSPC) \<and> c' = c \<and> (\<forall>k<16. c k \<noteq> 0)))" (is "ensures good content c _ ?Q")
proof -
  let ?ok = "c (unat (i_start_block e)) = 0"
  have out: "ensures good content c (write_out fs (inode_addr fs ino) e' aba pb buf sz 0 1 1) ?Q"
    if "inode_wf e'" "unat (i_start_block e') < 16" for e' aba pb
    using ensures_yields [OF write_out_first [OF that ino buf], of ?Q]
      file_after_first_write [OF that ino buf sz(2) refl refl, of c] by blast
  have wf: "inode_wf e" by (simp add: e)
  have move: "ensures good content c (io_bind (if Some ?ok = Some False then relocate fs e 1 0 else io_return e)
      (\<lambda>entry. write_out fs (inode_addr fs ino) entry (Some ?ok) [] buf sz 0 1 1)) ?Q"
  proof (cases ?ok)
    case False
    then show ?thesis using relocate_first [OF out _ wf] by simp
  qed (use out [OF wf e(3)] in simp)
  have avail: "yield c (io_bind (are_blocks_avaiblable fs (i_start_block e) 1) (\<lambda>b. io_return (Some b))) (Ok (Some ?ok)) c"
    by (rule yields_bind [OF are_blocks_avaiblable_one yields_return]) (rule e(3))
  have part: "yield c (read_partial fs e buf 0) (Ok []) c"
    by (simp add: read_partial_def yields_return)
  have rd: "yield c (read_inode fs (inode_addr fs ino)) (Ok e) c" unfolding e by (rule read_inode_yields [OF ino])
  show ?thesis
    unfolding fs_write_def entry_addr Let_def
    using sz e(2) move by (auto simp: SIZE_TO_BLOCK_one FS_IO_MAX_SIZE_def intro!: ensures_bind [OF rd] ensures_bind [OF avail]
        ensures_bind [OF part])
qed

end


text \<open>Writing at the end of the last block of a file.\<close>

lemma file_blocks_Suc: "file_blocks c e (Suc k) = file_blocks c e k @ file_block c e k"
  by (simp add: file_blocks_def)

lemma file_after_append:
  assumes wf: "inode_wf e" and ok: "file_ok e" and ino: "ino < 16" and bc: "unat (i_block_count e) = Suc k"
    and off: "off = 4096 * k + o'" "o' < 4096" "off \<le> unat (i_size e)"
    and sz: "unat sz = off + n" "o' + n \<le> 4096" and buf: "4096 - o' \<le> length buf"
    and pb: "pb = take o' (file_block c e k) @ take (4096 - o') buf"
    and e': "e' = e\<lparr>i_size := sz\<rparr>"
    and c': "c' = put_inode (put_block c (unat (i_start_block e) + k)
          (crypt (block_ctx (i_cipher_key e) (i_cipher_iv e + of_nat k)) pb)) ino e'"
  shows "stored c c' ino (take off (file_bytes c e) @ take n buf)"
proof -
  let ?ctx = "block_ctx (i_cipher_key e) (i_cipher_iv e + of_nat k)"
  have kb: "unat (i_start_block e) + k < 16" using ok bc by (simp add: file_ok_def)
  have wf': "inode_wf e'" using wf by (simp add: e' inode_wf_def)
  have lpb: "length pb = BLOCK_SIZE" using buf off by (simp add: pb BLOCK_SIZE_def)
  then have len: "length (crypt ?ctx pb) = BLOCK_SIZE" by simp
  have blk: "block_at c' (unat (i_start_block e) + j) = (if j = k then crypt ?ctx pb
      else block_at c (unat (i_start_block e) + j))" for j
    using wf' len ino kb by (simp add: c' disk_simps)
  then have "file_block c' e' k = pb" using lpb by (simp add: file_block_def e' crypt_crypt)
  moreover have "file_blocks c' e' k = file_blocks c e k"
    unfolding file_blocks_def
    by (intro arg_cong [where f = concat] map_cong refl) (simp add: file_block_def e' blk)
  ultimately have new: "file_blocks c' e' (Suc k) = file_blocks c e k @ pb" by (simp add: file_blocks_Suc)
  have "file_bytes c' e' = file_blocks c e k @ take o' (file_block c e k) @ take n buf"
    using off sz buf bc by (simp add: file_bytes_def e' new [unfolded e'] pb BLOCK_SIZE_def)
  also have "\<dots> = take off (file_bytes c e) @ take n buf"
    using off bc by (auto simp: file_bytes_def file_blocks_Suc BLOCK_SIZE_def min_def)
  finally have "file_bytes c' e' = take off (file_bytes c e) @ take n buf" .
  moreover have "file_ok e'" using ok sz off bc by (simp add: e' file_ok_def)
  moreover have "inode_at c' ino = e'" "\<forall>j<16. j \<noteq> ino \<longrightarrow> inode_at c' j = inode_at c j"
    "\<forall>j<16. node_at c' j = node_at c j"
    using wf' kb ino len by (simp_all add: c' disk_simps)
  ultimately show ?thesis by (simp add: stored_def)
qed

lemma unat_block_of_offset: "unat ((offset :: uint64) div of_nat BLOCK_SIZE) = unat offset div 4096"
  by (simp add: BLOCK_SIZE_def unat_div)

lemma unat_block_index:
  fixes s :: uint32 and b :: uint64
  assumes "unat s + unat b < 16"
  shows "unat (ucast (ucast s + b) :: uint32) = unat s + unat b"
proof -
  have "unat (ucast s + b :: uint64) = unat s + unat b" using assms by (simp add: unat_word_ariths)
  then show ?thesis using assms by (simp add: unsigned_ucast_eq take_bit_nat_eq_self)
qed

lemma ucast_128_of_nat: "ucast (b :: uint64) = (of_nat (unat b) :: uint128)"
  by (rule of_nat_unat [symmetric])

lemma SIZE_TO_BLOCK_append:
  assumes "unat offset mod 4096 \<noteq> 0" and "unat offset mod 4096 + unat sz \<le> 4096" and k: "unat offset div 4096 < 16"
  shows "SIZE_TO_BLOCK (offset + sz) = of_nat (Suc (unat offset div 4096))"
proof -
  define x k r where "x = unat offset + unat sz" and "k = unat offset div 4096" and "r = unat offset mod 4096"
  have off: "unat offset = 4096 * k + r" by (simp add: k_def r_def)
  have x: "4096 * k < x" "x \<le> 4096 * Suc k" "x \<le> 65536"
    using off assms [folded k_def r_def] unfolding x_def by simp_all
  then have "(x + 4095) div 4096 = Suc k"
    by (intro div_nat_eqI) auto
  moreover have "unat (offset + sz + of_nat BLOCK_SIZE - 1) = x + 4095"
    using x by (simp add: BLOCK_SIZE_def x_def unat_word_ariths unat_sub_if')
  ultimately have "unat ((offset + sz + of_nat BLOCK_SIZE - 1) div of_nat BLOCK_SIZE) = Suc k"
    by (simp add: unat_block_of_offset)
  then show ?thesis unfolding SIZE_TO_BLOCK_def k_def by (metis of_nat_unat)
qed

context mounted_fs
begin

lemma fs_write_append_yields:
  assumes ino: "unat ino < 16" and e: "e = inode_at c (unat ino)" and ok: "file_ok e"
    and off: "unat offset mod 4096 \<noteq> 0" "unat offset \<le> unat (i_size e)"
      "unat (i_block_count e) = Suc (unat offset div 4096)"
    and sz: "unat offset mod 4096 + unat sz \<le> 4096" and buf: "4096 - unat offset mod 4096 \<le> length buf"
  shows "\<exists>c'. yield c (fs_write fs ino buf sz offset) (Ok (sz, buf)) c' \<and>
     stored c c' (unat ino) (take (unat offset) (file_bytes c e) @ take (unat sz) buf)"
proof -
  define k where "k = unat offset div 4096"
  define o' where "o' = unat offset mod 4096"
  let ?b = "ucast (ucast (i_start_block e) + offset div of_nat BLOCK_SIZE) :: uint32"
  let ?ctx = "block_ctx (i_cipher_key e) (i_cipher_iv e + ucast (offset div of_nat BLOCK_SIZE))"
  define pb where "pb = take o' (file_block c e k) @ take (4096 - o') buf"
  define e' where "e' = e\<lparr>i_size := offset + sz\<rparr>"
  define c1 where "c1 = put_block c (unat ?b) (crypt ?ctx pb)"
  have ko: "unat offset = 4096 * k + o'" "o' < 4096" by (simp_all add: k_def o'_def)
  have bc: "unat (i_start_block e) + Suc k \<le> 16" using ok off by (simp add: file_ok_def k_def)
  have b: "unat ?b = unat (i_start_block e) + k"
    using unat_block_index [of "i_start_block e" "offset div of_nat BLOCK_SIZE"] bc
    by (simp add: unat_block_of_offset k_def)
  have ctx: "?ctx = block_ctx (i_cipher_key e) (i_cipher_iv e + of_nat k)"
    by (simp only: ucast_128_of_nat unat_block_of_offset k_def)
  have om: "unat (offset mod of_nat BLOCK_SIZE) = o'" by (simp add: BLOCK_SIZE_def unat_mod o'_def)
  then have nz: "offset mod of_nat BLOCK_SIZE \<noteq> 0" using off(1) o'_def by (metis unsigned_0)
  have total: "SIZE_TO_BLOCK (offset + sz) = i_block_count e"
    using SIZE_TO_BLOCK_append [OF off(1) sz] bc unfolding off(3) [symmetric] by (simp add: k_def)
  have lpb: "length pb = BLOCK_SIZE"
    using buf [folded o'_def] ko(2) by (simp add: pb_def BLOCK_SIZE_def)
  have "\<not> length buf < BLOCK_SIZE - o'" "o' \<noteq> 0" using buf off(1) by (simp_all add: o'_def BLOCK_SIZE_def)
  then have rp: "read_partial fs e buf offset = io_bind (decrypt_block fs ?b ?ctx)
      (\<lambda>p. io_return (take o' (fst p) @ take (BLOCK_SIZE - o') buf))"
    unfolding read_partial_def Let_def om by (simp only: if_False split_def)
  have "fst (AES_CTR_xcrypt_buffer ?ctx (block_at c (unat ?b)) BLOCK_SIZE) = file_block c e k"
    by (simp only: file_block_def crypt_def ctx b)
  then have pb': "take o' (fst (AES_CTR_xcrypt_buffer ?ctx (block_at c (unat ?b)) BLOCK_SIZE)) @ take (BLOCK_SIZE - o') buf = pb"
    by (simp only: pb_def BLOCK_SIZE_def)
  have "unat ?b < 16" using b bc by simp
  from yields_bind [OF decrypt_block_yields [OF this] yields_return]
  have part: "yield c (read_partial fs e buf offset) (Ok pb) c" unfolding rp pb' [symmetric] .
  have enc: "yield c (encrypt_block fs ?b ?ctx pb) (Ok (AES_CTR_xcrypt_buffer ?ctx pb BLOCK_SIZE)) c1"
    using encrypt_block_yields [of ?b pb ?ctx c] b bc lpb by (simp add: c1_def)
  have wr: "yield c1 (fsdw fs (enc_inode e') (inode_addr fs ino)) (Ok ()) (put_inode c1 (unat ino) e')"
    by (rule put_inode_yields [OF ino]) (simp add: e'_def e inode_wf_at [unfolded inode_wf_def] inode_wf_def)
  have enc': "yield c (io_bind (encrypt_block fs ?b ?ctx pb) (\<lambda>(_, ctx). io_return ctx))
      (Ok (snd (AES_CTR_xcrypt_buffer ?ctx pb BLOCK_SIZE))) c1"
    by (rule yields_bind [OF enc]) (simp add: split_def yields_return)
  have out: "yield c (write_out fs (inode_addr fs ino) e None pb buf sz offset (i_block_count e) 0)
      (Ok (sz, buf)) (put_inode c1 (unat ino) e')"
    unfolding write_out_def Let_def if_P [OF nz]
    by (rule yields_bind [OF enc']) (auto simp: e'_def intro!: yields_bind [OF wr [unfolded e'_def]] yields_return)
  have rd: "yield c (read_inode fs (inode_addr fs ino)) (Ok e) c" unfolding e by (rule read_inode_yields [OF ino])
  have "yield c (fs_write fs ino buf sz offset) (Ok (sz, buf)) (put_inode c1 (unat ino) e')"
    unfolding fs_write_def entry_addr Let_def total
    using sz off(2) out
    by (auto simp: FS_IO_MAX_SIZE_def word_less_nat_alt intro!: yields_bind [OF rd] yields_bind [OF part])
  moreover have "stored c (put_inode c1 (unat ino) e') (unat ino) (take (unat offset) (file_bytes c e) @ take (unat sz) buf)"
  proof (rule file_after_append [OF _ ok ino _ ko(1,2) off(2) _ _ _ pb_def e'_def])
    show "unat (offset + sz) = unat offset + unat sz" using sz ko bc by (simp add: unat_word_ariths)
    show "o' + unat sz \<le> 4096" "4096 - o' \<le> length buf" using sz buf by (simp_all add: o'_def)
    show "unat (i_block_count e) = Suc k" using off by (simp add: k_def)
    show "put_inode c1 (unat ino) e' = put_inode (put_block c (unat (i_start_block e) + k)
        (crypt (block_ctx (i_cipher_key e) (i_cipher_iv e + of_nat k)) pb)) (unat ino) e'"
      by (simp add: c1_def b ctx)
  qed (simp add: e)
  ultimately show ?thesis by blast
qed

end

end
