(* ===== verification/Filesystem_Tree.thy ===== *)
theory Filesystem_Tree
  imports Filesystem_Correct
begin

text \<open>
  The directory tree of the file system. The nodes on the disk are read as directories (names and
  node numbers of their children), paths as lists of names, and the searches of the C code as a
  walk from the root. \<open>tree_ok\<close> is the invariant of the tree; \<open>fs_touch\<close> keeps it.
\<close>

section \<open>Directories\<close>

definition child_name :: "fd_node_child \<Rightarrow> byte list" where
  "child_name ch = cstr (c_name ch)"

definition child_of :: "fs_node \<Rightarrow> byte list \<Rightarrow> uint32 option" where
  "child_of node name = map_option c_index (find (\<lambda>ch. child_name ch = name) (n_children node))"

definition names_ok :: "fs_node \<Rightarrow> bool" where
  "names_ok node \<longleftrightarrow> node_wf node \<and> (\<forall>ch\<in>set (n_children node). 0 \<in> set (c_name ch))"

definition zero_child :: fd_node_child where
  "zero_child = \<lparr>c_name = replicate 32 0, c_index = 0\<rparr>"

definition node_used :: "(nat \<Rightarrow> byte) \<Rightarrow> nat \<Rightarrow> bool" where
  "node_used c i \<longleftrightarrow> i = 0 \<or> c (4892 + i) \<noteq> 0"

text \<open>A directory: the first \<open>children_count\<close> slots hold named children, the others are empty.\<close>

definition child_ok :: "(nat \<Rightarrow> byte) \<Rightarrow> fd_node_child \<Rightarrow> bool" where
  "child_ok c ch \<longleftrightarrow> length (c_name ch) = 32 \<and> 0 \<in> set (c_name ch) \<and> child_name ch \<noteq> [] \<and>
     0 < unat (c_index ch) \<and> unat (c_index ch) < 16 \<and> node_used c (unat (c_index ch))"

definition dir_ok :: "(nat \<Rightarrow> byte) \<Rightarrow> fs_node \<Rightarrow> bool" where
  "dir_ok c node \<longleftrightarrow>
     (\<exists>chs. n_children node = chs @ replicate (32 - length chs) zero_child \<and> length chs \<le> 32 \<and>
            n_children_count node = of_nat (length chs) \<and> (\<forall>ch\<in>set chs. child_ok c ch) \<and>
            distinct (map child_name chs))"

definition tree_ok :: "(nat \<Rightarrow> byte) \<Rightarrow> bool" where
  "tree_ok c \<longleftrightarrow> (\<forall>i<16. node_used c i \<longrightarrow> dir_ok c (node_at c i))"

fun tree_walk :: "(nat \<Rightarrow> byte) \<Rightarrow> nat \<Rightarrow> byte list list \<Rightarrow> nat option" where
  "tree_walk c i [] = Some i"
| "tree_walk c i (e # es) = (case child_of (node_at c i) e of None \<Rightarrow> None | Some j \<Rightarrow> tree_walk c (unat j) es)"

text \<open>The names that \<open>search_node\<close> can follow, and the path with given names.\<close>

definition name_ok :: "byte list \<Rightarrow> bool" where
  "name_ok nm \<longleftrightarrow> nm \<noteq> [] \<and> 0 \<notin> set nm \<and> slash \<notin> set nm \<and> length nm < 31"

definition path_of :: "byte list list \<Rightarrow> byte list" where
  "path_of es = concat (map ((#) slash) es)"

lemma name_from_chunk:
  assumes "node_wf node" and "i < 32"
  shows "\<exists>rest. name_from node i = c_name (n_children node ! i) @ rest"
proof -
  let ?cs = "map enc_child (n_children node)"
  have "length (n_children node) = 32" "\<forall>xs\<in>set ?cs. length xs = 36"
    using assms by (auto simp: node_wf_def child_wf_def enc_child_def MAX_CHILDREN_def)
  then have "take 36 (name_from node i) = enc_child (n_children node ! i)"
    using chunk_concat [of ?cs 36 i] assms(2) by (simp add: name_from_def enc_node_def)
  then have "name_from node i = enc_child (n_children node ! i) @ drop 36 (name_from node i)"
    by (metis append_take_drop_id)
  then show ?thesis unfolding enc_child_def append.assoc by (rule exI)
qed

lemma name_from_cstr:
  assumes "names_ok node" and "i < 32"
  shows "0 \<in> set (name_from node i) \<and> cstr (name_from node i) = child_name (n_children node ! i)"
proof -
  have "n_children node ! i \<in> set (n_children node)"
    using assms by (simp add: names_ok_def node_wf_def MAX_CHILDREN_def)
  then have "0 \<in> set (c_name (n_children node ! i))" using assms by (simp add: names_ok_def)
  moreover obtain rest where "name_from node i = c_name (n_children node ! i) @ rest"
    using name_from_chunk assms by (metis names_ok_def)
  ultimately show ?thesis by (simp add: child_name_def cstr_append)
qed

lemma follow_loop_spec:
  assumes "names_ok node" and e: "0 \<notin> set e"
  shows "n \<le> 32 \<Longrightarrow> follow_loop n node (e @ [0]) =
    Some (map_option c_index (find (\<lambda>ch. child_name ch = e) (drop (32 - n) (n_children node))))"
proof (induction n)
  case 0
  have "length (n_children node) = 32" using assms by (simp add: names_ok_def node_wf_def MAX_CHILDREN_def)
  then show ?case by simp
next
  case (Suc n)
  let ?i = "32 - Suc n"
  have len: "length (n_children node) = 32" using assms by (simp add: names_ok_def node_wf_def MAX_CHILDREN_def)
  have i: "?i < 32" "Suc ?i = 32 - n" using Suc.prems by auto
  have "strcmp (name_from node ?i) (e @ [0]) =
      Some (if child_name (n_children node ! ?i) = e then 0
            else if child_name (n_children node ! ?i) < e then - 1 else 1)"
    using name_from_cstr [OF assms(1) i(1)] e strcmp_cstr [of "name_from node ?i" "e @ [0]"]
    by (simp add: cstr_append_nul)
  moreover have "drop ?i (n_children node) = n_children node ! ?i # drop (32 - n) (n_children node)"
    using i len by (metis Cons_nth_drop_Suc)
  ultimately show ?case using Suc by (auto simp: MAX_CHILDREN_def Let_def)
qed

lemma follow_loop_child_of:
  "names_ok node \<Longrightarrow> 0 \<notin> set e \<Longrightarrow> follow_loop MAX_CHILDREN node (e @ [0]) = Some (child_of node e)"
  using follow_loop_spec [of node e 32] by (simp add: child_of_def MAX_CHILDREN_def)

lemma dir_ok_names: "dir_ok c node \<Longrightarrow> names_ok node"
  by (auto simp: dir_ok_def names_ok_def node_wf_def child_ok_def child_wf_def MAX_CHILDREN_def zero_child_def)


section \<open>Searching\<close>

lemma dir_ok_child:
  assumes "dir_ok c node" and "child_of node e = Some j" and "e \<noteq> []"
  shows "0 < unat j \<and> unat j < 16 \<and> node_used c (unat j)"
proof -
  obtain chs where chs: "n_children node = chs @ replicate (32 - length chs) zero_child" "\<forall>ch\<in>set chs. child_ok c ch"
    using assms(1) by (auto simp: dir_ok_def)
  obtain s where "s < length (n_children node)" "child_name (n_children node ! s) = e" "c_index (n_children node ! s) = j"
    using assms(2) by (auto simp: child_of_def find_Some_iff)
  then obtain ch where ch: "ch \<in> set (n_children node)" "child_name ch = e" "c_index ch = j"
    using nth_mem by blast
  have "child_name zero_child = []" by (simp add: child_name_def zero_child_def cstr_def takeWhile_eq_Nil_iff)
  then have "ch \<in> set chs" using ch chs assms(3) by auto
  then show ?thesis using chs(2) ch by (auto simp: child_ok_def)
qed

lemma tree_walk_used:
  assumes "tree_ok c"
  shows "tree_walk c i es = Some p \<Longrightarrow> i < 16 \<Longrightarrow> node_used c i \<Longrightarrow> \<forall>e\<in>set es. e \<noteq> [] \<Longrightarrow> p < 16 \<and> node_used c p"
proof (induction es arbitrary: i)
  case (Cons e es)
  have "dir_ok c (node_at c i)" using assms Cons.prems by (simp add: tree_ok_def)
  then show ?case using Cons dir_ok_child [of c "node_at c i" e] by (auto split: option.splits)
qed simp

lemma path_of_simps [simp]: "path_of [] = []" "path_of (e # es) = slash # e @ path_of es"
  by (simp_all add: path_of_def)

lemma path_of_append: "path_of (es @ [nm]) = path_of es @ slash # nm"
  by (simp add: path_of_def)

lemma path_of_name:
  assumes "slash \<notin> set e"
  shows "takeWhile (\<lambda>x. x \<noteq> slash) (e @ path_of es) = e \<and> dropWhile (\<lambda>x. x \<noteq> slash) (e @ path_of es) = path_of es"
proof (cases es)
  case Nil
  then show ?thesis using assms by (simp add: takeWhile_eq_all_conv dropWhile_eq_Nil_conv) blast
next
  case (Cons e' es')
  have "\<forall>x\<in>set e. x \<noteq> slash" using assms by auto
  then show ?thesis by (simp add: Cons takeWhile_append2 dropWhile_append2)
qed

context mounted_fs
begin

lemma follow_node_yields:
  assumes "names_ok node" and "0 \<notin> set e" and "\<And>j. child_of node e = Some j \<Longrightarrow> unat j < 16"
  shows "yield c (follow_node fs node (e @ [0]))
     (case child_of node e of None \<Rightarrow> Err (- ENOENT) | Some j \<Rightarrow> Ok (j, node_at c (unat j))) c"
proof (cases "child_of node e")
  case None
  then show ?thesis using assms by (simp add: follow_node_def follow_loop_child_of yields_fail)
next
  case (Some j)
  have "yield c (io_bind (read_node fs j) (\<lambda>node. io_return (j, node))) (Ok (j, node_at c (unat j))) c"
    using assms(3) Some by (intro yields_bind [OF read_node_yields yields_return]) auto
  then show ?thesis using assms Some by (simp add: follow_node_def follow_loop_child_of)
qed

lemma search_loop_yields:
  assumes "tree_ok c"
  shows "\<forall>e\<in>set es. name_ok e \<Longrightarrow> unat i < 16 \<Longrightarrow> node_used c (unat i) \<Longrightarrow>
    yield c (search_loop fs (path_of es) i (node_at c (unat i)))
      (case tree_walk c (unat i) es of None \<Rightarrow> Err (- ENOENT) | Some p \<Rightarrow> Ok (of_nat p, node_at c p)) c"
proof (induction es arbitrary: i)
  case Nil
  then show ?case by (simp add: yields_return)
next
  case (Cons e es)
  let ?n = "node_at c (unat i)"
  have dir: "dir_ok c ?n" using assms Cons.prems by (simp add: tree_ok_def)
  have e: "e \<noteq> []" "0 \<notin> set e" "slash \<notin> set e" "length e < 31" using Cons.prems by (simp_all add: name_ok_def)
  have follow: "yield c (follow_node fs ?n (e @ [0]))
      (case child_of ?n e of None \<Rightarrow> Err (- ENOENT) | Some j \<Rightarrow> Ok (j, node_at c (unat j))) c"
    using dir_ok_child [OF dir _ e(1)] e by (intro follow_node_yields dir_ok_names [OF dir]) auto
  have step: "search_loop fs (path_of (e # es)) i ?n =
      io_bind (follow_node fs ?n (e @ [0])) (\<lambda>(i, node). search_loop fs (path_of es) i node)"
    using path_of_name [OF e(3), of es] e(4) by (simp add: Let_def NAME_SIZE_def)
  show ?case
  proof (cases "child_of ?n e")
    case None
    then show ?thesis using follow unfolding step by (simp add: yields_bind_Err)
  next
    case (Some j)
    then have "unat j < 16" "node_used c (unat j)" using dir_ok_child [OF dir Some e(1)] by auto
    then show ?thesis using follow Some Cons.IH [of j] Cons.prems(1) unfolding step
      by (auto intro!: yields_bind)
  qed
qed

lemma search_node_yields:
  assumes "tree_ok c" and "es \<noteq> []" and "\<forall>e\<in>set es. name_ok e"
  shows "yield c (search_node fs (path_of es))
      (case tree_walk c 0 es of None \<Rightarrow> Err (- ENOENT) | Some p \<Rightarrow> Ok (of_nat p, node_at c p)) c"
proof -
  have "path_of es \<noteq> [] \<and> hd (path_of es) = slash" using assms(2) by (cases es) auto
  moreover have "yield c (search_loop fs (path_of es) 0 (node_at c 0))
      (case tree_walk c 0 es of None \<Rightarrow> Err (- ENOENT) | Some p \<Rightarrow> Ok (of_nat p, node_at c p)) c"
    using search_loop_yields [OF assms(1,3), of 0] by (simp add: node_used_def)
  ultimately show ?thesis unfolding search_node_def
    using yields_bind [OF read_node_yields [of 0 c]] by simp
qed

end


section \<open>Adding a child\<close>

lemma cstr_zeros [simp]: "cstr (replicate n 0) = []"
  by (simp add: cstr_def takeWhile_eq_Nil_iff)

lemma zero_child_name [simp]: "child_name zero_child = []"
  by (simp add: child_name_def zero_child_def)

lemma word_of_le_zeros: "word_of_le (replicate n 0) = 0"
  by (induction n) simp_all

lemma zero_node_children: "n_children zero_node = replicate 32 zero_child \<and> n_children_count zero_node = 0"
proof -
  have "dec_child (take 36 (drop (8 + 36 * i) (replicate 1160 0))) = zero_child" if "i < 32" for i
    using that by (simp add: dec_child_def zero_child_def word_of_le_zeros)
  then have "map (\<lambda>i. dec_child (take 36 (drop (8 + 36 * i) (replicate 1160 0)))) [0..<32] = map (\<lambda>i. zero_child) [0..<32]"
    by (intro map_cong) auto
  then show ?thesis
    by (simp add: zero_node_def dec_node_def fs_consts map_replicate_const word_of_le_zeros)
qed

lemma zero_node_wf: "node_wf (zero_node\<lparr>n_value := v\<rparr>)"
  by (simp add: node_wf_def zero_node_children MAX_CHILDREN_def child_wf_def zero_child_def)

lemma dir_ok_new: "dir_ok c (zero_node\<lparr>n_value := v\<rparr>)"
  unfolding dir_ok_def by (intro exI [of _ "[]"]) (simp add: zero_node_children)

lemma find_child_spec:
  assumes "names_ok node" and nm: "0 \<notin> set nm"
  shows "i + n \<le> 32 \<Longrightarrow> \<forall>s. i \<le> s \<and> s < i + n \<longrightarrow> c_index (n_children node ! s) \<noteq> 0 \<Longrightarrow>
    find_child n node nm i = Some (find (\<lambda>s. child_name (n_children node ! s) = nm) [i..<i + n])"
proof (induction n arbitrary: i)
  case (Suc n)
  have "equal_to_buffer (name_from node i) nm = Some (child_name (n_children node ! i) = nm)"
    using name_from_cstr [OF assms(1), of i] equal_to_buffer_spec [of "name_from node i" nm] nm Suc.prems by simp
  moreover have "[i..<i + Suc n] = i # [Suc i..<Suc i + n]" by (simp add: upt_conv_Cons del: upt_Suc)
  ultimately show ?case using Suc.IH [of "Suc i"] Suc.prems by (simp add: MAX_CHILDREN_def)
qed simp

lemma child_slots_of_nat:
  assumes "n_children_count node = of_nat k" and "k \<le> 32"
  shows "child_slots node = k \<and> \<not> sint (n_children_count node) < 0"
proof -
  have "sint (of_nat k :: uint32) = int k"
    using assms(2) by (simp add: sint_uint signed_take_bit_eq_if_positive bit_iff_odd unsigned_of_nat take_bit_nat_eq_self take_bit_int_eq_self
        flip: unat_of_nat)
  then show ?thesis using assms by (simp add: child_slots_def)
qed

definition new_child :: "byte list \<Rightarrow> uint32 \<Rightarrow> fd_node_child" where
  "new_child nm j = \<lparr>c_name = nm @ 0 # replicate (31 - length nm) 0, c_index = j\<rparr>"

lemma add_child_spec:
  assumes chs: "n_children node = chs @ replicate (32 - length chs) zero_child" "length chs < 32"
      "n_children_count node = of_nat (length chs)" and nm: "length nm < 32"
  shows "add_child node nm j = Some (node\<lparr>n_children := (chs @ [new_child nm j]) @ replicate (32 - length (chs @ [new_child nm j])) zero_child,
     n_children_count := of_nat (length (chs @ [new_child nm j]))\<rparr>)"
proof -
  let ?k = "length chs"
  note k = child_slots_of_nat [OF chs(3)]
  have "replicate (32 - ?k) zero_child = zero_child # replicate (31 - ?k) zero_child"
    using chs(2) by (simp add: Suc_diff_le flip: replicate_Suc)
  then have upd: "(n_children node)[?k := new_child nm j] = chs @ new_child nm j # replicate (31 - ?k) zero_child"
    and nth: "n_children node ! ?k = zero_child"
    by (simp_all add: chs(1) nth_append)
  have "copy_to_buffer (c_name zero_child) nm = Some (c_name (new_child nm j))"
    using nm copy_to_buffer_spec [of nm "replicate 32 0"] by (simp add: zero_child_def new_child_def)
  then show ?thesis using k chs(2) upd nth
    by (simp add: add_child_def MAX_CHILDREN_def Let_def chs(3)) (simp add: new_child_def)
qed


definition with_child :: "fs_node \<Rightarrow> byte list \<Rightarrow> uint32 \<Rightarrow> fs_node" where
  "with_child node nm j = (case add_child node nm j of Some n \<Rightarrow> n | None \<Rightarrow> node)"

text \<open>The disk after \<open>fs_touch\<close> has added node \<open>j\<close> under the name \<open>nm\<close> to the directory \<open>p\<close>.\<close>

definition touched :: "(nat \<Rightarrow> byte) \<Rightarrow> nat \<Rightarrow> byte list \<Rightarrow> nat \<Rightarrow> uint32 \<Rightarrow> nat \<Rightarrow> byte" where
  "touched c p nm j v =
     put_node ((put_node c p (with_child (node_at c p) nm (of_nat j)))(4892 + j := 1)) j (zero_node\<lparr>n_value := v\<rparr>)"

lemma child_name_new: "0 \<notin> set nm \<Longrightarrow> child_name (new_child nm j) = nm"
  by (simp add: child_name_def new_child_def cstr_append_nul)

lemma find_append: "find P (xs @ ys) = (case find P xs of None \<Rightarrow> find P ys | Some x \<Rightarrow> Some x)"
  by (induction xs) auto

lemma find_nth: "find P xs = map_option ((!) xs) (find (\<lambda>s. P (xs ! s)) [0..<length xs])"
proof (induction xs rule: rev_induct)
  case (snoc x xs)
  have "find (\<lambda>s. P ((xs @ [x]) ! s)) [0..<length xs] = find (\<lambda>s. P (xs ! s)) [0..<length xs]"
    by (rule find_cong) (simp_all add: nth_append)
  moreover have "map_option ((!) (xs @ [x])) (find (\<lambda>s. P (xs ! s)) [0..<length xs]) =
      map_option ((!) xs) (find (\<lambda>s. P (xs ! s)) [0..<length xs])"
    by (rule map_option_cong) (auto simp: find_Some_iff nth_append)
  ultimately show ?case using snoc by (auto simp: find_append split: option.split)
qed simp

lemma find_zero_child: "e \<noteq> [] \<Longrightarrow> find (\<lambda>ch. child_name ch = e) (replicate n zero_child) = None"
  by (auto simp: find_None_iff)

lemma dir_children:
  assumes "n_children node = chs @ replicate (32 - length chs) zero_child" and "e \<noteq> []"
  shows "child_of node e = map_option c_index (find (\<lambda>ch. child_name ch = e) chs)"
  using assms by (simp add: child_of_def find_append find_zero_child split: option.split)

text \<open>Adding a child to a directory with room for it.\<close>

lemma with_child_dir:
  assumes dir: "dir_ok c node" and room: "n_children_count node \<noteq> 32" and nm: "name_ok nm"
    and new: "child_of node nm = None" and j: "0 < unat j" "unat j < 16"
    and used: "\<And>i. i < 16 \<Longrightarrow> node_used c i \<Longrightarrow> node_used c' i" "node_used c' (unat j)"
  shows "add_child node nm j = Some (with_child node nm j)" and "dir_ok c' (with_child node nm j)"
    and "e \<noteq> [] \<Longrightarrow> child_of (with_child node nm j) e = (if e = nm then Some j else child_of node e)"
    and "n_value (with_child node nm j) = n_value node"
proof -
  obtain chs where chs: "n_children node = chs @ replicate (32 - length chs) zero_child" "length chs \<le> 32"
      "n_children_count node = of_nat (length chs)" "\<forall>ch\<in>set chs. child_ok c ch" "distinct (map child_name chs)"
    using dir by (auto simp: dir_ok_def)
  have nm': "nm \<noteq> []" "0 \<notin> set nm" "length nm < 31" using nm by (auto simp: name_ok_def)
  have lt: "length chs < 32" using room chs(2,3) by (cases "length chs = 32") auto
  let ?chs = "chs @ [new_child nm j]"
  define n' where "n' = node\<lparr>n_children := ?chs @ replicate (32 - length ?chs) zero_child,
      n_children_count := of_nat (length ?chs)\<rparr>"
  have add: "add_child node nm j = Some n'"
    using add_child_spec [OF chs(1) lt chs(3), of nm j] nm'(3) unfolding n'_def by simp
  then have w: "with_child node nm j = n'" by (simp add: with_child_def)
  show "add_child node nm j = Some (with_child node nm j)" using add w by simp
  have no: "find (\<lambda>ch. child_name ch = nm) chs = None" using new dir_children [OF chs(1) nm'(1)] by simp
  have ok: "child_ok c' ch" if "ch \<in> set ?chs" for ch
  proof (cases "ch \<in> set chs")
    case True
    then show ?thesis using chs(4) used(1) by (auto simp: child_ok_def)
  next
    case False
    then have "ch = new_child nm j" using that by simp
    then show ?thesis using nm' j used(2) child_name_new [OF nm'(2), of j] by (simp add: child_ok_def new_child_def)
  qed
  have "distinct (map child_name ?chs)"
    using chs(5) no nm'(2) by (auto simp: child_name_new find_None_iff)
  with ok show "dir_ok c' (with_child node nm j)" unfolding w dir_ok_def
    using lt by (intro exI [of _ ?chs]) (simp add: n'_def)
  show "n_value (with_child node nm j) = n_value node" by (simp add: w n'_def)
  have ch': "n_children n' = ?chs @ replicate (32 - length ?chs) zero_child" by (simp add: n'_def)
  show "child_of (with_child node nm j) e = (if e = nm then Some j else child_of node e)" if "e \<noteq> []"
    using no nm' dir_children [OF ch' that] dir_children [OF chs(1) that]
    by (auto simp: w find_append child_name_new split: option.split) (simp add: new_child_def)
qed

lemma put_node_low: "x < 70428 \<Longrightarrow> put_node c i n x = c x"
  by (simp add: put_node_def content_upd_def)


text \<open>
  The conditions under which \<open>fs_touch\<close> succeeds: \<open>p\<close> is a directory with room and without the name,
  and \<open>j\<close> is a free node.
\<close>

definition can_touch :: "(nat \<Rightarrow> byte) \<Rightarrow> nat \<Rightarrow> byte list \<Rightarrow> nat \<Rightarrow> bool" where
  "can_touch c p nm j \<longleftrightarrow> tree_ok c \<and> p < 16 \<and> node_used c p \<and> name_ok nm \<and>
     n_children_count (node_at c p) \<noteq> 32 \<and> child_of (node_at c p) nm = None \<and>
     0 < j \<and> j < 16 \<and> c (4892 + j) = 0"

lemma touched_nodes:
  assumes can: "can_touch c p nm j" and c': "c' = touched c p nm j v"
  shows "i < 16 \<Longrightarrow> node_used c' i \<longleftrightarrow> node_used c i \<or> i = j"
    and "node_at c' j = zero_node\<lparr>n_value := v\<rparr>"
    and "i \<noteq> j \<Longrightarrow> i \<noteq> p \<Longrightarrow> node_at c' i = node_at c i"
    and "dir_ok c' (node_at c' p)"
    and "e \<noteq> [] \<Longrightarrow> child_of (node_at c' p) e = (if e = nm then Some (of_nat j) else child_of (node_at c p) e)"
    and "add_child (node_at c p) nm (of_nat j) = Some (with_child (node_at c p) nm (of_nat j))"
    and "node_wf (with_child (node_at c p) nm (of_nat j))"
    and "n_value (node_at c' p) = n_value (node_at c p)"
proof -
  let ?n = "with_child (node_at c p) nm (of_nat j)"
  have pj: "p \<noteq> j" and dir: "dir_ok c (node_at c p)" and j: "0 < j" "j < 16" "unat (of_nat j :: uint32) = j"
    using can by (auto simp: can_touch_def node_used_def tree_ok_def unat_of_nat)
  have used: "node_used c' i \<longleftrightarrow> node_used c i \<or> i = j" if "i < 16" for i
    using that j by (auto simp: c' touched_def node_used_def put_node_low)
  have d: "n_children_count (node_at c p) \<noteq> 32" "name_ok nm" "child_of (node_at c p) nm = None"
      "0 < unat (of_nat j :: uint32)" "unat (of_nat j :: uint32) < 16"
    using can j by (auto simp: can_touch_def)
  note w = with_child_dir [OF dir d, of c']
  show add: "add_child (node_at c p) nm (of_nat j) = Some ?n" using w(1) used j by simp
  have dir': "dir_ok c' ?n" using w(2) used j by simp
  then show wf: "node_wf ?n" using dir_ok_names by (auto simp: names_ok_def)
  have at: "node_at c' i = (if i = j then zero_node\<lparr>n_value := v\<rparr> else if i = p then ?n else node_at c i)" for i
    using wf j pj zero_node_wf by (auto simp: c' touched_def disk_simps)
  show "i < 16 \<Longrightarrow> node_used c' i \<longleftrightarrow> node_used c i \<or> i = j" by (rule used)
  show "node_at c' j = zero_node\<lparr>n_value := v\<rparr>" by (simp add: at)
  show "i \<noteq> j \<Longrightarrow> i \<noteq> p \<Longrightarrow> node_at c' i = node_at c i" by (simp add: at)
  show "dir_ok c' (node_at c' p)" using dir' pj by (simp add: at)
  show "e \<noteq> [] \<Longrightarrow> child_of (node_at c' p) e = (if e = nm then Some (of_nat j) else child_of (node_at c p) e)"
    using w(3) used j pj by (simp add: at)
  show "n_value (node_at c' p) = n_value (node_at c p)" using w(4) used j pj by (simp add: at)
qed

lemma dir_ok_mono:
  assumes "dir_ok c node" and "\<And>i. i < 16 \<Longrightarrow> node_used c i \<Longrightarrow> node_used c' i"
  shows "dir_ok c' node"
  using assms unfolding dir_ok_def child_ok_def by metis

lemma touched_tree_ok:
  assumes can: "can_touch c p nm j" and c': "c' = touched c p nm j v"
  shows "tree_ok c'"
  unfolding tree_ok_def
proof (intro allI impI)
  note t = touched_nodes [OF can c']
  fix i assume i: "i < 16" "node_used c' i"
  show "dir_ok c' (node_at c' i)"
  proof (cases "i = j \<or> i = p")
    case True
    then show ?thesis using t(2,4) dir_ok_new by auto
  next
    case False
    then have "dir_ok c (node_at c i)" using can i t(1) by (auto simp: can_touch_def tree_ok_def)
    then have "dir_ok c' (node_at c i)" using t(1) by (auto intro: dir_ok_mono)
    then show ?thesis using t(3) False by simp
  qed
qed

lemma touched_walk:
  assumes can: "can_touch c p nm j" and c': "c' = touched c p nm j v"
  shows "tree_walk c i es = Some q \<Longrightarrow> i < 16 \<Longrightarrow> node_used c i \<Longrightarrow> \<forall>e\<in>set es. e \<noteq> [] \<Longrightarrow> tree_walk c' i es = Some q"
proof (induction es arbitrary: i)
  case (Cons e es)
  note t = touched_nodes [OF can c']
  obtain k where k: "child_of (node_at c i) e = Some k" "tree_walk c (unat k) es = Some q"
    using Cons.prems(1) by (auto split: option.splits)
  have ij: "i \<noteq> j" using Cons.prems can by (auto simp: can_touch_def node_used_def)
  have "e \<noteq> []" using Cons.prems by simp
  have "child_of (node_at c' i) e = Some k"
  proof (cases "i = p")
    case True
    then show ?thesis using t(5) [of e] k(1) can \<open>e \<noteq> []\<close> by (auto simp: can_touch_def)
  qed (use t(3) ij k(1) in simp)
  moreover have "unat k < 16 \<and> node_used c (unat k)"
    using dir_ok_child [OF _ k(1) \<open>e \<noteq> []\<close>] can Cons.prems by (auto simp: can_touch_def tree_ok_def)
  ultimately show ?case using Cons.IH [OF k(2)] Cons.prems by simp
qed simp

lemma tree_walk_append: "tree_walk c i (es @ fs) = (case tree_walk c i es of None \<Rightarrow> None | Some k \<Rightarrow> tree_walk c k fs)"
  by (induction es arbitrary: i) (auto split: option.split)

lemma touched_lookup:
  assumes can: "can_touch c p nm j" and c': "c' = touched c p nm j v"
    and es: "tree_walk c 0 es = Some p" "\<forall>e\<in>set es. e \<noteq> []"
  shows "tree_walk c' 0 (es @ [nm]) = Some j"
proof -
  have "tree_walk c' 0 es = Some p" using touched_walk [OF can c' es(1) _ _ es(2)] by (simp add: node_used_def)
  moreover have "nm \<noteq> []" "j < 16" using can by (auto simp: can_touch_def name_ok_def)
  ultimately show ?thesis using touched_nodes(5) [OF can c', of nm] by (simp add: tree_walk_append unat_of_nat)
qed


section \<open>Creating files and directories\<close>

text \<open>
  The abstract result of creating \<open>nm\<close> in the directory with the path \<open>es\<close>. The root directory is
  searched for through an empty slot, so that it cannot be found when it is full.
\<close>

definition touch_result :: "(nat \<Rightarrow> byte) \<Rightarrow> byte list list \<Rightarrow> byte list \<Rightarrow> uint32 \<Rightarrow> unit outcome \<times> (nat \<Rightarrow> byte)" where
  "touch_result c es nm v =
     (case tree_walk c 0 es of
        None \<Rightarrow> (Err (- ENOENT), c)
      | Some p \<Rightarrow>
          if es = [] \<and> n_children_count (node_at c 0) = 32 then (Err (- ENOENT), c)
          else if child_of (node_at c p) nm \<noteq> None then (Err (- EEXIST), c)
          else if n_children_count (node_at c p) = 32 then (Err (- ENOSPC), c)
          else case first_free c (\<lambda>j. 4892 + j) 1 15 of
                 None \<Rightarrow> (Err (- ENOSPC), c)
               | Some j \<Rightarrow> (Ok (), touched c p nm j v))"

lemma child_of_empty:
  assumes "dir_ok c node"
  shows "child_of node [] = (if n_children_count node = 32 then None else Some 0)"
proof -
  obtain chs where chs: "n_children node = chs @ replicate (32 - length chs) zero_child" "length chs \<le> 32"
      "n_children_count node = of_nat (length chs)" "\<forall>ch\<in>set chs. child_ok c ch"
    using assms by (auto simp: dir_ok_def)
  have no: "find (\<lambda>ch. child_name ch = []) chs = None" using chs(4) by (auto simp: find_None_iff child_ok_def)
  show ?thesis
  proof (cases "length chs = 32")
    case True
    then show ?thesis using chs no by (simp add: child_of_def)
  next
    case False
    then obtain k where "32 - length chs = Suc k" using chs(2) by (cases "32 - length chs") auto
    moreover have "(of_nat (length chs) :: uint32) \<noteq> 32"
      using False chs(2) by (simp add: word_unat_eq_iff unat_of_nat)
    moreover have "c_index zero_child = 0" by (simp add: zero_child_def)
    ultimately show ?thesis using chs no by (simp add: child_of_def find_append)
  qed
qed

lemma dir_find_child:
  assumes "dir_ok c node" and "name_ok nm"
  shows "\<exists>f. find_child (child_slots node) node nm 0 = Some f \<and> (f = None \<longleftrightarrow> child_of node nm = None) \<and>
    (\<forall>i. f = Some i \<longrightarrow> i < child_slots node \<and> child_of node nm = Some (c_index (n_children node ! i)))"
proof -
  obtain chs where chs: "n_children node = chs @ replicate (32 - length chs) zero_child" "length chs \<le> 32"
      "n_children_count node = of_nat (length chs)" "\<forall>ch\<in>set chs. child_ok c ch"
    using assms(1) by (auto simp: dir_ok_def)
  have k: "child_slots node = length chs" using child_slots_of_nat [OF chs(3,2)] by simp
  have nth: "s < length chs \<Longrightarrow> n_children node ! s = chs ! s" for s by (simp add: chs(1) nth_append)
  have "c_index (n_children node ! s) \<noteq> 0" if "s < length chs" for s
    using bspec [OF chs(4) nth_mem [OF that]] nth [OF that] by (auto simp: child_ok_def)
  then have f: "find_child (child_slots node) node nm 0 =
      Some (find (\<lambda>s. child_name (n_children node ! s) = nm) [0..<length chs])"
    using find_child_spec [OF dir_ok_names [OF assms(1)], of nm 0 "length chs"] assms(2) chs(2) k
    by (simp add: name_ok_def)
  have co: "child_of node nm = map_option c_index (find (\<lambda>ch. child_name ch = nm) chs)"
    using dir_children [OF chs(1), of nm] assms(2) by (simp add: name_ok_def)
  have "find (\<lambda>ch. child_name ch = nm) chs = map_option ((!) chs) (find (\<lambda>s. child_name (chs ! s) = nm) [0..<length chs])"
    by (rule find_nth)
  moreover have "find (\<lambda>s. child_name (n_children node ! s) = nm) [0..<length chs] =
      find (\<lambda>s. child_name (chs ! s) = nm) [0..<length chs]"
    by (rule find_cong) (simp_all add: nth)
  moreover have "find (\<lambda>s. child_name (chs ! s) = nm) [0..<length chs] = Some i \<Longrightarrow> i < length chs" for i
    by (auto simp: find_Some_iff)
  ultimately show ?thesis using f co k nth by auto
qed


context mounted_fs
begin

lemma search_parent_yields:
  assumes ok: "tree_ok c" and es: "\<forall>e\<in>set es. name_ok e"
  shows "yield c (search_node fs (if es = [] then [slash] else path_of es))
     (case tree_walk c 0 es of
        None \<Rightarrow> Err (- ENOENT)
      | Some p \<Rightarrow> if es = [] \<and> n_children_count (node_at c 0) = 32 then Err (- ENOENT)
                  else Ok (of_nat p, node_at c p)) c"
proof (cases "es = []")
  case True
  have dir: "dir_ok c (node_at c 0)" using ok [unfolded tree_ok_def, rule_format, of 0] by (simp add: node_used_def)
  have "yield c (follow_node fs (node_at c 0) ([] @ [0]))
      (case child_of (node_at c 0) [] of None \<Rightarrow> Err (- ENOENT) | Some j \<Rightarrow> Ok (j, node_at c (unat j))) c"
    by (rule follow_node_yields [OF dir_ok_names [OF dir]]) (auto simp: child_of_empty [OF dir] split: if_splits)
  then have "yield c (follow_node fs (node_at c 0) [0])
      (if n_children_count (node_at c 0) = 32 then Err (- ENOENT) else Ok (0, node_at c 0)) c"
    by (auto simp: child_of_empty [OF dir])
  then have "yield c (search_loop fs [slash] 0 (node_at c 0))
      (if n_children_count (node_at c 0) = 32 then Err (- ENOENT) else Ok (0, node_at c 0)) c"
    by (auto simp: NAME_SIZE_def intro!: yields_bind yields_bind_Err yields_return split: if_splits)
  then have "yield c (io_bind (read_node fs 0) (\<lambda>node. search_loop fs [slash] 0 node))
      (if n_children_count (node_at c 0) = 32 then Err (- ENOENT) else Ok (0, node_at c 0)) c"
    using read_node_yields [of 0 c] by (intro yields_bind [where x = "node_at c 0" and ?c1.0 = c]) simp_all
  then show ?thesis using True by (auto simp: search_node_def simp del: search_loop.simps)
next
  case False
  then show ?thesis using search_node_yields [OF ok False es] by (auto split: option.splits)
qed

lemma fs_touch_writes:
  assumes can: "can_touch c p nm j"
  shows "yield c (io_bind (io_ignore (fsdw fs (enc_node (with_child (node_at c p) nm (of_nat j))) (node_addr fs (of_nat p)))) (\<lambda>_.
      io_bind (io_ignore (fsdw fs [1] (tree_usage_offset fs + ucast (of_nat j :: uint32)))) (\<lambda>_.
      io_ignore (fsdw fs (enc_node (zero_node\<lparr>n_value := v\<rparr>)) (node_addr fs (of_nat j))))))
     (Ok ()) (touched c p nm j v)"
proof -
  have u: "unat (of_nat p :: uint32) = p" "unat (of_nat j :: uint32) = j" "p < 16" "j < 16"
    using can by (simp_all add: can_touch_def unat_of_nat)
  note t = touched_nodes [OF can refl]
  have 1: "yield c (fsdw fs (enc_node (with_child (node_at c p) nm (of_nat j))) (node_addr fs (of_nat p))) (Ok ())
      (put_node c p (with_child (node_at c p) nm (of_nat j)))"
    using put_node_yields [of "of_nat p"] u t(7) by simp
  have 2: "yield c1 (fsdw fs [1] (tree_usage_offset fs + ucast (of_nat j :: uint32))) (Ok ()) (c1(4892 + j := 1))" for c1
    using write_byte_yields [of "tree_usage_offset fs + ucast (of_nat j :: uint32)" c1 1] unat_usage_addr [of "of_nat j"] u fits
    by (simp add: fs_end_def)
  have 3: "yield c1 (fsdw fs (enc_node (zero_node\<lparr>n_value := v\<rparr>)) (node_addr fs (of_nat j))) (Ok ())
      (put_node c1 j (zero_node\<lparr>n_value := v\<rparr>))" for c1
    using put_node_yields [of "of_nat j" "zero_node\<lparr>n_value := v\<rparr>" c1] u zero_node_wf by simp
  show ?thesis unfolding touched_def
    by (rule yields_bind [OF yields_ignore [OF 1] yields_bind [OF yields_ignore [OF 2] yields_ignore [OF 3]]])
qed

lemma fs_touch_yields:
  assumes ok: "tree_ok c" and es: "\<forall>e\<in>set es. name_ok e" and nm: "name_ok nm"
  shows "yield c (fs_touch fs (path_of (es @ [nm])) v) (fst (touch_result c es nm v)) (snd (touch_result c es nm v))"
proof -
  have split: "split_path (path_of (es @ [nm])) = Some (if es = [] then [slash] else path_of es, nm)"
    using nm split_path_append [of nm "path_of es"] by (cases es) (auto simp: path_of_append name_ok_def)
  have len: "length nm < NAME_SIZE" using nm by (simp add: name_ok_def NAME_SIZE_def)
  note search = search_parent_yields [OF ok es]
  show ?thesis
  proof (cases "\<exists>p. tree_walk c 0 es = Some p \<and> \<not> (es = [] \<and> n_children_count (node_at c 0) = 32)")
    case False
    then have "yield c (search_node fs (if es = [] then [slash] else path_of es)) (Err (- ENOENT)) c"
      using search by (auto split: option.splits)
    moreover have "touch_result c es nm v = (Err (- ENOENT), c)"
      using False by (auto simp: touch_result_def split: option.split)
    ultimately show ?thesis unfolding fs_touch_def split using len by (auto intro: yields_bind_Err)
  next
    case True
    then obtain p where p: "tree_walk c 0 es = Some p" "\<not> (es = [] \<and> n_children_count (node_at c 0) = 32)" by blast
    have found: "yield c (search_node fs (if es = [] then [slash] else path_of es)) (Ok (of_nat p, node_at c p)) c"
      using search unfolding p(1) option.case if_not_P [OF p(2)] .
    have pu: "p < 16" "node_used c p"
      using tree_walk_used [OF ok p(1)] es by (auto simp: node_used_def name_ok_def)
    let ?n = "node_at c p"
    have "dir_ok c ?n" using ok pu by (simp add: tree_ok_def)
    then obtain f where f: "find_child (child_slots ?n) ?n nm 0 = Some f" "f = None \<longleftrightarrow> child_of ?n nm = None"
      using dir_find_child nm by blast
    define rest where "rest = (if f \<noteq> None then io_fail (- EEXIST)
       else if n_children_count ?n = of_nat MAX_CHILDREN then io_fail (- ENOSPC)
       else io_bind (search_available_node fs) (\<lambda>child_node_index.
       io_bind (io_some (add_child ?n nm child_node_index)) (\<lambda>node.
       io_bind (io_ignore (fsdw fs (enc_node node) (node_addr fs (of_nat p)))) (\<lambda>_.
       io_bind (io_ignore (fsdw fs [1] (tree_usage_offset fs + ucast child_node_index))) (\<lambda>_.
       io_ignore (fsdw fs (enc_node (zero_node\<lparr>n_value := v\<rparr>)) (node_addr fs child_node_index)))))))"
    have "yield c rest (fst (touch_result c es nm v)) (snd (touch_result c es nm v))"
    proof (cases "f \<noteq> None \<or> n_children_count ?n = of_nat MAX_CHILDREN \<or> first_free c (\<lambda>j. 4892 + j) 1 15 = None")
      case True
      then show ?thesis using f(2) p search_available_node_yields [of c]
        by (auto simp: rest_def touch_result_def MAX_CHILDREN_def yields_fail free_outcome_def intro: yields_bind_Err)
    next
      case False
      then obtain j where j: "first_free c (\<lambda>j. 4892 + j) 1 15 = Some j" by auto
      have can: "can_touch c p nm j"
        using ok pu nm False f(2) first_free_Some [OF j] by (auto simp: can_touch_def MAX_CHILDREN_def)
      have sn: "yield c (search_available_node fs) (Ok (of_nat j)) c"
        using search_available_node_yields [of c] unfolding j by (simp add: free_outcome_def)
      have "touch_result c es nm v = (Ok (), touched c p nm j v)"
        using p f(2) False j by (simp add: touch_result_def MAX_CHILDREN_def)
      moreover have "yield c rest (Ok ()) (touched c p nm j v)"
        using False touched_nodes(6) [OF can refl] fs_touch_writes [OF can]
        by (auto simp: rest_def intro!: yields_bind [OF sn])
      ultimately show ?thesis by simp
    qed
    then show ?thesis unfolding fs_touch_def split io_bind_some prod.case eqTrueI [OF len] io_bind_assert
      by (intro yields_bind [OF found]) (simp only: prod.case f(1) io_bind_some rest_def)
  qed
qed

lemma fs_getattr_yields:
  assumes "tree_ok c" and "es \<noteq> []" and "\<forall>e\<in>set es. name_ok e"
  shows "yield c (fs_getattr fs (path_of es))
      (case tree_walk c 0 es of None \<Rightarrow> Err (- ENOENT) | Some p \<Rightarrow> Ok (n_value (node_at c p))) c"
  using search_node_yields [OF assms] unfolding fs_getattr_def
  by (auto split: option.split intro!: yields_bind_Err yields_bind yields_return)

end

end
