(* ===== verification/Printing.thy ===== *)
theory Printing
  imports C_Library
begin

unbundle bit_operations_syntax

text \<open>
  Formatted output of \<^verbatim>\<open>lib/lib.c\<close>: \<open>fill_numbuf\<close>, \<open>printer_vprintf\<close> and its two printers, the string
  printer behind \<open>vsnprintf\<close> and the console printer behind \<open>console_vprintf\<close>. The indirect call
  \<open>p->putc(p, c, color)\<close> is the parameter \<open>putc\<close>, a partial function on the printer's state
  (\<open>None\<close>: a write outside the printer's object). The variable argument list is a list of values
  tagged with the type they were passed with; reading an argument that was not passed, or with
  another type, is undefined behaviour and modelled as \<open>None\<close>. The C type \<open>int\<close> is a 32-bit word
  read with \<open>sint\<close>.
\<close>

section \<open>Numbers\<close>

definition upper_digits :: "byte list" where
  "upper_digits = [48, 49, 50, 51, 52, 53, 54, 55, 56, 57, 65, 66, 67, 68, 69, 70]"

definition lower_digits :: "byte list" where
  "lower_digits = [48, 49, 50, 51, 52, 53, 54, 55, 56, 57, 97, 98, 99, 100, 101, 102]"

text \<open>
  The number buffer is filled from its end; the first argument counts the bytes that are left
  in front of the pointer, so that running out of the buffer is \<open>None\<close>. The result is the string
  that the returned pointer points to, with its terminator.
\<close>

fun fill_digits :: "nat \<Rightarrow> byte list \<Rightarrow> uint64 \<Rightarrow> uint64 \<Rightarrow> byte list \<Rightarrow> byte list option" where
  "fill_digits 0 digits val base acc = None"
| "fill_digits (Suc left) digits val base acc =
     (let acc = digits ! unat (val mod base) # acc; val = val div base
      in if val \<noteq> 0 then fill_digits left digits val base acc else Some acc)"

definition fill_numbuf :: "nat \<Rightarrow> uint64 \<Rightarrow> int \<Rightarrow> byte list option" where
  "fill_numbuf bufsiz val base =
     (let digits = (if base < 0 then lower_digits else upper_digits); base = \<bar>base\<bar>
      in case bufsiz of 0 \<Rightarrow> None | Suc left \<Rightarrow> fill_digits left digits val (of_int base) [0])"

definition NUMBUFSIZ :: nat where "NUMBUFSIZ = 24"

section \<open>Conversion specifications\<close>

definition FLAG_ALT :: uint32 where "FLAG_ALT = 1"
definition FLAG_ZERO :: uint32 where "FLAG_ZERO = 2"
definition FLAG_LEFTJUSTIFY :: uint32 where "FLAG_LEFTJUSTIFY = 4"
definition FLAG_SPACEPOSITIVE :: uint32 where "FLAG_SPACEPOSITIVE = 8"
definition FLAG_PLUSPOSITIVE :: uint32 where "FLAG_PLUSPOSITIVE = 16"
definition FLAG_NUMERIC :: uint32 where "FLAG_NUMERIC = 32"
definition FLAG_SIGNED :: uint32 where "FLAG_SIGNED = 64"
definition FLAG_NEGATIVE :: uint32 where "FLAG_NEGATIVE = 128"
definition FLAG_ALT2 :: uint32 where "FLAG_ALT2 = 256"

lemmas flag_defs = FLAG_ALT_def FLAG_ZERO_def FLAG_LEFTJUSTIFY_def FLAG_SPACEPOSITIVE_def
  FLAG_PLUSPOSITIVE_def FLAG_NUMERIC_def FLAG_SIGNED_def FLAG_NEGATIVE_def FLAG_ALT2_def

definition flag_chars :: "byte list" where
  "flag_chars = [35, 48, 45, 32, 43, 0]"

definition has :: "uint32 \<Rightarrow> uint32 \<Rightarrow> bool" where
  "has flags f \<longleftrightarrow> flags AND f \<noteq> 0"

datatype va = VInt uint32 | VLong uint64 | VPtr uint64 | VStr "byte list"

fun va_int :: "va list \<Rightarrow> (uint32 \<times> va list) option" where
  "va_int (VInt x # val) = Some (x, val)"
| "va_int _ = None"

fun va_long :: "va list \<Rightarrow> (uint64 \<times> va list) option" where
  "va_long (VLong x # val) = Some (x, val)"
| "va_long _ = None"

fun va_ptr :: "va list \<Rightarrow> (uint64 \<times> va list) option" where
  "va_ptr (VPtr x # val) = Some (x, val)"
| "va_ptr _ = None"

fun va_str :: "va list \<Rightarrow> (byte list \<times> va list) option" where
  "va_str (VStr x # val) = Some (x, val)"
| "va_str _ = None"

text \<open>In the functions below the format is its remaining text; the empty list is the terminator.\<close>

fun parse_flags :: "uint32 \<Rightarrow> byte list \<Rightarrow> uint32 \<times> byte list" where
  "parse_flags flags [] = (flags, [])"
| "parse_flags flags (c # fmt) =
     (case strchr flag_chars (ucast c) of
        Some (Some k) \<Rightarrow> parse_flags (flags OR push_bit k 1) fmt
      | _ \<Rightarrow> (flags, c # fmt))"

fun parse_number :: "uint32 \<Rightarrow> byte list \<Rightarrow> uint32 \<times> byte list" where
  "parse_number n [] = (n, [])"
| "parse_number n (c # fmt) =
     (if 48 \<le> c \<and> c \<le> 57 then parse_number (10 * n + ucast c - 48) fmt else (n, c # fmt))"

definition parse_width :: "byte list \<Rightarrow> va list \<Rightarrow> (uint32 \<times> byte list \<times> va list) option" where
  "parse_width fmt val =
     (case fmt of
        [] \<Rightarrow> Some (- 1, fmt, val)
      | c # rest \<Rightarrow>
          if 49 \<le> c \<and> c \<le> 57 then (case parse_number 0 fmt of (w, fmt) \<Rightarrow> Some (w, fmt, val))
          else if c = 42 then map_option (\<lambda>(w, val). (w, rest, val)) (va_int val)
          else Some (- 1, fmt, val))"

definition parse_precision :: "byte list \<Rightarrow> va list \<Rightarrow> (uint32 \<times> byte list \<times> va list) option" where
  "parse_precision fmt val =
     (case fmt of
        [] \<Rightarrow> Some (- 1, fmt, val)
      | c # fmt' \<Rightarrow>
          if c \<noteq> 46 then Some (- 1, fmt, val)
          else map_option (\<lambda>(p, fmt, val). (if sint p < 0 then 0 else p, fmt, val))
                 (case fmt' of
                    [] \<Rightarrow> Some (- 1, fmt', val)
                  | c # rest \<Rightarrow>
                      if 48 \<le> c \<and> c \<le> 57
                      then (case parse_number 0 fmt' of (p, fmt) \<Rightarrow> Some (p, fmt, val))
                      else if c = 42 then map_option (\<lambda>(p, val). (p, rest, val)) (va_int val)
                      else Some (- 1, fmt', val)))"

fun parse_length :: "bool \<Rightarrow> byte list \<Rightarrow> bool \<times> byte list" where
  "parse_length len [] = (len, [])"
| "parse_length len (c # fmt) =
     (if c = 108 \<or> c = 122 then parse_length True fmt else (len, c # fmt))"

text \<open>
  The outcome of the switch on the conversion character: a new colour (\<open>%C\<close>), a string or
  character to print (\<open>Text\<close>, flags unchanged) or a number.
\<close>

datatype conversion =
    Color uint32
  | Text "byte list"
  | Number uint32 int uint64

definition va_unsigned :: "bool \<Rightarrow> va list \<Rightarrow> (uint64 \<times> va list) option" where
  "va_unsigned len val =
     (if len then va_long val else map_option (\<lambda>(x, val). (ucast x, val)) (va_int val))"

definition va_signed :: "bool \<Rightarrow> va list \<Rightarrow> (uint64 \<times> va list) option" where
  "va_signed len val =
     (if len then va_long val else map_option (\<lambda>(x, val). (scast x, val)) (va_int val))"

definition convert_unsigned ::
  "uint32 \<Rightarrow> int \<Rightarrow> bool \<Rightarrow> va list \<Rightarrow> (conversion \<times> va list) option" where
  "convert_unsigned flags base len val =
     map_option (\<lambda>(x, val). (Number (flags OR FLAG_NUMERIC) base x, val)) (va_unsigned len val)"

definition convert ::
  "uint32 \<Rightarrow> bool \<Rightarrow> byte \<Rightarrow> va list \<Rightarrow> (conversion \<times> va list) option" where
  "convert flags len c val =
     (if c = 100 \<or> c = 105 then
        map_option (\<lambda>(x, val).
          let negative = (if sint x < 0 then FLAG_NEGATIVE else 0);
              num = (if negative \<noteq> 0 then - x else x)
          in (Number (flags OR (FLAG_NUMERIC OR FLAG_SIGNED OR negative)) 10 num, val))
          (va_signed len val)
      else if c = 117 then convert_unsigned flags 10 len val
      else if c = 120 then convert_unsigned flags (- 16) len val
      else if c = 88 then convert_unsigned flags 16 len val
      else if c = 112 then
        map_option (\<lambda>(x, val).
          (Number (flags OR (FLAG_ALT OR FLAG_ALT2 OR FLAG_NUMERIC)) (- 16) x, val)) (va_ptr val)
      else if c = 115 then map_option (\<lambda>(s, val). (Text s, val)) (va_str val)
      else if c = 67 then map_option (\<lambda>(x, val). (Color x, val)) (va_int val)
      else if c = 99 then map_option (\<lambda>(x, val). (Text [ucast x, 0], val)) (va_int val)
      else Some (Text [if c \<noteq> 0 then c else 37, 0], val))"

definition number_prefix :: "uint32 \<Rightarrow> int \<Rightarrow> uint64 \<Rightarrow> byte list" where
  "number_prefix flags base num =
     (if has flags FLAG_NUMERIC \<and> has flags FLAG_SIGNED then
        (if has flags FLAG_NEGATIVE then [45]
         else if has flags FLAG_PLUSPOSITIVE then [43]
         else if has flags FLAG_SPACEPOSITIVE then [32] else [])
      else if has flags FLAG_NUMERIC \<and> has flags FLAG_ALT \<and> (base = 16 \<or> base = - 16)
            \<and> (num \<noteq> 0 \<or> has flags FLAG_ALT2)
      then (if base = - 16 then [48, 120] else [48, 88]) else [])"

definition spaces :: "uint32 \<Rightarrow> byte list" where
  "spaces width = replicate (nat (sint width)) 32"

definition layout :: "uint32 \<Rightarrow> uint32 \<Rightarrow> uint32 \<Rightarrow> byte list \<Rightarrow> byte list \<Rightarrow> byte list option" where
  "layout flags width precision prefix data =
     map_option (\<lambda>n.
       let len = of_nat n :: uint32;
           plen = of_nat (length prefix) :: uint32;
           zeros = (if has flags FLAG_NUMERIC \<and> sint precision \<ge> 0
                    then (if sint precision > sint len then precision - len else 0)
                    else if has flags FLAG_NUMERIC \<and> has flags FLAG_ZERO
                          \<and> \<not> has flags FLAG_LEFTJUSTIFY \<and> sint (len + plen) < sint width
                    then width - len - plen else 0);
           width = width - (len + zeros + plen);
           left = has flags FLAG_LEFTJUSTIFY
       in (if left then [] else spaces width) @ prefix @ replicate (nat (sint zeros)) 48
          @ take (nat (sint len)) data @ (if left then spaces width else []))
       (if sint precision \<ge> 0 \<and> \<not> has flags FLAG_NUMERIC
        then strnlen data (nat (sint precision)) else strlen data)"

definition field ::
  "uint32 \<Rightarrow> uint32 \<Rightarrow> uint32 \<Rightarrow> conversion \<Rightarrow> byte list option" where
  "field flags width precision cv =
     (case cv of
        Color c \<Rightarrow> Some []
      | Text data \<Rightarrow> layout flags width precision [] data
      | Number flags base num \<Rightarrow>
          Option.bind (fill_numbuf NUMBUFSIZ num base)
            (layout flags width precision (number_prefix flags base num)))"

definition new_color :: "uint32 \<Rightarrow> conversion \<Rightarrow> uint32" where
  "new_color color cv = (case cv of Color c \<Rightarrow> c | _ \<Rightarrow> color)"

text \<open>
  One conversion specification, from the byte after its percent sign: the characters to print,
  the colour from then on, the rest of the format and the arguments that are left.
\<close>

definition convert_spec ::
  "uint32 \<Rightarrow> byte list \<Rightarrow> va list \<Rightarrow> (byte list \<times> uint32 \<times> byte list \<times> va list) option" where
  "convert_spec color fmt val =
     (case parse_flags 0 fmt of (flags, fmt) \<Rightarrow>
      case parse_width fmt val of None \<Rightarrow> None | Some (width, fmt, val) \<Rightarrow>
      case parse_precision fmt val of None \<Rightarrow> None | Some (precision, fmt, val) \<Rightarrow>
      case parse_length False fmt of (len, fmt) \<Rightarrow>
      case convert flags len (case fmt of [] \<Rightarrow> 0 | c # _ \<Rightarrow> c) val of
        None \<Rightarrow> None
      | Some (cv, val) \<Rightarrow>
          map_option (\<lambda>out. (out, new_color color cv, tl fmt, val))
            (field flags width precision cv))"

section \<open>The format loop\<close>

fun emit :: "('p \<Rightarrow> byte \<Rightarrow> uint32 \<Rightarrow> 'p option) \<Rightarrow> uint32 \<Rightarrow> byte list \<Rightarrow> 'p \<Rightarrow> 'p option" where
  "emit putc color [] p = Some p"
| "emit putc color (c # cs) p = Option.bind (putc p c color) (emit putc color cs)"

lemma parse_flags_length: "length (snd (parse_flags f fmt)) \<le> length fmt"
  by (induction f fmt rule: parse_flags.induct) (auto split: option.split)

lemma parse_number_length: "length (snd (parse_number n fmt)) \<le> length fmt"
  by (induction n fmt rule: parse_number.induct) auto

lemma parse_length_length: "length (snd (parse_length l fmt)) \<le> length fmt"
  by (induction l fmt rule: parse_length.induct) auto

lemma parse_width_length:
  "parse_width fmt val = Some (w, fmt', val') \<Longrightarrow> length fmt' \<le> length fmt"
  using parse_number_length [of 0 fmt]
  by (auto simp: parse_width_def split: list.splits if_splits prod.splits)

lemma parse_precision_length:
  "parse_precision fmt val = Some (p, fmt', val') \<Longrightarrow> length fmt' \<le> length fmt"
  using parse_number_length [of 0 "tl fmt"]
  by (auto simp: parse_precision_def split: list.splits if_splits prod.splits)

lemma convert_spec_length:
  assumes "convert_spec color fmt val = Some (out, color', fmt', val')"
  shows "length fmt' \<le> length fmt"
proof -
  obtain flags f1 where 1: "parse_flags 0 fmt = (flags, f1)" by force
  obtain w f2 v2 where 2: "parse_width f1 val = Some (w, f2, v2)"
    using assms 1 by (auto simp: convert_spec_def split: option.splits)
  obtain p f3 v3 where 3: "parse_precision f2 v2 = Some (p, f3, v3)"
    using assms 1 2 by (auto simp: convert_spec_def split: option.splits)
  obtain l f4 where 4: "parse_length False f3 = (l, f4)" by force
  have "fmt' = tl f4" using assms 1 2 3 4 by (auto simp: convert_spec_def split: option.splits)
  then show ?thesis
    using parse_flags_length [of 0 fmt] parse_width_length [OF 2] parse_precision_length [OF 3]
      parse_length_length [of False f3] 1 4 by simp
qed

function printer_loop ::
  "('p \<Rightarrow> byte \<Rightarrow> uint32 \<Rightarrow> 'p option) \<Rightarrow> 'p \<Rightarrow> uint32 \<Rightarrow> byte list \<Rightarrow> va list \<Rightarrow> 'p option" where
  "printer_loop putc p color [] val = Some p"
| "printer_loop putc p color (c # fmt) val =
     (if c \<noteq> 37 then Option.bind (putc p c color) (\<lambda>p. printer_loop putc p color fmt val)
      else case convert_spec color fmt val of
             None \<Rightarrow> None
           | Some (out, color', fmt', val') \<Rightarrow>
               Option.bind (emit putc color out p)
                 (\<lambda>p. printer_loop putc p color' fmt' val'))"
  by pat_completeness auto
termination
  by (relation "measure (\<lambda>(putc, p, color, fmt, val). length fmt)")
    (auto dest: convert_spec_length)

definition printer_vprintf ::
  "('p \<Rightarrow> byte \<Rightarrow> uint32 \<Rightarrow> 'p option) \<Rightarrow> 'p \<Rightarrow> uint32 \<Rightarrow> byte list \<Rightarrow> va list \<Rightarrow> 'p option" where
  "printer_vprintf putc p color format val =
     (if 0 \<in> set format then printer_loop putc p color (cstr format) val else None)"


section \<open>The string printer\<close>

text \<open>The pointers \<open>s\<close> and \<open>end\<close> are offsets into the buffer \<open>s_buf\<close> that holds the object.\<close>

record string_printer =
  s_buf :: "byte list"
  s_pos :: nat
  s_end :: nat

definition string_putc :: "string_printer \<Rightarrow> byte \<Rightarrow> uint32 \<Rightarrow> string_printer option" where
  "string_putc sp c color =
     (if s_pos sp < s_end sp
      then if s_pos sp < length (s_buf sp)
           then Some (sp\<lparr>s_buf := (s_buf sp)[s_pos sp := c], s_pos := s_pos sp + 1\<rparr>)
           else None
      else Some sp)"

text \<open>\<open>vsnprintf\<close> returns the number of characters stored and the new contents of the buffer.\<close>

definition vsnprintf :: "byte list \<Rightarrow> nat \<Rightarrow> byte list \<Rightarrow> va list \<Rightarrow> (nat \<times> byte list) option" where
  "vsnprintf s bufsiz format val =
     (if bufsiz = 0 then Some (0, s)
      else case printer_vprintf string_putc
                  \<lparr>s_buf = s, s_pos = 0, s_end = bufsiz - 1\<rparr> 0 format val of
             None \<Rightarrow> None
           | Some sp \<Rightarrow> if s_pos sp < length (s_buf sp)
                        then Some (s_pos sp, (s_buf sp)[s_pos sp := 0]) else None)"

definition snprintf :: "byte list \<Rightarrow> nat \<Rightarrow> byte list \<Rightarrow> va list \<Rightarrow> (nat \<times> byte list) option" where
  "snprintf s bufsiz format val = vsnprintf s bufsiz format val"

section \<open>The console printer\<close>

definition CONSOLE_COLUMNS :: nat where "CONSOLE_COLUMNS = 80"
definition CONSOLE_ROWS :: nat where "CONSOLE_ROWS = 25"
definition MAX_ROWS :: nat where "MAX_ROWS = CONSOLE_ROWS - 2"

lemmas console_dims = CONSOLE_COLUMNS_def CONSOLE_ROWS_def MAX_ROWS_def

text \<open>
  The cursor is an offset into the array \<open>console\<close> of character cells, and the first component
  of the state; storing through a pointer outside the array is \<open>None\<close>.
\<close>

type_synonym cells = "uint16 list"

definition cell :: "byte \<Rightarrow> uint32 \<Rightarrow> uint16" where
  "cell c color = ucast (ucast c OR color)"

definition put_cell :: "uint16 \<Rightarrow> nat \<times> cells \<Rightarrow> (nat \<times> cells) option" where
  "put_cell v = (\<lambda>(cur, console).
     if cur < length console then Some (cur + 1, console[cur := v]) else None)"

fun fill_row :: "nat \<Rightarrow> uint16 \<Rightarrow> nat \<times> cells \<Rightarrow> (nat \<times> cells) option" where
  "fill_row 0 v st = Some st"
| "fill_row (Suc n) v st = Option.bind (put_cell v st) (fill_row n v)"

definition scroll :: "uint32 \<Rightarrow> cells \<Rightarrow> cells" where
  "scroll color console =
     fold (\<lambda>i cs. cs[i := cell 32 color])
       [(MAX_ROWS - 1) * CONSOLE_COLUMNS ..< MAX_ROWS * CONSOLE_COLUMNS]
       (fold (\<lambda>i cs. cs[i := cs ! (i + CONSOLE_COLUMNS)])
         [0 ..< (MAX_ROWS - 1) * CONSOLE_COLUMNS] console)"

definition console_putc :: "nat \<times> cells \<Rightarrow> byte \<Rightarrow> uint32 \<Rightarrow> (nat \<times> cells) option" where
  "console_putc st c color =
     map_option (\<lambda>(cur, console).
        if cur = MAX_ROWS * CONSOLE_COLUMNS
        then (cur - CONSOLE_COLUMNS, scroll color console) else (cur, console))
      (if c = 10 then fill_row (CONSOLE_COLUMNS - fst st mod CONSOLE_COLUMNS) (cell 32 color) st
       else if c = 8 then
         (if fst st \<noteq> 0
          then if fst st - 1 < length (snd st)
               then Some (fst st - 1, (snd st)[fst st - 1 := cell 32 color]) else None
          else Some st)
       else put_cell (cell c color) st)"

definition console_vprintf ::
  "int \<Rightarrow> uint32 \<Rightarrow> byte list \<Rightarrow> va list \<Rightarrow> cells \<Rightarrow> (nat \<times> cells) option" where
  "console_vprintf cpos color format val console =
     (let cpos = (if cpos < 0 \<or> cpos \<ge> int (CONSOLE_ROWS * CONSOLE_COLUMNS) then 0 else cpos)
      in printer_vprintf console_putc (nat cpos, console) color format val)"

definition console_printf ::
  "int \<Rightarrow> uint32 \<Rightarrow> byte list \<Rightarrow> va list \<Rightarrow> cells \<Rightarrow> (nat \<times> cells) option" where
  "console_printf cpos color format val console = console_vprintf cpos color format val console"

text \<open>\<open>console_clear\<close> also resets the global \<open>cursorpos\<close>.\<close>

definition console_clear :: "int \<times> cells \<Rightarrow> int \<times> cells" where
  "console_clear = (\<lambda>(cursorpos, console).
     (0, fold (\<lambda>i cs. cs[i := cell 32 0x0700]) [0 ..< CONSOLE_ROWS * CONSOLE_COLUMNS] console))"

section \<open>What a format prints\<close>

text \<open>
  The reference printer records every character with its colour. \<open>formatted\<close> is what a format
  and its arguments print, whatever the printer.
\<close>

definition record_putc ::
  "(byte \<times> uint32) list \<Rightarrow> byte \<Rightarrow> uint32 \<Rightarrow> (byte \<times> uint32) list option" where
  "record_putc out c color = Some (out @ [(c, color)])"

definition formatted ::
  "uint32 \<Rightarrow> byte list \<Rightarrow> va list \<Rightarrow> (byte \<times> uint32) list option" where
  "formatted color format val = printer_vprintf record_putc [] color format val"

fun putc_all ::
  "('p \<Rightarrow> byte \<Rightarrow> uint32 \<Rightarrow> 'p option) \<Rightarrow> (byte \<times> uint32) list \<Rightarrow> 'p \<Rightarrow> 'p option" where
  "putc_all putc [] p = Some p"
| "putc_all putc ((c, color) # out) p = Option.bind (putc p c color) (putc_all putc out)"

lemma putc_all_append:
  "putc_all putc (xs @ ys) p = Option.bind (putc_all putc xs p) (putc_all putc ys)"
  by (induction putc xs p rule: putc_all.induct) (auto split: bind_split)

lemma record_putc_bind [simp]: "Option.bind (record_putc out c color) f = f (out @ [(c, color)])"
  by (simp add: record_putc_def)

lemma emit_putc_all: "emit putc color cs p = putc_all putc (map (\<lambda>c. (c, color)) cs) p"
  by (induction putc color cs p rule: emit.induct) (auto intro: Option.bind_cong)

lemma emit_record: "emit record_putc color cs acc = Some (acc @ map (\<lambda>c. (c, color)) cs)"
  by (induction cs arbitrary: acc) auto

lemma record_loop_acc:
  "printer_loop record_putc acc color fmt val =
     map_option ((@) acc) (printer_loop record_putc [] color fmt val)"
proof (induction "length fmt" arbitrary: acc color fmt val rule: less_induct)
  case less
  have IH: "printer_loop record_putc b col f v =
     map_option ((@) b) (printer_loop record_putc [] col f v)" if "length f < length fmt" for b col f v
    using less that by blast
  show ?case
  proof (cases fmt)
    case (Cons c f)
    show ?thesis
    proof (cases "c = 37")
      case False
      then show ?thesis
        using Cons IH [of f "acc @ [(c, color)]"] IH [of f "[(c, color)]"]
        by (cases "printer_loop record_putc [] color f val") simp_all
    next
      case True
      show ?thesis
      proof (cases "convert_spec color f val")
        case (Some r)
        obtain out col f' v' where r: "r = (out, col, f', v')" by (cases r)
        then have "length f' < length fmt" using Some Cons by (auto dest: convert_spec_length)
        then show ?thesis
          using True Some r Cons IH [of f' "acc @ map (\<lambda>c. (c, color)) out"]
            IH [of f' "map (\<lambda>c. (c, color)) out"]
          by (cases "printer_loop record_putc [] col f' v'") (simp_all add: emit_record)
      qed (simp add: Cons True)
    qed
  qed simp
qed

lemma printer_loop_factor:
  "printer_loop putc p color fmt val =
     Option.bind (printer_loop record_putc [] color fmt val) (\<lambda>out. putc_all putc out p)"
proof (induction putc p color fmt val rule: printer_loop.induct)
  case (2 putc p color c fmt val)
  show ?case
  proof (cases "c = 37")
    case False
    then show ?thesis
      using 2(1) record_loop_acc [of "[(c, color)]" color fmt val]
      by (cases "putc p c color"; cases "printer_loop record_putc [] color fmt val")
        auto
  next
    case True
    show ?thesis
    proof (cases "convert_spec color fmt val")
      case (Some r)
      obtain out col f' v' where r: "r = (out, col, f', v')" by (cases r)
      let ?o = "map (\<lambda>c. (c, color)) out"
      show ?thesis
        using True Some r 2(2) [OF _ Some] record_loop_acc [of ?o col f' v']
        by (cases "putc_all putc ?o p"; cases "printer_loop record_putc [] col f' v'")
          (auto simp: emit_record emit_putc_all [of putc] putc_all_append)
    qed (simp add: True)
  qed
qed simp

lemma printer_vprintf_formatted:
  "printer_vprintf putc p color format val =
     Option.bind (formatted color format val) (\<lambda>out. putc_all putc out p)"
  unfolding printer_vprintf_def formatted_def by (simp add: printer_loop_factor [of putc])

text \<open>
  The contract of a printer: a character can be put into every good state, and leaves a good
  state. Then no format makes the printer fail.
\<close>

locale printer =
  fixes putc :: "'p \<Rightarrow> byte \<Rightarrow> uint32 \<Rightarrow> 'p option" and inv :: "'p \<Rightarrow> bool"
  assumes putc_safe: "inv p \<Longrightarrow> \<exists>p'. putc p c color = Some p' \<and> inv p'"
begin

lemma putc_all_safe: "inv p \<Longrightarrow> \<exists>p'. putc_all putc out p = Some p' \<and> inv p'"
proof (induction out arbitrary: p)
  case (Cons x out)
  obtain c color where x: "x = (c, color)" by (cases x)
  obtain p' where "putc p c color = Some p'" "inv p'" using putc_safe Cons.prems by blast
  with x Cons.IH show ?case by simp
qed simp

lemma vprintf_safe:
  "inv p \<Longrightarrow> formatted color format val = Some out \<Longrightarrow>
   \<exists>p'. printer_vprintf putc p color format val = Some p' \<and> inv p'"
  using putc_all_safe by (auto simp: printer_vprintf_formatted)

end

interpretation recording: printer record_putc "\<lambda>_. True"
  by unfold_locales (simp add: record_putc_def)

interpretation string: printer string_putc
  "\<lambda>sp. s_pos sp \<le> s_end sp \<and> s_end sp < length (s_buf sp)"
  by unfold_locales (auto simp: string_putc_def)


lemma take_upd_last: "i < length xs \<Longrightarrow> take (Suc i) (xs[i := v]) = take i xs @ [v]"
  by (simp add: take_Suc_conv_app_nth)

lemma drop_upd_first: "i < length xs \<Longrightarrow> (drop i xs)[0 := v] = v # drop (Suc i) xs"
  by (simp add: Cons_nth_drop_Suc [symmetric])

lemma string_putc_all:
  assumes "s_pos sp \<le> s_end sp" and "s_end sp < length (s_buf sp)"
  shows "putc_all string_putc out sp = Some (sp\<lparr>
           s_buf := take (s_pos sp) (s_buf sp) @ take (s_end sp - s_pos sp) (map fst out)
                    @ drop (min (s_end sp) (s_pos sp + length out)) (s_buf sp),
           s_pos := min (s_end sp) (s_pos sp + length out)\<rparr>)"
  using assms
proof (induction out arbitrary: sp)
  case (Cons x out)
  obtain c color where x: "x = (c, color)" by (cases x)
  show ?case
  proof (cases "s_pos sp < s_end sp")
    case True
    then obtain k where k: "s_end sp - s_pos sp = Suc k" "k = s_end sp - Suc (s_pos sp)"
      by (cases "s_end sp - s_pos sp") auto
    have "s_pos sp < length (s_buf sp)" using True Cons.prems by linarith
    then show ?thesis using Cons True k by (simp add: x string_putc_def take_upd_last)
  next
    case False
    then have "s_end sp = s_pos sp" using Cons.prems by simp
    then show ?thesis using Cons x by (simp add: string_putc_def)
  qed
qed (simp add: min_def)

lemma vsnprintf_formatted:
  assumes "formatted 0 format val = Some out" and "0 < bufsiz" and "bufsiz \<le> length s"
  shows "vsnprintf s bufsiz format val =
           Some (min (bufsiz - 1) (length out),
                 take (bufsiz - 1) (map fst out) @ 0 # drop (Suc (min (bufsiz - 1) (length out))) s)"
proof -
  let ?n = "min (bufsiz - 1) (length out)"
  have n: "?n < length s" "length (take (bufsiz - 1) (map fst out)) = ?n" using assms by auto
  have "(take (bufsiz - 1) (map fst out) @ drop ?n s)[?n := 0]
      = take (bufsiz - 1) (map fst out) @ (drop ?n s)[0 := 0]"
    using n by (simp add: list_update_append)
  also have "(drop ?n s)[0 := 0] = 0 # drop (Suc ?n) s"
    using n by (simp add: drop_upd_first)
  finally show ?thesis
    using assms n by (simp add: vsnprintf_def printer_vprintf_formatted string_putc_all)
qed

subsection \<open>Console\<close>

lemma fold_fill: "a \<le> b \<Longrightarrow> b \<le> length cs \<Longrightarrow>
    fold (\<lambda>i cs. cs[i := v]) [a..<b] cs = take a cs @ replicate (b - a) v @ drop b cs"
proof (induction b)
  case (Suc b)
  show ?case
  proof (cases "a \<le> b")
    case True
    then have "(take a cs @ replicate (b - a) v @ drop b cs)[b := v]
        = take a cs @ replicate (b - a) v @ (drop b cs)[0 := v]"
      using Suc.prems by (simp add: list_update_append)
    then show ?thesis
      using Suc True by (simp add: drop_upd_first Suc_diff_le replicate_app_Cons_same)
  next
    case False
    then show ?thesis using Suc.prems by (simp add: le_Suc_eq)
  qed
qed simp

lemma fold_shift: "n + k \<le> length cs \<Longrightarrow> 0 < k \<Longrightarrow>
    fold (\<lambda>i cs. cs[i := cs ! (i + k)]) [0..<n] cs = take n (drop k cs) @ drop n cs"
proof (induction n)
  case (Suc n)
  have "(take n (drop k cs) @ drop n cs) ! (n + k) = cs ! (n + k)"
    using Suc.prems by (simp add: nth_append)
  moreover have "(take n (drop k cs) @ drop n cs)[n := x] = take n (drop k cs) @ (drop n cs)[0 := x]" for x
    using Suc.prems by (simp add: list_update_append)
  ultimately show ?case
    using Suc by (simp add: drop_upd_first take_Suc_conv_app_nth add.commute)
qed simp

lemma scroll_rows:
  assumes "length console = CONSOLE_ROWS * CONSOLE_COLUMNS"
  shows "scroll color console =
           take (22 * 80) (drop 80 console) @ replicate 80 (cell 32 color) @ drop (23 * 80) console"
proof -
  have len: "length console = 2000" using assms by (simp add: console_dims)
  have "fold (\<lambda>i cs. cs[i := cs ! (i + 80)]) [0..<1760] console
      = take 1760 (drop 80 console) @ drop 1760 console"
    using len by (intro fold_shift) simp_all
  moreover have "fold (\<lambda>i cs. cs[i := cell 32 color]) [1760..<1840]
        (take 1760 (drop 80 console) @ drop 1760 console)
      = take 1760 (drop 80 console) @ replicate 80 (cell 32 color) @ drop 1840 console"
    using len by (subst fold_fill) simp_all
  ultimately show ?thesis by (simp add: scroll_def console_dims del: fold_simps upt_conv_Cons_Cons)
qed

lemma fill_row_ok:
  "cur + n \<le> length cs \<Longrightarrow>
   fill_row n v (cur, cs) = Some (cur + n, take cur cs @ replicate n v @ drop (cur + n) cs)"
proof (induction n arbitrary: cur cs)
  case (Suc n)
  then show ?case by (simp add: put_cell_def take_upd_last)
qed simp

text \<open>
  The text area is the first 23 rows; the two rows below it are never touched as long as the
  cursor starts in the text area.
\<close>

definition in_text_area :: "cells \<Rightarrow> nat \<times> cells \<Rightarrow> bool" where
  "in_text_area bottom = (\<lambda>(cur, console).
     cur < MAX_ROWS * CONSOLE_COLUMNS \<and> length console = CONSOLE_ROWS * CONSOLE_COLUMNS \<and>
     drop (MAX_ROWS * CONSOLE_COLUMNS) console = bottom)"

lemma row_end: "cur < 1840 \<Longrightarrow> cur + (80 - cur mod 80) \<le> (1840 :: nat)"
proof -
  assume "cur < 1840"
  then have "cur div 80 \<le> 22" by simp
  moreover have "80 * (cur div 80) + cur mod 80 = cur" by simp
  ultimately show ?thesis by linarith
qed

interpretation console: printer console_putc "in_text_area bottom"
proof
  fix st :: "nat \<times> cells" and c :: byte and color :: uint32
  assume inv: "in_text_area bottom st"
  obtain cur cs where st: "st = (cur, cs)" by (cases st)
  have cur: "cur < 1840" "length cs = 2000" "drop 1840 cs = bottom"
    using inv by (simp_all add: in_text_area_def st console_dims)
  have scrolled: "length (scroll color xs) = 2000 \<and> drop 1840 (scroll color xs) = drop 1840 xs"
    if "length xs = 2000" for xs
    using scroll_rows [of xs color] that by (simp add: console_dims)
  consider (nl) "c = 10" | (bs) "c = 8" | (char) "c \<noteq> 10" "c \<noteq> 8" by blast
  then show "\<exists>st'. console_putc st c color = Some st' \<and> in_text_area bottom st'"
  proof cases
    case nl
    then show ?thesis using cur row_end [of cur] scrolled
      by (auto simp: console_putc_def st in_text_area_def console_dims fill_row_ok)
  next
    case bs
    then show ?thesis using cur
      by (auto simp: console_putc_def st in_text_area_def console_dims)
  next
    case char
    then show ?thesis using cur scrolled
      by (auto simp: console_putc_def st in_text_area_def console_dims put_cell_def)
  qed
qed


subsection \<open>Numbers\<close>

definition positional :: "nat \<Rightarrow> nat list \<Rightarrow> nat" where
  "positional b ks = foldl (\<lambda>n k. n * b + k) 0 ks"

lemma fill_digits_positional:
  assumes "1 < unat base" and "unat val < unat base ^ left" and "0 < left"
  shows "\<exists>ks. fill_digits left digits val base acc = Some (map (\<lambda>k. digits ! k) ks @ acc) \<and>
              ks \<noteq> [] \<and> (\<forall>k\<in>set ks. k < unat base) \<and> positional (unat base) ks = unat val \<and>
              (1 < length ks \<longrightarrow> hd ks \<noteq> 0)"
  using assms(2,3)
proof (induction left arbitrary: val acc)
  case (Suc left)
  let ?d = "unat (val mod base)" and ?q = "val div base"
  have d: "?d = unat val mod unat base" and q: "unat ?q = unat val div unat base"
    by (simp_all add: unat_mod unat_div)
  show ?case
  proof (cases "?q = 0")
    case True
    then have "unat val div unat base = 0" using q by simp
    then have "unat val < unat base" using assms(1) by (simp add: div_eq_0_iff)
    then show ?thesis using True d
      by (intro exI [of _ "[?d]"]) (simp add: positional_def)
  next
    case False
    have "0 < unat ?q" using False by (simp add: unat_gt_0)
    moreover have lt: "unat ?q < unat base ^ left"
      using Suc.prems assms(1) q by (simp add: less_mult_imp_div_less mult.commute)
    ultimately have "0 < left" by (cases left) simp_all
    then obtain ks where ks: "fill_digits left digits ?q base (digits ! ?d # acc)
          = Some (map (\<lambda>k. digits ! k) ks @ digits ! ?d # acc)"
        "ks \<noteq> []" "\<forall>k\<in>set ks. k < unat base" "positional (unat base) ks = unat ?q"
        "1 < length ks \<longrightarrow> hd ks \<noteq> 0"
      using Suc.IH [OF lt] by blast
    have "ks \<noteq> [0]" using ks(4) \<open>0 < unat ?q\<close> by (auto simp: positional_def)
    then have "hd ks \<noteq> 0" using ks(2,5) by (cases ks; cases "tl ks") auto
    then show ?thesis using False ks d q assms(1)
      by (intro exI [of _ "ks @ [?d]"]) (auto simp: positional_def)
  qed
qed simp

lemma fill_numbuf_positional:
  assumes "base \<in> {10, 16, - 16}"
  shows "\<exists>ks. fill_numbuf NUMBUFSIZ val base =
                Some (map (\<lambda>k. (if base < 0 then lower_digits else upper_digits) ! k) ks @ [0]) \<and>
              ks \<noteq> [] \<and> (\<forall>k\<in>set ks. k < nat \<bar>base\<bar>) \<and> positional (nat \<bar>base\<bar>) ks = unat val \<and>
              (1 < length ks \<longrightarrow> hd ks \<noteq> 0)"
proof -
  have v: "unat val < 2 ^ 64" using unsigned_less [of val] by simp
  have "unat val < 10 ^ 23" "unat val < 16 ^ 23" using v by (auto intro: less_trans)
  then show ?thesis
    using fill_digits_positional [of 10 val 23 upper_digits "[0]"]
      fill_digits_positional [of 16 val 23 upper_digits "[0]"]
      fill_digits_positional [of 16 val 23 lower_digits "[0]"] assms
    by (auto simp: fill_numbuf_def NUMBUFSIZ_def)
qed

lemma upper_digit_decimal:
  assumes "k < 10"
  shows "is_digit (upper_digits ! k) \<and> unat (upper_digits ! k) = 48 + k"
proof -
  have "k \<in> {0, 1, 2, 3, 4, 5, 6, 7, 8, 9}" using assms by auto
  then show ?thesis by (auto simp: upper_digits_def is_digit_def)
qed

lemma fill_numbuf_decimal:
  "\<exists>ds. fill_numbuf NUMBUFSIZ val 10 = Some (ds @ [0]) \<and> ds \<noteq> [] \<and> list_all is_digit ds \<and>
        decimal ds = unat val"
proof -
  have dec: "decimal (map ((!) upper_digits) ks) = positional 10 ks" if "\<forall>k\<in>set ks. k < 10" for ks
  proof -
    have "foldl (\<lambda>n c. n * 10 + (unat c - 48)) n (map ((!) upper_digits) ks)
        = foldl (\<lambda>n k. n * 10 + k) n ks" for n
      using that by (induction ks arbitrary: n) (simp_all add: upper_digit_decimal)
    then show ?thesis by (simp add: decimal_def positional_def)
  qed
  obtain ks where "fill_numbuf NUMBUFSIZ val 10 = Some (map ((!) upper_digits) ks @ [0])"
      "ks \<noteq> []" "\<forall>k\<in>set ks. k < 10" "positional 10 ks = unat val"
    using fill_numbuf_positional [of 10 val] by auto
  then show ?thesis
    by (intro exI [of _ "map ((!) upper_digits) ks"])
      (auto simp: dec list_all_iff upper_digit_decimal)
qed

section \<open>Properties\<close>


text \<open>
  C7: \<open>vsnprintf\<close> on a buffer of at least \<open>size\<close> > 0 bytes stores the formatted text cut to
  \<open>size - 1\<close> characters and a terminator, leaves every byte behind the terminator (so every byte
  from offset \<open>size\<close> on) as it was, and returns the number of characters stored. It never writes outside the buffer.
\<close>

theorem vsnprintf_bounded:
  assumes "formatted 0 format val = Some out" and "0 < bufsiz" and "bufsiz \<le> length s"
  shows "\<exists>n s'. vsnprintf s bufsiz format val = Some (n, s') \<and> n = min (bufsiz - 1) (length out) \<and>
           s' = take n (map fst out) @ [0] @ drop (Suc n) s \<and> length s' = length s"
proof -
  let ?n = "min (bufsiz - 1) (length out)"
  have "take (bufsiz - 1) (map fst out) = take ?n (map fst out)" by (auto simp: min_def)
  moreover have "?n + Suc (length s - Suc ?n) = length s" using assms by simp
  ultimately show ?thesis using assms by (simp add: vsnprintf_formatted)
qed

theorem vsnprintf_bounded_witness:
  "\<exists>n s'. vsnprintf (replicate 8 7) 6 [37, 100, 37, 37, 120, 121, 122, 0] [VInt (- 12)] = Some (n, s') \<and>
     n = 5 \<and> s' = [45, 49, 50, 37, 120, 0, 7, 7]"
proof -
  have "formatted 0 [37, 100, 37, 37, 120, 121, 122, 0] [VInt (- 12)] =
      Some (map (\<lambda>c. (c, 0)) [45, 49, 50, 37, 120, 121, 122])"
    by code_simp
  from vsnprintf_bounded [OF this, of 6 "replicate 8 7"] show ?thesis
    by (simp add: numeral_eq_Suc)
qed

text \<open>
  C8: Printing to the console from a position in the first 23 rows never writes outside the console,
  leaves the cursor in those rows (scrolling them as needed) and the two rows below them unchanged,
  for every format and arguments that have a printed form.
\<close>

theorem console_vprintf_safe:
  assumes "formatted color format val = Some out"
    and "0 \<le> cpos" and "cpos < 23 * 80" and "length console = CONSOLE_ROWS * CONSOLE_COLUMNS"
  shows "\<exists>cur console'. console_vprintf cpos color format val console = Some (cur, console') \<and>
           cur < 23 * 80 \<and> length console' = CONSOLE_ROWS * CONSOLE_COLUMNS \<and>
           drop (23 * 80) console' = drop (23 * 80) console"
proof -
  have "in_text_area (drop (23 * 80) console) (nat cpos, console)"
    using assms by (simp add: in_text_area_def console_dims)
  from console.vprintf_safe [OF this assms(1)] show ?thesis
    using assms by (auto simp: console_vprintf_def in_text_area_def console_dims)
qed

theorem console_vprintf_safe_witness:
  "\<exists>cur console'. console_vprintf 1839 0x0700 [79, 75, 37, 115, 0] [VStr [10, 0]] (replicate 2000 7)
       = Some (cur, console') \<and> cur < 23 * 80 \<and> drop (23 * 80) console' = replicate 160 7"
proof -
  have "formatted 0x0700 [79, 75, 37, 115, 0] [VStr [10, 0]] =
      Some (map (\<lambda>c. (c, 0x0700)) [79, 75, 10])"
    by code_simp
  from console_vprintf_safe [OF this, of 1839 "replicate 2000 7"] show ?thesis
    by (auto simp: console_dims)
qed

end
