(* ===== verification/Hardware.thy ===== *)
theory Hardware
  imports Disk Printing
begin

unbundle bit_operations_syntax

text \<open>
  The hardware interface of \<^verbatim>\<open>kernel/k-hardware.c\<close> and \<^verbatim>\<open>lib/x86-64.h\<close>: segment and gate descriptors, the
  interrupt controllers and the timer, PCI configuration space and power-off, the console cursor,
  the keyboard and the parallel port of the log. The instructions are parameters (\<open>cpu\<close>), acting on
  the state of the devices.
\<close>

section \<open>The processor\<close>

record 'd cpu =
  pio :: "'d ports"
  inl :: "uint16 \<Rightarrow> 'd \<Rightarrow> uint32 \<times> 'd"
  outl :: "uint16 \<Rightarrow> uint32 \<Rightarrow> 'd \<Rightarrow> 'd"
  outw :: "uint16 \<Rightarrow> uint16 \<Rightarrow> 'd \<Rightarrow> 'd"
  read_cycle_counter :: "'d \<Rightarrow> uint64 \<times> 'd"
  rcr2 :: "'d \<Rightarrow> uint64"

definition io_inl :: "'d cpu \<Rightarrow> uint16 \<Rightarrow> ('d, uint32) io" where
  "io_inl cpu p = (\<lambda>d. case inl cpu p d of (v, d) \<Rightarrow> (Ok v, d))"

definition io_outl :: "'d cpu \<Rightarrow> uint16 \<Rightarrow> uint32 \<Rightarrow> ('d, unit) io" where
  "io_outl cpu p v = (\<lambda>d. (Ok (), outl cpu p v d))"

definition io_outw :: "'d cpu \<Rightarrow> uint16 \<Rightarrow> uint16 \<Rightarrow> ('d, unit) io" where
  "io_outw cpu p v = (\<lambda>d. (Ok (), outw cpu p v d))"

definition io_rdtsc :: "'d cpu \<Rightarrow> ('d, uint64) io" where
  "io_rdtsc cpu = (\<lambda>d. case read_cycle_counter cpu d of (v, d) \<Rightarrow> (Ok v, d))"

text \<open>A sequence of \<open>outb\<close> instructions.\<close>

fun io_outbs :: "'d ports \<Rightarrow> (uint16 \<times> byte) list \<Rightarrow> ('d, unit) io" where
  "io_outbs io [] = io_return ()"
| "io_outbs io ((p, v) # xs) = io_bind (io_outb io p v) (\<lambda>_. io_outbs io xs)"

section \<open>Segments and gates\<close>

definition SEGSEL_KERN_CODE :: uint64 where "SEGSEL_KERN_CODE = 0x8"
definition SEGSEL_APP_CODE :: uint64 where "SEGSEL_APP_CODE = 0x10"
definition SEGSEL_KERN_DATA :: uint64 where "SEGSEL_KERN_DATA = 0x18"
definition SEGSEL_APP_DATA :: uint64 where "SEGSEL_APP_DATA = 0x20"
definition SEGSEL_TASKSTATE :: uint64 where "SEGSEL_TASKSTATE = 0x28"

definition X86SEG_S :: uint64 where "X86SEG_S = push_bit 44 1"
definition X86SEG_P :: uint64 where "X86SEG_P = push_bit 47 1"
definition X86SEG_L :: uint64 where "X86SEG_L = push_bit 53 1"
definition X86SEG_W :: uint64 where "X86SEG_W = push_bit 40 2"
definition X86SEG_X :: uint64 where "X86SEG_X = push_bit 40 8"
definition X86SEG_TSS :: uint64 where "X86SEG_TSS = push_bit 40 9"
definition X86GATE_INTERRUPT :: uint64 where "X86GATE_INTERRUPT = push_bit 40 0xE"

lemmas segment_consts = SEGSEL_KERN_CODE_def SEGSEL_APP_CODE_def SEGSEL_KERN_DATA_def SEGSEL_APP_DATA_def
  SEGSEL_TASKSTATE_def X86SEG_S_def X86SEG_P_def X86SEG_L_def X86SEG_W_def X86SEG_X_def X86SEG_TSS_def
  X86GATE_INTERRUPT_def

definition set_app_segment :: "uint64 \<Rightarrow> uint64 \<Rightarrow> uint64" where
  "set_app_segment ty dpl = ty OR X86SEG_S OR push_bit 45 dpl OR X86SEG_P"

definition set_sys_segment :: "uint64 \<Rightarrow> uint64 \<Rightarrow> uint64 \<Rightarrow> uint64 \<Rightarrow> uint64 \<times> uint64" where
  "set_sys_segment ty dpl a sz =
     (push_bit 16 (a AND 0xFFFFFF) OR push_bit 32 (a AND 0xFF000000)
        OR ((sz - 1) AND 0xFFFF) OR push_bit 48 ((sz - 1) AND 0xF0000)
        OR ty OR push_bit 45 dpl OR X86SEG_P,
      drop_bit 32 a)"

record x86_64_gatedescriptor =
  gd_low :: uint64
  gd_high :: uint64

definition set_gate :: "uint64 \<Rightarrow> uint64 \<Rightarrow> uint64 \<Rightarrow> x86_64_gatedescriptor" where
  "set_gate ty dpl handler =
     \<lparr>gd_low = (handler AND 0xFFFF) OR push_bit 16 SEGSEL_KERN_CODE OR ty OR push_bit 45 dpl OR X86SEG_P
        OR push_bit 32 (handler AND 0xFFFF0000),
      gd_high = drop_bit 32 handler\<rparr>"

text \<open>
  The tables that \<open>segments_init\<close> builds. The addresses of the task state segment and of the handlers
  in \<^verbatim>\<open>k-exception.S\<close> are arguments; the size of the task state structure is 96 bytes.
\<close>

record handlers =
  sys_int_handlers :: "nat \<Rightarrow> uint64"
  h_default :: uint64
  h_gpf :: uint64
  h_pagefault :: uint64
  h_timer :: uint64

definition INT_HARDWARE :: nat where "INT_HARDWARE = 32"
definition INT_TIMER :: nat where "INT_TIMER = 32"
definition INT_GPF :: nat where "INT_GPF = 13"
definition INT_PAGEFAULT :: nat where "INT_PAGEFAULT = 14"
definition INT_SYS :: nat where "INT_SYS = 48"

lemmas int_consts = INT_HARDWARE_def INT_TIMER_def INT_GPF_def INT_PAGEFAULT_def INT_SYS_def

definition segments_table :: "uint64 \<Rightarrow> uint64 list" where
  "segments_table tss =
     (case set_sys_segment X86SEG_TSS 0 tss 96 of (lo, hi) \<Rightarrow>
       [0, set_app_segment (X86SEG_X OR X86SEG_L) 0, set_app_segment (X86SEG_X OR X86SEG_L) 3,
        set_app_segment X86SEG_W 0, set_app_segment X86SEG_W 3, lo, hi])"

definition interrupt_table :: "handlers \<Rightarrow> x86_64_gatedescriptor list" where
  "interrupt_table h =
     (let none = \<lparr>gd_low = 0, gd_high = 0\<rparr>;
          t = replicate 16 none @ replicate 240 (set_gate X86GATE_INTERRUPT 0 (h_default h));
          t = t[INT_TIMER := set_gate X86GATE_INTERRUPT 0 (h_timer h)];
          t = t[INT_GPF := set_gate X86GATE_INTERRUPT 0 (h_gpf h)];
          t = t[INT_PAGEFAULT := set_gate X86GATE_INTERRUPT 0 (h_pagefault h)]
      in foldl (\<lambda>t i. t[i := set_gate X86GATE_INTERRUPT 3 (sys_int_handlers h (i - INT_SYS))]) t [INT_SYS..<INT_SYS + 32])"

definition cr0_init :: "uint32 \<Rightarrow> uint32" where
  "cr0_init cr0 = cr0 OR 0x00000001 OR 0x80000000 OR 0x00010000 OR 0x00040000 OR 0x00000002 OR 0x00000020"

text \<open>
  The static tables and the registers that \<open>segments_init\<close> loads. The addresses of the tables, like those of the
  handlers, are provided by the linker.
\<close>

record x86_64_pseudodescriptor =
  pseudod_limit :: uint16
  pseudod_base :: uint64

record x86_64_taskstate =
  ts_reserved0 :: uint32
  ts_rsp :: "uint64 list"
  ts_ist :: "uint64 list"
  ts_reserved1 :: uint64
  ts_reserved2 :: uint16
  ts_iomap_base :: uint16

record processor =
  segments :: "uint64 list"
  interrupt_descriptors :: "x86_64_gatedescriptor list"
  kernel_task_descriptor :: x86_64_taskstate
  gdtr :: x86_64_pseudodescriptor
  idtr :: x86_64_pseudodescriptor
  task_register :: uint16
  cr0 :: uint64

record table_addresses = handlers +
  segments_addr :: uint64
  interrupt_descriptors_addr :: uint64
  kernel_task_descriptor_addr :: uint64

definition zero_taskstate :: x86_64_taskstate where
  "zero_taskstate = \<lparr>ts_reserved0 = 0, ts_rsp = replicate 3 0, ts_ist = replicate 7 0, ts_reserved1 = 0,
     ts_reserved2 = 0, ts_iomap_base = 0\<rparr>"

definition blank_processor :: processor where
  "blank_processor = \<lparr>segments = replicate 7 0, interrupt_descriptors = replicate 256 \<lparr>gd_low = 0, gd_high = 0\<rparr>,
     kernel_task_descriptor = zero_taskstate, gdtr = \<lparr>pseudod_limit = 0, pseudod_base = 0\<rparr>,
     idtr = \<lparr>pseudod_limit = 0, pseudod_base = 0\<rparr>, task_register = 0, cr0 = 0x80000001\<rparr>"

definition rcr0 :: "processor \<Rightarrow> uint32" where
  "rcr0 p = ucast (cr0 p)"

definition lcr0 :: "uint32 \<Rightarrow> processor \<Rightarrow> processor" where
  "lcr0 val p = p\<lparr>cr0 := ucast val\<rparr>"

definition segments_init :: "table_addresses \<Rightarrow> uint64 \<Rightarrow> processor \<Rightarrow> processor" where
  "segments_init a stack_top p =
     (let p = p\<lparr>segments := segments_table (kernel_task_descriptor_addr a)\<rparr>;
          gdt = \<lparr>pseudod_limit = 7 * 8 - 1, pseudod_base = segments_addr a\<rparr>;
          p = p\<lparr>kernel_task_descriptor := zero_taskstate\<lparr>ts_rsp := (ts_rsp zero_taskstate)[0 := stack_top]\<rparr>\<rparr>;
          p = p\<lparr>interrupt_descriptors := interrupt_table (handlers.truncate a)\<rparr>;
          idt = \<lparr>pseudod_limit = 256 * 16 - 1, pseudod_base = interrupt_descriptors_addr a\<rparr>;
          p = p\<lparr>gdtr := gdt, task_register := ucast SEGSEL_TASKSTATE, idtr := idt\<rparr>
      in lcr0 (cr0_init (rcr0 p)) p)"

text \<open>How the processor reads a gate: the handler address, privilege level, selector and presence.\<close>

definition gate_handler :: "x86_64_gatedescriptor \<Rightarrow> uint64" where
  "gate_handler g = (gd_low g AND 0xFFFF) OR (drop_bit 32 (gd_low g) AND 0xFFFF0000) OR push_bit 32 (gd_high g)"

definition gate_dpl :: "x86_64_gatedescriptor \<Rightarrow> uint64" where
  "gate_dpl g = drop_bit 45 (gd_low g) AND 3"

definition gate_present :: "x86_64_gatedescriptor \<Rightarrow> bool" where
  "gate_present g \<longleftrightarrow> bit (gd_low g) 47"

definition gate_selector :: "x86_64_gatedescriptor \<Rightarrow> uint64" where
  "gate_selector g = drop_bit 16 (gd_low g) AND 0xFFFF"

text \<open>And a descriptor of the segments: privilege level, presence, and whether it is 64-bit code.\<close>

definition seg_dpl :: "uint64 \<Rightarrow> uint64" where
  "seg_dpl d = drop_bit 45 d AND 3"

definition seg_code64 :: "uint64 \<Rightarrow> bool" where
  "seg_code64 d \<longleftrightarrow> bit d 43 \<and> bit d 44 \<and> bit d 47 \<and> bit d 53"

text \<open>
  The delivery of an interrupt as the processor manuals document it, for vector \<open>n\<close> at privilege level \<open>cpl\<close>. The gate
  must lie within the limit of the interrupt descriptor table, be present and, for the instruction \<open>int n\<close>
  (\<open>sw\<close>), admit the privilege level of the program; the segment that it names must be present 64-bit code that is not
  less privileged. The handler runs with the privilege level of the segment; if that is a more privileged level, it
  runs on the stack of the task state segment. \<open>None\<close> is a fault.
\<close>

record entry_point =
  e_handler :: uint64
  e_cpl :: uint64
  e_stack :: "uint64 option"

definition deliver :: "table_addresses \<Rightarrow> processor \<Rightarrow> bool \<Rightarrow> nat \<Rightarrow> uint64 \<Rightarrow> entry_point option" where
  "deliver a p sw n cpl =
     (let g = interrupt_descriptors p ! n; i = unat (drop_bit 3 (gate_selector g)); d = segments p ! i
      in if pseudod_base (idtr p) = interrupt_descriptors_addr a \<and> 16 * n + 15 \<le> unat (pseudod_limit (idtr p)) \<and>
            gate_present g \<and> (sw \<longrightarrow> cpl \<le> gate_dpl g) \<and>
            pseudod_base (gdtr p) = segments_addr a \<and> 0 < i \<and> 8 * i + 7 \<le> unat (pseudod_limit (gdtr p)) \<and>
            seg_code64 d \<and> seg_dpl d \<le> cpl
         then Some \<lparr>e_handler = gate_handler g, e_cpl = seg_dpl d,
                     e_stack = (if seg_dpl d < cpl then Some (ts_rsp (kernel_task_descriptor p) ! unat (seg_dpl d)) else None)\<rparr>
         else None)"

section \<open>Interrupt controllers and timer\<close>

definition IO_PIC1 :: uint16 where "IO_PIC1 = 0x20"
definition IO_PIC2 :: uint16 where "IO_PIC2 = 0xA0"
definition IO_TIMER1 :: uint16 where "IO_TIMER1 = 0x40"
definition TIMER_MODE :: uint16 where "TIMER_MODE = 0x43"
definition TIMER_FREQ :: nat where "TIMER_FREQ = 1193182"

definition TIMER_DIV :: "nat \<Rightarrow> nat" where
  "TIMER_DIV x = (TIMER_FREQ + x div 2) div x"

definition interrupt_mask :: "'d ports \<Rightarrow> uint16 \<Rightarrow> ('d, unit) io" where
  "interrupt_mask io interrupts_enabled =
     io_outbs io [(IO_PIC1 + 1, ucast (NOT interrupts_enabled AND 0xFF)),
                  (IO_PIC2 + 1, ucast (drop_bit 8 (NOT interrupts_enabled) AND 0xFF))]"

text \<open>\<open>interrupt_init\<close> and \<open>timer_init\<close> return the new value of \<open>interrupts_enabled\<close>.\<close>

definition interrupt_init :: "'d ports \<Rightarrow> ('d, uint16) io" where
  "interrupt_init io =
     io_bind (interrupt_mask io 0) (\<lambda>_.
     io_bind (io_outbs io
        [(IO_PIC1, 0x11), (IO_PIC1 + 1, of_nat INT_HARDWARE), (IO_PIC1 + 1, 4), (IO_PIC1 + 1, 0x3),
         (IO_PIC2, 0x11), (IO_PIC2 + 1, of_nat (INT_HARDWARE + 8)), (IO_PIC2 + 1, 2), (IO_PIC2 + 1, 0x01),
         (IO_PIC1, 0x68), (IO_PIC1, 0x0A), (IO_PIC2, 0x68), (IO_PIC2, 0x0A)]) (\<lambda>_.
     io_bind (interrupt_mask io 0) (\<lambda>_. io_return 0)))"

definition timer_init :: "'d ports \<Rightarrow> int \<Rightarrow> uint16 \<Rightarrow> ('d, uint16) io" where
  "timer_init io rate interrupts_enabled =
     (if rate > 0
      then io_bind (io_outbs io [(TIMER_MODE, 0x34), (IO_TIMER1, of_nat (TIMER_DIV (nat rate) mod 256)),
                                 (IO_TIMER1, of_nat (TIMER_DIV (nat rate) div 256))]) (\<lambda>_.
           let e = interrupts_enabled OR push_bit (INT_TIMER - INT_HARDWARE) 1
           in io_bind (interrupt_mask io e) (\<lambda>_. io_return e))
      else let e = interrupts_enabled AND NOT (push_bit (INT_TIMER - INT_HARDWARE) 1)
           in io_bind (interrupt_mask io e) (\<lambda>_. io_return e))"


section \<open>PCI and power\<close>

definition pci_make_configaddr :: "nat \<Rightarrow> nat \<Rightarrow> nat \<Rightarrow> uint32" where
  "pci_make_configaddr bus slot func = push_bit 16 (of_nat bus) OR push_bit 11 (of_nat slot) OR push_bit 8 (of_nat func)"

definition pci_config_readl :: "'d cpu \<Rightarrow> uint32 \<Rightarrow> uint32 \<Rightarrow> ('d, uint32) io" where
  "pci_config_readl cpu configaddr off =
     io_bind (io_outl cpu 0xCF8 (0x80000000 OR configaddr OR off)) (\<lambda>_. io_inl cpu 0xCFC)"

text \<open>
  The three nested loops of \<open>pci_find_device\<close>: \<open>pci_funcs n\<close> looks at the last \<open>n\<close> functions of a slot,
  \<open>pci_slots n\<close> at the last \<open>n\<close> slots of a bus, \<open>pci_buses n\<close> at the last \<open>n\<close> buses; \<open>None\<close> is \<open>-1\<close>.
\<close>

primrec pci_funcs :: "nat \<Rightarrow> 'd cpu \<Rightarrow> uint32 \<Rightarrow> nat \<Rightarrow> nat \<Rightarrow> ('d, uint32 option) io" where
  "pci_funcs 0 cpu vd bus slot = io_return None"
| "pci_funcs (Suc n) cpu vd bus slot =
     (let func = 8 - Suc n; configaddr = pci_make_configaddr bus slot func
      in io_bind (pci_config_readl cpu configaddr 0) (\<lambda>vendor_device.
           if vendor_device = vd then io_return (Some configaddr)
           else if vendor_device = - 1 \<and> func = 0 then io_return None
           else pci_funcs n cpu vd bus slot))"

primrec pci_slots :: "nat \<Rightarrow> 'd cpu \<Rightarrow> uint32 \<Rightarrow> nat \<Rightarrow> ('d, uint32 option) io" where
  "pci_slots 0 cpu vd bus = io_return None"
| "pci_slots (Suc n) cpu vd bus =
     io_bind (pci_funcs 8 cpu vd bus (32 - Suc n)) (\<lambda>r.
       case r of Some a \<Rightarrow> io_return (Some a) | None \<Rightarrow> pci_slots n cpu vd bus)"

primrec pci_buses :: "nat \<Rightarrow> 'd cpu \<Rightarrow> uint32 \<Rightarrow> ('d, uint32 option) io" where
  "pci_buses 0 cpu vd = io_return None"
| "pci_buses (Suc n) cpu vd =
     io_bind (pci_slots 32 cpu vd (256 - Suc n)) (\<lambda>r.
       case r of Some a \<Rightarrow> io_return (Some a) | None \<Rightarrow> pci_buses n cpu vd)"

definition pci_find_device :: "'d cpu \<Rightarrow> uint32 \<Rightarrow> uint32 \<Rightarrow> ('d, uint32 option) io" where
  "pci_find_device cpu vendor device = pci_buses 256 cpu (vendor OR push_bit 16 device)"

text \<open>
  \<open>poweroff\<close> and \<open>reboot\<close> do not return: after the port writes they spin. (\<open>poweroff\<close> also prints a message.)
\<close>

definition poweroff :: "'d cpu \<Rightarrow> ('d, 'a) io" where
  "poweroff cpu =
     io_bind (pci_find_device cpu 0x8086 0x7113) (\<lambda>r.
     io_bind (case r of
        None \<Rightarrow> io_return ()
      | Some configaddr \<Rightarrow>
          io_bind (pci_config_readl cpu configaddr 0x40) (\<lambda>v.
            let pm_io_base = v AND 0xFFC0
            in io_outw cpu (ucast pm_io_base + 4) 0x2000)) (\<lambda>_.
     io_stuck))"

definition reboot :: "'d cpu \<Rightarrow> ('d, 'a) io" where
  "reboot cpu = io_bind (io_outb (pio cpu) 0x92 3) (\<lambda>_. io_stuck)"

section \<open>The cursor and the log\<close>

definition console_show_cursor :: "'d ports \<Rightarrow> int \<Rightarrow> ('d, unit) io" where
  "console_show_cursor io cpos =
     (let cpos = (if cpos < 0 \<or> cpos > int (CONSOLE_ROWS * CONSOLE_COLUMNS) then 0 else cpos)
      in io_outbs io [(0x3D4, 14), (0x3D5, of_int (cpos div 256)), (0x3D4, 15), (0x3D5, of_int (cpos mod 256))])"

fun io_inbs :: "'d ports \<Rightarrow> nat \<Rightarrow> uint16 \<Rightarrow> ('d, unit) io" where
  "io_inbs io 0 p = io_return ()"
| "io_inbs io (Suc n) p = io_bind (io_inb io p) (\<lambda>_. io_inbs io n p)"

definition delay :: "'d ports \<Rightarrow> ('d, unit) io" where
  "delay io = io_inbs io 4 0x84"

primrec parallel_wait :: "nat \<Rightarrow> 'd ports \<Rightarrow> ('d, unit) io" where
  "parallel_wait 0 io = io_return ()"
| "parallel_wait (Suc n) io =
     io_bind (io_inb io 0x379) (\<lambda>st.
       if st AND 0x80 = 0 then io_bind (delay io) (\<lambda>_. parallel_wait n io) else io_return ())"

text \<open>The first component of the log's state is the static variable \<open>initialized\<close>.\<close>

definition parallel_port_putc :: "'d ports \<Rightarrow> byte \<Rightarrow> uint32 \<Rightarrow> (bool \<times> 'd, unit) io" where
  "parallel_port_putc io c color = (\<lambda>(initialized, d).
     case io_bind (if initialized then io_return () else io_outb io 0x37A 0) (\<lambda>_.
          io_bind (parallel_wait 12800 io) (\<lambda>_.
          io_outbs io [(0x378, c), (0x37A, 0x0D), (0x37A, 0x0C)])) d of
       (r, d) \<Rightarrow> (r, (True, d)))"

definition log_vprintf :: "'d ports \<Rightarrow> byte list \<Rightarrow> va list \<Rightarrow> bool \<times> 'd \<Rightarrow> (bool \<times> 'd) option" where
  "log_vprintf io format val p =
     printer_vprintf (\<lambda>p c color. Some (snd (parallel_port_putc io c color p))) p 0 format val"

definition log_printf :: "'d ports \<Rightarrow> byte list \<Rightarrow> va list \<Rightarrow> bool \<times> 'd \<Rightarrow> (bool \<times> 'd) option" where
  "log_printf io format val p = log_vprintf io format val p"

text \<open>\<open>error_vprintf\<close> prints to the log and the console; the console state is the cell array.\<close>

definition error_vprintf ::
  "'d ports \<Rightarrow> int \<Rightarrow> uint32 \<Rightarrow> byte list \<Rightarrow> va list \<Rightarrow> (bool \<times> 'd) \<times> cells \<Rightarrow> (nat \<times> (bool \<times> 'd) \<times> cells) option" where
  "error_vprintf io cpos color format val = (\<lambda>(lg, console).
     case log_vprintf io format val lg of
       None \<Rightarrow> None
     | Some lg \<Rightarrow> map_option (\<lambda>(cpos, console). (cpos, lg, console)) (console_vprintf cpos color format val console))"

definition error_printf ::
  "'d ports \<Rightarrow> int \<Rightarrow> uint32 \<Rightarrow> byte list \<Rightarrow> va list \<Rightarrow> (bool \<times> 'd) \<times> cells \<Rightarrow> (nat \<times> (bool \<times> 'd) \<times> cells) option" where
  "error_printf io cpos color format val st = error_vprintf io cpos color format val st"

section \<open>The keyboard\<close>

definition KEY_SHIFT :: int where "KEY_SHIFT = 250"
definition KEY_CAPSLOCK :: int where "KEY_CAPSLOCK = 253"
definition CKEY :: "int \<Rightarrow> int" where "CKEY cn = 0x80 + cn"
definition MOD_SHIFT :: byte where "MOD_SHIFT = 1"
definition MOD_CONTROL :: byte where "MOD_CONTROL = 2"
definition MOD_CAPSLOCK :: byte where "MOD_CAPSLOCK = 8"

lemmas key_consts = KEY_SHIFT_def KEY_CAPSLOCK_def CKEY_def MOD_SHIFT_def MOD_CONTROL_def MOD_CAPSLOCK_def

definition keymap :: "nat list" where
  "keymap =
     [0, 27, 128, 129, 130, 131, 132, 133, 134, 135, 136, 137, 138, 139, 8, 9,
      113, 119, 101, 114, 116, 121, 117, 105, 111, 112, 140, 141, 142, 251, 97, 115,
      100, 102, 103, 104, 106, 107, 108, 143, 144, 145, 250, 146, 122, 120, 99, 118,
      98, 110, 109, 147, 148, 149, 250, 42, 252, 32, 253, 0, 0, 0, 0, 0,
      0, 0, 0, 0, 0, 254, 255, 55, 56, 57, 45, 52, 53, 54, 43, 49,
      50, 51, 48, 46, 0, 0, 0, 0, 0, 0, 0, 0, 0, 0, 0, 0,
      0, 0, 0, 0, 0, 0, 0, 0, 0, 0, 0, 0, 0, 0, 0, 0,
      0, 0, 0, 0, 0, 0, 0, 0, 0, 0, 0, 0, 0, 0, 0, 0,
      0, 0, 0, 0, 0, 0, 0, 0, 0, 0, 0, 0, 0, 0, 0, 0,
      0, 0, 0, 0, 0, 0, 0, 0, 0, 0, 0, 0, 142, 251, 0, 0,
      0, 0, 0, 0, 0, 0, 0, 0, 0, 0, 0, 0, 0, 0, 0, 0,
      0, 0, 0, 0, 0, 47, 0, 0, 252, 0, 0, 0, 0, 0, 0, 0,
      0, 0, 0, 0, 0, 0, 0, 196, 192, 198, 0, 195, 0, 193, 0, 197,
      194, 199, 200, 201, 0, 0, 0, 0, 0, 0, 0, 0, 0, 0, 0, 0,
      0, 0, 0, 0, 0, 0, 0, 0, 0, 0, 0, 0, 0, 0, 0, 0,
      0, 0, 0, 0, 0, 0, 0, 0, 0, 0, 0, 0, 0, 0, 0, 0]"

definition complex_keymap :: "nat list list" where
  "complex_keymap =
     [[49, 33, 0, 0], [50, 64, 0, 0], [51, 35, 0, 0], [52, 36, 0, 0],
      [53, 37, 0, 0], [54, 94, 0, 30], [55, 38, 0, 0], [56, 42, 0, 0],
      [57, 40, 0, 0], [48, 41, 0, 0], [45, 95, 0, 31], [61, 43, 0, 0],
      [91, 123, 27, 0], [93, 125, 29, 0], [10, 10, 13, 13], [59, 58, 0, 0],
      [39, 34, 0, 0], [96, 126, 0, 0], [92, 124, 28, 0], [44, 60, 0, 0],
      [46, 62, 0, 0], [47, 63, 0, 0]]"

record keyboard =
  modifiers :: byte
  last_escape :: byte

text \<open>
  \<open>keyboard_decode\<close> is \<open>keyboard_readc\<close> after the data register was read: the character (0 for none) and
  the new values of the static variables.
\<close>

definition keyboard_decode :: "byte \<Rightarrow> keyboard \<Rightarrow> int \<times> keyboard" where
  "keyboard_decode data k =
     (let escape = last_escape k; k = k\<lparr>last_escape := 0\<rparr>
      in if data = 0xE0 then (0, k\<lparr>last_escape := 0x80\<rparr>)
         else if data AND 0x80 \<noteq> 0
         then let ch = int (keymap ! unat ((data AND 0x7F) OR escape))
              in (0, if ch \<ge> KEY_SHIFT \<and> ch < KEY_CAPSLOCK
                     then k\<lparr>modifiers := modifiers k AND NOT (push_bit (nat (ch - KEY_SHIFT)) 1)\<rparr> else k)
         else
           let ch = int (keymap ! unat (data OR escape)); m = modifiers k
           in if ch \<ge> 97 \<and> ch \<le> 122
              then (if m AND MOD_CONTROL \<noteq> 0 then ch - 0x60
                    else if (m AND MOD_SHIFT = 0) \<noteq> (m AND MOD_CAPSLOCK = 0) then ch - 0x20 else ch, k)
              else if ch \<ge> KEY_CAPSLOCK then (0, k\<lparr>modifiers := m XOR push_bit (nat (ch - KEY_SHIFT)) 1\<rparr>)
              else if ch \<ge> KEY_SHIFT then (0, k\<lparr>modifiers := m OR push_bit (nat (ch - KEY_SHIFT)) 1\<rparr>)
              else if ch \<ge> CKEY 0 \<and> ch \<le> CKEY 21
              then (int (complex_keymap ! nat (ch - CKEY 0) ! unat (m AND 3)), k)
              else if ch < 0x80 \<and> m AND MOD_CONTROL \<noteq> 0 then (0, k)
              else (ch, k))"

definition keyboard_readc :: "'d ports \<Rightarrow> (keyboard \<times> 'd, int) io" where
  "keyboard_readc io = (\<lambda>(k, d).
     case inb io 0x64 d of (st, d) \<Rightarrow>
       if st AND 0x01 = 0 then (Ok (- 1), (k, d))
       else case inb io 0x60 d of (data, d) \<Rightarrow>
              (case keyboard_decode data k of (ch, k) \<Rightarrow> (Ok ch, (k, d))))"


section \<open>Gates as the processor reads them\<close>

lemma bit_low16: "bit (w AND 0xFFFF :: uint64) n \<longleftrightarrow> bit w n \<and> n < 16"
proof -
  have m: "(0xFFFF :: uint64) = mask 16" by (simp add: mask_eq_exp_minus_1)
  show ?thesis unfolding m by (simp only: bit_and_iff bit_mask_iff) auto
qed

lemma bit_high16: "bit (w AND 0xFFFF0000 :: uint64) n \<longleftrightarrow> bit w n \<and> 16 \<le> n \<and> n < 32"
proof -
  have m: "(0xFFFF0000 :: uint64) = push_bit 16 (mask 16)" by (simp add: mask_eq_exp_minus_1 push_bit_eq_mult)
  show ?thesis unfolding m by (simp only: bit_and_iff bit_mask_iff bit_push_bit_iff) auto
qed

lemma bit_pushed: "bit (push_bit k (1 :: uint64)) n \<longleftrightarrow> n = k \<and> k < 64"
  by (simp only: bit_push_bit_iff bit_1_iff) auto

lemma bit_kern_code: "bit (push_bit 16 SEGSEL_KERN_CODE) n \<longleftrightarrow> n = 19"
proof -
  have m: "push_bit 16 SEGSEL_KERN_CODE = push_bit 19 1" by (simp add: segment_consts)
  show ?thesis unfolding m bit_pushed by simp
qed

lemma bit_interrupt: "bit X86GATE_INTERRUPT n \<longleftrightarrow> 41 \<le> n \<and> n \<le> 43"
proof -
  have m: "X86GATE_INTERRUPT = push_bit 41 (mask 3)" by (simp add: segment_consts mask_eq_exp_minus_1 push_bit_eq_mult)
  show ?thesis unfolding m by (simp only: bit_mask_iff bit_push_bit_iff) auto
qed

lemma bit_dpl: "dpl = 0 \<or> dpl = 3 \<Longrightarrow> bit (push_bit 45 dpl :: uint64) n \<longleftrightarrow> dpl = 3 \<and> (n = 45 \<or> n = 46)"
proof -
  have m: "(3 :: uint64) = mask 2" by (simp add: mask_eq_exp_minus_1)
  have "bit (push_bit 45 3 :: uint64) n \<longleftrightarrow> n = 45 \<or> n = 46"
    unfolding m by (simp only: bit_mask_iff bit_push_bit_iff) auto
  then show "dpl = 0 \<or> dpl = 3 \<Longrightarrow> ?thesis" by auto
qed

lemma bit_gd_low:
  assumes "dpl = 0 \<or> dpl = 3"
  shows "bit (gd_low (set_gate X86GATE_INTERRUPT dpl h)) n \<longleftrightarrow>
    (n < 16 \<and> bit h n) \<or> n = 19 \<or> (41 \<le> n \<and> n \<le> 43) \<or> (dpl = 3 \<and> (n = 45 \<or> n = 46)) \<or> n = 47 \<or>
    (48 \<le> n \<and> n < 64 \<and> bit h (n - 32))"
proof -
  have low: "gd_low (set_gate X86GATE_INTERRUPT dpl h) = (h AND 0xFFFF) OR push_bit 16 SEGSEL_KERN_CODE OR
      X86GATE_INTERRUPT OR push_bit 45 dpl OR push_bit 47 1 OR push_bit 32 (h AND 0xFFFF0000)"
    by (simp only: set_gate_def X86SEG_P_def x86_64_gatedescriptor.select_convs)
  have hi: "bit (push_bit 32 (h AND 0xFFFF0000)) n \<longleftrightarrow> 48 \<le> n \<and> n < 64 \<and> bit h (n - 32)"
    by (simp only: bit_push_bit_iff bit_high16) auto
  have p: "bit (push_bit 47 (1 :: uint64)) n \<longleftrightarrow> n = 47" unfolding bit_pushed by simp
  show ?thesis
    unfolding low bit_or_iff bit_low16 bit_kern_code bit_interrupt bit_dpl [OF assms] p hi by blast
qed

lemma set_gate_read:
  assumes "dpl = 0 \<or> dpl = 3"
  shows "gate_handler (set_gate X86GATE_INTERRUPT dpl h) = h" and "gate_dpl (set_gate X86GATE_INTERRUPT dpl h) = dpl"
    and "gate_present (set_gate X86GATE_INTERRUPT dpl h)" and "gate_selector (set_gate X86GATE_INTERRUPT dpl h) = SEGSEL_KERN_CODE"
proof -
  let ?g = "set_gate X86GATE_INTERRUPT dpl h"
  have hi: "gd_high ?g = drop_bit 32 h" by (simp add: set_gate_def)
  show "gate_handler ?g = h"
  proof (rule bit_word_eqI)
    fix n assume n: "n < LENGTH(64)"
    have "bit (gate_handler ?g) n \<longleftrightarrow> (n < 16 \<and> bit (gd_low ?g) n) \<or>
        (16 \<le> n \<and> n < 32 \<and> bit (gd_low ?g) (32 + n)) \<or> (32 \<le> n \<and> bit h n)"
      unfolding gate_handler_def hi
      using n by (simp only: bit_or_iff bit_low16 bit_high16 bit_drop_bit_eq bit_push_bit_iff o_def) auto
    moreover have "n < 16 \<Longrightarrow> bit (gd_low ?g) n = bit h n" by (simp add: bit_gd_low [OF assms])
    moreover have "16 \<le> n \<Longrightarrow> n < 32 \<Longrightarrow> bit (gd_low ?g) (32 + n) = bit h n" by (simp add: bit_gd_low [OF assms])
    ultimately show "bit (gate_handler ?g) n = bit h n" by (meson not_le)
  qed
  have m: "(3 :: uint64) = mask 2" by (simp add: mask_eq_exp_minus_1)
  show "gate_dpl ?g = dpl"
  proof (rule bit_word_eqI)
    fix n assume "n < LENGTH(64)"
    have "bit (3 :: uint64) n \<longleftrightarrow> n < 2" unfolding m by (simp only: bit_mask_iff) auto
    moreover have "bit (gate_dpl ?g) n \<longleftrightarrow> bit (gd_low ?g) (45 + n) \<and> bit (3 :: uint64) n"
      by (simp only: gate_dpl_def bit_and_iff bit_drop_bit_eq o_def)
    moreover have "n < 2 \<Longrightarrow> bit (gd_low ?g) (45 + n) \<longleftrightarrow> dpl = 3" by (auto simp: bit_gd_low [OF assms])
    ultimately show "bit (gate_dpl ?g) n = bit dpl n" using assms by (metis bit_0_eq bot_apply bot_bool_def)
  qed
  show "gate_present ?g" by (simp add: gate_present_def bit_gd_low [OF assms])
  show "gate_selector ?g = SEGSEL_KERN_CODE"
  proof (rule bit_word_eqI)
    fix n assume "n < LENGTH(64)"
    have k: "SEGSEL_KERN_CODE = push_bit 3 1" by (simp add: segment_consts)
    have "bit (gate_selector ?g) n \<longleftrightarrow> bit (gd_low ?g) (16 + n) \<and> n < 16"
      by (simp only: gate_selector_def bit_low16 bit_drop_bit_eq o_def)
    moreover have "bit SEGSEL_KERN_CODE n \<longleftrightarrow> n = 3" unfolding k bit_pushed by simp
    moreover have "n < 16 \<Longrightarrow> bit (gd_low ?g) (16 + n) \<longleftrightarrow> n = 3" by (simp add: bit_gd_low [OF assms])
    ultimately show "bit (gate_selector ?g) n = bit SEGSEL_KERN_CODE n" by auto
  qed
qed


lemma nth_foldl_update:
  "length (foldl (\<lambda>t i. t[i := f i]) t [a..<b]) = length t \<and>
   (n < length t \<longrightarrow> foldl (\<lambda>t i. t[i := f i]) t [a..<b] ! n = (if a \<le> n \<and> n < b then f n else t ! n))"
proof (induction b)
  case (Suc b)
  then show ?case by (cases "a \<le> b") (auto simp: nth_list_update less_Suc_eq)
qed simp

lemma interrupt_table_nth:
  assumes "i < 256"
  shows "interrupt_table h ! i =
    (if 48 \<le> i \<and> i < 80 then set_gate X86GATE_INTERRUPT 3 (sys_int_handlers h (i - 48))
     else if i = 32 then set_gate X86GATE_INTERRUPT 0 (h_timer h)
     else if i = 13 then set_gate X86GATE_INTERRUPT 0 (h_gpf h)
     else if i = 14 then set_gate X86GATE_INTERRUPT 0 (h_pagefault h)
     else if i < 16 then \<lparr>gd_low = 0, gd_high = 0\<rparr>
     else set_gate X86GATE_INTERRUPT 0 (h_default h))"
proof -
  have t: "(replicate 16 (x :: x86_64_gatedescriptor) @ replicate 240 y) ! i = (if i < 16 then x else y)" for x y
    using assms by (simp add: nth_append)
  define base where "base = list_update (list_update (list_update
      (replicate 16 \<lparr>gd_low = 0, gd_high = 0\<rparr> @ replicate 240 (set_gate X86GATE_INTERRUPT 0 (h_default h)))
      INT_TIMER (set_gate X86GATE_INTERRUPT 0 (h_timer h)))
      INT_GPF (set_gate X86GATE_INTERRUPT 0 (h_gpf h)))
      INT_PAGEFAULT (set_gate X86GATE_INTERRUPT 0 (h_pagefault h))"
  have len: "i < length base" using assms by (simp add: base_def)
  have "interrupt_table h = foldl (\<lambda>t i. t[i := set_gate X86GATE_INTERRUPT 3 (sys_int_handlers h (i - INT_SYS))])
      base [INT_SYS..<INT_SYS + 32]"
    by (simp only: interrupt_table_def Let_def base_def)
  then have "interrupt_table h ! i = (if INT_SYS \<le> i \<and> i < INT_SYS + 32
      then set_gate X86GATE_INTERRUPT 3 (sys_int_handlers h (i - INT_SYS)) else base ! i)"
    using nth_foldl_update [THEN conjunct2, rule_format, OF len] by (simp only:)
  then show ?thesis using assms by (simp add: int_consts base_def nth_list_update t)
qed

lemma no_gate: "\<not> gate_present \<lparr>gd_low = 0, gd_high = 0\<rparr>"
  by (simp add: gate_present_def)

section \<open>Key codes\<close>

definition keyboard_ok :: "keyboard \<Rightarrow> bool" where
  "keyboard_ok k \<longleftrightarrow> modifiers k AND 0xC0 = 0 \<and> (last_escape k = 0 \<or> last_escape k = 0x80)"

definition key_code_ok :: "nat \<Rightarrow> bool" where
  "key_code_ok n \<longleftrightarrow> n \<le> 149 \<or> (192 \<le> n \<and> n \<le> 201) \<or> (250 \<le> n \<and> n \<le> 255)"

lemma keymap_ok: "length keymap = 256 \<and> list_all key_code_ok keymap"
  unfolding keymap_def key_code_ok_def by simp

lemma complex_keymap_ok: "length complex_keymap = 22 \<and> list_all (\<lambda>m. length m = 4 \<and> list_all (\<lambda>c. c < 128) m) complex_keymap"
  unfolding complex_keymap_def by simp

lemma keymap_range: "key_code_ok (keymap ! unat (w :: byte))"
proof -
  have "unat w < 256" using unsigned_less [of w] by simp
  then show ?thesis using keymap_ok by (simp add: list_all_length)
qed

lemma complex_range:
  assumes "128 \<le> n" and "n \<le> 149"
  shows "complex_keymap ! (n - 128) ! unat (m AND 3 :: byte) < 128"
proof -
  have "m AND 3 \<le> 3" by (rule word_and_le1)
  then have "unat (m AND 3) < 4" by (simp add: word_le_nat_alt)
  moreover have "n - 128 < 22" using assms by simp
  ultimately show ?thesis using complex_keymap_ok by (simp add: list_all_length)
qed

lemma modifier_bits:
  assumes "m AND 0xC0 = (0 :: byte)" and "k < 6"
  shows "(m AND NOT (push_bit k 1)) AND 0xC0 = 0 \<and> (m XOR push_bit k 1) AND 0xC0 = 0 \<and> (m OR push_bit k 1) AND 0xC0 = 0"
proof -
  have "push_bit k (1 :: byte) AND 0xC0 = 0"
    using assms(2) by (auto simp: less_Suc_eq numeral_eq_Suc)
  moreover have "(m AND NOT (push_bit k 1)) AND 0xC0 = (m AND 0xC0) AND NOT (push_bit k 1)"
    by (metis and.assoc and.commute)
  ultimately show ?thesis using assms(1) by (simp add: bit.conj_disj_distrib2 bit.conj_xor_distrib2)
qed

lemma keyboard_decode_range:
  assumes "keyboard_ok k" and "keyboard_decode data k = (ch, k')"
  shows "keyboard_ok k' \<and> ((0 \<le> ch \<and> ch < 128) \<or> (192 \<le> ch \<and> ch \<le> 201))"
proof -
  define n where "n = keymap ! unat (data OR last_escape k)"
  define r where "r = keymap ! unat ((data AND 0x7F) OR last_escape k)"
  have range: "key_code_ok n" "key_code_ok r" unfolding n_def r_def by (rule keymap_range)+
  have k: "modifiers k AND 0xC0 = 0" using assms(1) by (simp add: keyboard_ok_def)
  note mods = modifier_bits [OF k]
  note d = assms(2) [unfolded keyboard_decode_def Let_def key_consts keyboard.simps, folded n_def r_def]
  show ?thesis
  proof (cases "data = 0xE0 \<or> data AND 0x80 \<noteq> 0")
    case True
    then show ?thesis using d k mods [of "nat (int r - 250)"] by (auto simp: keyboard_ok_def split: if_splits)
  next
    case False
    have "128 \<le> n \<Longrightarrow> n \<le> 149 \<Longrightarrow> complex_keymap ! (n - 128) ! unat (modifiers k AND 3) < 128" by (rule complex_range)
    then show ?thesis
      using d False k range(1) mods [of "nat (int n - 250)"]
      by (auto simp: keyboard_ok_def key_code_ok_def nat_diff_distrib split: if_splits)
  qed
qed


section \<open>Properties\<close>

text \<open>
  The interrupt descriptor table as the processor decodes it: applications (privilege level 3)
  can raise the 32 system call vectors from 48 on and no other vector; the timer, the general
  protection fault and the page fault have their own handlers, the other vectors from 16 on the
  default one, and the remaining exceptions none; every handler runs in the kernel's code segment.
\<close>

theorem interrupt_table_gates:
  assumes "i < 256" and "g = interrupt_table h ! i"
  shows "(gate_present g \<longleftrightarrow> 16 \<le> i \<or> i = 13 \<or> i = 14) \<and>
    (gate_present g \<longrightarrow> gate_selector g = SEGSEL_KERN_CODE \<and>
       gate_dpl g = (if 48 \<le> i \<and> i < 80 then 3 else 0) \<and>
       gate_handler g = (if 48 \<le> i \<and> i < 80 then sys_int_handlers h (i - 48)
         else if i = 32 then h_timer h else if i = 13 then h_gpf h else if i = 14 then h_pagefault h
         else h_default h))"
  using assms interrupt_table_nth [OF assms(1), of h] by (auto simp: set_gate_read no_gate)

definition sample_handlers :: handlers where
  "sample_handlers = \<lparr>sys_int_handlers = \<lambda>n. 0x40000 + of_nat n, h_default = 1, h_gpf = 2, h_pagefault = 3, h_timer = 4\<rparr>"

theorem interrupt_table_gates_witness:
  "gate_dpl (interrupt_table sample_handlers ! 50) = 3 \<and>
   gate_handler (interrupt_table sample_handlers ! 50) = 0x40002 \<and> gate_dpl (interrupt_table sample_handlers ! 32) = 0"
  using interrupt_table_gates [of 50 _ sample_handlers, OF _ refl] interrupt_table_gates [of 32 _ sample_handlers, OF _ refl]
  by (simp add: sample_handlers_def)

lemma interrupt_gate:
  assumes "n < 256" and "g = interrupt_table h ! n"
  shows "gate_present g \<longleftrightarrow> 16 \<le> n \<or> n = 13 \<or> n = 14"
    and "gate_present g \<Longrightarrow> gate_selector g = SEGSEL_KERN_CODE"
    and "gate_present g \<Longrightarrow> gate_dpl g = (if 48 \<le> n \<and> n < 80 then 3 else 0)"
    and "gate_present g \<Longrightarrow> gate_handler g = (if 48 \<le> n \<and> n < 80 then sys_int_handlers h (n - 48)
         else if n = 32 then h_timer h else if n = 13 then h_gpf h else if n = 14 then h_pagefault h
         else h_default h)"
  using interrupt_table_gates [OF assms] by simp_all

lemma kernel_code_segment:
  "seg_code64 (segments_table tss ! 1)" "seg_dpl (segments_table tss ! 1) = 0"
  "seg_code64 (segments_table tss ! 2)" "seg_dpl (segments_table tss ! 2) = 3"
  by (simp_all add: segments_table_def set_sys_segment_def set_app_segment_def segment_consts seg_code64_def seg_dpl_def bit_simps)


definition sample_tables :: table_addresses where
  "sample_tables = handlers.extend sample_handlers
     \<lparr>segments_addr = 0x50000, interrupt_descriptors_addr = 0x51000, kernel_task_descriptor_addr = 0x52000\<rparr>"




text \<open>
  A letter typed with the left shift key held: pressing shift, pressing the letter and
  releasing shift yields only the letter, in upper case unless caps lock is on, and leaves the
  modifiers as they were.
\<close>

theorem keyboard_shift_letter:
  assumes "last_escape k = 0" and "modifiers k AND 0x07 = 0" and "d AND 0x80 = 0"
    and "keymap ! unat d = c" and "97 \<le> c" and "c \<le> 122"
  shows "\<exists>k1. keyboard_decode 0x2A k = (0, k1) \<and>
    keyboard_decode d k1 = (if modifiers k AND MOD_CAPSLOCK = 0 then int c - 32 else int c, k1) \<and>
    keyboard_decode 0xAA k1 = (0, k)"
proof -
  have km: "keymap ! 42 = 250" by (simp add: keymap_def)
  define k1 where "k1 = k\<lparr>modifiers := modifiers k OR 1\<rparr>"
  have z: "modifiers k AND 2 = 0" "modifiers k AND 1 = 0"
    using and_submask [OF assms(2), of 2] and_submask [OF assms(2), of 1] by simp_all
  have "modifiers k AND (1 OR NOT 1) = modifiers k" by simp
  then have n: "modifiers k AND NOT 1 = modifiers k" by (simp only: bit.conj_disj_distrib z or.left_neutral)
  have m: "(modifiers k OR 1) AND 2 = 0" "(modifiers k OR 1) AND 1 \<noteq> 0"
      "(modifiers k OR 1) AND 8 = modifiers k AND 8" "(modifiers k OR 1) AND NOT 1 = modifiers k"
    using n by (simp_all add: bit.conj_disj_distrib2 z)
  have 1: "keyboard_decode 0x2A k = (0, k1)"
    using assms(1) km by (simp add: keyboard_decode_def k1_def key_consts)
  have "d \<noteq> 0xE0" using assms(3) by auto
  have 2: "keyboard_decode d k1 = (if modifiers k AND MOD_CAPSLOCK = 0 then int c - 32 else int c, k1)"
    using assms m \<open>d \<noteq> 0xE0\<close> by (cases k) (simp add: keyboard_decode_def k1_def key_consts Let_def)
  have 3: "keyboard_decode 0xAA k1 = (0, k)"
    using assms(1) km m(4) by (simp add: keyboard_decode_def k1_def key_consts)
  from 1 2 3 show ?thesis by blast
qed

theorem keyboard_shift_letter_witness:
  "\<exists>k1. keyboard_decode 0x2A \<lparr>modifiers = 0, last_escape = 0\<rparr> = (0, k1) \<and> keyboard_decode 0x1E k1 = (65, k1)"
  using keyboard_shift_letter [of "\<lparr>modifiers = 0, last_escape = 0\<rparr>" "0x1E" 97] by (auto simp: keymap_def)

end
