(* ===== verification/Physical_Memory.thy ===== *)
theory Physical_Memory
  imports C_Library
begin

unbundle bit_operations_syntax

text \<open>
  Physical memory: the page size constants of \<^verbatim>\<open>lib/x86-64.h\<close> and \<^verbatim>\<open>kernel/kernel.h\<close>, the \<open>pageinfo[]\<close>
  array of \<^verbatim>\<open>kernel/kernel.c\<close> with its initialisation, the page allocator, the assignment of a given
  page, and the release of a process's pages in \<open>process_kill\<close>. A failed assertion of the
  kernel (\<open>assert_fail\<close>, which never returns) is the result \<open>None\<close>.
\<close>

section \<open>Pages\<close>

definition PAGESIZE :: nat where "PAGESIZE = 4096"
definition MEMSIZE_PHYSICAL :: addr where "MEMSIZE_PHYSICAL = 0x200000"
definition NPAGES :: nat where "NPAGES = 512"
definition NPAGETABLEENTRIES :: nat where "NPAGETABLEENTRIES = 512"
definition KERNEL_START_ADDR :: addr where "KERNEL_START_ADDR = 0x40000"
definition KERNEL_STACK_TOP :: addr where "KERNEL_STACK_TOP = 0xA0000"
definition IOPHYSMEM :: addr where "IOPHYSMEM = 0xA0000"
definition EXTPHYSMEM :: addr where "EXTPHYSMEM = 0x100000"

lemmas page_consts = PAGESIZE_def MEMSIZE_PHYSICAL_def NPAGES_def NPAGETABLEENTRIES_def
  KERNEL_START_ADDR_def KERNEL_STACK_TOP_def IOPHYSMEM_def EXTPHYSMEM_def

definition PAGENUMBER :: "addr \<Rightarrow> uint32" where
  "PAGENUMBER a = ucast (drop_bit 12 a)"

definition PAGEADDRESS :: "nat \<Rightarrow> addr" where
  "PAGEADDRESS pn = push_bit 12 (of_nat pn)"

definition PAGEOFFSET :: "addr \<Rightarrow> addr" where
  "PAGEOFFSET a = a AND 0xFFF"

section \<open>Page information\<close>

definition PO_FREE :: byte where "PO_FREE = 0"
definition PO_RESERVED :: byte where "PO_RESERVED = - 1"
definition PO_KERNEL :: byte where "PO_KERNEL = - 2"
definition PO_KERNEL_HEAP :: byte where "PO_KERNEL_HEAP = - 3"

lemmas owner_consts = PO_FREE_def PO_RESERVED_def PO_KERNEL_def PO_KERNEL_HEAP_def

record physical_pageinfo =
  owner :: byte
  refcount :: byte

text \<open>
  The state of physical memory: its bytes, the array \<open>pageinfo\<close>, and the static variable
  \<open>pageno\<close> of \<open>page_alloc\<close>.
\<close>

record phys =
  p_mem :: mem
  pageinfo :: "physical_pageinfo list"
  pageno :: nat

definition physical_memory_isreserved :: "addr \<Rightarrow> bool" where
  "physical_memory_isreserved pa \<longleftrightarrow> pa = 0 \<or> (pa \<ge> IOPHYSMEM \<and> pa < EXTPHYSMEM)"

text \<open>\<open>end\<close> is the address after the kernel's data, which the linker provides.\<close>

definition initial_owner :: "addr \<Rightarrow> addr \<Rightarrow> byte" where
  "initial_owner kend a =
     (if physical_memory_isreserved a then PO_RESERVED
      else if (a \<ge> KERNEL_START_ADDR \<and> a < kend) \<or> a = KERNEL_STACK_TOP - of_nat PAGESIZE
      then PO_KERNEL else PO_FREE)"

primrec pageinfo_init_loop :: "nat \<Rightarrow> addr \<Rightarrow> addr \<Rightarrow> phys \<Rightarrow> phys" where
  "pageinfo_init_loop 0 kend a st = st"
| "pageinfo_init_loop (Suc n) kend a st =
     (if a < MEMSIZE_PHYSICAL
      then let w = initial_owner kend a;
               pi = \<lparr>owner = w, refcount = of_bool (w \<noteq> PO_FREE)\<rparr>
           in pageinfo_init_loop n kend (a + of_nat PAGESIZE)
                (st\<lparr>pageinfo := (pageinfo st)[unat (PAGENUMBER a) := pi]\<rparr>)
      else st)"

text \<open>The loop runs over the \<open>NPAGES\<close> page addresses below \<open>MEMSIZE_PHYSICAL\<close>.\<close>

definition pageinfo_init :: "addr \<Rightarrow> phys \<Rightarrow> phys" where
  "pageinfo_init kend st = pageinfo_init_loop (Suc NPAGES) kend 0 st"

primrec page_alloc_loop :: "nat \<Rightarrow> byte \<Rightarrow> phys \<Rightarrow> addr \<times> phys" where
  "page_alloc_loop 0 w st = (0, st)"
| "page_alloc_loop (Suc tries) w st =
     (let pn = pageno st; pi = pageinfo st ! pn
      in if owner pi = PO_FREE
         then (PAGEADDRESS pn,
               st\<lparr>pageinfo := (pageinfo st)[pn := \<lparr>owner = w, refcount = refcount pi + 1\<rparr>],
                  p_mem := memset (PAGEADDRESS pn) 0 PAGESIZE (p_mem st)\<rparr>)
         else page_alloc_loop tries w (st\<lparr>pageno := (pn + 1) mod NPAGES\<rparr>))"

text \<open>The owner is an \<open>int\<close> that is truncated to the \<open>int8_t\<close> field.\<close>

definition page_alloc :: "uint32 \<Rightarrow> phys \<Rightarrow> addr \<times> phys" where
  "page_alloc w st = page_alloc_loop NPAGES (ucast w) st"

definition assign_physical_page :: "addr \<Rightarrow> byte \<Rightarrow> phys \<Rightarrow> int \<times> phys" where
  "assign_physical_page a w st =
     (let pn = unat (PAGENUMBER a)
      in if a AND 0xFFF \<noteq> 0 \<or> a \<ge> MEMSIZE_PHYSICAL \<or> refcount (pageinfo st ! pn) \<noteq> 0
         then (- 1, st)
         else (0, st\<lparr>pageinfo := (pageinfo st)[pn := \<lparr>owner = w, refcount = 1\<rparr>],
                     p_mem := memset (PAGEADDRESS pn) 0 PAGESIZE (p_mem st)\<rparr>))"

text \<open>The loop of \<open>process_kill\<close> that releases the pages of a process.\<close>

primrec free_pages_loop :: "nat \<Rightarrow> uint32 \<Rightarrow> phys \<Rightarrow> phys option" where
  "free_pages_loop 0 pid st = Some st"
| "free_pages_loop (Suc n) pid st =
     Option.bind (free_pages_loop n pid st) (\<lambda>st.
       if scast (owner (pageinfo st ! n)) = pid
       then if refcount (pageinfo st ! n) = 1
            then Some (st\<lparr>pageinfo := (pageinfo st)[n := \<lparr>owner = PO_FREE, refcount = 0\<rparr>]\<rparr>)
            else None
       else Some st)"

definition free_pages :: "uint32 \<Rightarrow> phys \<Rightarrow> phys option" where
  "free_pages pid st = free_pages_loop NPAGETABLEENTRIES pid st"

section \<open>Page addresses\<close>

definition page_aligned :: "addr \<Rightarrow> bool" where
  "page_aligned a \<longleftrightarrow> a AND 0xFFF = 0"

lemma unat_PAGEADDRESS: "pn < NPAGES \<Longrightarrow> unat (PAGEADDRESS pn) = pn * 4096"
  by (simp add: PAGEADDRESS_def NPAGES_def push_bit_eq_mult unat_word_ariths unat_of_nat)

lemma page_aligned_unat: "page_aligned a \<longleftrightarrow> unat a mod 4096 = 0"
proof -
  have "(0xFFF :: addr) = mask 12" by (simp add: mask_eq_decr_exp)
  then have "a AND 0xFFF = take_bit 12 a" by (simp only: take_bit_eq_mask)
  then have "unat (a AND 0xFFF) = unat a mod 4096"
    by (simp add: unsigned_take_bit_eq) (simp add: take_bit_eq_mod)
  then show ?thesis
    unfolding page_aligned_def by (metis unat_eq_zero)
qed

lemma page_aligned_PAGEADDRESS [simp]: "pn < NPAGES \<Longrightarrow> page_aligned (PAGEADDRESS pn)"
  by (simp add: page_aligned_unat unat_PAGEADDRESS)

lemma PAGEADDRESS_less: "pn < NPAGES \<Longrightarrow> PAGEADDRESS pn < MEMSIZE_PHYSICAL"
  by (simp add: word_less_nat_alt unat_PAGEADDRESS MEMSIZE_PHYSICAL_def) (simp add: NPAGES_def)

lemma PAGEADDRESS_eq_iff:
  "pn < NPAGES \<Longrightarrow> pn' < NPAGES \<Longrightarrow> PAGEADDRESS pn = PAGEADDRESS pn' \<longleftrightarrow> pn = pn'"
  by (metis unat_PAGEADDRESS mult_cancel2 zero_neq_numeral)

lemma PAGEADDRESS_eq_0_iff: "pn < NPAGES \<Longrightarrow> PAGEADDRESS pn = 0 \<longleftrightarrow> pn = 0"
  using PAGEADDRESS_eq_iff [of pn 0] by (simp add: PAGEADDRESS_def NPAGES_def)

lemma unat_PAGENUMBER: "a < MEMSIZE_PHYSICAL \<Longrightarrow> unat (PAGENUMBER a) = unat a div 4096"
proof -
  assume "a < MEMSIZE_PHYSICAL"
  then have "unat a < 0x200000" by (simp add: MEMSIZE_PHYSICAL_def word_less_nat_alt)
  then have "unat a div 4096 < 512" by simp
  then show ?thesis
    by (simp add: PAGENUMBER_def unsigned_ucast_eq drop_bit_eq_div unat_div take_bit_nat_eq_self)
qed

lemma PAGEADDRESS_PAGENUMBER:
  "page_aligned a \<Longrightarrow> a < MEMSIZE_PHYSICAL \<Longrightarrow> PAGEADDRESS (unat (PAGENUMBER a)) = a"
proof -
  assume a: "page_aligned a" "a < MEMSIZE_PHYSICAL"
  then have "unat (PAGENUMBER a) < NPAGES"
    by (simp add: unat_PAGENUMBER MEMSIZE_PHYSICAL_def word_less_nat_alt NPAGES_def)
  then show ?thesis
    using a by (intro word_unat_eq_iff [THEN iffD2])
      (simp add: unat_PAGEADDRESS unat_PAGENUMBER page_aligned_unat mod_eq_0_iff_dvd)
qed


section \<open>The invariant\<close>

text \<open>
  A page is free exactly when its reference count is 0, every other page has count 1, and page
  0 is never free, so that a null pointer is never the address of an allocated page.
\<close>

definition page_ok :: "physical_pageinfo \<Rightarrow> bool" where
  "page_ok pi \<longleftrightarrow> (if owner pi = PO_FREE then refcount pi = 0 else refcount pi = 1)"

definition phys_ok :: "phys \<Rightarrow> bool" where
  "phys_ok st \<longleftrightarrow> length (pageinfo st) = NPAGES \<and> pageno st < NPAGES \<and>
     list_all page_ok (pageinfo st) \<and> owner (pageinfo st ! 0) \<noteq> PO_FREE"

definition free_page :: "phys \<Rightarrow> nat \<Rightarrow> bool" where
  "free_page st pn \<longleftrightarrow> pn < NPAGES \<and> owner (pageinfo st ! pn) = PO_FREE"

lemma phys_ok_page_ok: "phys_ok st \<Longrightarrow> pn < NPAGES \<Longrightarrow> page_ok (pageinfo st ! pn)"
  by (simp add: phys_ok_def list_all_length)

lemma phys_ok_update:
  assumes "phys_ok st" and "page_ok pi" and "pn = 0 \<Longrightarrow> owner pi \<noteq> PO_FREE"
  shows "phys_ok (st\<lparr>pageinfo := (pageinfo st)[pn := pi]\<rparr>)"
proof -
  have nth: "(pageinfo st)[pn := pi] ! n = (if n = pn then pi else pageinfo st ! n)" if "n < NPAGES" for n
    using assms(1) that by (simp add: phys_ok_def)
  moreover have "0 < NPAGES" by (simp add: NPAGES_def)
  ultimately show ?thesis using assms by (auto simp: phys_ok_def list_all_length nth)
qed

lemma phys_ok_p_mem [simp]: "phys_ok (st\<lparr>p_mem := m\<rparr>) = phys_ok st"
  by (simp add: phys_ok_def)

text \<open>The round-robin search visits every page once before it gives up.\<close>

lemma page_alloc_loop_spec:
  assumes "pageno st < NPAGES" and "tries \<le> NPAGES"
  shows "case page_alloc_loop tries w st of (a, st') \<Rightarrow>
     (\<exists>k<tries. let pn = (pageno st + k) mod NPAGES in
        owner (pageinfo st ! pn) = PO_FREE \<and> a = PAGEADDRESS pn \<and>
        st' = st\<lparr>pageno := pn,
                 pageinfo := (pageinfo st)[pn := \<lparr>owner = w, refcount = refcount (pageinfo st ! pn) + 1\<rparr>],
                 p_mem := memset (PAGEADDRESS pn) 0 PAGESIZE (p_mem st)\<rparr>) \<or>
     (\<forall>k<tries. owner (pageinfo st ! ((pageno st + k) mod NPAGES)) \<noteq> PO_FREE) \<and>
       a = 0 \<and> st' = st\<lparr>pageno := (pageno st + tries) mod NPAGES\<rparr>"
  using assms
proof (induction tries arbitrary: st)
  case 0
  then show ?case by simp
next
  case (Suc tries)
  show ?case
  proof (cases "owner (pageinfo st ! pageno st) = PO_FREE")
    case True
    then show ?thesis using Suc.prems by (auto simp: Let_def)
  next
    case False
    let ?st = "st\<lparr>pageno := (pageno st + 1) mod NPAGES\<rparr>"
    have shift: "(Suc (pageno st) mod NPAGES + k) mod NPAGES = Suc (pageno st + k) mod NPAGES" for k
      by (simp add: mod_add_left_eq)
    have "0 < NPAGES" by (simp add: NPAGES_def)
    then have IH: "case page_alloc_loop tries w ?st of (a, st') \<Rightarrow>
     (\<exists>k<tries. let pn = (pageno st + Suc k) mod NPAGES in
        owner (pageinfo st ! pn) = PO_FREE \<and> a = PAGEADDRESS pn \<and>
        st' = st\<lparr>pageno := pn,
                 pageinfo := (pageinfo st)[pn := \<lparr>owner = w, refcount = refcount (pageinfo st ! pn) + 1\<rparr>],
                 p_mem := memset (PAGEADDRESS pn) 0 PAGESIZE (p_mem st)\<rparr>) \<or>
     (\<forall>k<tries. owner (pageinfo st ! ((pageno st + Suc k) mod NPAGES)) \<noteq> PO_FREE) \<and>
       a = 0 \<and> st' = st\<lparr>pageno := (pageno st + Suc tries) mod NPAGES\<rparr>"
      using Suc.IH [of ?st] Suc.prems by (simp add: shift)
    moreover have "page_alloc_loop (Suc tries) w st = page_alloc_loop tries w ?st"
      using False by (simp add: Let_def)
    moreover have "(\<forall>k<Suc tries. P k) \<longleftrightarrow> P 0 \<and> (\<forall>k<tries. P (Suc k))"
      and "(\<exists>k<Suc tries. P k) \<longleftrightarrow> P 0 \<or> (\<exists>k<tries. P (Suc k))" for P
      by (auto simp: less_Suc_eq_0_disj)
    moreover have "pageno st mod NPAGES = pageno st" using Suc.prems by simp
    ultimately show ?thesis using False by (auto simp: Let_def split: prod.splits)
  qed
qed

lemma round_robin_covers:
  assumes "p < NPAGES" and "pn < NPAGES"
  shows "\<exists>k<NPAGES. (p + k) mod NPAGES = pn"
proof (cases "p \<le> pn")
  case True
  then show ?thesis using assms by (intro exI [of _ "pn - p"]) simp
next
  case False
  then have "(p + (NPAGES + pn - p)) mod NPAGES = pn" using assms by simp
  then show ?thesis using assms False by (intro exI [of _ "NPAGES + pn - p"]) simp
qed

lemma page_alloc_cases:
  assumes "phys_ok st"
  obtains pn where "free_page st pn" and "page_alloc w st = (PAGEADDRESS pn,
      st\<lparr>pageno := pn, pageinfo := (pageinfo st)[pn := \<lparr>owner = ucast w, refcount = 1\<rparr>],
         p_mem := memset (PAGEADDRESS pn) 0 PAGESIZE (p_mem st)\<rparr>)"
  | "\<forall>pn. \<not> free_page st pn" and "page_alloc w st = (0, st)"
proof (cases "\<exists>pn. free_page st pn")
  case True
  then obtain pn where pn: "free_page st pn" by blast
  have p: "pageno st < NPAGES" using assms by (simp add: phys_ok_def)
  then obtain k where "k < NPAGES" "(pageno st + k) mod NPAGES = pn"
    using round_robin_covers pn unfolding free_page_def by blast
  then have "\<not> (\<forall>k<NPAGES. owner (pageinfo st ! ((pageno st + k) mod NPAGES)) \<noteq> PO_FREE)"
    using pn by (auto simp: free_page_def)
  then obtain q where q: "owner (pageinfo st ! q) = PO_FREE" "q < NPAGES"
      "page_alloc w st = (PAGEADDRESS q, st\<lparr>pageno := q,
         pageinfo := (pageinfo st)[q := \<lparr>owner = ucast w, refcount = refcount (pageinfo st ! q) + 1\<rparr>],
         p_mem := memset (PAGEADDRESS q) 0 PAGESIZE (p_mem st)\<rparr>)"
    using page_alloc_loop_spec [OF p, of NPAGES "ucast w"]
    by (auto simp: page_alloc_def Let_def NPAGES_def)
  moreover have "refcount (pageinfo st ! q) = 0"
    using phys_ok_page_ok [OF assms q(2)] q(1) by (simp add: page_ok_def)
  ultimately show thesis using that(1) [of q] by (simp add: free_page_def)
next
  case False
  have p: "pageno st < NPAGES" using assms by (simp add: phys_ok_def)
  have "(pageno st + k) mod NPAGES < NPAGES" for k by (simp add: NPAGES_def)
  then have "\<forall>k. owner (pageinfo st ! ((pageno st + k) mod NPAGES)) \<noteq> PO_FREE"
    using False by (auto simp: free_page_def)
  then have "page_alloc w st = (0, st)"
    using page_alloc_loop_spec [OF p, of NPAGES "ucast w"] p
    by (auto simp: page_alloc_def Let_def)
  then show thesis using that(2) False by blast
qed


lemma phys_ok_page_alloc:
  assumes "phys_ok st" and "ucast w \<noteq> PO_FREE"
  shows "phys_ok (snd (page_alloc w st))"
proof (rule page_alloc_cases [OF assms(1), of w])
  fix pn
  assume pn: "free_page st pn" and "page_alloc w st = (PAGEADDRESS pn,
      st\<lparr>pageno := pn, pageinfo := (pageinfo st)[pn := \<lparr>owner = ucast w, refcount = 1\<rparr>],
         p_mem := memset (PAGEADDRESS pn) 0 PAGESIZE (p_mem st)\<rparr>)"
  moreover have "phys_ok (st\<lparr>pageno := pn\<rparr>)" using assms pn by (simp add: phys_ok_def free_page_def)
  then have "phys_ok ((st\<lparr>pageno := pn\<rparr>)
      \<lparr>pageinfo := (pageinfo (st\<lparr>pageno := pn\<rparr>))[pn := \<lparr>owner = ucast w, refcount = 1\<rparr>]\<rparr>)"
    using assms(2) by (intro phys_ok_update) (simp_all add: page_ok_def)
  ultimately show ?thesis by simp
qed (use assms in simp)

lemma phys_ok_assign_physical_page:
  assumes "phys_ok st" and "w \<noteq> PO_FREE"
  shows "phys_ok (snd (assign_physical_page a w st))"
  using assms phys_ok_update [of st "\<lparr>owner = w, refcount = 1\<rparr>" "unat (PAGENUMBER a)"]
  by (simp add: assign_physical_page_def Let_def page_ok_def)

text \<open>Releasing the pages of process \<open>pid\<close>: on a consistent array the assertion never fails.\<close>

definition release :: "uint32 \<Rightarrow> physical_pageinfo \<Rightarrow> physical_pageinfo" where
  "release pid pi = (if scast (owner pi) = pid then \<lparr>owner = PO_FREE, refcount = 0\<rparr> else pi)"

lemma release_id: "scast (owner pi) \<noteq> pid \<Longrightarrow> release pid pi = pi"
  by (simp add: release_def)

lemma release_own: "scast (owner pi) = pid \<Longrightarrow> release pid pi = \<lparr>owner = PO_FREE, refcount = 0\<rparr>"
  by (simp add: release_def)

lemma free_pages_loop_spec:
  assumes "phys_ok st" and "pid \<noteq> 0" and "n \<le> NPAGES"
  shows "free_pages_loop n pid st =
    Some (st\<lparr>pageinfo := map (release pid) (take n (pageinfo st)) @ drop n (pageinfo st)\<rparr>)"
  using assms(3)
proof (induction n)
  case 0
  then show ?case by simp
next
  case (Suc n)
  let ?pi = "pageinfo st ! n"
  have n: "n < length (pageinfo st)" using assms Suc.prems by (simp add: phys_ok_def)
  have r: "refcount ?pi = 1" if "scast (owner ?pi) = pid"
  proof -
    have "owner ?pi \<noteq> PO_FREE" using that assms(2) by (auto simp: PO_FREE_def)
    then show ?thesis using phys_ok_page_ok [OF assms(1)] Suc.prems by (simp add: page_ok_def)
  qed
  have nth: "(map (release pid) (take n (pageinfo st)) @ drop n (pageinfo st)) ! n = ?pi"
    using n by (simp add: nth_append)
  have upd: "(map (release pid) (take n (pageinfo st)) @ drop n (pageinfo st))[n := v]
      = map (release pid) (take n (pageinfo st)) @ v # drop (Suc n) (pageinfo st)" for v
    using n by (simp add: list_update_append Cons_nth_drop_Suc [symmetric])
  show ?case
  proof (cases "scast (owner ?pi) = pid")
    case True
    then show ?thesis using Suc n r nth upd by (simp add: take_Suc_conv_app_nth release_own)
  next
    case False
    then show ?thesis using Suc n nth
      by (simp add: take_Suc_conv_app_nth release_id Cons_nth_drop_Suc)
  qed
qed

lemma free_pages_spec:
  assumes "phys_ok st" and "pid \<noteq> 0"
  shows "free_pages pid st = Some (st\<lparr>pageinfo := map (release pid) (pageinfo st)\<rparr>)"
  using free_pages_loop_spec [OF assms, of NPAGES] assms(1)
  by (simp add: free_pages_def NPAGES_def NPAGETABLEENTRIES_def phys_ok_def)

lemma phys_ok_free_pages:
  assumes "phys_ok st" and "pid \<noteq> 0" and "scast (owner (pageinfo st ! 0)) \<noteq> pid"
  shows "phys_ok (the (free_pages pid st))"
proof -
  have "0 < NPAGES" by (simp add: NPAGES_def)
  then show ?thesis using assms
    by (auto simp: free_pages_spec phys_ok_def list_all_length page_ok_def release_def)
qed

subsection \<open>Initialisation\<close>

definition initial_pageinfo :: "addr \<Rightarrow> nat \<Rightarrow> physical_pageinfo" where
  "initial_pageinfo kend pn = (let w = initial_owner kend (PAGEADDRESS pn)
     in \<lparr>owner = w, refcount = of_bool (w \<noteq> PO_FREE)\<rparr>)"

lemma pageinfo_init_loop_spec:
  assumes "length (pageinfo st) = NPAGES" and "pn + n = Suc NPAGES"
  shows "pageinfo_init_loop n kend (PAGEADDRESS pn) st =
    st\<lparr>pageinfo := take pn (pageinfo st) @ map (initial_pageinfo kend) [pn..<NPAGES]\<rparr>"
  using assms
proof (induction n arbitrary: pn st)
  case 0
  then show ?case by simp
next
  case (Suc n)
  show ?case
  proof (cases "pn < NPAGES")
    case True
    let ?a = "PAGEADDRESS pn"
    have next_a: "?a + 4096 = PAGEADDRESS (Suc pn)"
      by (simp add: PAGEADDRESS_def push_bit_eq_mult algebra_simps)
    have num: "unat (PAGENUMBER ?a) = pn"
      using True by (simp add: unat_PAGENUMBER PAGEADDRESS_less unat_PAGEADDRESS)
    have split: "[pn..<NPAGES] = pn # [Suc pn..<NPAGES]" using True by (simp add: upt_conv_Cons)
    show ?thesis
      using Suc.IH [of "st\<lparr>pageinfo := (pageinfo st)[pn := initial_pageinfo kend pn]\<rparr>" "Suc pn"]
        Suc.prems True
      by (simp add: PAGEADDRESS_less next_a num split Let_def initial_pageinfo_def PAGESIZE_def
          take_Suc_conv_app_nth)
  next
    case False
    then have "pn = NPAGES" "n = 0" using Suc.prems by simp_all
    moreover have "\<not> PAGEADDRESS NPAGES < MEMSIZE_PHYSICAL"
      by (simp add: PAGEADDRESS_def NPAGES_def MEMSIZE_PHYSICAL_def push_bit_eq_mult)
    ultimately show ?thesis using Suc.prems by simp
  qed
qed


lemma pageinfo_init_spec:
  assumes "length (pageinfo st) = NPAGES"
  shows "pageinfo_init kend st = st\<lparr>pageinfo := map (initial_pageinfo kend) [0..<NPAGES]\<rparr>"
proof -
  have "PAGEADDRESS 0 = 0" by (simp add: PAGEADDRESS_def)
  then show ?thesis
    using pageinfo_init_loop_spec [OF assms, of 0 "Suc NPAGES" kend] by (simp add: pageinfo_init_def)
qed

section \<open>The interface of the page allocator\<close>

text \<open>
  What the users of the allocator rely on: an allocated page is aligned, exists, was not in
  use and is from then on, and no other memory changes; a failed allocation changes nothing.
  The laws are discharged for \<open>page_alloc\<close> with every owner that is not \<open>PO_FREE\<close>.
\<close>

locale page_source =
  fixes alloc :: "uint32 \<Rightarrow> phys \<Rightarrow> addr \<times> phys"
    and inv :: "phys \<Rightarrow> bool"
    and used :: "phys \<Rightarrow> addr set"
    and valid :: "uint32 \<Rightarrow> bool"
  assumes alloc_inv: "inv st \<Longrightarrow> valid w \<Longrightarrow> inv (snd (alloc w st))"
    and alloc_fresh: "inv st \<Longrightarrow> valid w \<Longrightarrow> alloc w st = (a, st') \<Longrightarrow> a \<noteq> 0 \<Longrightarrow>
      page_aligned a \<and> a < MEMSIZE_PHYSICAL \<and> a \<notin> used st \<and> used st' = insert a (used st)"
    and alloc_frame: "inv st \<Longrightarrow> valid w \<Longrightarrow> alloc w st = (a, st') \<Longrightarrow> a \<noteq> 0 \<Longrightarrow>
      x \<notin> rgn a PAGESIZE \<Longrightarrow> p_mem st' x = p_mem st x"
    and alloc_none: "inv st \<Longrightarrow> valid w \<Longrightarrow> alloc w st = (0, st') \<Longrightarrow> st' = st"
    and inv_mem: "inv (st\<lparr>p_mem := m\<rparr>) = inv st"
    and used_mem: "used (st\<lparr>p_mem := m\<rparr>) = used st"

definition used_pages :: "phys \<Rightarrow> addr set" where
  "used_pages st = PAGEADDRESS ` {pn. pn < NPAGES \<and> \<not> free_page st pn}"

lemma memset_outside:
  "x \<notin> rgn a n \<Longrightarrow> n \<le> 2 ^ 64 \<Longrightarrow> memset a c n m x = m x"
  by (simp add: memset_eq_store store_bytes_apply)

lemma load_memset: "n \<le> 2 ^ 64 \<Longrightarrow> load_bytes (memset a c n m) a n = replicate n (ucast c)"
  using load_store_bytes [of "replicate n (ucast c)" a m] by (simp add: memset_eq_store)

lemma used_pages_update:
  assumes "length (pageinfo st) = NPAGES" and "pn < NPAGES" and "owner pi \<noteq> PO_FREE"
  shows "used_pages (st\<lparr>pageinfo := (pageinfo st)[pn := pi]\<rparr>) = insert (PAGEADDRESS pn) (used_pages st)"
proof -
  have nth: "(pageinfo st)[pn := pi] ! n = (if n = pn then pi else pageinfo st ! n)"
    if "n < NPAGES" for n
    using assms that by simp
  have "{n. n < NPAGES \<and> \<not> free_page (st\<lparr>pageinfo := (pageinfo st)[pn := pi]\<rparr>) n}
      = insert pn {n. n < NPAGES \<and> \<not> free_page st n}"
    using assms by (auto simp: free_page_def nth split: if_splits)
  then show ?thesis by (simp add: used_pages_def)
qed

lemma used_pages_fresh: "free_page st pn \<Longrightarrow> PAGEADDRESS pn \<notin> used_pages st"
  by (auto simp: used_pages_def free_page_def PAGEADDRESS_eq_iff)

lemma used_pages_more [simp]:
  "used_pages (st\<lparr>p_mem := m\<rparr>) = used_pages st" "used_pages (st\<lparr>pageno := k\<rparr>) = used_pages st"
  by (simp_all add: used_pages_def free_page_def)

lemma used_pages_alloc:
  assumes "phys_ok st" and "free_page st pn" and "w \<noteq> PO_FREE"
  shows "used_pages (st\<lparr>pageno := pn, pageinfo := (pageinfo st)[pn := \<lparr>owner = w, refcount = 1\<rparr>],
            p_mem := m\<rparr>) = insert (PAGEADDRESS pn) (used_pages st)"
  using used_pages_update [of "st\<lparr>pageno := pn\<rparr>" pn "\<lparr>owner = w, refcount = 1\<rparr>"] assms
  by (simp add: phys_ok_def free_page_def)

lemma free_page_nonzero: "phys_ok st \<Longrightarrow> free_page st pn \<Longrightarrow> PAGEADDRESS pn \<noteq> 0"
  by (cases "pn = 0") (auto simp: phys_ok_def free_page_def PAGEADDRESS_eq_0_iff)

interpretation page_alloc: page_source page_alloc phys_ok used_pages "\<lambda>w. ucast w \<noteq> PO_FREE"
proof
  fix st st' :: phys and w :: uint32 and a x :: addr
  assume ok: "phys_ok st" and w: "ucast w \<noteq> PO_FREE"
  show "phys_ok (snd (page_alloc w st))" using phys_ok_page_alloc ok w by blast
  assume alloc: "page_alloc w st = (a, st')" and a: "a \<noteq> 0"
  from a alloc obtain pn where pn: "free_page st pn" "a = PAGEADDRESS pn"
      "st' = st\<lparr>pageno := pn, pageinfo := (pageinfo st)[pn := \<lparr>owner = ucast w, refcount = 1\<rparr>],
         p_mem := memset (PAGEADDRESS pn) 0 PAGESIZE (p_mem st)\<rparr>"
    by (rule_tac page_alloc_cases [OF ok, of w]) auto
  then show "page_aligned a \<and> a < MEMSIZE_PHYSICAL \<and> a \<notin> used_pages st
      \<and> used_pages st' = insert a (used_pages st)"
    using used_pages_alloc [OF ok pn(1) w] used_pages_fresh
    by (auto simp: PAGEADDRESS_less free_page_def)
  assume "x \<notin> rgn a PAGESIZE"
  then show "p_mem st' x = p_mem st x" using pn by (simp add: memset_outside PAGESIZE_def)
next
  fix st st' :: phys and w :: uint32
  assume ok: "phys_ok st" and "ucast w \<noteq> PO_FREE" and alloc: "page_alloc w st = (0, st')"
  then show "st' = st"
    using free_page_nonzero [OF ok] by (rule_tac page_alloc_cases [OF ok, of w]) auto
qed simp_all

section \<open>Properties\<close>

text \<open>
  C9: \<open>page_alloc\<close> succeeds exactly when a page is free: it then returns the nonzero address of a page
  that was free, filled with zeros and owned by the given owner, and changes no other page's
  contents or owner; otherwise it returns NULL and changes nothing. It keeps the page
  information consistent.
\<close>

theorem page_alloc_correct:
  assumes "phys_ok st" and "ucast w \<noteq> PO_FREE"
  shows "case page_alloc w st of (a, st') \<Rightarrow> phys_ok st' \<and>
    (if \<exists>pn. free_page st pn
     then \<exists>pn. free_page st pn \<and> a = PAGEADDRESS pn \<and> a \<noteq> 0 \<and>
            load_bytes (p_mem st') a PAGESIZE = replicate PAGESIZE 0 \<and>
            (\<forall>x. x \<notin> rgn a PAGESIZE \<longrightarrow> p_mem st' x = p_mem st x) \<and>
            pageinfo st' = (pageinfo st)[pn := \<lparr>owner = ucast w, refcount = 1\<rparr>]
     else a = 0 \<and> st' = st)"
proof -
  have ok: "phys_ok (snd (page_alloc w st))" using assms by (rule phys_ok_page_alloc)
  show ?thesis
  proof (rule page_alloc_cases [OF assms(1), of w], goal_cases)
    case (1 pn)
    then show ?case using ok free_page_nonzero [OF assms(1)]
      by (auto simp: memset_outside load_memset PAGESIZE_def)
  next
    case 2
    then show ?case using ok by simp
  qed
qed

text \<open>The state that the kernel starts with, with the array \<open>pageinfo[]\<close> in the bss section.\<close>

definition boot_phys :: phys where
  "boot_phys = \<lparr>p_mem = \<lambda>_. 0, pageinfo = replicate NPAGES \<lparr>owner = 0, refcount = 0\<rparr>, pageno = 0\<rparr>"

lemma initial_pageinfo_ok: "page_ok (initial_pageinfo kend pn)"
  by (simp add: initial_pageinfo_def page_ok_def Let_def)

lemma initial_owner_0: "initial_owner kend 0 = PO_RESERVED"
  by (simp add: initial_owner_def physical_memory_isreserved_def)

lemma boot_phys_init_ok: "phys_ok (pageinfo_init kend boot_phys)"
proof -
  have "length (pageinfo boot_phys) = NPAGES" by (simp add: boot_phys_def)
  moreover have "0 < NPAGES" by (simp add: NPAGES_def)
  moreover have "initial_pageinfo kend 0 = \<lparr>owner = PO_RESERVED, refcount = 1\<rparr>"
    by (simp add: initial_pageinfo_def PAGEADDRESS_def initial_owner_0 owner_consts)
  ultimately show ?thesis
    by (simp add: pageinfo_init_spec phys_ok_def list_all_iff initial_pageinfo_ok owner_consts)
      (simp add: boot_phys_def)
qed

lemma boot_phys_init_nth:
  "pn < NPAGES \<Longrightarrow> pageinfo (pageinfo_init kend boot_phys) ! pn = initial_pageinfo kend pn"
  by (simp add: pageinfo_init_spec boot_phys_def)

theorem page_alloc_correct_witness:
  "case page_alloc 1 (pageinfo_init 0x60000 boot_phys) of (a, st') \<Rightarrow>
     phys_ok st' \<and> a \<noteq> 0 \<and> load_bytes (p_mem st') a PAGESIZE = replicate PAGESIZE 0"
proof -
  let ?st = "pageinfo_init 0x60000 boot_phys"
  have "initial_pageinfo 0x60000 256 = \<lparr>owner = PO_FREE, refcount = 0\<rparr>"
    by (simp add: initial_pageinfo_def initial_owner_def PAGEADDRESS_def push_bit_eq_mult
        physical_memory_isreserved_def page_consts)
  then have "free_page ?st 256" by (simp add: free_page_def boot_phys_init_nth NPAGES_def)
  then have "\<exists>pn. free_page ?st pn" by blast
  then show ?thesis
    using page_alloc_correct [OF boot_phys_init_ok [of "0x60000"], of 1]
    by (auto simp: PO_FREE_def split: prod.splits)
qed

text \<open>
  \<open>pageinfo_init\<close> establishes the consistency of the page information, whatever the array held
  before. No reserved page (page 0, the I/O hole) and no page of the kernel's image or stack is
  free afterwards, and every other page is.
\<close>

theorem pageinfo_init_correct:
  assumes "length (pageinfo st) = NPAGES" and "pageno st < NPAGES"
  shows "phys_ok (pageinfo_init kend st) \<and>
    (\<forall>pn < NPAGES. free_page (pageinfo_init kend st) pn \<longleftrightarrow>
       \<not> physical_memory_isreserved (PAGEADDRESS pn) \<and> PAGEADDRESS pn \<noteq> 0x9F000 \<and>
       \<not> (0x40000 \<le> PAGEADDRESS pn \<and> PAGEADDRESS pn < kend))"
proof -
  have "initial_pageinfo kend 0 = \<lparr>owner = PO_RESERVED, refcount = 1\<rparr>"
    by (simp add: initial_pageinfo_def PAGEADDRESS_def initial_owner_0 owner_consts)
  then have "phys_ok (pageinfo_init kend st)"
    using assms
    by (simp add: pageinfo_init_spec phys_ok_def list_all_iff initial_pageinfo_ok owner_consts NPAGES_def)
  moreover have "free_page (pageinfo_init kend st) pn \<longleftrightarrow> initial_owner kend (PAGEADDRESS pn) = PO_FREE"
    if "pn < NPAGES" for pn
    using assms that by (simp add: pageinfo_init_spec free_page_def initial_pageinfo_def Let_def)
  ultimately show ?thesis
    by (auto simp: initial_owner_def owner_consts KERNEL_START_ADDR_def KERNEL_STACK_TOP_def PAGESIZE_def)
qed

theorem pageinfo_init_correct_witness:
  "phys_ok (pageinfo_init 0x60000 boot_phys) \<and> free_page (pageinfo_init 0x60000 boot_phys) 256 \<and>
   \<not> free_page (pageinfo_init 0x60000 boot_phys) 64"
  using pageinfo_init_correct [of boot_phys "0x60000"]
  by (simp add: boot_phys_def PAGEADDRESS_def push_bit_eq_mult physical_memory_isreserved_def
      IOPHYSMEM_def EXTPHYSMEM_def) (simp add: NPAGES_def)


text \<open>
  Killing a process releases exactly its pages: on consistent page information the assertion in the
  loop never fails, every page of the process is free afterwards, no other page is freed or
  changes owner, memory is not touched and the page information stays consistent.
\<close>

theorem free_pages_correct:
  assumes "phys_ok st" and "pid \<noteq> 0" and "scast (owner (pageinfo st ! 0)) \<noteq> pid"
  shows "\<exists>st'. free_pages pid st = Some st' \<and> phys_ok st' \<and> p_mem st' = p_mem st \<and>
    (\<forall>pn < NPAGES. if scast (owner (pageinfo st ! pn)) = pid then free_page st' pn
                   else pageinfo st' ! pn = pageinfo st ! pn)"
proof -
  have "length (pageinfo st) = NPAGES" using assms(1) by (simp add: phys_ok_def)
  then show ?thesis
    using phys_ok_free_pages [OF assms] assms
    by (auto simp: free_pages_spec free_page_def release_def)
qed

theorem free_pages_correct_witness:
  "\<exists>st'. free_pages 3 (pageinfo_init 0x60000 boot_phys) = Some st' \<and> phys_ok st'"
proof -
  have "scast (owner (pageinfo (pageinfo_init 0x60000 boot_phys) ! 0)) \<noteq> (3 :: uint32)"
    by (simp add: boot_phys_init_nth NPAGES_def initial_pageinfo_def PAGEADDRESS_def initial_owner_0
        PO_RESERVED_def Let_def)
  then show ?thesis
    using free_pages_correct [OF boot_phys_init_ok [of "0x60000"], of 3] by auto
qed

end
