(* ===== verification/Virtual_Memory.thy ===== *)
theory Virtual_Memory
  imports Physical_Memory
begin

unbundle bit_operations_syntax

text \<open>
  Virtual memory of \<^verbatim>\<open>kernel/k-hardware.c\<close>: four-level page tables kept as 64-bit entries in physical
  memory, \<open>virtual_memory_map\<close>, \<open>lookup_l4pagetable\<close> and \<open>virtual_memory_lookup\<close>. The \<open>allocator\<close>
  argument is \<open>None\<close> for a null function pointer; a failed assertion is \<open>None\<close>.
\<close>

section \<open>Page table entries\<close>

definition PTE_P :: uint64 where "PTE_P = 1"
definition PTE_W :: uint64 where "PTE_W = 2"
definition PTE_U :: uint64 where "PTE_U = 4"

lemmas pte_flags = PTE_P_def PTE_W_def PTE_U_def

definition PTE_ADDR :: "uint64 \<Rightarrow> addr" where
  "PTE_ADDR pe = pe AND NOT 0xFFF"

definition PTE_FLAGS :: "uint64 \<Rightarrow> uint64" where
  "PTE_FLAGS pe = pe AND 0xFFF"

definition PAGEINDEX :: "addr \<Rightarrow> nat \<Rightarrow> nat" where
  "PAGEINDEX a level = unat (drop_bit (12 + (3 - level) * 9) a AND 0x1FF)"

text \<open>\<open>entry m pt i\<close> is \<open>pt->entry[i]\<close>.\<close>

definition entry :: "mem \<Rightarrow> addr \<Rightarrow> nat \<Rightarrow> uint64" where
  "entry m pt i = load64 m (pt + 8 * of_nat i)"

definition set_entry :: "addr \<Rightarrow> nat \<Rightarrow> uint64 \<Rightarrow> mem \<Rightarrow> mem" where
  "set_entry pt i pe m = store64 (pt + 8 * of_nat i) pe m"

section \<open>Lookup\<close>

record vamapping =
  vam_pn :: uint32
  vam_pa :: addr
  vam_perm :: uint32

primrec lookup_loop :: "nat \<Rightarrow> mem \<Rightarrow> addr \<Rightarrow> addr \<Rightarrow> uint64 \<Rightarrow> uint64" where
  "lookup_loop 0 m va pt pe = pe"
| "lookup_loop (Suc n) m va pt pe =
     (if pe AND PTE_P \<noteq> 0
      then let pe = entry m pt (PAGEINDEX va (3 - n)) AND NOT (pe AND (PTE_W OR PTE_U))
           in lookup_loop n m va (PTE_ADDR pe) pe
      else pe)"

definition virtual_memory_lookup :: "mem \<Rightarrow> addr \<Rightarrow> addr \<Rightarrow> vamapping" where
  "virtual_memory_lookup m pagetable va =
     (let pe = lookup_loop 4 m va pagetable (PTE_W OR PTE_U OR PTE_P)
      in if pe AND PTE_P \<noteq> 0
         then \<lparr>vam_pn = PAGENUMBER pe, vam_pa = PTE_ADDR pe + PAGEOFFSET va,
                vam_perm = ucast (PTE_FLAGS pe)\<rparr>
         else \<lparr>vam_pn = - 1, vam_pa = - 1, vam_perm = 0\<rparr>)"

section \<open>Mapping\<close>

type_synonym allocator = "(phys \<Rightarrow> addr \<times> phys) option"

text \<open>
  \<open>lookup_l4pagetable\<close> returns the level-4 table, a null pointer (0) when a table is missing and
  none can be allocated, and stops the kernel (\<open>None\<close>) when an entry on the way is not sane.
  \<open>descend n\<close> runs the last \<open>n\<close> iterations of its loop.
\<close>

definition new_table :: "addr \<Rightarrow> nat \<Rightarrow> (phys \<Rightarrow> addr \<times> phys) \<Rightarrow> phys \<Rightarrow> (addr \<times> uint64 \<times> phys) option"
  where
  "new_table pt i alloc st =
     (case alloc st of (new_pt, st) \<Rightarrow>
        if new_pt = 0 then Some (0, 0, st)
        else if unat new_pt mod PAGESIZE \<noteq> 0 then None
        else let pe = PTE_ADDR new_pt OR PTE_P OR PTE_W OR PTE_U
             in Some (new_pt, pe,
                      st\<lparr>p_mem := memset new_pt 0 PAGESIZE (set_entry pt i pe (p_mem st))\<rparr>))"

definition sane_entry :: "uint64 \<Rightarrow> uint64 \<Rightarrow> bool" where
  "sane_entry pm pe \<longleftrightarrow> PTE_ADDR pe < MEMSIZE_PHYSICAL \<and>
     (pm AND PTE_W \<noteq> 0 \<longrightarrow> pe AND PTE_W \<noteq> 0) \<and> (pm AND PTE_U \<noteq> 0 \<longrightarrow> pe AND PTE_U \<noteq> 0)"

primrec descend ::
  "nat \<Rightarrow> addr \<Rightarrow> uint64 \<Rightarrow> allocator \<Rightarrow> addr \<Rightarrow> phys \<Rightarrow> (addr \<times> phys) option" where
  "descend 0 va pm allocator pt st = Some (pt, st)"
| "descend (Suc n) va pm allocator pt st =
     (let i = PAGEINDEX va (2 - n); pe = entry (p_mem st) pt i
      in if pe AND PTE_P \<noteq> 0
         then if sane_entry pm pe then descend n va pm allocator (PTE_ADDR pe) st else None
         else if pm AND PTE_P = 0 then Some (0, st)
         else case allocator of
                None \<Rightarrow> Some (0, st)
              | Some alloc \<Rightarrow>
                  (case new_table pt i alloc st of
                     None \<Rightarrow> None
                   | Some (new_pt, pe, st) \<Rightarrow>
                       if new_pt = 0 then Some (0, st)
                       else if sane_entry pm pe
                       then descend n va pm allocator (PTE_ADDR pe) st else None))"

definition lookup_l4pagetable ::
  "addr \<Rightarrow> addr \<Rightarrow> uint64 \<Rightarrow> allocator \<Rightarrow> phys \<Rightarrow> (addr \<times> phys) option" where
  "lookup_l4pagetable pagetable va pm allocator st = descend 3 va pm allocator pagetable st"

text \<open>
  The loop over the pages of the range; its first argument is \<open>sz / PAGESIZE\<close>. \<open>last123\<close> and
  \<open>l4\<close> are the cached index and table.
\<close>

primrec map_loop ::
  "nat \<Rightarrow> addr \<Rightarrow> addr \<Rightarrow> addr \<Rightarrow> uint64 \<Rightarrow> allocator \<Rightarrow> uint32 \<Rightarrow> addr \<Rightarrow> phys \<Rightarrow> (int \<times> phys) option"
  where
  "map_loop 0 pagetable va pad pm allocator last123 l4 st = Some (0, st)"
| "map_loop (Suc n) pagetable va pad pm allocator last123 l4 st =
     (let cur123 = ucast (drop_bit 21 va) :: uint32
      in case (if cur123 \<noteq> last123 then lookup_l4pagetable pagetable va pm allocator st
               else Some (l4, st)) of
           None \<Rightarrow> None
         | Some (l4, st) \<Rightarrow>
             if pm AND PTE_P \<noteq> 0 \<and> l4 = 0 then Some (- 1, st)
             else let st' = (if l4 = 0 then st
                             else st\<lparr>p_mem := set_entry l4 (PAGEINDEX va 3)
                                       (if pm AND PTE_P \<noteq> 0 then pad OR pm else pm) (p_mem st)\<rparr>)
                  in map_loop n pagetable (va + of_nat PAGESIZE) (pad + of_nat PAGESIZE)
                       pm allocator cur123 l4 st')"

definition map_asserts :: "addr \<Rightarrow> addr \<Rightarrow> addr \<Rightarrow> uint64 \<Rightarrow> uint64 \<Rightarrow> bool" where
  "map_asserts pagetable va pad sz pm \<longleftrightarrow>
     unat va mod PAGESIZE = 0 \<and> unat sz mod PAGESIZE = 0 \<and> (va + sz \<ge> va \<or> va + sz = 0) \<and>
     (pm AND PTE_P \<noteq> 0 \<longrightarrow>
        unat pad mod PAGESIZE = 0 \<and> pad + sz \<ge> pad \<and> pad + sz \<le> MEMSIZE_PHYSICAL) \<and>
     pm < 0x1000 \<and> unat pagetable mod PAGESIZE = 0"

text \<open>The \<open>int\<close> argument \<open>perm\<close> is sign-extended where it meets 64-bit operands.\<close>

definition virtual_memory_map ::
  "addr \<Rightarrow> addr \<Rightarrow> addr \<Rightarrow> uint64 \<Rightarrow> uint32 \<Rightarrow> allocator \<Rightarrow> phys \<Rightarrow> (int \<times> phys) option" where
  "virtual_memory_map pagetable va pad sz pm allocator st =
     (if map_asserts pagetable va pad sz (scast pm)
      then map_loop (unat sz div PAGESIZE) pagetable va pad (scast pm) allocator (- 1) 0 st
      else None)"


section \<open>Entries as a map\<close>

lemma unat_aligned_bound: "page_aligned t \<Longrightarrow> unat t + 4096 \<le> 2 ^ 64"
proof -
  assume "page_aligned t"
  then obtain k where k: "unat t = 4096 * k" unfolding page_aligned_unat by auto
  have "unat t < 2 ^ 64" using unsigned_less [of t] by simp
  then have "4096 * k < 4096 * 2 ^ 52" using k by simp
  then have "k + 1 \<le> 2 ^ 52" by simp
  then show ?thesis using k by simp
qed

lemma unat_entry_addr:
  "page_aligned t \<Longrightarrow> i < 512 \<Longrightarrow> unat (t + 8 * of_nat i) = unat t + 8 * i"
proof -
  assume t: "page_aligned t" and i: "i < 512"
  have "unat (8 * of_nat i :: addr) = 8 * i" using i by (simp add: unat_word_ariths unat_of_nat)
  then show ?thesis using unat_aligned_bound [OF t] i by (simp add: unat_word_ariths)
qed

lemma aligned_apart:
  assumes "page_aligned t" and "page_aligned t'" and "t \<noteq> t'"
  shows "unat t + 4096 \<le> unat t' \<or> unat t' + 4096 \<le> unat t"
proof -
  obtain k k' where "unat t = 4096 * k" "unat t' = 4096 * k'"
    using assms(1,2) unfolding page_aligned_unat by (auto elim!: dvdE)
  moreover have "unat t \<noteq> unat t'" using assms(3) by (simp add: word_unat_eq_iff)
  ultimately show ?thesis by (cases k k' rule: linorder_cases) auto
qed

lemma entry_set_entry:
  assumes "page_aligned t" and "page_aligned t'" and "i < 512" and "i' < 512"
  shows "entry (set_entry t i v m) t' i' = (if t' = t \<and> i' = i then v else entry m t' i')"
proof (cases "t' = t \<and> i' = i")
  case True
  then show ?thesis by (simp add: entry_def set_entry_def)
next
  case False
  have "unat t + 8 * i + 8 \<le> unat t' + 8 * i' \<or> unat t' + 8 * i' + 8 \<le> unat t + 8 * i"
  proof (cases "t' = t")
    case True
    then show ?thesis using False by auto
  next
    case False
    then show ?thesis using aligned_apart [OF assms(1,2)] assms by auto
  qed
  then have "rgn (t + 8 * of_nat i) 8 \<inter> rgn (t' + 8 * of_nat i') 8 = {}"
    using unat_aligned_bound [OF assms(1)] unat_aligned_bound [OF assms(2)] assms
    by (intro rgn_disjointI) (simp_all add: unat_entry_addr)
  then show ?thesis using False by (auto simp: entry_def set_entry_def load64_store64_disjoint)
qed

lemma entry_rgn:
  assumes "page_aligned t" and "i < 512" and "x \<in> rgn (t + 8 * of_nat i) 8"
  shows "x \<in> rgn t 4096"
  using assms unat_aligned_bound [OF assms(1)] by (simp add: rgn_nat unat_entry_addr)

lemma entry_cong:
  assumes "\<And>x. x \<in> rgn t 4096 \<Longrightarrow> m x = m' x" and "page_aligned t" and "i < 512"
  shows "entry m t i = entry m' t i"
  unfolding entry_def using assms entry_rgn by (intro load64_cong) blast

lemma page_rgn_disjoint:
  "page_aligned t \<Longrightarrow> page_aligned t' \<Longrightarrow> t \<noteq> t' \<Longrightarrow> rgn t 4096 \<inter> rgn t' 4096 = {}"
  using aligned_apart [of t t'] unat_aligned_bound [of t] unat_aligned_bound [of t']
  by (intro rgn_disjointI) auto

lemma load64_zero: "(\<And>x. x \<in> rgn a 8 \<Longrightarrow> m x = 0) \<Longrightarrow> load64 m a = 0"
proof -
  assume "\<And>x. x \<in> rgn a 8 \<Longrightarrow> m x = 0"
  then have "load_bytes m a 8 = load_bytes (\<lambda>_. 0) a 8" by (intro load_bytes_cong) simp_all
  also have "\<dots> = replicate 8 0" by (simp add: load_bytes_def map_replicate_const)
  finally show ?thesis by (simp add: load64_def numeral_eq_Suc)
qed

lemma entry_memset:
  assumes "page_aligned p" and "page_aligned t" and "i < 512"
  shows "entry (memset p 0 4096 m) t i = (if t = p then 0 else entry m t i)"
proof (cases "t = p")
  case True
  have "memset p 0 4096 m x = 0" if "x \<in> rgn p 4096" for x
    using that by (simp add: memset_eq_store store_bytes_apply rgn_def)
  then show ?thesis
    using True entry_rgn [OF assms(2,3)] by (simp add: entry_def load64_zero)
next
  case False
  have "memset p 0 4096 m x = m x" if "x \<in> rgn t 4096" for x
    using that page_rgn_disjoint [OF assms(1,2)] False by (intro memset_outside) auto
  then have "entry (memset p 0 4096 m) t i = entry m t i" by (rule entry_cong [OF _ assms(2,3)])
  then show ?thesis using False by simp
qed

lemma PAGEINDEX_less: "PAGEINDEX va k < 512"
proof -
  have "(0x1FF :: addr) = mask 9" by (simp add: mask_eq_decr_exp)
  then have "drop_bit n va AND 0x1FF = take_bit 9 (drop_bit n va)" for n
    by (simp only: take_bit_eq_mask)
  then show ?thesis
    unfolding PAGEINDEX_def by (simp add: take_bit_eq_mod unat_mod)
qed


section \<open>Page tables as trees\<close>

text \<open>
  \<open>walk E pt va k\<close> is the table of level \<open>k\<close> (0 is the root) on the path of \<open>va\<close>, for the entries
  \<open>E\<close>. In a well-formed page table every table is a page in use, no table is reached by two
  paths, and the entries that point to tables allow every access.
\<close>

primrec walk :: "(addr \<Rightarrow> nat \<Rightarrow> uint64) \<Rightarrow> addr \<Rightarrow> addr \<Rightarrow> nat \<Rightarrow> addr option" where
  "walk E pt va 0 = Some pt"
| "walk E pt va (Suc k) =
     (case walk E pt va k of
        None \<Rightarrow> None
      | Some t \<Rightarrow> let pe = E t (PAGEINDEX va k)
                   in if pe AND PTE_P \<noteq> 0 then Some (PTE_ADDR pe) else None)"

definition same_path :: "nat \<Rightarrow> addr \<Rightarrow> addr \<Rightarrow> bool" where
  "same_path k va va' \<longleftrightarrow> (\<forall>j<k. PAGEINDEX va j = PAGEINDEX va' j)"

definition pt_wf :: "(addr \<Rightarrow> nat \<Rightarrow> uint64) \<Rightarrow> addr \<Rightarrow> addr set \<Rightarrow> bool" where
  "pt_wf E pt U \<longleftrightarrow>
     (\<forall>va k t. k \<le> 3 \<longrightarrow> walk E pt va k = Some t \<longrightarrow>
        t \<in> U \<and> page_aligned t \<and> t < MEMSIZE_PHYSICAL \<and> t \<noteq> 0) \<and>
     (\<forall>va va' k k' t. k \<le> 3 \<longrightarrow> k' \<le> 3 \<longrightarrow> walk E pt va k = Some t \<longrightarrow> walk E pt va' k' = Some t \<longrightarrow>
        k = k' \<and> same_path k va va') \<and>
     (\<forall>va k t. k < 3 \<longrightarrow> walk E pt va k = Some t \<longrightarrow> E t (PAGEINDEX va k) AND PTE_P \<noteq> 0 \<longrightarrow>
        E t (PAGEINDEX va k) AND 7 = 7)"

definition leaf :: "(addr \<Rightarrow> nat \<Rightarrow> uint64) \<Rightarrow> addr \<Rightarrow> addr \<Rightarrow> uint64" where
  "leaf E pt va = (case walk E pt va 3 of None \<Rightarrow> 0 | Some t \<Rightarrow> E t (PAGEINDEX va 3))"

definition vam_of :: "uint64 \<Rightarrow> addr \<Rightarrow> vamapping" where
  "vam_of pe va = (if pe AND PTE_P \<noteq> 0
     then \<lparr>vam_pn = PAGENUMBER pe, vam_pa = PTE_ADDR pe + PAGEOFFSET va, vam_perm = ucast (PTE_FLAGS pe)\<rparr>
     else \<lparr>vam_pn = - 1, vam_pa = - 1, vam_perm = 0\<rparr>)"

lemma pt_wf_table:
  "pt_wf E pt U \<Longrightarrow> k \<le> 3 \<Longrightarrow> walk E pt va k = Some t \<Longrightarrow>
   t \<in> U \<and> page_aligned t \<and> t < MEMSIZE_PHYSICAL \<and> t \<noteq> 0"
  unfolding pt_wf_def by blast

lemma pt_wf_path:
  "pt_wf E pt U \<Longrightarrow> walk E pt va k = Some t \<Longrightarrow> walk E pt va' k' = Some t \<Longrightarrow> k \<le> 3 \<Longrightarrow> k' \<le> 3 \<Longrightarrow>
   k = k' \<and> same_path k va va'"
  unfolding pt_wf_def by blast

lemma pt_wf_full:
  "pt_wf E pt U \<Longrightarrow> k < 3 \<Longrightarrow> walk E pt va k = Some t \<Longrightarrow> E t (PAGEINDEX va k) AND PTE_P \<noteq> 0 \<Longrightarrow>
   E t (PAGEINDEX va k) AND 7 = 7"
  unfolding pt_wf_def by blast

lemma same_path_Suc: "same_path (Suc k) va va' \<longleftrightarrow> same_path k va va' \<and> PAGEINDEX va k = PAGEINDEX va' k"
  by (auto simp: same_path_def less_Suc_eq)

lemma same_path_refl [simp]: "same_path k va va"
  by (simp add: same_path_def)

lemma same_path_sym: "same_path k va va' \<Longrightarrow> same_path k va' va"
  by (simp add: same_path_def)

lemma walk_same_path: "same_path k va va' \<Longrightarrow> walk E pt va k = walk E pt va' k"
  by (induction k) (auto simp: same_path_Suc split: option.split)

text \<open>Below an absent entry there are no tables.\<close>

lemma walk_absent:
  assumes "walk E pt va k = Some t" and "E t (PAGEINDEX va k) AND PTE_P = 0" and "k < j"
  shows "walk E pt va j = None"
proof -
  have "walk E pt va (Suc k + n) = None" for n using assms(1,2) by (induction n) simp_all
  then show ?thesis using assms(3) by (metis Suc_leI le_add_diff_inverse)
qed

text \<open>Permission bits: the masks that the lookup applies on the way down cancel out.\<close>

lemma pte_mask:
  fixes e :: uint64
  shows "(e AND - 7) AND 1 = e AND 1" and "PTE_ADDR (e AND - 7) = PTE_ADDR e"
    and "(e AND - 7) AND 6 = 0" and "e AND 7 = 7 \<Longrightarrow> e AND 6 = 6" and "e AND 7 = 7 \<Longrightarrow> e AND 1 = 1"
proof -
  have m: "- 7 AND 1 = (1 :: uint64)" "- 7 AND NOT 0xFFF = (NOT 0xFFF :: uint64)"
      "- 7 AND 6 = (0 :: uint64)" "7 AND 6 = (6 :: uint64)" "7 AND 1 = (1 :: uint64)"
    by simp_all
  show "(e AND - 7) AND 1 = e AND 1" "(e AND - 7) AND 6 = 0" "PTE_ADDR (e AND - 7) = PTE_ADDR e"
    unfolding PTE_ADDR_def by (simp_all only: and.assoc m and_zero_eq)
  show "e AND 7 = 7 \<Longrightarrow> e AND 6 = 6" "e AND 7 = 7 \<Longrightarrow> e AND 1 = 1"
    using m(4,5) by (metis and.assoc)+
qed

lemma lookup_step_full:
  assumes "pe AND 7 = 7"
  shows "lookup_loop (Suc n) m va pt pe =
    (let e = entry m pt (PAGEINDEX va (3 - n)) in lookup_loop n m va (PTE_ADDR e) (e AND - 7))"
proof -
  have "pe AND PTE_P \<noteq> 0" "NOT (pe AND (PTE_W OR PTE_U)) = - 7"
    using pte_mask(4,5) [OF assms] by (simp_all add: pte_flags)
  then show ?thesis by (simp only: lookup_loop.simps if_True not_False_eq_True Let_def pte_mask(2))
qed

lemma lookup_step_masked:
  "lookup_loop (Suc n) m va pt (pe AND - 7) =
    (if pe AND 1 \<noteq> 0
     then let e = entry m pt (PAGEINDEX va (3 - n)) in lookup_loop n m va (PTE_ADDR e) e
     else pe AND - 7)"
proof -
  have "NOT ((pe AND - 7) AND (PTE_W OR PTE_U)) = - 1"
    using pte_mask(3) [of pe] by (simp add: pte_flags del: bit.de_Morgan_conj)
  then show ?thesis by (simp only: lookup_loop.simps PTE_P_def pte_mask(1) Let_def) simp
qed

lemma lookup_leaf:
  assumes "pt_wf (entry m) pt U"
  shows "virtual_memory_lookup m pt va = vam_of (leaf (entry m) pt va) va"
proof -
  let ?E = "entry m" and ?i = "PAGEINDEX va"
  define e0 where "e0 = ?E pt (?i 0)"
  define e1 where "e1 = ?E (PTE_ADDR e0) (?i (Suc 0))"
  define e2 where "e2 = ?E (PTE_ADDR e1) (?i (Suc (Suc 0)))"
  define e3 where "e3 = ?E (PTE_ADDR e2) (?i (Suc (Suc (Suc 0))))"
  have f1: "e0 AND 1 \<noteq> 0 \<Longrightarrow> e1 AND 1 \<noteq> 0 \<Longrightarrow> e1 AND 7 = 7"
    using pt_wf_full [OF assms, of "Suc 0" va "PTE_ADDR e0"] by (simp add: e0_def e1_def PTE_P_def)
  have leaf: "leaf ?E pt va =
      (if e0 AND 1 = 0 \<or> e1 AND 1 = 0 \<or> e2 AND 1 = 0 then 0 else e3)"
    by (simp add: leaf_def eval_nat_numeral PTE_P_def Let_def
        e0_def [symmetric] e1_def [symmetric] e2_def [symmetric] e3_def [symmetric])
  have "lookup_loop (Suc 3) m va pt 7 = lookup_loop (Suc 2) m va (PTE_ADDR e0) (e0 AND - 7)"
    by (subst lookup_step_full) (simp_all add: e0_def Let_def eval_nat_numeral)
  also have "\<dots> = (if e0 AND 1 = 0 then e0 AND - 7 else lookup_loop (Suc 1) m va (PTE_ADDR e1) e1)"
    by (subst lookup_step_masked) (simp add: e1_def Let_def eval_nat_numeral)
  also have "\<dots> = (if e0 AND 1 = 0 then e0 AND - 7 else if e1 AND 1 = 0 then e1
      else lookup_loop (Suc 0) m va (PTE_ADDR e2) (e2 AND - 7))"
  proof -
    have "lookup_loop (Suc 1) m va (PTE_ADDR e1) e1 = e1" if "e1 AND 1 = 0"
      using that by (simp add: PTE_P_def)
    moreover have "lookup_loop (Suc 1) m va (PTE_ADDR e1) e1
        = lookup_loop (Suc 0) m va (PTE_ADDR e2) (e2 AND - 7)" if "e0 AND 1 \<noteq> 0" "e1 AND 1 \<noteq> 0"
      using lookup_step_full [OF f1 [OF that], of 1 m va "PTE_ADDR e1"]
      by (simp add: e2_def Let_def eval_nat_numeral)
    ultimately show ?thesis by simp
  qed
  also have "\<dots> = (if e0 AND 1 = 0 then e0 AND - 7 else if e1 AND 1 = 0 then e1
      else if e2 AND 1 = 0 then e2 AND - 7 else e3)"
    by (subst lookup_step_masked) (simp add: e3_def Let_def eval_nat_numeral)
  finally have "lookup_loop 4 m va pt 7 = (if e0 AND 1 = 0 then e0 AND - 7 else if e1 AND 1 = 0 then e1
      else if e2 AND 1 = 0 then e2 AND - 7 else e3)"
    by simp
  moreover have "(PTE_W OR PTE_U OR PTE_P) = 7" by (simp add: pte_flags)
  ultimately show ?thesis
    unfolding virtual_memory_lookup_def vam_of_def leaf PTE_P_def
    by (simp add: pte_mask Let_def)
qed

section \<open>Changing a leaf\<close>

lemma walk_set_leaf:
  assumes wf: "pt_wf E pt U" and l4: "walk E pt va 3 = Some l4"
    and E': "\<And>t i. page_aligned t \<Longrightarrow> i < 512 \<Longrightarrow>
      E' t i = (if t = l4 \<and> i = PAGEINDEX va 3 then v else E t i)"
    and "k \<le> 3"
  shows "walk E' pt va' k = walk E pt va' k"
  using \<open>k \<le> 3\<close>
proof (induction k)
  case (Suc k)
  show ?case
  proof (cases "walk E pt va' k")
    case (Some t)
    then have "t \<noteq> l4" and "page_aligned t"
      using pt_wf_path [OF wf _ l4, of va' k] pt_wf_table [OF wf _ Some] Suc.prems by auto
    then show ?thesis using Some Suc by (simp add: E' PAGEINDEX_less)
  qed (use Suc in simp)
qed simp

lemma leaf_set_leaf:
  assumes wf: "pt_wf E pt U" and l4: "walk E pt va 3 = Some l4"
    and E': "\<And>t i. page_aligned t \<Longrightarrow> i < 512 \<Longrightarrow>
      E' t i = (if t = l4 \<and> i = PAGEINDEX va 3 then v else E t i)"
  shows "pt_wf E' pt U" and "leaf E' pt va' = (if same_path 4 va va' then v else leaf E pt va')"
proof -
  note w = walk_set_leaf [OF assms]
  have keep: "E' t (PAGEINDEX va' k) = E t (PAGEINDEX va' k)"
    if "walk E pt va' k = Some t" "k < 3" for va' k t
    using pt_wf_path [OF wf that(1), of va 3] l4 pt_wf_table [OF wf _ that(1)] that(2)
    by (auto simp: E' PAGEINDEX_less)
  show "pt_wf E' pt U"
    unfolding pt_wf_def
    using pt_wf_table [OF wf] pt_wf_path [OF wf] pt_wf_full [OF wf] by (auto simp: w keep)
  have four: "same_path 4 va va' \<longleftrightarrow> same_path 3 va va' \<and> PAGEINDEX va 3 = PAGEINDEX va' 3"
    using same_path_Suc [of 3 va va'] by simp
  show "leaf E' pt va' = (if same_path 4 va va' then v else leaf E pt va')"
  proof (cases "walk E pt va' 3")
    case None
    then have "\<not> same_path 3 va va'" using l4 walk_same_path [of 3 va va' E pt] by auto
    then show ?thesis using None by (simp add: leaf_def w four)
  next
    case (Some t)
    have "t = l4 \<longleftrightarrow> same_path 3 va va'"
      using pt_wf_path [OF wf l4, of va' 3] walk_same_path [of 3 va va' E pt] l4 Some by auto
    moreover have "page_aligned t" using pt_wf_table [OF wf _ Some] by simp
    ultimately show ?thesis
      using Some by (auto simp: leaf_def w four E' PAGEINDEX_less)
  qed
qed

section \<open>Inserting a new table\<close>

lemma PTE_ADDR_or_7:
  assumes "page_aligned p"
  shows "PTE_ADDR (PTE_ADDR p OR PTE_P OR PTE_W OR PTE_U) = p"
    and "(PTE_ADDR p OR PTE_P OR PTE_W OR PTE_U) AND 7 = 7"
    and "(PTE_ADDR p OR PTE_P OR PTE_W OR PTE_U) AND PTE_P \<noteq> 0"
proof -
  have p: "p AND 0xFFF = 0" using assms by (simp add: page_aligned_def)
  have "PTE_ADDR p = p"
  proof -
    have "p = (p AND NOT 0xFFF) OR (p AND 0xFFF)"
      by (metis bit.conj_disj_distrib bit.disj_cancel_left bit.conj_one_right)
    then show ?thesis using p by (simp add: PTE_ADDR_def)
  qed
  moreover have "(p OR 7) AND NOT 0xFFF = p AND NOT 0xFFF"
    by (simp add: bit.conj_disj_distrib2)
  moreover have "(p OR 7) AND 7 = 7" by (simp add: bit.conj_disj_distrib2)
  moreover have "(p OR 7) AND 1 = 1" by (simp add: bit.conj_disj_distrib2)
  ultimately show "PTE_ADDR (PTE_ADDR p OR PTE_P OR PTE_W OR PTE_U) = p"
      "(PTE_ADDR p OR PTE_P OR PTE_W OR PTE_U) AND 7 = 7"
      "(PTE_ADDR p OR PTE_P OR PTE_W OR PTE_U) AND PTE_P \<noteq> 0"
    by (simp_all add: pte_flags PTE_ADDR_def)
qed


text \<open>
  \<open>inserted E E' va k t p\<close>: the entries \<open>E'\<close> are \<open>E\<close> with the fresh, zeroed table \<open>p\<close> hung into the
  absent entry for \<open>va\<close> of the level-\<open>k\<close> table \<open>t\<close>.
\<close>

definition inserted ::
  "(addr \<Rightarrow> nat \<Rightarrow> uint64) \<Rightarrow> (addr \<Rightarrow> nat \<Rightarrow> uint64) \<Rightarrow> addr \<Rightarrow> nat \<Rightarrow> addr \<Rightarrow> addr \<Rightarrow> bool" where
  "inserted E E' va k t p \<longleftrightarrow> (\<forall>s i. page_aligned s \<longrightarrow> i < 512 \<longrightarrow>
     E' s i = (if s = p then 0
               else if s = t \<and> i = PAGEINDEX va k then PTE_ADDR p OR PTE_P OR PTE_W OR PTE_U
               else E s i))"

lemma walk_insert:
  assumes wf: "pt_wf E pt U" and t: "walk E pt va k = Some t" "k < 3"
    and p: "page_aligned p" "p \<notin> U" and E': "inserted E E' va k t p"
    and "j \<le> 3"
  shows "walk E' pt va' j =
    (if k < j \<and> same_path (Suc k) va va' then (if j = Suc k then Some p else None)
     else walk E pt va' j)"
  using \<open>j \<le> 3\<close>
proof (induction j)
  case (Suc j)
  show ?case
  proof (cases "k < j \<and> same_path (Suc k) va va'")
    case True
    have "E' p (PAGEINDEX va' j) = 0" using E' p(1) by (simp add: inserted_def PAGEINDEX_less)
    then show ?thesis using Suc True by auto
  next
    case False
    then have IH: "walk E' pt va' j = walk E pt va' j" using Suc by auto
    show ?thesis
    proof (cases "walk E pt va' j")
      case None
      then have "\<not> (j = k \<and> same_path k va va')" using t walk_same_path [of k va va' E pt] by auto
      then show ?thesis using None IH False by (auto simp: same_path_Suc less_Suc_eq)
    next
      case (Some s)
      have s: "page_aligned s" "s \<noteq> p" using pt_wf_table [OF wf _ Some] Suc.prems p by auto
      have st: "s = t \<longleftrightarrow> j = k \<and> same_path k va va'"
        using pt_wf_path [OF wf t(1), of va' j] walk_same_path [of k va va' E pt] Some t Suc.prems
        by auto
      have "E' s (PAGEINDEX va' j) = (if s = t \<and> PAGEINDEX va' j = PAGEINDEX va k
          then PTE_ADDR p OR PTE_P OR PTE_W OR PTE_U else E s (PAGEINDEX va' j))"
        using E' s by (simp add: inserted_def PAGEINDEX_less)
      then show ?thesis
        using IH Some st False PTE_ADDR_or_7 [OF p(1)]
        by (auto simp: same_path_Suc less_Suc_eq Let_def)
    qed
  qed
qed simp

lemma leaf_insert:
  assumes wf: "pt_wf E pt U" and t: "walk E pt va k = Some t" "k < 3"
    and p: "page_aligned p" "p \<notin> U" and E': "inserted E E' va k t p"
    and absent: "E t (PAGEINDEX va k) AND PTE_P = 0"
  shows "leaf E' pt va' = leaf E pt va'"
proof -
  note w = walk_insert [OF wf t p E']
  have p0: "E' p i = 0" if "i < 512" for i using E' p(1) that by (simp add: inserted_def)
  show ?thesis
  proof (cases "same_path (Suc k) va va'")
    case True
    then have "walk E pt va' k = Some t" "E t (PAGEINDEX va' k) AND PTE_P = 0"
      using t absent walk_same_path [of k va va' E pt] by (simp_all add: same_path_Suc)
    then have "walk E pt va' 3 = None" using t(2) by (rule walk_absent)
    then show ?thesis using True t(2) by (auto simp: leaf_def w p0 PAGEINDEX_less)
  next
    case False
    have "E' s (PAGEINDEX va' 3) = E s (PAGEINDEX va' 3)" if "walk E pt va' 3 = Some s" for s
      using pt_wf_table [OF wf _ that] pt_wf_path [OF wf that, of va k] t p E' that
      by (auto simp: inserted_def PAGEINDEX_less)
    then show ?thesis using False by (auto simp: leaf_def w split: option.split)
  qed
qed

lemma pt_wf_insert:
  assumes wf: "pt_wf E pt U" and t: "walk E pt va k = Some t" "k < 3"
    and p: "page_aligned p" "p \<notin> U" and E': "inserted E E' va k t p"
    and p': "p < MEMSIZE_PHYSICAL" "p \<noteq> 0"
  shows "pt_wf E' pt (insert p U)"
proof -
  note w = walk_insert [OF wf t p E']
  have new: "walk E' pt va' j = Some p \<longleftrightarrow> j = Suc k \<and> same_path j va va'" if "j \<le> 3" for va' j
    using w [OF that, of va'] pt_wf_table [OF wf that, of va' p] p(2) by auto
  have old: "walk E pt va' j = Some s" if "walk E' pt va' j = Some s" "s \<noteq> p" "j \<le> 3" for va' j s
    using w [OF that(3), of va'] that by (auto split: if_splits)
  have keep: "E' s (PAGEINDEX va' j) AND 7 = 7"
    if "walk E' pt va' j = Some s" "j < 3" "E' s (PAGEINDEX va' j) AND PTE_P \<noteq> 0" for va' j s
  proof (cases "s = p")
    case True
    then show ?thesis using that E' p(1) by (simp add: inserted_def PAGEINDEX_less)
  next
    case False
    then have o: "walk E pt va' j = Some s" using old that by auto
    then have "page_aligned s" using pt_wf_table [OF wf _ o] that(2) by simp
    then show ?thesis
      using pt_wf_full [OF wf that(2) o] that(3) False E' PTE_ADDR_or_7 [OF p(1)]
      by (auto simp: inserted_def PAGEINDEX_less split: if_splits)
  qed
  have path: "j = j' \<and> same_path j va1 va2"
    if "walk E' pt va1 j = Some s" "walk E' pt va2 j' = Some s" "j \<le> 3" "j' \<le> 3" for va1 va2 j j' s
  proof (cases "s = p")
    case True
    then show ?thesis using that new by (auto simp: same_path_def)
  next
    case False
    then show ?thesis using old that pt_wf_path [OF wf] by blast
  qed
  have table: "s \<in> insert p U \<and> page_aligned s \<and> s < MEMSIZE_PHYSICAL \<and> s \<noteq> 0"
    if "walk E' pt va' j = Some s" "j \<le> 3" for va' j s
    using old [OF that(1)] pt_wf_table [OF wf that(2)] that(2) p p' by (cases "s = p") auto
  show ?thesis unfolding pt_wf_def using table path keep by blast
qed


section \<open>Growing a page table\<close>

definition tables :: "mem \<Rightarrow> addr \<Rightarrow> addr set" where
  "tables m pt = {t. \<exists>va k. k \<le> 3 \<and> walk (entry m) pt va k = Some t}"

lemma tablesI: "walk (entry m) pt va k = Some t \<Longrightarrow> k \<le> 3 \<Longrightarrow> t \<in> tables m pt"
  unfolding tables_def by blast

text \<open>
  \<open>pt_grows pt m U m' U'\<close>: from memory \<open>m\<close> with pages \<open>U\<close> in use to \<open>m'\<close> and \<open>U'\<close>, the page table \<open>pt\<close>
  stays well-formed and keeps its tables, the pages that come into use are its new tables, and
  nothing outside its own tables changes.
\<close>

definition pt_grows :: "addr \<Rightarrow> mem \<Rightarrow> addr set \<Rightarrow> mem \<Rightarrow> addr set \<Rightarrow> bool" where
  "pt_grows pt m U m' U' \<longleftrightarrow> pt_wf (entry m') pt U' \<and> U \<subseteq> U' \<and>
     (\<forall>va k t. k \<le> 3 \<longrightarrow> walk (entry m) pt va k = Some t \<longrightarrow> walk (entry m') pt va k = Some t) \<and>
     tables m' pt = tables m pt \<union> (U' - U) \<and>
     (\<forall>x. x \<notin> (\<Union>t\<in>tables m' pt. rgn t 4096) \<longrightarrow> m' x = m x)"

lemma pt_grows_refl: "pt_wf (entry m) pt U \<Longrightarrow> pt_grows pt m U m U"
  by (simp add: pt_grows_def)

lemma pt_grows_tables: "pt_grows pt m U m' U' \<Longrightarrow> tables m pt \<subseteq> tables m' pt"
  unfolding pt_grows_def by blast

lemma pt_grows_walk:
  "pt_grows pt m U m' U' \<Longrightarrow> walk (entry m) pt va k = Some t \<Longrightarrow> k \<le> 3 \<Longrightarrow> walk (entry m') pt va k = Some t"
  unfolding pt_grows_def by blast

lemma pt_grows_trans:
  assumes 1: "pt_grows pt m U m' U'" and 2: "pt_grows pt m' U' m'' U''"
  shows "pt_grows pt m U m'' U''"
proof -
  have "tables m'' pt = tables m pt \<union> (U'' - U)" "U \<subseteq> U''"
    using 1 2 unfolding pt_grows_def by blast+
  moreover have "\<forall>va k t. k \<le> 3 \<longrightarrow> walk (entry m) pt va k = Some t \<longrightarrow> walk (entry m'') pt va k = Some t"
    using pt_grows_walk [OF 1] pt_grows_walk [OF 2] by blast
  moreover have "m'' x = m x" if x: "x \<notin> (\<Union>t\<in>tables m'' pt. rgn t 4096)" for x
  proof -
    have "tables m' pt \<subseteq> tables m'' pt" by (rule pt_grows_tables [OF 2])
    then have "x \<notin> (\<Union>t\<in>tables m' pt. rgn t 4096)" using x by blast
    then have "m' x = m x" "m'' x = m' x" using 1 2 x unfolding pt_grows_def by blast+
    then show ?thesis by simp
  qed
  moreover have "pt_wf (entry m'') pt U''" using 2 unfolding pt_grows_def by simp
  ultimately show ?thesis unfolding pt_grows_def by blast
qed

lemma pt_grows_set_leaf:
  assumes wf: "pt_wf (entry m) pt U" and l4: "walk (entry m) pt va 3 = Some l4"
    and m'_def: "m' = set_entry l4 (PAGEINDEX va 3) v m"
  shows "pt_grows pt m U m' U" and "leaf (entry m') pt va' = (if same_path 4 va va' then v else leaf (entry m) pt va')"
    and "k \<le> 3 \<Longrightarrow> walk (entry m') pt va' k = walk (entry m) pt va' k"
proof -
  have al: "page_aligned l4" using pt_wf_table [OF wf _ l4] by simp
  have E': "entry m' t i = (if t = l4 \<and> i = PAGEINDEX va 3 then v else entry m t i)"
    if "page_aligned t" "i < 512" for t i
    using that al by (simp add: m'_def entry_set_entry PAGEINDEX_less)
  note w = walk_set_leaf [OF wf l4 E']
  show "walk (entry m') pt va' k = walk (entry m) pt va' k" if "k \<le> 3" using w that by simp
  then have tab: "tables m' pt = tables m pt" by (simp add: tables_def w cong: conj_cong)
  have "l4 \<in> tables m pt" using l4 by (auto simp: tables_def)
  moreover have "m' x = m x" if "x \<notin> rgn l4 4096" for x
    using that entry_rgn [OF al PAGEINDEX_less] unfolding m'_def set_entry_def
    by (intro store64_apply_outside) blast
  ultimately show "pt_grows pt m U m' U"
    unfolding pt_grows_def tab using leaf_set_leaf(1) [OF wf l4 E'] w by auto
  show "leaf (entry m') pt va' = (if same_path 4 va va' then v else leaf (entry m) pt va')"
    by (rule leaf_set_leaf(2) [OF wf l4 E'])
qed

lemma pt_grows_insert:
  assumes wf: "pt_wf (entry m) pt U" and t: "walk (entry m) pt va k = Some t" "k < 3"
    and p: "page_aligned p" "p \<notin> U" and p': "p < MEMSIZE_PHYSICAL" "p \<noteq> 0"
    and absent: "entry m t (PAGEINDEX va k) AND PTE_P = 0"
    and m1: "\<And>x. x \<notin> rgn p 4096 \<Longrightarrow> m1 x = m x"
    and m'_def: "m' = memset p 0 4096 (set_entry t (PAGEINDEX va k) (PTE_ADDR p OR PTE_P OR PTE_W OR PTE_U) m1)"
  shows "pt_grows pt m U m' (insert p U)" and "leaf (entry m') pt va' = leaf (entry m) pt va'"
    and "walk (entry m') pt va (Suc k) = Some p"
proof -
  have al: "page_aligned t" "t \<in> U" using pt_wf_table [OF wf _ t(1)] t(2) by simp_all
  have m1e: "entry m1 s i = entry m s i" if "page_aligned s" "i < 512" "s \<noteq> p" for s i
    using m1 page_rgn_disjoint [OF that(1) p(1) that(3)] by (intro entry_cong [OF _ that(1,2)]) blast
  have ins: "inserted (entry m) (entry m') va k t p"
    unfolding inserted_def m'_def
    using al p by (auto simp: entry_memset entry_set_entry PAGEINDEX_less m1e)
  note w = walk_insert [OF wf t p ins]
  show wS: "walk (entry m') pt va (Suc k) = Some p" using w [of "Suc k" va] t(2) by simp
  show "leaf (entry m') pt va' = leaf (entry m) pt va'" by (rule leaf_insert [OF wf t p ins absent])
  have mono: "walk (entry m') pt va1 j = Some s" if "walk (entry m) pt va1 j = Some s" "j \<le> 3" for va1 j s
  proof (cases "k < j \<and> same_path (Suc k) va va1")
    case True
    then have "walk (entry m) pt va1 k = Some t" "entry m t (PAGEINDEX va1 k) AND PTE_P = 0"
      using t absent walk_same_path [of k va va1 "entry m" pt] by (simp_all add: same_path_Suc)
    then have "walk (entry m) pt va1 j = None" using True by (intro walk_absent) auto
    then show ?thesis using that by simp
  qed (use that w in auto)
  have sub: "tables m pt \<subseteq> tables m' pt" unfolding tables_def using mono by blast
  have sup: "tables m' pt \<subseteq> insert p (tables m pt)"
  proof
    fix s assume "s \<in> tables m' pt"
    then obtain a j where j: "j \<le> 3" "walk (entry m') pt a j = Some s" by (auto simp: tables_def)
    then have "s = p \<or> walk (entry m) pt a j = Some s" using w [of j a] by (auto split: if_splits)
    then show "s \<in> insert p (tables m pt)" using j(1) by (auto simp: tables_def)
  qed
  have "t \<in> tables m' pt" "p \<in> tables m' pt"
    using tablesI [OF wS] tablesI [OF mono [OF t(1)]] t(2) by auto
  moreover have "m' x = m x" if "x \<notin> rgn t 4096" "x \<notin> rgn p 4096" for x
  proof -
    have "x \<notin> rgn (t + 8 * of_nat (PAGEINDEX va k)) 8"
      using that entry_rgn [OF al(1) PAGEINDEX_less] by blast
    then show ?thesis using that m1 by (simp add: m'_def memset_outside set_entry_def store64_apply_outside)
  qed
  ultimately show "pt_grows pt m U m' (insert p U)"
    unfolding pt_grows_def using pt_wf_insert [OF wf t p ins p'] sub sup p(2) mono by auto
qed


section \<open>The mapping operations\<close>

lemma sane_full:
  assumes "pe AND 7 = 7" and "PTE_ADDR pe < MEMSIZE_PHYSICAL"
  shows "sane_entry pm pe"
proof -
  have "7 AND 2 = (2 :: uint64)" "7 AND 4 = (4 :: uint64)" by simp_all
  then have "pe AND 2 = 2" "pe AND 4 = 4" using assms(1) by (metis and.assoc)+
  then show ?thesis using assms(2) by (simp add: sane_entry_def pte_flags)
qed

text \<open>Indices and page numbers of 48-bit virtual addresses.\<close>

lemma PAGEINDEX_nat: "PAGEINDEX va k = unat va div 2 ^ (12 + (3 - k) * 9) mod 512"
proof -
  have "(0x1FF :: addr) = mask 9" by (simp add: mask_eq_decr_exp)
  then have "drop_bit n va AND 0x1FF = take_bit 9 (drop_bit n va)" for n
    by (simp only: take_bit_eq_mask)
  moreover have "unat va < 2 ^ 64" using unsigned_less [of va] by simp
  ultimately show ?thesis unfolding PAGEINDEX_def
    by (simp add: unsigned_take_bit_eq unsigned_drop_bit_eq)
      (simp add: take_bit_eq_mod drop_bit_eq_div)
qed

lemma same_path_div:
  assumes "unat va < 2 ^ 48" and "unat va' < 2 ^ 48" and "k \<le> 4"
  shows "same_path k va va' \<longleftrightarrow> unat va div 2 ^ (12 + (4 - k) * 9) = unat va' div 2 ^ (12 + (4 - k) * 9)"
  using assms(3)
proof (induction k)
  case 0
  then show ?case using assms by (simp add: same_path_def)
next
  case (Suc k)
  define s where "s = 12 + (3 - k) * (9 :: nat)"
  have s: "12 + (4 - k) * 9 = s + 9" "12 + (4 - Suc k) * 9 = s" using Suc.prems by (auto simp: s_def)
  have "unat x div 2 ^ (s + 9) = unat x div 2 ^ s div 512" for x :: addr
    by (simp add: power_add div_mult2_eq)
  moreover have "(a :: nat) = b \<longleftrightarrow> a div 512 = b div 512 \<and> a mod 512 = b mod 512" for a b
    by (metis div_mult_mod_eq)
  ultimately show ?case
    using Suc unfolding same_path_Suc s PAGEINDEX_nat s_def [symmetric] by (metis Suc_leD)
qed

text \<open>
  The cache of \<open>map_loop\<close>: a cached table is the level-4 table of every page with the cached index;
  a cached null pointer means that those pages have none and that nothing is to be mapped.
\<close>

definition cache_ok :: "mem \<Rightarrow> addr \<Rightarrow> uint64 \<Rightarrow> uint32 \<Rightarrow> addr \<Rightarrow> bool" where
  "cache_ok m pt pm last123 l4 \<longleftrightarrow> (l4 = 0 \<and> last123 = - 1) \<or>
     ((l4 = 0 \<longrightarrow> pm AND PTE_P = 0) \<and>
      (\<forall>va. unat va < 2 ^ 48 \<longrightarrow> ucast (drop_bit 21 va) = last123 \<longrightarrow>
         walk (entry m) pt va 3 = (if l4 = 0 then None else Some l4)))"

lemma index123:
  "unat (va :: addr) < 2 ^ 48 \<Longrightarrow> unat (ucast (drop_bit 21 va) :: uint32) = unat va div 2 ^ 21"
proof -
  assume "unat va < 2 ^ 48"
  then have "unat va div 2 ^ 21 < 2 ^ 27" by (simp add: less_mult_imp_div_less)
  moreover have "unat (drop_bit 21 va) = unat va div 2 ^ 21" by (simp add: drop_bit_eq_div unat_div)
  ultimately show ?thesis by (simp add: unsigned_ucast_eq take_bit_nat_eq_self)
qed

lemma index123_same_path:
  assumes "unat va < 2 ^ 48" and "unat va' < 2 ^ 48"
    and "ucast (drop_bit 21 va) = (ucast (drop_bit 21 va') :: uint32)"
  shows "same_path 3 va va'"
proof -
  have "unat va div 2 ^ 21 = unat va' div 2 ^ 21"
    using assms(3) index123 [OF assms(1)] index123 [OF assms(2)] by simp
  then show ?thesis using same_path_div [OF assms(1,2), of 3] by simp
qed

lemma cache_okI:
  assumes "walk (entry m) pt va 3 = (if l4 = 0 then None else Some l4)" and "unat va < 2 ^ 48"
    and "l4 = 0 \<longrightarrow> pm AND PTE_P = 0"
  shows "cache_ok m pt pm (ucast (drop_bit 21 va)) l4"
  unfolding cache_ok_def
  using assms walk_same_path [OF index123_same_path] by metis

text \<open>The entry that \<open>map_loop\<close> leaves for the page at offset \<open>off\<close> of its range.\<close>

definition mapped_entry :: "addr \<Rightarrow> uint64 \<Rightarrow> nat \<Rightarrow> uint64" where
  "mapped_entry pad pm off =
     (if pm AND PTE_P \<noteq> 0 then (pad + of_nat (off div 4096 * 4096)) OR pm else pm)"

lemma vam_of_absent: "pe AND PTE_P = 0 \<Longrightarrow> pe' AND PTE_P = 0 \<Longrightarrow> vam_of pe va = vam_of pe' va"
  by (simp add: vam_of_def)

lemma same_page:
  assumes "unat va < 2 ^ 48" and "unat va' < 2 ^ 48" and "unat va mod 4096 = 0"
  shows "same_path 4 va va' \<longleftrightarrow> unat va \<le> unat va' \<and> unat va' < unat va + 4096"
proof -
  have "same_path 4 va va' \<longleftrightarrow> unat va div 4096 = unat va' div 4096"
    using same_path_div [OF assms(1,2), of 4] by simp
  moreover have "unat va = 4096 * (unat va div 4096)" using assms(3) by auto
  moreover have "unat va' = 4096 * (unat va' div 4096) + unat va' mod 4096" "unat va' mod 4096 < 4096"
    by simp_all
  moreover have "a = b \<longleftrightarrow> 4096 * a \<le> 4096 * b + r \<and> 4096 * b + r < 4096 * a + 4096" if "r < 4096"
    for a b r :: nat
    using that by linarith
  ultimately show ?thesis by metis
qed

text \<open>One iteration of \<open>map_loop\<close> after the table of the page is known.\<close>

lemma map_page:
  assumes wf: "pt_wf (entry m) pt U" and "unat va < 2 ^ 48" and "unat va mod 4096 = 0"
    and l4: "walk (entry m) pt va 3 = (if l4 = 0 then None else Some l4)"
    and "l4 = 0 \<longrightarrow> pm AND PTE_P = 0"
    and m': "m' = (if l4 = 0 then m else set_entry l4 (PAGEINDEX va 3) (mapped_entry pad pm 0) m)"
  shows "pt_grows pt m U m' U" and "walk (entry m') pt va 3 = walk (entry m) pt va 3"
    and "unat va' < 2 ^ 48 \<Longrightarrow> vam_of (leaf (entry m') pt va') va' =
      vam_of (if unat va \<le> unat va' \<and> unat va' < unat va + 4096 then mapped_entry pad pm 0
              else leaf (entry m) pt va') va'"
proof -
  have "pt_grows pt m U m' U \<and> walk (entry m') pt va 3 = walk (entry m) pt va 3 \<and>
    (unat va' < 2 ^ 48 \<longrightarrow> vam_of (leaf (entry m') pt va') va' =
      vam_of (if unat va \<le> unat va' \<and> unat va' < unat va + 4096 then mapped_entry pad pm 0
              else leaf (entry m) pt va') va')"
  proof (cases "l4 = 0")
    case True
    have "leaf (entry m) pt va' = 0" if "unat va' < 2 ^ 48" "same_path 4 va va'"
    proof -
      have "same_path 3 va va'" using that(2) by (simp add: same_path_def)
      then have "walk (entry m) pt va' 3 = None" using walk_same_path l4 True by metis
      then show ?thesis by (simp add: leaf_def)
    qed
    then show ?thesis
      using True assms same_page [OF assms(2) _ assms(3)] vam_of_absent [of 0 pm]
      by (auto intro: pt_grows_refl simp: mapped_entry_def)
  next
    case False
    then have "walk (entry m) pt va 3 = Some l4" using l4 by simp
    from pt_grows_set_leaf [OF wf this, of m'] show ?thesis
      using False m' same_page [OF assms(2) _ assms(3)] by auto
  qed
  then show "pt_grows pt m U m' U" "walk (entry m') pt va 3 = walk (entry m) pt va 3"
      "unat va' < 2 ^ 48 \<Longrightarrow> vam_of (leaf (entry m') pt va') va' =
        vam_of (if unat va \<le> unat va' \<and> unat va' < unat va + 4096 then mapped_entry pad pm 0
              else leaf (entry m) pt va') va'"
    by auto
qed

lemma mapped_entry_next:
  assumes "4096 \<le> off"
  shows "mapped_entry (pad + 4096) pm (off - 4096) = mapped_entry pad pm off"
proof -
  have "off div 4096 * 4096 = 4096 + (off - 4096) div 4096 * 4096"
    using assms by (simp add: le_div_geq)
  then show ?thesis by (simp add: mapped_entry_def add.assoc)
qed

lemma mapped_entry_first: "off < 4096 \<Longrightarrow> mapped_entry pad pm off = mapped_entry pad pm 0"
  by (simp add: mapped_entry_def)

text \<open>
  The client lemmas of the page allocator's interface: descending and mapping with any
  allocator that meets the contract.
\<close>

text \<open>At most \<open>n\<close> more pages in use.\<close>

definition adds :: "nat \<Rightarrow> 'a set \<Rightarrow> 'a set \<Rightarrow> bool" where
  "adds n U U' \<longleftrightarrow> (\<exists>A. finite A \<and> card A \<le> n \<and> U' = U \<union> A)"

lemma adds_refl: "adds n U U"
  unfolding adds_def by (intro exI [of _ "{}"]) simp

lemma adds_insert: "adds 1 U (insert a U)"
  unfolding adds_def by (intro exI [of _ "{a}"]) simp

lemma adds_trans: "adds i U U' \<Longrightarrow> adds j U' U'' \<Longrightarrow> i + j \<le> n \<Longrightarrow> adds n U U''"
proof (unfold adds_def, elim exE conjE)
  fix A B assume "finite A" "card A \<le> i" "U' = U \<union> A" "finite B" "card B \<le> j" "U'' = U' \<union> B" "i + j \<le> n"
  then show "\<exists>A. finite A \<and> card A \<le> n \<and> U'' = U \<union> A"
    using card_Un_le [of A B] by (intro exI [of _ "A \<union> B"]) auto
qed

lemma adds_mono: "adds i U U' \<Longrightarrow> i \<le> n \<Longrightarrow> adds n U U'"
  by (rule adds_trans [OF _ adds_refl, of i _ _ 0]) auto

context page_source
begin

lemma new_table_spec:
  assumes "inv st" and "valid w" and wf: "pt_wf (entry (p_mem st)) pt (used st)"
    and t: "walk (entry (p_mem st)) pt va k = Some t" "k < 3"
    and absent: "entry (p_mem st) t (PAGEINDEX va k) AND PTE_P = 0"
  shows "\<exists>a pe st'. new_table t (PAGEINDEX va k) (alloc w) st = Some (a, pe, st') \<and> inv st' \<and>
     pt_grows pt (p_mem st) (used st) (p_mem st') (used st') \<and>
     (\<forall>va'. leaf (entry (p_mem st')) pt va' = leaf (entry (p_mem st)) pt va') \<and>
     adds 1 (used st) (used st') \<and> (a = 0 \<longrightarrow> st' = st \<and> alloc w st = (0, st)) \<and>
     (a \<noteq> 0 \<longrightarrow> PTE_ADDR pe = a \<and> sane_entry pm pe \<and> walk (entry (p_mem st')) pt va (Suc k) = Some a)"
proof -
  obtain a st1 where a: "alloc w st = (a, st1)" by force
  have inv1: "inv st1" using alloc_inv [OF assms(1,2)] a by simp
  show ?thesis
  proof (cases "a = 0")
    case True
    then have "st1 = st" using alloc_none [OF assms(1,2)] a by auto
    then show ?thesis using True a inv1 wf by (auto simp: new_table_def intro: pt_grows_refl adds_refl)
  next
    case nz: False
    let ?e = "PTE_ADDR a OR PTE_P OR PTE_W OR PTE_U"
    define st2 where "st2 = st1\<lparr>p_mem := memset a 0 4096 (set_entry t (PAGEINDEX va k) ?e (p_mem st1))\<rparr>"
    have fresh: "page_aligned a" "a < MEMSIZE_PHYSICAL" "a \<notin> used st" "used st1 = insert a (used st)"
      using alloc_fresh [OF assms(1,2) a nz] by auto
    have fr: "p_mem st1 x = p_mem st x" if "x \<notin> rgn a 4096" for x
      using alloc_frame [OF assms(1,2) a nz] that by (simp add: PAGESIZE_def)
    note g = pt_grows_insert [OF wf t fresh(1,3,2) nz absent fr, of "p_mem st2"]
    have "pt_grows pt (p_mem st) (used st) (p_mem st2) (used st2)"
        "leaf (entry (p_mem st2)) pt va' = leaf (entry (p_mem st)) pt va'"
        "walk (entry (p_mem st2)) pt va (Suc k) = Some a" for va'
      using g by (simp_all add: st2_def used_mem fresh(4))
    moreover have "sane_entry pm ?e" "PTE_ADDR ?e = a"
      using PTE_ADDR_or_7 [OF fresh(1)] fresh(2) by (auto intro: sane_full)
    moreover have "new_table t (PAGEINDEX va k) (alloc w) st = Some (a, ?e, st2)"
      using nz a fresh(1) by (simp add: new_table_def st2_def PAGESIZE_def page_aligned_unat Let_def)
    moreover have "inv st2" using inv1 by (simp add: st2_def inv_mem)
    moreover have "adds 1 (used st) (used st2)" using adds_insert [of "used st" a] fresh(4) by (simp add: st2_def used_mem)
    ultimately show ?thesis using nz by blast
  qed
qed

lemma descend_spec:
  assumes "inv st" and "valid w" and "allocator = None \<or> allocator = Some (alloc w)"
    and "pt_wf (entry (p_mem st)) pt (used st)"
    and "walk (entry (p_mem st)) pt va (3 - n) = Some t" and "n \<le> 3"
  shows "\<exists>l4 st'. descend n va pm allocator t st = Some (l4, st') \<and> inv st' \<and>
     pt_grows pt (p_mem st) (used st) (p_mem st') (used st') \<and>
     (\<forall>va'. leaf (entry (p_mem st')) pt va' = leaf (entry (p_mem st)) pt va') \<and>
     walk (entry (p_mem st')) pt va 3 = (if l4 = 0 then None else Some l4) \<and> adds n (used st) (used st') \<and>
     (l4 = 0 \<and> pm AND PTE_P \<noteq> 0 \<and> allocator \<noteq> None \<longrightarrow> alloc w st' = (0, st'))"
  using assms
proof (induction n arbitrary: t st)
  case 0
  then have "t \<noteq> 0" using pt_wf_table by fastforce
  then show ?case using 0 by (auto intro: pt_grows_refl adds_refl)
next
  case (Suc n)
  define k where "k = 2 - n"
  have k: "3 - Suc n = k" "Suc k = 3 - n" "k < 3" using Suc.prems(6) by (auto simp: k_def)
  note t = Suc.prems(5) [unfolded k(1)]
  let ?pe = "entry (p_mem st) t (PAGEINDEX va k)"
  have gone: "walk (entry (p_mem st)) pt va 3 = None" if "?pe AND PTE_P = 0"
    using walk_absent [OF t that k(3)] .
  show ?case
  proof (cases "?pe AND PTE_P \<noteq> 0")
    case True
    then have S: "walk (entry (p_mem st)) pt va (Suc k) = Some (PTE_ADDR ?pe)" using t by simp
    have "sane_entry pm ?pe"
      using pt_wf_full [OF Suc.prems(4) k(3) t True] pt_wf_table [OF Suc.prems(4) _ S] k
      by (intro sane_full) auto
    then have "descend (Suc n) va pm allocator t st = descend n va pm allocator (PTE_ADDR ?pe) st"
      using True by (simp add: k_def Let_def)
    moreover have "\<exists>l4 st'. descend n va pm allocator (PTE_ADDR ?pe) st = Some (l4, st') \<and> inv st' \<and>
       pt_grows pt (p_mem st) (used st) (p_mem st') (used st') \<and>
       (\<forall>va'. leaf (entry (p_mem st')) pt va' = leaf (entry (p_mem st)) pt va') \<and>
       walk (entry (p_mem st')) pt va 3 = (if l4 = 0 then None else Some l4) \<and> adds n (used st) (used st') \<and>
       (l4 = 0 \<and> pm AND PTE_P \<noteq> 0 \<and> allocator \<noteq> None \<longrightarrow> alloc w st' = (0, st'))"
      by (rule Suc.IH [OF Suc.prems(1-4)]) (use S k Suc.prems(6) in simp_all)
    ultimately show ?thesis using adds_mono [of n _ _ "Suc n"] by (metis le_SucI order_refl)
  next
    case False
    show ?thesis
    proof (cases "pm AND PTE_P = 0 \<or> allocator = None")
      case True
      then have "descend (Suc n) va pm allocator t st = Some (0, st)"
        using False by (auto simp: k_def Let_def)
      then show ?thesis using Suc.prems gone t False True by (auto intro: pt_grows_refl adds_refl)
    next
      case some: False
      obtain a pe st2 where nt: "new_table t (PAGEINDEX va k) (alloc w) st = Some (a, pe, st2)"
        "inv st2" "pt_grows pt (p_mem st) (used st) (p_mem st2) (used st2)"
        "\<forall>va'. leaf (entry (p_mem st2)) pt va' = leaf (entry (p_mem st)) pt va'"
        "a \<noteq> 0 \<longrightarrow> PTE_ADDR pe = a \<and> sane_entry pm pe \<and> walk (entry (p_mem st2)) pt va (Suc k) = Some a"
        "a = 0 \<longrightarrow> st2 = st \<and> alloc w st = (0, st)" "adds 1 (used st) (used st2)"
        using new_table_spec [OF Suc.prems(1,2,4) t k(3)] False by blast
      have al: "allocator = Some (alloc w)" using some Suc.prems(3) by auto
      show ?thesis
      proof (cases "a = 0")
        case True
        then have "descend (Suc n) va pm allocator t st = Some (0, st2)"
          using False some al nt(1) by (simp add: k_def Let_def)
        then show ?thesis using gone False nt True by (auto intro: adds_refl)
      next
        case nz: False
        have eq: "descend (Suc n) va pm allocator t st = descend n va pm allocator a st2"
          using False some nz al nt(1,5) by (simp add: k_def Let_def)
        have "pt_wf (entry (p_mem st2)) pt (used st2)" using nt(3) by (simp add: pt_grows_def)
        then obtain l4 st' where "descend n va pm allocator a st2 = Some (l4, st')" "inv st'"
            "pt_grows pt (p_mem st2) (used st2) (p_mem st') (used st')"
            "\<forall>va'. leaf (entry (p_mem st')) pt va' = leaf (entry (p_mem st2)) pt va'"
            "walk (entry (p_mem st')) pt va 3 = (if l4 = 0 then None else Some l4)" "adds n (used st2) (used st')"
            "l4 = 0 \<and> pm AND PTE_P \<noteq> 0 \<and> allocator \<noteq> None \<longrightarrow> alloc w st' = (0, st')"
          using Suc.IH [OF nt(2) Suc.prems(2,3), of a] nt(5) nz k(2) Suc.prems(6) by auto
        then show ?thesis
          using eq nt(4) pt_grows_trans [OF nt(3)] adds_trans [OF nt(7), of n "used st'" "Suc n"]
          by (auto simp del: descend.simps)
      qed
    qed
  qed
qed

lemma cached_or_looked_up:
  assumes "inv st" and "valid w" and "allocator = None \<or> allocator = Some (alloc w)"
    and "pt_wf (entry (p_mem st)) pt (used st)" and "unat va < 2 ^ 48"
    and "cache_ok (p_mem st) pt pm last123 l4"
  shows "\<exists>l4' st'. (if ucast (drop_bit 21 va) \<noteq> last123 then lookup_l4pagetable pt va pm allocator st
                    else Some (l4, st)) = Some (l4', st') \<and> inv st' \<and>
     pt_grows pt (p_mem st) (used st) (p_mem st') (used st') \<and>
     (\<forall>va'. leaf (entry (p_mem st')) pt va' = leaf (entry (p_mem st)) pt va') \<and>
     walk (entry (p_mem st')) pt va 3 = (if l4' = 0 then None else Some l4') \<and> adds 3 (used st) (used st') \<and>
     (l4' = 0 \<and> pm AND PTE_P \<noteq> 0 \<and> allocator \<noteq> None \<longrightarrow> alloc w st' = (0, st'))"
proof (cases "ucast (drop_bit 21 va) = last123")
  case True
  have "unat va div 2 ^ 21 < 2 ^ 27" using assms(5) by (simp add: less_mult_imp_div_less)
  then have "ucast (drop_bit 21 va) \<noteq> (- 1 :: uint32)"
    using index123 [OF assms(5)] by (auto simp: unsigned_minus_1_eq_mask mask_eq_exp_minus_1)
  then have "walk (entry (p_mem st)) pt va 3 = (if l4 = 0 then None else Some l4)" "l4 = 0 \<longrightarrow> pm AND PTE_P = 0"
    using assms(5,6) True by (auto simp: cache_ok_def)
  then show ?thesis using True assms(1,4) by (auto intro: pt_grows_refl adds_refl)
next
  case False
  then show ?thesis
    using descend_spec [OF assms(1-4), of va 3 pt pm] by (simp add: lookup_l4pagetable_def)
qed

lemma map_loop_spec:
  assumes "inv st" and "valid w" and "allocator = None \<or> allocator = Some (alloc w)"
    and "pt_wf (entry (p_mem st)) pt (used st)" and "unat va + n * 4096 \<le> 2 ^ 48"
    and "unat va mod 4096 = 0" and "cache_ok (p_mem st) pt pm last123 l4"
  shows "\<exists>r st'. map_loop n pt va pad pm allocator last123 l4 st = Some (r, st') \<and>
    (r = 0 \<or> r = - 1 \<and> pm AND PTE_P \<noteq> 0 \<and> (allocator \<noteq> None \<longrightarrow> alloc w st' = (0, st')) \<and>
       (\<exists>va'. unat va \<le> unat va' \<and> unat va' < unat va + n * 4096 \<and> walk (entry (p_mem st')) pt va' 3 = None)) \<and>
    inv st' \<and> pt_grows pt (p_mem st) (used st) (p_mem st') (used st') \<and> adds (3 * n) (used st) (used st') \<and>
    (\<forall>va'. unat va' < 2 ^ 48 \<longrightarrow>
       (if unat va \<le> unat va' \<and> unat va' < unat va + n * 4096
        then r = 0 \<longrightarrow> vam_of (leaf (entry (p_mem st')) pt va') va' =
                       vam_of (mapped_entry pad pm (unat va' - unat va)) va'
        else vam_of (leaf (entry (p_mem st')) pt va') va' = vam_of (leaf (entry (p_mem st)) pt va') va'))"
  using assms
proof (induction n arbitrary: va pad last123 l4 st)
  case 0
  then show ?case by (auto intro: pt_grows_refl adds_refl)
next
  case (Suc n)
  note prems = Suc.prems
  have va: "unat va < 2 ^ 48" using prems(5) by simp
  obtain l4' st1 where st1: "(if ucast (drop_bit 21 va) \<noteq> last123
        then lookup_l4pagetable pt va pm allocator st else Some (l4, st)) = Some (l4', st1)"
      "inv st1" "pt_grows pt (p_mem st) (used st) (p_mem st1) (used st1)"
      "\<forall>va'. leaf (entry (p_mem st1)) pt va' = leaf (entry (p_mem st)) pt va'"
      "walk (entry (p_mem st1)) pt va 3 = (if l4' = 0 then None else Some l4')" "adds 3 (used st) (used st1)"
      "l4' = 0 \<and> pm AND PTE_P \<noteq> 0 \<and> allocator \<noteq> None \<longrightarrow> alloc w st1 = (0, st1)"
    using cached_or_looked_up [OF prems(1-4) va prems(7)] by blast
  have wf1: "pt_wf (entry (p_mem st1)) pt (used st1)" using st1(3) by (simp add: pt_grows_def)
  show ?case
  proof (cases "pm AND PTE_P \<noteq> 0 \<and> l4' = 0")
    case True
    then have "map_loop (Suc n) pt va pad pm allocator last123 l4 st = Some (- 1, st1)"
      using st1(1) by (simp add: Let_def)
    moreover have "\<exists>va'. unat va \<le> unat va' \<and> unat va' < unat va + Suc n * 4096 \<and> walk (entry (p_mem st1)) pt va' 3 = None"
      using st1(5) True by (intro exI [of _ va]) auto
    ultimately show ?thesis using True st1(2-4,6,7) adds_mono [OF st1(6), of "3 * Suc n"] by auto
  next
    case False
    define st2 where "st2 = (if l4' = 0 then st1
      else st1\<lparr>p_mem := set_entry l4' (PAGEINDEX va 3) (mapped_entry pad pm 0) (p_mem st1)\<rparr>)"
    have m2: "p_mem st2 = (if l4' = 0 then p_mem st1
        else set_entry l4' (PAGEINDEX va 3) (mapped_entry pad pm 0) (p_mem st1))"
      and u2: "used st2 = used st1" and inv2: "inv st2"
      using st1(2) by (simp_all add: st2_def used_mem inv_mem)
    have l4': "l4' = 0 \<longrightarrow> pm AND PTE_P = 0" using False by auto
    note mp = map_page [OF wf1 va prems(6) st1(5) l4' m2]
    have wf2: "pt_wf (entry (p_mem st2)) pt (used st2)" using mp(1) u2 by (simp add: pt_grows_def)
    have va4: "unat (va + 4096) = unat va + 4096"
      using prems(5) by (simp add: unat_word_ariths)
    have step: "map_loop (Suc n) pt va pad pm allocator last123 l4 st =
        map_loop n pt (va + 4096) (pad + 4096) pm allocator (ucast (drop_bit 21 va)) l4' st2"
      using st1(1) False by (auto simp: Let_def st2_def mapped_entry_def PAGESIZE_def)
    have c2: "cache_ok (p_mem st2) pt pm (ucast (drop_bit 21 va)) l4'"
      using mp(2) st1(5) va l4' by (intro cache_okI) simp_all
    have range2: "unat (va + 4096) + n * 4096 \<le> 2 ^ 48" "unat (va + 4096) mod 4096 = 0"
      using prems(5,6) va4 by simp_all
    obtain r st' where fin: "map_loop n pt (va + 4096) (pad + 4096) pm allocator (ucast (drop_bit 21 va)) l4' st2
          = Some (r, st')" "r = 0 \<or> r = - 1 \<and> pm AND PTE_P \<noteq> 0 \<and> (allocator \<noteq> None \<longrightarrow> alloc w st' = (0, st')) \<and>
            (\<exists>va'. unat va + 4096 \<le> unat va' \<and> unat va' < unat va + 4096 + n * 4096 \<and>
               walk (entry (p_mem st')) pt va' 3 = None)" "inv st'"
        "pt_grows pt (p_mem st2) (used st2) (p_mem st') (used st')"
        "\<And>va'. unat va' < 2 ^ 48 \<Longrightarrow>
           (if unat va + 4096 \<le> unat va' \<and> unat va' < unat va + 4096 + n * 4096
            then r = 0 \<longrightarrow> vam_of (leaf (entry (p_mem st')) pt va') va' =
                           vam_of (mapped_entry (pad + 4096) pm (unat va' - (unat va + 4096))) va'
            else vam_of (leaf (entry (p_mem st')) pt va') va' = vam_of (leaf (entry (p_mem st2)) pt va') va')"
        "adds (3 * n) (used st2) (used st')"
      using Suc.IH [OF inv2 prems(2,3) wf2 range2 c2, of "pad + 4096"] unfolding va4 by blast
    have "pt_grows pt (p_mem st) (used st) (p_mem st') (used st')"
      using pt_grows_trans [OF st1(3)] mp(1) fin(4) pt_grows_trans u2 by metis
    moreover have "if unat va \<le> unat va' \<and> unat va' < unat va + Suc n * 4096
        then r = 0 \<longrightarrow> vam_of (leaf (entry (p_mem st')) pt va') va' =
                       vam_of (mapped_entry pad pm (unat va' - unat va)) va'
        else vam_of (leaf (entry (p_mem st')) pt va') va' = vam_of (leaf (entry (p_mem st)) pt va') va'"
      if "unat va' < 2 ^ 48" for va'
      using fin(5) [OF that] mp(3) [OF that] st1(4)
        mapped_entry_next [of "unat va' - unat va" pad pm] mapped_entry_first [of "unat va' - unat va" pad pm]
      by (auto split: if_splits)
    moreover have "adds (3 * Suc n) (used st) (used st')" using adds_trans [OF st1(6) fin(6) [unfolded u2]] by simp
    moreover have "r = 0 \<or> r = - 1 \<and> pm AND PTE_P \<noteq> 0 \<and> (allocator \<noteq> None \<longrightarrow> alloc w st' = (0, st')) \<and>
       (\<exists>va'. unat va \<le> unat va' \<and> unat va' < unat va + Suc n * 4096 \<and> walk (entry (p_mem st')) pt va' 3 = None)"
    proof -
      have "unat va \<le> unat va' \<and> unat va' < unat va + Suc n * 4096"
        if "unat va + 4096 \<le> unat va'" "unat va' < unat va + 4096 + n * 4096" for va' :: addr using that by simp
      then show ?thesis using fin(2) by blast
    qed
    ultimately show ?thesis using fin(1,3) unfolding step by blast
  qed
qed

end

section \<open>What a mapped entry looks up to\<close>

lemma mask12: "(0xFFF :: addr) = mask 12"
  by (simp add: mask_eq_decr_exp)

lemma small_word: "r < 0x1000 \<Longrightarrow> r AND 0xFFF = r \<and> r AND NOT 0xFFF = 0 \<and> drop_bit 12 r = (0 :: addr)"
proof -
  assume "r < 0x1000"
  then have "unat r < 4096" by (simp add: word_less_nat_alt)
  then have r: "take_bit 12 r = r"
    by (simp add: word_unat_eq_iff unsigned_take_bit_eq take_bit_nat_eq_self)
  then have "r AND 0xFFF = r" by (simp only: mask12 take_bit_eq_mask)
  moreover have "(r AND 0xFFF) AND NOT 0xFFF = 0" by (simp only: and.assoc bit.conj_cancel_right and_zero_eq)
  moreover have "drop_bit 12 (take_bit 12 r) = 0" by (simp only: drop_bit_take_bit) simp
  ultimately show ?thesis using r by simp
qed

lemma page_plus_offset: "page_aligned A \<Longrightarrow> r < 0x1000 \<Longrightarrow> A + r = A OR r"
proof -
  assume "page_aligned A" and "r < 0x1000"
  then have "r AND 0xFFF = r" "A AND 0xFFF = 0" using small_word [of r] by (simp_all add: page_aligned_def)
  then have "A AND r = A AND (0xFFF AND r)" by (metis and.commute)
  also have "\<dots> = (A AND 0xFFF) AND r" by (rule and.assoc [symmetric])
  also have "\<dots> = 0" using \<open>A AND 0xFFF = 0\<close> by simp
  finally have "A AND r = 0" .
  then show ?thesis using word_plus_and_or [of A r] by simp
qed

lemma entry_parts:
  assumes "page_aligned A" and "f < 0x1000" and "r < 0x1000"
  shows "PTE_ADDR (A OR f) = A" and "PTE_FLAGS (A OR f) = f" and "PAGENUMBER (A OR f) = PAGENUMBER (A + r)"
proof -
  have A: "A AND 0xFFF = 0" using assms(1) by (simp add: page_aligned_def)
  have "A = (A AND 0xFFF) OR (A AND NOT 0xFFF)"
    by (metis bit.conj_disj_distrib bit.disj_cancel_right and.right_neutral)
  then have "A AND NOT 0xFFF = A" using A by (metis or.left_neutral)
  then show "PTE_ADDR (A OR f) = A"
    using small_word [OF assms(2)] unfolding PTE_ADDR_def by (simp only: bit.conj_disj_distrib2 or.right_neutral)
  show "PTE_FLAGS (A OR f) = f"
    using small_word [OF assms(2)] A unfolding PTE_FLAGS_def by (simp only: bit.conj_disj_distrib2 or.left_neutral)
  show "PAGENUMBER (A OR f) = PAGENUMBER (A + r)"
    using small_word [OF assms(2)] small_word [OF assms(3)]
    by (simp add: PAGENUMBER_def page_plus_offset [OF assms(1,3)] drop_bit_or)
qed

lemma vam_of_mapped:
  assumes "page_aligned pad" and "page_aligned va" and "unat va \<le> unat va'"
    and "scast pm < (0x1000 :: uint64)"
  shows "vam_of (mapped_entry pad (scast pm) (unat va' - unat va)) va' =
    (if scast pm AND PTE_P \<noteq> 0
     then \<lparr>vam_pn = PAGENUMBER (pad + (va' - va)), vam_pa = pad + (va' - va), vam_perm = pm\<rparr>
     else \<lparr>vam_pn = - 1, vam_pa = - 1, vam_perm = 0\<rparr>)"
proof (cases "scast pm AND PTE_P = 0")
  case True
  then show ?thesis by (simp add: vam_of_def mapped_entry_def)
next
  case False
  define off where "off = unat va' - unat va"
  define A where "A = pad + of_nat (off div 4096 * 4096)"
  define r where "r = PAGEOFFSET va'"
  have off: "va' - va = of_nat off" using assms(3) by (simp add: off_def of_nat_diff)
  have ur: "unat r = unat va' mod 4096"
    unfolding r_def PAGEOFFSET_def mask12
    by (simp only: take_bit_eq_mask [symmetric] unsigned_take_bit_eq) (simp add: take_bit_eq_mod)
  also have m: "\<dots> = off mod 4096"
    using assms(2,3) unfolding off_def page_aligned_unat
    by (metis le_add_diff_inverse mod_add_left_eq add_0)
  finally have r: "r = of_nat (off mod 4096)" by (metis of_nat_unat ucast_id)
  have "unat r < 4096" unfolding ur by simp
  then have r': "r < 0x1000" by (simp add: word_less_nat_alt)
  have A: "page_aligned A"
  proof -
    have "unat A mod 4096 = (unat pad + off div 4096 * 4096) mod 4096"
      unfolding A_def by (simp add: unat_word_ariths unat_of_nat mod_mod_cancel mod_add_eq mod_add_right_eq)
    then show ?thesis using assms(1) by (simp add: page_aligned_unat)
  qed
  have "of_nat (off div 4096 * 4096) + of_nat (off mod 4096) = (of_nat off :: addr)"
    by (metis div_mult_mod_eq of_nat_add)
  then have sum: "A + r = pad + (va' - va)" unfolding A_def r off by (simp add: add.assoc)
  have me: "mapped_entry pad (scast pm) off = A OR scast pm"
    using False by (simp only: mapped_entry_def A_def not_False_eq_True if_True)
  have "(A OR scast pm) AND PTE_P \<noteq> 0"
    using False by (metis bit.conj_disj_distrib2 or_eq_0_iff)
  moreover have "ucast (scast pm :: uint64) = pm" by (rule bit_word_eqI) (simp add: bit_simps)
  ultimately show ?thesis
    using entry_parts [OF A assms(4) r'] False sum me
    by (simp add: vam_of_def off_def [symmetric] r_def [symmetric])
qed

section \<open>Independence of other page tables\<close>

lemma walk_frame:
  assumes wf: "pt_wf (entry m) pt U" and same: "\<And>t x. t \<in> tables m pt \<Longrightarrow> x \<in> rgn t 4096 \<Longrightarrow> m' x = m x"
    and "k \<le> 3"
  shows "walk (entry m') pt va k = walk (entry m) pt va k"
  using \<open>k \<le> 3\<close>
proof (induction k)
  case (Suc k)
  show ?case
  proof (cases "walk (entry m) pt va k")
    case (Some t)
    then have "t \<in> tables m pt" "page_aligned t"
      using Suc.prems pt_wf_table [OF wf _ Some] tablesI [OF Some] by auto
    then have "entry m' t (PAGEINDEX va k) = entry m t (PAGEINDEX va k)"
      using same by (intro entry_cong) (auto simp: PAGEINDEX_less)
    then show ?thesis using Suc Some by simp
  qed (use Suc in simp)
qed simp

lemma table_frame:
  assumes wf: "pt_wf (entry m) pt U" and "U \<subseteq> U'"
    and same: "\<And>t x. t \<in> tables m pt \<Longrightarrow> x \<in> rgn t 4096 \<Longrightarrow> m' x = m x"
  shows "pt_wf (entry m') pt U'" and "leaf (entry m') pt va = leaf (entry m) pt va"
proof -
  have w: "walk (entry m') pt va k = walk (entry m) pt va k" if "k \<le> 3" for va k
    using same by (intro walk_frame [OF wf _ that])
  have e: "entry m' t i = entry m t i" if "walk (entry m) pt va k = Some t" "k \<le> 3" "i < 512" for va k t i
    using same tablesI [OF that(1,2)] that(3) pt_wf_table [OF wf that(2,1)] by (intro entry_cong) auto
  show "leaf (entry m') pt va = leaf (entry m) pt va"
    by (auto simp: leaf_def w e PAGEINDEX_less split: option.split)
  have full: "entry m' t (PAGEINDEX va k) AND 7 = 7"
    if "k < 3" "walk (entry m') pt va k = Some t" "entry m' t (PAGEINDEX va k) AND PTE_P \<noteq> 0" for va k t
    using that e [of va k t] w [where k = k and va = va] pt_wf_full [OF wf that(1), of va t] by (simp add: PAGEINDEX_less)
  have table: "t \<in> U' \<and> page_aligned t \<and> t < MEMSIZE_PHYSICAL \<and> t \<noteq> 0"
    if "walk (entry m') pt va k = Some t" "k \<le> 3" for va k t
    using that w [where k = k and va = va] pt_wf_table [OF wf, of k va t] assms(2) by auto
  have path: "k = k' \<and> same_path k va va'"
    if "walk (entry m') pt va k = Some t" "walk (entry m') pt va' k' = Some t" "k \<le> 3" "k' \<le> 3"
    for va va' k k' t
    using that w [where k = k and va = va] w [where k = k' and va = va'] pt_wf_path [OF wf, of va k t va' k'] by auto
  show "pt_wf (entry m') pt U'" unfolding pt_wf_def using table path full by blast
qed

lemma grows_keeps_other_table:
  assumes g: "pt_grows pt m U m' U'" and wf: "pt_wf (entry m) pt U" and wf2: "pt_wf (entry m) pt2 U"
    and disj: "tables m pt \<inter> tables m pt2 = {}"
  shows "pt_wf (entry m') pt2 U'" and "leaf (entry m') pt2 va = leaf (entry m) pt2 va"
    and "tables m' pt \<inter> tables m' pt2 = {}"
proof -
  have al: "page_aligned t" "t \<in> U" if "t \<in> tables m pt2" for t
    using that pt_wf_table [OF wf2] by (auto simp: tables_def)
  have al': "page_aligned t" if "t \<in> tables m' pt" for t
    using g that by (auto simp: tables_def pt_grows_def dest: pt_wf_table)
  have disj': "tables m' pt \<inter> tables m pt2 = {}" using g disj al unfolding pt_grows_def by blast
  have same: "m' x = m x" if "t \<in> tables m pt2" "x \<in> rgn t 4096" for t x
  proof -
    have "x \<notin> rgn s 4096" if "s \<in> tables m' pt" for s
    proof -
      have "s \<noteq> t" using disj' that \<open>t \<in> tables m pt2\<close> by blast
      then show ?thesis
        using page_rgn_disjoint [OF al' [OF that] al(1) [OF \<open>t \<in> tables m pt2\<close>]] \<open>x \<in> rgn t 4096\<close> by blast
    qed
    then show ?thesis using g unfolding pt_grows_def by blast
  qed
  have U: "U \<subseteq> U'" using g by (simp add: pt_grows_def)
  show "pt_wf (entry m') pt2 U'" by (rule table_frame(1) [OF wf2 U same])
  show "leaf (entry m') pt2 va = leaf (entry m) pt2 va" by (rule table_frame(2) [OF wf2 U same])
  have "tables m' pt2 = tables m pt2"
    using walk_frame [OF wf2 same] by (simp add: tables_def cong: conj_cong)
  then show "tables m' pt \<inter> tables m' pt2 = {}" using disj' by simp
qed

section \<open>Properties\<close>

lemma map_asserts_facts:
  assumes "map_asserts pt va pad sz pm"
  shows "page_aligned va" and "unat va mod 4096 = 0" and "unat sz div 4096 * 4096 = unat sz" and "pm < 0x1000"
    and "pm AND PTE_P \<noteq> 0 \<Longrightarrow> page_aligned pad"
  using assms by (auto simp: map_asserts_def page_aligned_unat PAGESIZE_def)

lemma descend_present:
  assumes wf: "pt_wf (entry (p_mem st)) pt U" and "walk (entry (p_mem st)) pt va (3 - n) = Some t" and "n \<le> 3"
    and l4: "walk (entry (p_mem st)) pt va 3 = Some l4"
  shows "descend n va pm allocator t st = Some (l4, st)"
  using assms(2,3)
proof (induction n arbitrary: t)
  case 0
  then show ?case using l4 by simp
next
  case (Suc n)
  define k where "k = 2 - n"
  have k: "3 - Suc n = k" "Suc k = 3 - n" "k < 3" using Suc.prems(2) by (auto simp: k_def)
  note t = Suc.prems(1) [unfolded k(1)]
  let ?pe = "entry (p_mem st) t (PAGEINDEX va k)"
  have p: "?pe AND PTE_P \<noteq> 0" using walk_absent [OF t _ k(3)] l4 by auto
  then have S: "walk (entry (p_mem st)) pt va (Suc k) = Some (PTE_ADDR ?pe)" using t by simp
  have "sane_entry pm ?pe"
    using pt_wf_full [OF wf k(3) t p] pt_wf_table [OF wf _ S] k by (intro sane_full) auto
  moreover have "descend n va pm allocator (PTE_ADDR ?pe) st = Some (l4, st)"
    using Suc.IH [of "PTE_ADDR ?pe"] S k(2) Suc.prems(2) by simp
  ultimately show ?case using p by (simp add: k_def Let_def)
qed

context page_source
begin

lemma map_spec:
  assumes "inv st" and "valid w" and "allocator = None \<or> allocator = Some (alloc w)"
    and "pt_wf (entry (p_mem st)) pt (used st)"
    and a: "map_asserts pt va pad sz (scast pm)" and "unat va + unat sz \<le> 2 ^ 48"
  shows "\<exists>r st'. virtual_memory_map pt va pad sz pm allocator st = Some (r, st') \<and>
    (r = 0 \<or> r = - 1 \<and> (scast pm :: uint64) AND PTE_P \<noteq> 0 \<and> (allocator \<noteq> None \<longrightarrow> alloc w st' = (0, st')) \<and>
       (\<exists>va'. unat va \<le> unat va' \<and> unat va' < unat va + unat sz \<and> walk (entry (p_mem st')) pt va' 3 = None)) \<and>
    inv st' \<and> pt_grows pt (p_mem st) (used st) (p_mem st') (used st') \<and>
    adds (3 * (unat sz div 4096)) (used st) (used st') \<and>
    (\<forall>va'. unat va' < 2 ^ 48 \<longrightarrow>
       (if unat va \<le> unat va' \<and> unat va' < unat va + unat sz
        then r = 0 \<longrightarrow> vam_of (leaf (entry (p_mem st')) pt va') va' =
                       vam_of (mapped_entry pad (scast pm) (unat va' - unat va)) va'
        else vam_of (leaf (entry (p_mem st')) pt va') va' = vam_of (leaf (entry (p_mem st)) pt va') va'))"
proof -
  have "unat va + unat sz div 4096 * 4096 \<le> 2 ^ 48"
    using assms(6) map_asserts_facts(3) [OF a] by simp
  moreover have "cache_ok (p_mem st) pt (scast pm) (- 1) 0" by (simp add: cache_ok_def)
  ultimately show ?thesis
    using map_loop_spec [OF assms(1-4) _ map_asserts_facts(2) [OF a], of "unat sz div 4096" "scast pm" "- 1" 0 pad]
      a by (simp add: virtual_memory_map_def PAGESIZE_def map_asserts_facts(3) [OF a])
qed

end

lemmas virtual_memory_map_spec = page_alloc.map_spec


lemma pt_wf_empty:
  assumes "\<And>i. i < 512 \<Longrightarrow> E pt i = 0" and "pt \<in> U" and "page_aligned pt" and "pt < MEMSIZE_PHYSICAL" and "pt \<noteq> 0"
  shows "pt_wf E pt U"
proof -
  have "walk E pt va k = (if k = 0 then Some pt else None)" for va k
    by (induction k) (auto simp: assms(1) PAGEINDEX_less)
  then show ?thesis using assms by (auto simp: pt_wf_def same_path_def PAGEINDEX_less split: if_splits)
qed

text \<open>
  The page table at the kernel page 0x40000 of the initial state, whose memory is zero, for
  the witnesses.
\<close>

lemma initial_table_wf:
  assumes "kend = 0x60000" and "pt = 0x40000 \<or> pt = 0x41000"
  shows "pt_wf (entry (p_mem (pageinfo_init kend boot_phys))) pt (used_pages (pageinfo_init kend boot_phys))"
proof (rule pt_wf_empty)
  have m: "p_mem (pageinfo_init kend boot_phys) = (\<lambda>_. 0)"
    by (simp add: pageinfo_init_spec boot_phys_def)
  show "entry (p_mem (pageinfo_init kend boot_phys)) pt i = 0" for i
    by (simp add: entry_def m load64_zero)
  define pn where "pn = unat (PAGENUMBER pt)"
  have pt: "pt < MEMSIZE_PHYSICAL" "page_aligned pt" "pt \<noteq> 0"
    using assms(2) by (auto simp: page_aligned_unat MEMSIZE_PHYSICAL_def)
  then show "pt < MEMSIZE_PHYSICAL" "page_aligned pt" "pt \<noteq> 0" by simp_all
  have pn: "PAGEADDRESS pn = pt" "pn < NPAGES"
    using PAGEADDRESS_PAGENUMBER [OF pt(2,1)] unat_PAGENUMBER [OF pt(1)] assms(2)
    by (auto simp: pn_def NPAGES_def)
  have "owner (initial_pageinfo kend pn) = PO_KERNEL"
    using assms by (auto simp: initial_pageinfo_def pn(1) initial_owner_def Let_def
        physical_memory_isreserved_def page_consts)
  then have "\<not> free_page (pageinfo_init kend boot_phys) pn"
    using pn(2) by (simp add: free_page_def boot_phys_init_nth owner_consts)
  then show "pt \<in> used_pages (pageinfo_init kend boot_phys)"
    using pn by (auto simp: used_pages_def)
qed



lemma initial_tables: "tables (p_mem (pageinfo_init kend boot_phys)) pt = {pt}"
proof -
  have "p_mem (pageinfo_init kend boot_phys) = (\<lambda>_. 0)"
    by (simp add: pageinfo_init_spec boot_phys_def)
  then have "walk (entry (p_mem (pageinfo_init kend boot_phys))) pt va k = (if k = 0 then Some pt else None)"
    for va k by (induction k) (auto simp: entry_def load64_zero)
  then show ?thesis by (auto simp: tables_def)
qed


end
