(* ===== verification/Kernel_State.thy ===== *)
theory Kernel_State
  imports Hardware Virtual_Memory
begin

unbundle bit_operations_syntax

text \<open>
  The state of the kernel: the static variables of \<^verbatim>\<open>kernel/*.c\<close> in one record, with the state \<open>hw\<close> of
  the devices, and the operations that lift device code and memory code to it. What the linker
  provides (addresses of symbols, the program images) is the parameter \<open>img\<close>. Console output of the
  kernel is the list of the calls it made (\<open>console_calls\<close>, newest first): what a call does to the
  display memory is the subject of the theory \<open>Printing\<close>. Log messages are left out.
\<close>

section \<open>Process descriptors\<close>

record x86_64_registers =
  reg_rax :: uint64
  reg_rcx :: uint64
  reg_rdx :: uint64
  reg_rbx :: uint64
  reg_rbp :: uint64
  reg_rsi :: uint64
  reg_rdi :: uint64
  reg_r8 :: uint64
  reg_r9 :: uint64
  reg_r10 :: uint64
  reg_r11 :: uint64
  reg_r12 :: uint64
  reg_r13 :: uint64
  reg_r14 :: uint64
  reg_r15 :: uint64
  reg_fs :: uint64
  reg_gs :: uint64
  reg_intno :: uint64
  reg_err :: uint64
  reg_rip :: uint64
  reg_cs :: uint16
  reg_rflags :: uint64
  reg_rsp :: uint64
  reg_ss :: uint16

definition zero_registers :: x86_64_registers where
  "zero_registers = \<lparr>reg_rax = 0, reg_rcx = 0, reg_rdx = 0, reg_rbx = 0, reg_rbp = 0, reg_rsi = 0, reg_rdi = 0,
     reg_r8 = 0, reg_r9 = 0, reg_r10 = 0, reg_r11 = 0, reg_r12 = 0, reg_r13 = 0, reg_r14 = 0, reg_r15 = 0,
     reg_fs = 0, reg_gs = 0, reg_intno = 0, reg_err = 0, reg_rip = 0, reg_cs = 0, reg_rflags = 0,
     reg_rsp = 0, reg_ss = 0\<rparr>"

datatype procstate = P_FREE | P_RUNNABLE | P_BLOCKED | P_BROKEN

text \<open>
  The pointers \<open>p_wait_exit_code\<close>, \<open>p_pagetable\<close> and \<open>fd_list\<close> are addresses; \<open>p_cwd\<close> is the array of 256
  characters.
\<close>

record proc =
  p_pid :: uint32
  p_parent :: uint32
  p_registers :: x86_64_registers
  p_state :: procstate
  p_wait_pid :: uint32
  p_wait_exit_code :: addr
  p_exit_code :: uint32
  p_cwd :: "byte list"
  p_pagetable :: addr
  fd_list :: addr
  fd_max :: uint32

definition NPROC :: nat where "NPROC = 16"

definition zero_proc :: proc where
  "zero_proc = \<lparr>p_pid = 0, p_parent = 0, p_registers = zero_registers, p_state = P_FREE, p_wait_pid = 0,
     p_wait_exit_code = 0, p_exit_code = 0, p_cwd = replicate 256 0, p_pagetable = 0, fd_list = 0, fd_max = 0\<rparr>"

definition EFLAGS_IF :: uint64 where "EFLAGS_IF = 0x200"
definition EFLAGS_IOPL_3 :: uint64 where "EFLAGS_IOPL_3 = 0x3000"
definition PROCINIT_ALLOW_PROGRAMMED_IO :: uint32 where "PROCINIT_ALLOW_PROGRAMMED_IO = 1"
definition PROCINIT_DISABLE_INTERRUPTS :: uint32 where "PROCINIT_DISABLE_INTERRUPTS = 2"

definition process_init :: "proc \<Rightarrow> uint32 \<Rightarrow> proc" where
  "process_init p flags =
     (let r = zero_registers\<lparr>reg_cs := ucast (SEGSEL_APP_CODE OR 3), reg_fs := SEGSEL_APP_DATA OR 3,
                reg_gs := SEGSEL_APP_DATA OR 3, reg_ss := ucast (SEGSEL_APP_DATA OR 3), reg_rflags := EFLAGS_IF\<rparr>;
          r = (if flags AND PROCINIT_ALLOW_PROGRAMMED_IO \<noteq> 0
               then r\<lparr>reg_rflags := reg_rflags r OR EFLAGS_IOPL_3\<rparr> else r);
          r = (if flags AND PROCINIT_DISABLE_INTERRUPTS \<noteq> 0
               then r\<lparr>reg_rflags := reg_rflags r AND NOT EFLAGS_IF\<rparr> else r)
      in p\<lparr>p_registers := r\<rparr>)"

section \<open>The state\<close>

datatype console_call =
    Console_printf nat uint32 string "va list"
  | Console_clear
  | Console_cell nat uint16

record 'd kernel =
  hw :: 'd
  proc_tables :: processor
  kbd :: keyboard
  ph :: phys
  cr3 :: addr
  entropy_buffer :: "byte list"
  entropy_initialized :: bool
  entropy_usage_counter :: uint32
  stdin_buffer :: "int list"
  stdin_next :: nat
  stdin_end :: nat
  heap_pageinfo :: "addr list"
  free_list :: addr
  processes :: "proc list"
  current :: nat
  ticks :: uint32
  memshow_enabled :: bool
  last_ticks :: uint32
  showing :: nat
  console_calls :: "console_call list"

text \<open>What the linker and the build provide.\<close>

record image =
  img_end :: addr
  img_start_data :: addr
  img_kernel_pagetables :: addr
  img_default_int_handler :: addr
  img_virtual_memory_map :: addr
  img_programs :: "addr list"
  img_tables :: table_addresses

definition CPOS :: "nat \<Rightarrow> nat \<Rightarrow> nat" where
  "CPOS row col = row * 80 + col"

section \<open>Lifting\<close>

definition k_get :: "('d kernel \<Rightarrow> 'a) \<Rightarrow> ('d kernel, 'a) io" where
  "k_get f = (\<lambda>s. (Ok (f s), s))"

definition k_put :: "('d kernel \<Rightarrow> 'd kernel) \<Rightarrow> ('d kernel, unit) io" where
  "k_put f = (\<lambda>s. (Ok (), f s))"

definition on_hw :: "('d, 'a) io \<Rightarrow> ('d kernel, 'a) io" where
  "on_hw m = (\<lambda>s. case m (hw s) of (r, d) \<Rightarrow> (r, s\<lparr>hw := d\<rparr>))"

definition on_kbd :: "(keyboard \<times> 'd, 'a) io \<Rightarrow> ('d kernel, 'a) io" where
  "on_kbd m = (\<lambda>s. case m (kbd s, hw s) of (r, (k, d)) \<Rightarrow> (r, s\<lparr>kbd := k, hw := d\<rparr>))"

definition on_ph :: "(phys \<Rightarrow> 'a \<times> phys) \<Rightarrow> ('d kernel, 'a) io" where
  "on_ph f = (\<lambda>s. case f (ph s) of (r, p) \<Rightarrow> (Ok r, s\<lparr>ph := p\<rparr>))"

definition on_ph_opt :: "(phys \<Rightarrow> ('a \<times> phys) option) \<Rightarrow> ('d kernel, 'a) io" where
  "on_ph_opt f = (\<lambda>s. case f (ph s) of None \<Rightarrow> (Stuck, s) | Some (r, p) \<Rightarrow> (Ok r, s\<lparr>ph := p\<rparr>))"

text \<open>\<open>console_clear\<close> also resets the variable \<open>cursorpos\<close>, which lies in the page of the console.\<close>

definition cursorpos :: addr where "cursorpos = 0xB8FFC"

definition reset_cursor :: "console_call \<Rightarrow> mem \<Rightarrow> mem" where
  "reset_cursor c m = (if c = Console_clear then store32 cursorpos 0 m else m)"

definition console_out :: "console_call \<Rightarrow> ('d kernel, unit) io" where
  "console_out c = k_put (\<lambda>s. s\<lparr>console_calls := c # console_calls s,
     ph := (ph s)\<lparr>p_mem := reset_cursor c (p_mem (ph s))\<rparr>\<rparr>)"

definition k_mem :: "('d kernel, mem) io" where
  "k_mem = k_get (\<lambda>s. p_mem (ph s))"

definition k_store :: "(mem \<Rightarrow> mem) \<Rightarrow> ('d kernel, unit) io" where
  "k_store f = k_put (\<lambda>s. s\<lparr>ph := (ph s)\<lparr>p_mem := f (p_mem (ph s))\<rparr>\<rparr>)"

named_theorems kernel_simps \<open>running the lifted operations\<close>

lemma k_get_run [kernel_simps]: "k_get f s = (Ok (f s), s)"
  by (simp add: k_get_def)

lemma k_put_run [kernel_simps]: "k_put f s = (Ok (), f s)"
  by (simp add: k_put_def)

lemma console_out_run [kernel_simps]: "console_out c s = (Ok (), s\<lparr>console_calls := c # console_calls s,
     ph := (ph s)\<lparr>p_mem := reset_cursor c (p_mem (ph s))\<rparr>\<rparr>)"
  by (simp add: console_out_def k_put_def)

lemma k_mem_run [kernel_simps]: "k_mem s = (Ok (p_mem (ph s)), s)"
  by (simp add: k_mem_def k_get_def)

lemma k_store_run [kernel_simps]: "k_store f s = (Ok (), s\<lparr>ph := (ph s)\<lparr>p_mem := f (p_mem (ph s))\<rparr>\<rparr>)"
  by (simp add: k_store_def k_put_def)

lemma io_bind_get [kernel_simps]: "io_bind (k_get f) g s = g (f s) s"
  by (simp add: io_bind_def k_get_def)

lemma io_bind_put [kernel_simps]: "io_bind (k_put f) g s = g () (f s)"
  by (simp add: io_bind_def k_put_def)

end
