(* ===== verification/Input.thy ===== *)
theory Input
  imports Kernel_State
begin

unbundle bit_operations_syntax

text \<open>
  Keyboard input and entropy: \<open>check_keyboard\<close> of \<^verbatim>\<open>kernel/k-hardware.c\<close>, the buffer of typed keys of
  \<^verbatim>\<open>kernel/kernel.c\<close> (\<open>check_keyboard_push\<close>, \<open>check_keyboard_pop\<close>) and the entropy pool of
  \<^verbatim>\<open>kernel/k-entropy.c\<close>.
\<close>

section \<open>Keys\<close>

definition PTE_PS :: uint64 where "PTE_PS = 128"

definition check_keyboard :: "'d cpu \<Rightarrow> ('d kernel, int) io" where
  "check_keyboard cpu =
     io_bind (on_kbd (keyboard_readc (pio cpu))) (\<lambda>c.
       if c = 0x03 then on_hw (poweroff cpu)
       else if c = 0x1B
       then io_bind (k_store (\<lambda>m. set_entry 0xA000 0 (PTE_P OR PTE_W OR PTE_U OR PTE_PS)
                       (set_entry 0x9000 0 (0xA000 OR PTE_P OR PTE_W OR PTE_U)
                       (set_entry 0x8000 0 (0x9000 OR PTE_P OR PTE_W OR PTE_U)
                       (memset 0x8000 0 (3 * PAGESIZE) m))))) (\<lambda>_.
            io_bind (k_put (\<lambda>s. s\<lparr>cr3 := 0x8000\<rparr>)) (\<lambda>_.
            io_return c))
       else io_return c)"

text \<open>
  \<open>panic\<close> prints its message in the last rows of the console and polls the keyboard for ever (\<open>fail\<close>). The cursor position
  that \<open>error_vprintf\<close> returns does not depend on what the console shows. With no format it only prints \<open>PANIC\<close>.
\<close>

partial_function (option) fail_loop :: "'d cpu \<Rightarrow> 'd kernel \<Rightarrow> (unit outcome \<times> 'd kernel) option" where
  "fail_loop cpu s =
     (case check_keyboard cpu s of
        (Ok _, s) \<Rightarrow> fail_loop cpu s
      | (Err e, s) \<Rightarrow> Some (Err e, s)
      | (Stuck, s) \<Rightarrow> Some (Stuck, s))"

definition kernel_fail :: "'d cpu \<Rightarrow> ('d kernel, unit) io" where
  "kernel_fail cpu = (\<lambda>s. case fail_loop cpu s of None \<Rightarrow> (Stuck, s) | Some r \<Rightarrow> r)"

definition CCOL :: "nat \<Rightarrow> nat" where
  "CCOL cpos = cpos mod 80"

definition panic_print :: "nat \<Rightarrow> string \<Rightarrow> va list \<Rightarrow> ('d kernel, nat) io" where
  "panic_print cpos format val =
     io_bind (console_out (Console_printf cpos 0xC000 format val)) (\<lambda>_.
     io_some (map_option fst (console_vprintf (int cpos) 0xC000 (map of_char format @ [0]) val (replicate 2000 0))))"

definition kernel_panic :: "'d cpu \<Rightarrow> (string \<times> va list) option \<Rightarrow> ('d kernel, unit) io" where
  "kernel_panic cpu message =
     io_bind (case message of
                Some (format, val) \<Rightarrow>
                  io_bind (panic_print (CPOS 23 0) ''PANIC: '' []) (\<lambda>cpos.
                  io_bind (panic_print cpos format val) (\<lambda>cpos.
                  if CCOL cpos \<noteq> 0 then io_bind (panic_print cpos ''\<newline>'' []) (\<lambda>_. io_return ()) else io_return ()))
              | None \<Rightarrow> io_bind (panic_print (CPOS 23 0) ''PANIC'' []) (\<lambda>_. io_return ())) (\<lambda>_.
     kernel_fail cpu)"

definition kernel_assert_fail :: "'d cpu \<Rightarrow> byte list \<Rightarrow> uint32 \<Rightarrow> byte list \<Rightarrow> ('d kernel, unit) io" where
  "kernel_assert_fail cpu file line msg =
     kernel_panic cpu (Some (''%s:%d: assertion '%s' failed\<newline>'', [VStr file, VInt line, VStr msg]))"

text \<open>Neither returns: after the message the kernel spins, or the machine is switched off.\<close>

definition no_error :: "('s, 'a) io \<Rightarrow> bool" where
  "no_error m \<longleftrightarrow> (\<forall>s e. fst (m s) \<noteq> Err e)"

lemma no_error_bind: "no_error m \<Longrightarrow> (\<And>x. no_error (f x)) \<Longrightarrow> no_error (io_bind m f)"
  by (simp add: no_error_def io_bind_def split: prod.split outcome.split) (metis fst_conv)

lemma bind_stuck: "no_error m \<Longrightarrow> (\<And>x s. fst (f x s) = Stuck) \<Longrightarrow> fst (io_bind m f s) = Stuck"
  unfolding no_error_def io_bind_def by (cases "m s"; cases "fst (m s)") (auto, metis fst_conv)

lemma no_error_basic:
  "no_error (io_return x)" "no_error (Pair (Ok x))" "no_error io_stuck" "no_error (io_inl cpu p)" "no_error (io_outl cpu p v)" "no_error (io_outw cpu q w)"
  by (simp_all add: no_error_def io_return_def io_inl_def io_outl_def io_outw_def split: prod.split)

lemma no_error_pci: "no_error (pci_find_device cpu v d)"
proof -
  have r: "no_error (pci_config_readl cpu c off)" for c off
    unfolding pci_config_readl_def by (intro no_error_bind no_error_basic)
  have f: "no_error (pci_funcs n cpu vd bus slot)" for n vd bus slot
    by (induction n) (simp_all add: Let_def no_error_basic no_error_bind r)
  have s: "no_error (pci_slots n cpu vd bus)" for n vd bus
    by (induction n) (simp_all add: no_error_basic no_error_bind f split: option.split)
  have "no_error (pci_buses n cpu vd)" for n vd
    by (induction n) (simp_all add: no_error_basic no_error_bind s split: option.split)
  then show ?thesis by (simp add: pci_find_device_def)
qed

lemma no_error_on_hw: "no_error m \<Longrightarrow> no_error (on_hw m)"
  by (simp add: no_error_def on_hw_def split_beta)

lemma no_error_poweroff: "no_error (poweroff cpu)"
  unfolding poweroff_def
  by (intro no_error_bind no_error_pci no_error_basic)
    (simp_all add: pci_config_readl_def Let_def no_error_bind no_error_basic split: option.split)

lemma check_keyboard_no_error: "no_error (check_keyboard cpu)"
proof -
  have "no_error (on_kbd (keyboard_readc io))" for io
    by (simp add: no_error_def on_kbd_def keyboard_readc_def split: prod.split)
  then show ?thesis
    unfolding check_keyboard_def
    by (intro no_error_bind) (auto intro!: no_error_bind no_error_on_hw no_error_poweroff simp: no_error_basic, auto simp: no_error_def kernel_simps)
qed

lemma fail_loop_stuck:
  assumes "fail_loop cpu s = Some x"
  shows "fst x = Stuck"
proof (rule fail_loop.raw_induct [OF _ assms])
  fix loop :: "'a cpu \<Rightarrow> 'a kernel \<Rightarrow> (unit outcome \<times> 'a kernel) option" and cpu s x
  assume "\<And>cpu s x. loop cpu s = Some x \<Longrightarrow> fst x = Stuck"
    and "(case check_keyboard cpu s of (Ok _, s) \<Rightarrow> loop cpu s | (Err e, s) \<Rightarrow> Some (Err e, s) | (Stuck, s) \<Rightarrow> Some (Stuck, s)) = Some x"
  moreover have "fst (check_keyboard cpu s) \<noteq> Err e" for e using check_keyboard_no_error [of cpu] by (simp add: no_error_def)
  ultimately show "fst x = Stuck" by (cases "check_keyboard cpu s") (auto split: outcome.splits)
qed

lemma panic_never_returns: "fst (kernel_panic cpu message s) = Stuck"
proof -
  have f: "fst (kernel_fail cpu s) = Stuck" for s
    using fail_loop_stuck [of cpu s] by (auto simp: kernel_fail_def split: option.split)
  have p: "no_error (panic_print cpos format val)" for cpos format val
    unfolding panic_print_def
    by (intro no_error_bind) (auto simp: no_error_def kernel_simps io_some_def io_return_def split: option.split)
  let ?m = "case message of Some (format, val) \<Rightarrow> io_bind (panic_print (CPOS 23 0) ''PANIC: '' []) (\<lambda>cpos.
                  io_bind (panic_print cpos format val) (\<lambda>cpos.
                  if CCOL cpos \<noteq> 0 then io_bind (panic_print cpos ''\<newline>'' []) (\<lambda>_. io_return ()) else io_return ()))
              | None \<Rightarrow> io_bind (panic_print (CPOS 23 0) ''PANIC'' []) (\<lambda>_. io_return ())"
  have "no_error ?m" by (auto intro!: no_error_bind p simp: no_error_basic split: option.split)
  then show ?thesis unfolding kernel_panic_def by (rule bind_stuck) (rule f)
qed

section \<open>The buffer of typed keys\<close>

definition STDIN_LENGTH :: nat where "STDIN_LENGTH = 2024"

type_synonym ring = "int list \<times> nat \<times> nat"

text \<open>
  The bodies of \<open>check_keyboard_push\<close> and \<open>check_keyboard_pop\<close> on the buffer, its first and its end
  index; \<open>None\<close> is a failed assertion, respectively an empty buffer.
\<close>

fun ring_push :: "int \<Rightarrow> ring \<Rightarrow> ring option" where
  "ring_push c (b, nxt, e) =
     (let b = b[e := c]; e = (e + 1) mod STDIN_LENGTH
      in if nxt \<noteq> e then Some (b, nxt, e) else None)"

fun ring_pop :: "ring \<Rightarrow> (int \<times> ring) option" where
  "ring_pop (b, nxt, e) = (if nxt = e then None else Some (b ! nxt, b, (nxt + 1) mod STDIN_LENGTH, e))"

definition stdin :: "'d kernel \<Rightarrow> ring" where
  "stdin s = (stdin_buffer s, stdin_next s, stdin_end s)"

definition set_stdin :: "ring \<Rightarrow> 'd kernel \<Rightarrow> 'd kernel" where
  "set_stdin r s = (case r of (b, nxt, e) \<Rightarrow> s\<lparr>stdin_buffer := b, stdin_next := nxt, stdin_end := e\<rparr>)"

definition check_keyboard_push :: "'d cpu \<Rightarrow> ('d kernel, unit) io" where
  "check_keyboard_push cpu =
     io_bind (check_keyboard cpu) (\<lambda>c.
       if c \<noteq> 0 \<and> c \<noteq> - 1
       then io_bind (k_get stdin) (\<lambda>r.
            io_bind (io_some (ring_push c r)) (\<lambda>r. k_put (set_stdin r)))
       else io_return ())"

definition check_keyboard_pop :: "'d cpu \<Rightarrow> ('d kernel, int) io" where
  "check_keyboard_pop cpu =
     io_bind (check_keyboard cpu) (\<lambda>c.
       if c \<noteq> 0 \<and> c = - 1
       then io_bind (k_get stdin) (\<lambda>r.
            case ring_pop r of
              None \<Rightarrow> io_return (- 1)
            | Some (c, r) \<Rightarrow> io_bind (k_put (set_stdin r)) (\<lambda>_. io_return c))
       else io_return c)"

text \<open>The contract of a bounded first-in first-out buffer, and the ring as one.\<close>

locale fifo =
  fixes push :: "'a \<Rightarrow> 's \<Rightarrow> 's option" and pop :: "'s \<Rightarrow> ('a \<times> 's) option"
    and contents :: "'s \<Rightarrow> 'a list" and ok :: "'s \<Rightarrow> bool" and cap :: nat
  assumes push_ok: "ok s \<Longrightarrow> length (contents s) < cap \<Longrightarrow>
      \<exists>s'. push x s = Some s' \<and> ok s' \<and> contents s' = contents s @ [x]"
    and push_full: "ok s \<Longrightarrow> length (contents s) = cap \<Longrightarrow> push x s = None"
    and bounded: "ok s \<Longrightarrow> length (contents s) \<le> cap"
    and pop_empty: "ok s \<Longrightarrow> contents s = [] \<Longrightarrow> pop s = None"
    and pop_ok: "ok s \<Longrightarrow> contents s = x # xs \<Longrightarrow> \<exists>s'. pop s = Some (x, s') \<and> ok s' \<and> contents s' = xs"
begin

text \<open>Pushing a list of elements, and popping a given number of them.\<close>

fun push_all :: "'a list \<Rightarrow> 's \<Rightarrow> 's option" where
  "push_all [] s = Some s"
| "push_all (x # xs) s = Option.bind (push x s) (push_all xs)"

fun pop_n :: "nat \<Rightarrow> 's \<Rightarrow> ('a list \<times> 's) option" where
  "pop_n 0 s = Some ([], s)"
| "pop_n (Suc n) s = (case pop s of None \<Rightarrow> None | Some (x, s) \<Rightarrow> map_option (\<lambda>(xs, s). (x # xs, s)) (pop_n n s))"

lemma push_all_ok:
  "ok s \<Longrightarrow> length (contents s) + length xs \<le> cap \<Longrightarrow>
   \<exists>s'. push_all xs s = Some s' \<and> ok s' \<and> contents s' = contents s @ xs"
proof (induction xs arbitrary: s)
  case (Cons x xs)
  then obtain s1 where "push x s = Some s1" "ok s1" "contents s1 = contents s @ [x]"
    using push_ok [of s x] by auto
  with Cons.IH [of s1] Cons.prems show ?case by simp
qed simp

lemma pop_n_ok:
  "ok s \<Longrightarrow> n \<le> length (contents s) \<Longrightarrow>
   \<exists>s'. pop_n n s = Some (take n (contents s), s') \<and> ok s' \<and> contents s' = drop n (contents s)"
proof (induction n arbitrary: s)
  case (Suc n)
  then obtain x xs where c: "contents s = x # xs" by (cases "contents s") auto
  then obtain s1 where "pop s = Some (x, s1)" "ok s1" "contents s1 = xs" using pop_ok [of s x xs] Suc.prems by auto
  with Suc.IH [of s1] Suc.prems c show ?case by auto
qed simp

lemma fifo_order:
  assumes "ok s" and "contents s = []" and "length xs \<le> cap"
  shows "\<exists>s1 s2. push_all xs s = Some s1 \<and> pop_n (length xs) s1 = Some (xs, s2) \<and> contents s2 = []"
proof -
  obtain s1 where s1: "push_all xs s = Some s1" "ok s1" "contents s1 = xs"
    using push_all_ok [of s xs] assms by auto
  then show ?thesis using pop_n_ok [of s1 "length xs"] by auto
qed

end

definition ring_length :: "nat \<Rightarrow> nat \<Rightarrow> nat" where
  "ring_length nxt e = (if nxt \<le> e then e - nxt else STDIN_LENGTH + e - nxt)"

fun ring_contents :: "ring \<Rightarrow> int list" where
  "ring_contents (b, nxt, e) = map (\<lambda>i. b ! ((nxt + i) mod STDIN_LENGTH)) [0..<ring_length nxt e]"

fun ring_ok :: "ring \<Rightarrow> bool" where
  "ring_ok (b, nxt, e) \<longleftrightarrow> length b = STDIN_LENGTH \<and> nxt < STDIN_LENGTH \<and> e < STDIN_LENGTH"

lemma wrap_index:
  fixes n i L :: nat
  assumes "n < L" and "i \<le> L"
  shows "(n + i) mod L = (if n + i < L then n + i else n + i - L)"
  using assms by (simp add: mod_if)

lemma ring_length_bound: "nxt < STDIN_LENGTH \<Longrightarrow> e < STDIN_LENGTH \<Longrightarrow> ring_length nxt e < STDIN_LENGTH"
  by (auto simp: ring_length_def)

lemma ring_end:
  assumes "nxt < STDIN_LENGTH" and "e < STDIN_LENGTH"
  shows "(nxt + ring_length nxt e) mod STDIN_LENGTH = e"
    and "i < ring_length nxt e \<Longrightarrow> (nxt + i) mod STDIN_LENGTH \<noteq> e"
    and "ring_length nxt ((e + 1) mod STDIN_LENGTH) =
      (if Suc (ring_length nxt e) = STDIN_LENGTH then 0 else Suc (ring_length nxt e))"
    and "nxt = (e + 1) mod STDIN_LENGTH \<longleftrightarrow> Suc (ring_length nxt e) = STDIN_LENGTH"
    and "nxt \<noteq> e \<Longrightarrow> ring_length nxt e = Suc (ring_length ((nxt + 1) mod STDIN_LENGTH) e)"
  using assms wrap_index [OF assms(1), of "ring_length nxt e"] wrap_index [OF assms(1), of i] wrap_index [OF assms(2), of 1]
    wrap_index [OF assms(1), of 1] ring_length_bound [OF assms]
  by (auto simp: ring_length_def split: if_splits)

lemma ring_push_spec:
  assumes "ring_ok (b, nxt, e)"
  shows "ring_push c (b, nxt, e) =
      (if Suc (ring_length nxt e) = STDIN_LENGTH then None else Some (b[e := c], nxt, (e + 1) mod STDIN_LENGTH))"
    and "Suc (ring_length nxt e) < STDIN_LENGTH \<Longrightarrow>
      ring_contents (b[e := c], nxt, (e + 1) mod STDIN_LENGTH) = ring_contents (b, nxt, e) @ [c]"
proof -
  have lt: "length b = STDIN_LENGTH" "nxt < STDIN_LENGTH" "e < STDIN_LENGTH" using assms by simp_all
  note r = ring_end [OF lt(2,3)]
  show "ring_push c (b, nxt, e) =
      (if Suc (ring_length nxt e) = STDIN_LENGTH then None else Some (b[e := c], nxt, (e + 1) mod STDIN_LENGTH))"
    using r(4) by (simp add: Let_def)
  show "ring_contents (b[e := c], nxt, (e + 1) mod STDIN_LENGTH) = ring_contents (b, nxt, e) @ [c]"
    if "Suc (ring_length nxt e) < STDIN_LENGTH"
  proof -
    have "b[e := c] ! ((nxt + i) mod STDIN_LENGTH) = b ! ((nxt + i) mod STDIN_LENGTH)" if "i < ring_length nxt e" for i
      using r(2) [OF that] by (metis nth_list_update_neq)
    then show ?thesis using that r(1,3) lt by simp
  qed
qed

interpretation stdin_ring: fifo ring_push ring_pop ring_contents ring_ok "STDIN_LENGTH - 1"
proof
  fix r :: ring and c :: int
  obtain b nxt e where r: "r = (b, nxt, e)" by (cases r)
  assume ok: "ring_ok r"
  have lt: "length b = STDIN_LENGTH" "nxt < STDIN_LENGTH" "e < STDIN_LENGTH" using ok by (simp_all add: r)
  have len: "length (ring_contents r) = ring_length nxt e" by (simp add: r)
  have bound: "ring_length nxt e < STDIN_LENGTH" using ring_length_bound lt by simp
  show "length (ring_contents r) \<le> STDIN_LENGTH - 1" using bound unfolding len by simp
  show "\<exists>r'. ring_push c r = Some r' \<and> ring_ok r' \<and> ring_contents r' = ring_contents r @ [c]"
    if "length (ring_contents r) < STDIN_LENGTH - 1"
  proof -
    have "Suc (ring_length nxt e) < STDIN_LENGTH" using that unfolding len by simp
    then show ?thesis using ring_push_spec [OF ok [unfolded r], of c] lt unfolding r
      by (simp del: ring_push.simps ring_contents.simps)
  qed
  show "ring_push c r = None" if "length (ring_contents r) = STDIN_LENGTH - 1"
    using ring_push_spec(1) [OF ok [unfolded r], of c] that bound unfolding len r by (simp del: ring_push.simps)
  show "ring_pop r = None" if "ring_contents r = []"
    using that ring_end(5) [OF lt(2,3)] unfolding r by auto
next
  fix r :: ring and x :: int and xs :: "int list"
  obtain b nxt e where r: "r = (b, nxt, e)" by (cases r)
  assume ok: "ring_ok r" and c: "ring_contents r = x # xs"
  have lt: "length b = STDIN_LENGTH" "nxt < STDIN_LENGTH" "e < STDIN_LENGTH" using ok by (simp_all add: r)
  have ne: "nxt \<noteq> e" using c by (auto simp: r ring_length_def)
  note l = ring_end(5) [OF lt(2,3) ne]
  have "b ! ((nxt + Suc i) mod STDIN_LENGTH) = b ! (((nxt + 1) mod STDIN_LENGTH + i) mod STDIN_LENGTH)" for i
    by (simp add: mod_add_left_eq)
  then have "ring_contents r = b ! nxt # ring_contents (b, (nxt + 1) mod STDIN_LENGTH, e)"
    unfolding r ring_contents.simps l map_upt_Suc using lt by simp
  then show "\<exists>r'. ring_pop r = Some (x, r') \<and> ring_ok r' \<and> ring_contents r' = xs"
    using c ne lt by (simp add: r)
qed


section \<open>Entropy\<close>

definition ENTROPY_NEEDED_BYTES :: nat where "ENTROPY_NEEDED_BYTES = 16"
definition ENTROPY_REFRESH_THRESHOLD :: uint32 where "ENTROPY_REFRESH_THRESHOLD = 10000"

text \<open>The loop that waits for a key; the result is the key and the number of attempts.\<close>

partial_function (option) wait_key ::
  "'d ports \<Rightarrow> uint64 \<Rightarrow> keyboard \<times> 'd \<Rightarrow> ((int \<times> uint64) \<times> keyboard \<times> 'd) option" where
  "wait_key io timing kd =
     (case keyboard_readc io kd of
        (Ok ch, kd) \<Rightarrow> if ch \<le> 0 then wait_key io (timing + 1) kd else Some ((ch, timing + 1), kd)
      | _ \<Rightarrow> None)"

definition io_wait_key :: "'d ports \<Rightarrow> (keyboard \<times> 'd, int \<times> uint64) io" where
  "io_wait_key io = (\<lambda>kd. case wait_key io 0 kd of None \<Rightarrow> (Stuck, kd) | Some (r, kd) \<Rightarrow> (Ok r, kd))"

definition entropy_byte :: "int \<Rightarrow> uint64 \<Rightarrow> uint64 \<Rightarrow> byte" where
  "entropy_byte ch tsc timing =
     ucast (of_int ch XOR tsc XOR drop_bit 8 tsc XOR drop_bit 16 tsc XOR timing)"

definition collect_byte :: "'d cpu \<Rightarrow> nat \<Rightarrow> ('d kernel, unit) io" where
  "collect_byte cpu i =
     io_bind (on_kbd (io_wait_key (pio cpu))) (\<lambda>(ch, timing).
     io_bind (on_hw (io_rdtsc cpu)) (\<lambda>tsc.
     k_put (\<lambda>s. s\<lparr>entropy_buffer := (entropy_buffer s)[i := entropy_byte ch tsc timing]\<rparr>)))"

text \<open>\<open>mix_buffer n\<close> runs the last \<open>n\<close> iterations of the loop that combines the bytes.\<close>

primrec mix_buffer :: "nat \<Rightarrow> byte list \<Rightarrow> byte list" where
  "mix_buffer 0 b = b"
| "mix_buffer (Suc n) b =
     (let i = ENTROPY_NEEDED_BYTES - Suc n
      in mix_buffer n (b[i := b ! i XOR b ! unat (of_nat (i + 7) AND of_nat (ENTROPY_NEEDED_BYTES - 1) :: uint32)]))"

primrec request_loop :: "nat \<Rightarrow> 'd cpu \<Rightarrow> ('d kernel, unit) io" where
  "request_loop 0 cpu = io_return ()"
| "request_loop (Suc n) cpu =
     (let i = ENTROPY_NEEDED_BYTES - Suc n
      in io_bind (console_out (Console_printf (CPOS 4 0) 0x0700 ''Progress: %d/%d ''
                    [VInt (of_nat i), VInt (of_nat ENTROPY_NEEDED_BYTES)])) (\<lambda>_.
         io_bind (collect_byte cpu i) (\<lambda>_.
         io_bind (console_out (Console_printf (CPOS 6 i) 0x0700 ''*'' [])) (\<lambda>_.
         request_loop n cpu))))"

definition request_user_entropy :: "'d cpu \<Rightarrow> ('d kernel, unit) io" where
  "request_user_entropy cpu =
     io_bind (console_out Console_clear) (\<lambda>_.
     io_bind (console_out (Console_printf (CPOS 0 0) 0x0F00 ''ENTROPY COLLECTION\<newline>'' [])) (\<lambda>_.
     io_bind (console_out (Console_printf (CPOS 2 0) 0x0700 ''Please type %d random characters...''
                [VInt (of_nat ENTROPY_NEEDED_BYTES)])) (\<lambda>_.
     io_bind (request_loop ENTROPY_NEEDED_BYTES cpu) (\<lambda>_.
     io_bind (k_put (\<lambda>s. s\<lparr>entropy_buffer := mix_buffer ENTROPY_NEEDED_BYTES (entropy_buffer s),
                            entropy_initialized := True, entropy_usage_counter := 0\<rparr>)) (\<lambda>_.
     io_bind (console_out (Console_printf (CPOS 8 0) 0x0F00 ''Done! Continuing...'' [])) (\<lambda>_.
     console_out Console_clear))))))"

definition collect_single_keystroke :: "'d cpu \<Rightarrow> nat \<Rightarrow> nat \<Rightarrow> nat \<Rightarrow> ('d kernel, unit) io" where
  "collect_single_keystroke cpu index have need =
     io_bind (console_out (Console_printf (CPOS 23 0) 0x0700 ''Refresh entropy (%d/%d)... press a key ''
                [VInt (of_nat have), VInt (of_nat need)])) (\<lambda>_.
     io_bind (collect_byte cpu index) (\<lambda>_.
     console_out (Console_printf (CPOS 23 0) 0x0700 (replicate 80 (CHR 0x20)) [])))"

primrec refresh_loop :: "nat \<Rightarrow> 'd cpu \<Rightarrow> ('d kernel, unit) io" where
  "refresh_loop 0 cpu = io_return ()"
| "refresh_loop (Suc n) cpu =
     (let i = ENTROPY_NEEDED_BYTES - Suc n
      in io_bind (collect_single_keystroke cpu i i ENTROPY_NEEDED_BYTES) (\<lambda>_. refresh_loop n cpu))"

text \<open>The calls print at fixed positions, so that saving and restoring \<open>cursorpos\<close> has no effect.\<close>

definition refresh_entropy :: "'d cpu \<Rightarrow> ('d kernel, unit) io" where
  "refresh_entropy cpu =
     io_bind (console_out (Console_printf (CPOS 0 0) 0x0F00 ''Refreshing entropy pool...'' [])) (\<lambda>_.
     io_bind (refresh_loop ENTROPY_NEEDED_BYTES cpu) (\<lambda>_.
     io_bind (k_put (\<lambda>s. s\<lparr>entropy_buffer := mix_buffer ENTROPY_NEEDED_BYTES (entropy_buffer s),
                            entropy_usage_counter := 0\<rparr>)) (\<lambda>_.
     console_out (Console_printf (CPOS 0 0) 0x0700 (replicate 80 (CHR 0x20)) []))))"

primrec value_loop :: "nat \<Rightarrow> 'd cpu \<Rightarrow> uint32 \<Rightarrow> ('d kernel, uint32) io" where
  "value_loop 0 cpu v = io_return v"
| "value_loop (Suc n) cpu v =
     io_bind (on_hw (io_rdtsc cpu)) (\<lambda>tsc.
     io_bind (k_get entropy_buffer) (\<lambda>b.
     value_loop n cpu (push_bit 8 v OR ucast (b ! (unat (of_nat (4 - Suc n) + (tsc AND 0xF)) mod ENTROPY_NEEDED_BYTES)))))"

definition get_entropy_value :: "'d cpu \<Rightarrow> ('d kernel, uint32) io" where
  "get_entropy_value cpu =
     io_bind (k_get (\<lambda>s. (entropy_initialized s, entropy_usage_counter s))) (\<lambda>(initialized, used).
     io_bind (if \<not> initialized then request_user_entropy cpu
              else if used \<ge> ENTROPY_REFRESH_THRESHOLD then refresh_entropy cpu else io_return ()) (\<lambda>_.
     io_bind (k_put (\<lambda>s. s\<lparr>entropy_usage_counter := entropy_usage_counter s + 1\<rparr>)) (\<lambda>_.
     io_bind (value_loop 4 cpu 0) (\<lambda>v.
     io_bind (on_hw (io_rdtsc cpu)) (\<lambda>tsc.
     io_return (v XOR ucast tsc))))))"

primrec random_loop :: "nat \<Rightarrow> 'd cpu \<Rightarrow> ('d kernel, byte list) io" where
  "random_loop 0 cpu = io_return []"
| "random_loop (Suc n) cpu =
     io_bind (get_entropy_value cpu) (\<lambda>v.
     io_bind (random_loop n cpu) (\<lambda>bs. io_return (ucast v # bs)))"

definition fs_generate_random :: "'d cpu \<Rightarrow> nat \<Rightarrow> ('d kernel, byte list) io" where
  "fs_generate_random cpu sz = random_loop sz cpu"


declare io_return_run [simp del] io_fail_run [simp del] io_stuck_run [simp del]

text \<open>
  Collecting entropy ends when keys keep arriving: whenever a read of the keyboard yields no
  character, \<open>wait\<close> decreases. \<open>view\<close> is a part of the device state (such as the disk) that the keyboard
  and the cycle counter do not change.
\<close>

locale key_source =
  fixes cpu :: "'d cpu" and good :: "'d \<Rightarrow> bool" and wait :: "keyboard \<Rightarrow> 'd \<Rightarrow> nat" and view :: "'d \<Rightarrow> 'v"
  assumes key_arrives: "good d \<Longrightarrow> keyboard_readc (pio cpu) (k, d) = (Ok ch, (k', d')) \<Longrightarrow>
      good d' \<and> view d' = view d \<and> (ch \<le> 0 \<longrightarrow> wait k' d' < wait k d)"
    and tsc_reads: "good d \<Longrightarrow> read_cycle_counter cpu d = (t, d') \<Longrightarrow> good d' \<and> view d' = view d"
begin

definition pool_ok :: "'d kernel \<Rightarrow> bool" where
  "pool_ok s \<longleftrightarrow> good (hw s) \<and> length (entropy_buffer s) = ENTROPY_NEEDED_BYTES"

text \<open>An operation that returns, keeps the pool well-formed, and satisfies \<open>Q\<close>.\<close>

definition returns :: "('d kernel, 'a) io \<Rightarrow> ('a \<Rightarrow> bool) \<Rightarrow> bool" where
  "returns m Q \<longleftrightarrow> (\<forall>s. pool_ok s \<longrightarrow>
     (\<exists>x s'. m s = (Ok x, s') \<and> Q x \<and> pool_ok s' \<and> view (hw s') = view (hw s)))"

lemma returns_bind:
  assumes "returns m P" and "\<And>x. P x \<Longrightarrow> returns (f x) Q"
  shows "returns (io_bind m f) Q"
  unfolding returns_def
proof (intro allI impI)
  fix s :: "'d kernel" assume "pool_ok s"
  then obtain x s1 where m: "m s = (Ok x, s1)" "P x" "pool_ok s1" "view (hw s1) = view (hw s)"
    using assms(1) by (auto simp: returns_def)
  then obtain y s2 where "f x s1 = (Ok y, s2)" "Q y" "pool_ok s2" "view (hw s2) = view (hw s1)"
    using assms(2) unfolding returns_def by blast
  with m show "\<exists>x s'. io_bind m f s = (Ok x, s') \<and> Q x \<and> pool_ok s' \<and> view (hw s') = view (hw s)"
    by (auto simp: io_bind_Ok)
qed

lemma returns_return: "Q x \<Longrightarrow> returns (io_return x) Q"
  by (simp add: returns_def io_return_run)

lemma returns_put:
  "(\<And>s. hw (f s) = hw s) \<Longrightarrow> (\<And>s. length (entropy_buffer (f s)) = length (entropy_buffer s)) \<Longrightarrow>
   returns (k_put f) (\<lambda>_. True)"
  by (simp add: returns_def pool_ok_def kernel_simps)

lemma returns_get: "returns (k_get f) (\<lambda>_. True)"
  by (simp add: returns_def kernel_simps)

lemma returns_console: "returns (console_out c) (\<lambda>_. True)"
  by (simp add: returns_def pool_ok_def kernel_simps)

lemma returns_rdtsc: "returns (on_hw (io_rdtsc cpu)) (\<lambda>_. True)"
  using tsc_reads by (fastforce simp: returns_def pool_ok_def on_hw_def io_rdtsc_def split: prod.split)

lemma readc_Ok: "\<exists>ch kd'. keyboard_readc io kd = (Ok ch, kd')"
  by (simp add: keyboard_readc_def split: prod.split)

lemma wait_key_ends:
  "good d \<Longrightarrow> \<exists>r k' d'. wait_key (pio cpu) t (k, d) = Some (r, (k', d')) \<and> good d' \<and> view d' = view d"
proof (induction "wait k d" arbitrary: t k d rule: less_induct)
  case less
  obtain ch k1 d1 where r: "keyboard_readc (pio cpu) (k, d) = (Ok ch, (k1, d1))"
    using readc_Ok [of "pio cpu" "(k, d)"] by auto
  note k = key_arrives [OF less.prems r]
  show ?case
  proof (cases "ch \<le> 0")
    case True
    then show ?thesis using less.hyps [of k1 d1 "t + 1"] k r by (subst wait_key.simps) auto
  next
    case False
    then show ?thesis using k r by (subst wait_key.simps) auto
  qed
qed

lemma returns_wait_key: "returns (on_kbd (io_wait_key (pio cpu))) (\<lambda>_. True)"
  unfolding returns_def
proof (intro allI impI)
  fix s :: "'d kernel" assume s: "pool_ok s"
  obtain r k' d' where "wait_key (pio cpu) 0 (kbd s, hw s) = Some (r, (k', d'))" "good d'" "view d' = view (hw s)"
    using wait_key_ends [of "hw s" 0 "kbd s"] s by (auto simp: pool_ok_def)
  then show "\<exists>x s'. on_kbd (io_wait_key (pio cpu)) s = (Ok x, s') \<and> True \<and> pool_ok s' \<and> view (hw s') = view (hw s)"
    using s by (simp add: on_kbd_def io_wait_key_def pool_ok_def)
qed

lemma length_mix_buffer: "length (mix_buffer n b) = length b"
  by (induction n arbitrary: b) (simp_all add: Let_def)

lemma returns_collect: "returns (collect_byte cpu i) (\<lambda>_. True)"
  unfolding collect_byte_def
  by (rule returns_bind [OF returns_wait_key])
    (auto intro!: returns_bind [OF returns_rdtsc] returns_put split: prod.split)

lemma returns_request_loop: "returns (request_loop n cpu) (\<lambda>_. True)"
  by (induction n)
    (auto simp: Let_def intro!: returns_return returns_bind [OF returns_console] returns_bind [OF returns_collect])

lemma returns_request: "returns (request_user_entropy cpu) (\<lambda>_. True)"
  unfolding request_user_entropy_def
  by (intro returns_bind [OF returns_console] returns_bind [OF returns_request_loop] returns_bind [OF returns_put]
      returns_console) (auto simp: length_mix_buffer)

lemma returns_refresh_loop: "returns (refresh_loop n cpu) (\<lambda>_. True)"
  by (induction n)
    (auto simp: Let_def collect_single_keystroke_def io_bind_assoc
      intro!: returns_return returns_bind [OF returns_console] returns_bind [OF returns_collect])

lemma returns_refresh: "returns (refresh_entropy cpu) (\<lambda>_. True)"
  unfolding refresh_entropy_def
  by (intro returns_bind [OF returns_console] returns_bind [OF returns_refresh_loop] returns_bind [OF returns_put]
      returns_console) (auto simp: length_mix_buffer)

lemma returns_value_loop: "returns (value_loop n cpu v) (\<lambda>_. True)"
  by (induction n arbitrary: v)
    (auto intro!: returns_return returns_bind [OF returns_rdtsc] returns_bind [OF returns_get])

lemma returns_entropy: "returns (get_entropy_value cpu) (\<lambda>_. True)"
  unfolding get_entropy_value_def
  by (rule returns_bind [OF returns_get])
    (auto intro!: returns_bind [where P = "\<lambda>_. True"] returns_request returns_refresh returns_return returns_put
      returns_value_loop returns_rdtsc split: prod.split)

lemma returns_random: "returns (fs_generate_random cpu n) (\<lambda>bs. length bs = n)"
  unfolding fs_generate_random_def
  by (induction n) (auto intro!: returns_return returns_bind [OF returns_entropy] returns_bind)

end

section \<open>The properties of the input buffer\<close>

text \<open>A keyboard controller that delivers a list of scan codes, and a kernel with an empty buffer.\<close>

definition typed_inb :: "uint16 \<Rightarrow> byte list \<Rightarrow> byte \<times> byte list" where
  "typed_inb p codes = (if p = 0x64 then (if codes = [] then 0 else 1, codes)
     else case codes of [] \<Rightarrow> (0, []) | c # cs \<Rightarrow> (c, cs))"

definition typed_cpu :: "byte list cpu" where
  "typed_cpu = \<lparr>pio = \<lparr>inb = typed_inb, outb = \<lambda>p v d. d, insl = \<lambda>p n d. ([], d), outsl = \<lambda>p v d. d\<rparr>,
     inl = \<lambda>p d. (0, d), outl = \<lambda>p v d. d, outw = \<lambda>p v d. d, read_cycle_counter = \<lambda>d. (0, d), rcr2 = \<lambda>d. 0\<rparr>"

definition idle_kernel :: "'d \<Rightarrow> 'd kernel" where
  "idle_kernel d = \<lparr>hw = d, proc_tables = blank_processor, kbd = \<lparr>modifiers = 0, last_escape = 0\<rparr>, ph = pageinfo_init 0x60000 boot_phys, cr3 = 0,
     entropy_buffer = replicate 16 0, entropy_initialized = True, entropy_usage_counter = 0,
     stdin_buffer = replicate 2024 0, stdin_next = 0, stdin_end = 0, heap_pageinfo = [], free_list = 0,
     processes = replicate NPROC zero_proc, current = 0, ticks = 0, memshow_enabled = False, last_ticks = 0,
     showing = 1, console_calls = []\<rparr>"

definition pending_keys :: "'d kernel \<Rightarrow> int list" where
  "pending_keys s = ring_contents (stdin s)"

lemma stdin_set_stdin [simp]: "stdin (set_stdin r s) = r"
  by (simp add: stdin_def set_stdin_def split: prod.split)

lemma idle_ring:
  "ring_ok (stdin (idle_kernel d\<lparr>kbd := k, hw := d1\<rparr>))" "pending_keys (idle_kernel d\<lparr>kbd := k, hw := d1\<rparr>) = []"
  by (simp_all add: idle_kernel_def stdin_def pending_keys_def STDIN_LENGTH_def ring_length_def)

lemma typed_key:
  "check_keyboard typed_cpu (idle_kernel [0x1E]) = (Ok 97, idle_kernel [0x1E]\<lparr>kbd := \<lparr>modifiers = 0, last_escape = 0\<rparr>, hw := []\<rparr>)"
proof -
  have a: "keymap ! 30 = 97" by (simp add: keymap_def)
  show ?thesis
    by (simp add: check_keyboard_def on_kbd_def keyboard_readc_def typed_cpu_def typed_inb_def keyboard_decode_def a
        idle_kernel_def io_bind_def io_return_def)
qed

text \<open>
  C16: Buffering a key. When a key \<open>c\<close> arrives, \<open>check_keyboard_push\<close> appends it behind the pending keys; when 2023 keys are
  already pending the assertion of the buffer fails; without a key nothing is changed.
\<close>

theorem keyboard_push_queues:
  assumes "check_keyboard cpu s = (Ok c, s1)" and "ring_ok (stdin s1)"
  shows "\<exists>r s'. check_keyboard_push cpu s = (r, s') \<and>
    (if c = 0 \<or> c = - 1 then r = Ok () \<and> s' = s1
     else if length (pending_keys s1) = 2023 then r = Stuck
     else r = Ok () \<and> ring_ok (stdin s') \<and> pending_keys s' = pending_keys s1 @ [c])"
proof (cases "c = 0 \<or> c = - 1")
  case True
  then show ?thesis using assms(1) by (auto simp: check_keyboard_push_def io_bind_def io_return_run)
next
  case False
  then have *: "check_keyboard_push cpu s =
      io_bind (io_some (ring_push c (stdin s1))) (\<lambda>r. k_put (set_stdin r)) s1"
    using assms(1) by (simp add: check_keyboard_push_def io_bind_Ok kernel_simps)
  show ?thesis
  proof (cases "length (pending_keys s1) = 2023")
    case True
    then show ?thesis using stdin_ring.push_full [OF assms(2), of c] * False
      by (simp add: pending_keys_def STDIN_LENGTH_def io_some_def io_bind_Stuck io_stuck_run)
  next
    case l: False
    with stdin_ring.bounded [OF assms(2)] have "length (pending_keys s1) < STDIN_LENGTH - 1"
      by (simp add: pending_keys_def STDIN_LENGTH_def)
    then obtain r where "ring_push c (stdin s1) = Some r" "ring_ok r" "ring_contents r = pending_keys s1 @ [c]"
      using stdin_ring.push_ok [OF assms(2), of c] by (auto simp: pending_keys_def)
    then show ?thesis using * False l by (simp add: kernel_simps) (simp add: pending_keys_def)
  qed
qed

theorem keyboard_push_queues_witness:
  "\<exists>s'. check_keyboard_push typed_cpu (idle_kernel [0x1E]) = (Ok (), s') \<and> pending_keys s' = [97]"
  using keyboard_push_queues [OF typed_key] by (simp only: idle_ring) auto

text \<open>
  Taking a key. \<open>check_keyboard_pop\<close> returns the oldest pending key when no key is being typed (and -1 when none is
  pending); a key typed at that moment is returned at once and the pending keys stay in the buffer.
\<close>

theorem keyboard_pop_dequeues:
  assumes "check_keyboard cpu s = (Ok c, s1)" and "ring_ok (stdin s1)"
  shows "\<exists>x s'. check_keyboard_pop cpu s = (Ok x, s') \<and> ring_ok (stdin s') \<and>
    (if c \<noteq> - 1 then x = c \<and> pending_keys s' = pending_keys s1
     else case pending_keys s1 of [] \<Rightarrow> x = - 1 \<and> pending_keys s' = [] | y # ys \<Rightarrow> x = y \<and> pending_keys s' = ys)"
proof (cases "c = - 1")
  case False
  then show ?thesis using assms by (auto simp: check_keyboard_pop_def io_bind_def io_return_run)
next
  case True
  then have *: "check_keyboard_pop cpu s = (case ring_pop (stdin s1) of None \<Rightarrow> (Ok (- 1), s1) | Some (x, r) \<Rightarrow> (Ok x, set_stdin r s1))"
    using assms(1) by (auto simp: check_keyboard_pop_def io_bind_Ok kernel_simps io_return_run split: option.split)
  show ?thesis
  proof (cases "pending_keys s1")
    case Nil
    then show ?thesis using stdin_ring.pop_empty [OF assms(2)] * True assms(2) by (auto simp: pending_keys_def)
  next
    case (Cons y ys)
    with stdin_ring.pop_ok [OF assms(2), of y ys] * True show ?thesis by (auto simp: pending_keys_def)
  qed
qed

theorem keyboard_pop_dequeues_witness:
  "\<exists>s'. check_keyboard_pop typed_cpu (idle_kernel [0x1E]) = (Ok 97, s') \<and> pending_keys s' = []"
  using keyboard_pop_dequeues [OF typed_key] by (simp only: idle_ring) auto


end
