(* ===== verification/Kernel_Filesystem.thy ===== *)
theory Kernel_Filesystem
  imports Filesystem_Tree Input
begin

text \<open>
  The file system as the kernel mounts it: the callbacks of \<^verbatim>\<open>kernel/kernel.c\<close>, the descriptor that
  \<open>fs_init\<close> makes of them, and the guarantees of the file system on the kernel's devices.
\<close>

section \<open>The mounted file system\<close>

definition kernel_read_disk :: "'d cpu \<Rightarrow> uint64 \<Rightarrow> nat \<Rightarrow> ('d kernel, byte list) io" where
  "kernel_read_disk cpu a n = on_hw (fs_read_disk (pio cpu) a n)"

definition kernel_write_disk :: "'d cpu \<Rightarrow> byte list \<Rightarrow> uint64 \<Rightarrow> ('d kernel, unit) io" where
  "kernel_write_disk cpu bs a = on_hw (fs_write_disk (pio cpu) bs a)"

text \<open>The static variable \<open>fsdesc\<close> is zero before \<open>fs_init\<close>; \<open>fsdesc\<close> is its value afterwards.\<close>

definition fsdesc :: "'d cpu \<Rightarrow> 'd kernel fs_descriptor" where
  "fsdesc cpu = \<lparr>fsdr = kernel_read_disk cpu, fsdw = kernel_write_disk cpu, fsrng = fs_generate_random cpu,
     metadata = \<lparr>m_inode_count = 16, m_block_count = 16, m_node_count = 16\<rparr>,
     avail_block_table_offset = 0, inode_table_offset = 12, block_usage_offset = 4876,
     tree_usage_offset = 4892, tree_offset = 70428, data_offset = 88988\<rparr>"

text \<open>
  What the file system sees of a kernel state: the bytes of the disk from \<open>FILESYSTEM_DISK_OFFSET\<close> on.
  It can be called when the disk is idle and the entropy pool has its size.
\<close>

definition fs_content :: "('d \<Rightarrow> nat \<Rightarrow> byte list) \<Rightarrow> 'd kernel \<Rightarrow> nat \<Rightarrow> byte" where
  "fs_content sect s = (\<lambda>x. disk_byte (sect (hw s)) (x + FILESYSTEM_DISK_OFFSET))"

definition fs_ready :: "('d \<Rightarrow> bool) \<Rightarrow> ('d \<Rightarrow> ata_phase) \<Rightarrow> 'd kernel \<Rightarrow> bool" where
  "fs_ready ok phase s \<longleftrightarrow> ok (hw s) \<and> phase (hw s) = Idle \<and> length (entropy_buffer s) = ENTROPY_NEEDED_BYTES"

locale kernel_devices =
  disk: fs_disk "pio cpu" sect reg phase busy ok nsect +
  keys: key_source cpu "\<lambda>d. ok d \<and> phase d = Idle" wait sect
  for cpu :: "'d cpu" and sect reg phase busy ok nsect wait +
  assumes disk_size: "FILESYSTEM_DISK_OFFSET + fs_end \<le> 512 * nsect"
begin

lemma pool_ok_ready: "keys.pool_ok = fs_ready ok phase"
  by (auto simp: fun_eq_iff keys.pool_ok_def fs_ready_def)

lemma kernel_byte_store:
  "byte_store (kernel_read_disk cpu) (kernel_write_disk cpu) (fs_content sect) (fs_ready ok phase)
     (512 * nsect - FILESYSTEM_DISK_OFFSET)"
proof
  fix s :: "'d kernel" and a :: uint64 and n :: nat
  assume s: "fs_ready ok phase s" and a: "unat a + n \<le> 512 * nsect - FILESYSTEM_DISK_OFFSET"
  obtain d' where "fs_read_disk (pio cpu) a n (hw s) = (Ok (content_read (fs_content sect s) (unat a) n), d')"
      "ok d' \<and> phase d' = Idle" "sect d' = sect (hw s)"
    using disk.fs_read_disk_spec [OF _ a, of "hw s"] s by (auto simp: fs_ready_def fs_content_def)
  then show "\<exists>s'. kernel_read_disk cpu a n s = (Ok (content_read (fs_content sect s) (unat a) n), s') \<and>
      fs_ready ok phase s' \<and> fs_content sect s' = fs_content sect s"
    using s by (simp add: kernel_read_disk_def on_hw_def fs_ready_def fs_content_def)
next
  fix s :: "'d kernel" and a :: uint64 and bs :: "byte list"
  assume s: "fs_ready ok phase s" and a: "unat a + length bs \<le> 512 * nsect - FILESYSTEM_DISK_OFFSET"
  obtain d' where "fs_write_disk (pio cpu) bs a (hw s) = (Ok (), d')" "ok d' \<and> phase d' = Idle"
      "(\<lambda>x. disk_byte (sect d') (x + FILESYSTEM_DISK_OFFSET)) = content_upd (fs_content sect s) (unat a) bs"
    using disk.fs_write_disk_spec [OF _ a, of "hw s"] s by (auto simp: fs_ready_def fs_content_def)
  then show "\<exists>s'. kernel_write_disk cpu bs a s = (Ok (), s') \<and> fs_ready ok phase s' \<and>
      fs_content sect s' = content_upd (fs_content sect s) (unat a) bs"
    using s by (simp add: kernel_write_disk_def on_hw_def fs_ready_def fs_content_def)
qed

end

sublocale kernel_devices \<subseteq> mounted_fs "fsdesc cpu" "fs_content sect" "fs_ready ok phase" "512 * nsect - FILESYSTEM_DISK_OFFSET"
proof (rule mounted_fs.intro)
  show "byte_store (fsdr (fsdesc cpu)) (fsdw (fsdesc cpu)) (fs_content sect) (fs_ready ok phase) (512 * nsect - FILESYSTEM_DISK_OFFSET)"
    using kernel_byte_store by (simp add: fsdesc_def)
  show "mounted_fs_axioms (fsdesc cpu) (fs_content sect) (fs_ready ok phase) (512 * nsect - FILESYSTEM_DISK_OFFSET)"
  proof
    show "fs_layout (fsdesc cpu)" by (simp add: fs_layout_def fsdesc_def)
    show "fs_end \<le> 512 * nsect - FILESYSTEM_DISK_OFFSET" using disk_size by simp
    fix s :: "'d kernel" and n
    assume "fs_ready ok phase s"
    then show "\<exists>bs s'. fsrng (fsdesc cpu) n s = (Ok bs, s') \<and> length bs = n \<and> fs_ready ok phase s' \<and> fs_content sect s' = fs_content sect s"
      using keys.returns_random [of n] by (auto simp: keys.returns_def pool_ok_ready fsdesc_def fs_content_def)
  qed
qed

context kernel_devices
begin

lemmas mounted = mounted_fs_axioms

end

section \<open>A machine\<close>

definition sim_cpu :: "ata_sim cpu" where
  "sim_cpu = \<lparr>pio = sim_ports, inl = \<lambda>p d. (0, d), outl = \<lambda>p v d. d, outw = \<lambda>p v d. d,
     read_cycle_counter = \<lambda>d. (0x123456789, d), rcr2 = \<lambda>d. 0\<rparr>"

definition sim_wait :: "keyboard \<Rightarrow> ata_sim \<Rightarrow> nat" where
  "sim_wait k d = (if last_escape k = 0 then 0 else 1)"


lemma decode_plain:
  fixes k :: keyboard
  assumes "last_escape k = 0"
  shows "0 < fst (keyboard_decode 0x1E k)"
proof -
  have a: "keymap ! 30 = 97" by (simp add: keymap_def)
  show ?thesis by (simp add: keyboard_decode_def assms a Let_def)
qed

lemma decode_press_escape:
  fixes k :: keyboard
  assumes "data \<noteq> 0xE0"
  shows "last_escape (snd (keyboard_decode data k)) = 0"
proof -
  have e: "last_escape (snd (if b then x else y)) = (if b then last_escape (snd x) else last_escape (snd y))"
    for b and x y :: "int \<times> keyboard" by simp
  have "last_escape (k\<lparr>last_escape := 0, modifiers := m\<rparr>) = 0" "last_escape (k\<lparr>last_escape := 0\<rparr>) = 0" for m by simp_all
  then show ?thesis using assms
    by (simp only: keyboard_decode_def Let_def e snd_conv if_cancel if_False if_distrib [of last_escape] cong: if_cong)
qed

lemma sim_readc: "keyboard_readc sim_ports (k, d) = (case keyboard_decode 0x1E k of (ch, k') \<Rightarrow> (Ok ch, (k', d)))"
  by (simp add: keyboard_readc_def sim_ports_def sim_inb_def)

interpretation sim_kernel: kernel_devices sim_cpu sim_sect sim_reg sim_phase sim_busy sim_ok 65536 sim_wait
proof (rule kernel_devices.intro)
  show "fs_disk (pio sim_cpu) sim_sect sim_reg sim_phase sim_busy sim_ok 65536"
    using sim.fs_disk_axioms by (simp add: sim_cpu_def)
  show "key_source sim_cpu (\<lambda>d. sim_ok d \<and> sim_phase d = Idle) sim_wait sim_sect"
  proof
    fix k k' d d' ch
    assume d: "sim_ok d \<and> sim_phase d = Idle" and r: "keyboard_readc (pio sim_cpu) (k, d) = (Ok ch, (k', d'))"
    from r have eq: "d' = d" and ch: "ch = fst (keyboard_decode 0x1E k)" and k': "k' = snd (keyboard_decode 0x1E k)"
      by (simp_all add: sim_cpu_def sim_readc split: prod.splits)
    show "(sim_ok d' \<and> sim_phase d' = Idle) \<and> sim_sect d' = sim_sect d \<and> (ch \<le> 0 \<longrightarrow> sim_wait k' d' < sim_wait k d)"
      using d decode_plain [of k] decode_press_escape [of "0x1E" k] by (auto simp: eq ch k' sim_wait_def)
  next
    fix d d' t
    assume "sim_ok d \<and> sim_phase d = Idle" and "read_cycle_counter sim_cpu d = (t, d')"
    then show "(sim_ok d' \<and> sim_phase d' = Idle) \<and> sim_sect d' = sim_sect d" by (simp add: sim_cpu_def)
  qed
  show "kernel_devices_axioms 65536"
    by unfold_locales (simp add: FILESYSTEM_DISK_OFFSET_def fs_end_def)
qed

text \<open>The kernel on this machine, after \<open>request_user_entropy\<close> and with a zeroed disk.\<close>

definition sim_state :: "ata_sim kernel" where
  "sim_state = idle_kernel blank_disk"

lemma sim_state_ok: "fs_ready sim_ok sim_phase sim_state" and sim_content: "fs_content sim_sect sim_state = (\<lambda>_. 0)"
  using blank_disk_ok
  by (auto simp: fs_ready_def sim_state_def idle_kernel_def ENTROPY_NEEDED_BYTES_def fs_content_def disk_byte_def blank_disk_def)

lemma blank_node: "node_at (\<lambda>_. 0) i = zero_node"
  by (simp add: node_at_def zero_node_def content_read_def map_replicate_const)

lemma blank_tree_ok: "tree_ok (\<lambda>_. 0)"
proof -
  have "dir_ok (\<lambda>_. 0) zero_node" using dir_ok_new [of "\<lambda>_. 0" "n_value zero_node"] by simp
  then show ?thesis by (simp add: tree_ok_def blank_node)
qed

lemma blank_inode: "inode_at (\<lambda>_. 0) i = zero_inode"
  by (simp add: inode_at_def zero_inode_def content_read_def map_replicate_const)

lemma zero_inode_fields: "i_start_block zero_inode = 0 \<and> i_block_count zero_inode = 0 \<and> i_size zero_inode = 0"
  by (simp add: zero_inode_def dec_inode_def fs_consts word_of_le_zeros)

section \<open>The properties of the file system\<close>

lemmas sim_mounted = sim_kernel.mounted_fs_axioms

text \<open>
  C17: Mounting. On a disk and a keyboard that follow their contracts, \<open>fs_init\<close> on the kernel's callbacks returns the descriptor
  \<open>fsdesc\<close>, does not change the disk content, and the kernel's disk driver and entropy pool implement the block
  device that the file system relies on: reads return the content, writes update it, the random generator
  delivers as many bytes as asked, and all the tables of the descriptor lie within the disk.
\<close>

theorem fs_init_mounts:
  assumes "kernel_devices cpu sect reg phase busy ok nsect wait" and "fs_ready ok phase s"
    and "avail_block_table_offset fs0 = 0"
  shows "(\<exists>s'. fs_init fs0 (kernel_read_disk cpu) (kernel_write_disk cpu) (fs_generate_random cpu) s = (Ok (fsdesc cpu), s') \<and>
      fs_ready ok phase s' \<and> fs_content sect s' = fs_content sect s) \<and>
    mounted_fs (fsdesc cpu) (fs_content sect) (fs_ready ok phase) (512 * nsect - FILESYSTEM_DISK_OFFSET)"
proof -
  from assms(1) have m: "mounted_fs (fsdesc cpu) (fs_content sect) (fs_ready ok phase) (512 * nsect - FILESYSTEM_DISK_OFFSET)"
    by (rule kernel_devices.mounted)
  have "12 \<le> 512 * nsect - FILESYSTEM_DISK_OFFSET" using m by (simp add: mounted_fs_def mounted_fs_axioms_def fs_end_def)
  then obtain s' where "kernel_read_disk cpu 0 12 s = (Ok (content_read (fs_content sect s) 0 12), s')"
      "fs_ready ok phase s'" "fs_content sect s' = fs_content sect s"
    using byte_store.rd_ok [OF kernel_devices.kernel_byte_store [OF assms(1)] assms(2), of 0 12] by auto
  then show ?thesis using m assms(3)
    by (cases fs0) (simp add: fs_init_def fs_consts io_simps fsdesc_def)
qed

theorem fs_init_mounts_witness:
  "\<exists>s'. fs_init (fsdesc sim_cpu) (kernel_read_disk sim_cpu) (kernel_write_disk sim_cpu) (fs_generate_random sim_cpu) sim_state =
     (Ok (fsdesc sim_cpu), s')"
  using fs_init_mounts [OF sim_kernel.kernel_devices_axioms sim_state_ok, of "fsdesc sim_cpu"] by (auto simp: fsdesc_def)



text \<open>
  C19: Inode allocation. \<open>fs_alloc_inode\<close> returns the first inode from 1 on whose reference byte is zero and sets that
  byte alone to 1; when all of them are used it returns \<open>-ENOSPC\<close> and leaves the disk alone.
\<close>

theorem fs_alloc_inode_correct:
  assumes "mounted_fs fs content good cap" and "good d"
  shows "\<exists>r d'. fs_alloc_inode fs d = (r, d') \<and> good d' \<and>
    (case r of
       Ok i \<Rightarrow> 0 < unat i \<and> unat i < 16 \<and> content d (12 + 304 * unat i) = 0 \<and>
               (\<forall>j. 0 < j \<and> j < unat i \<longrightarrow> content d (12 + 304 * j) \<noteq> 0) \<and>
               content d' = (content d)(12 + 304 * unat i := 1)
     | Err e \<Rightarrow> e = - ENOSPC \<and> (\<forall>j. 0 < j \<and> j < 16 \<longrightarrow> content d (12 + 304 * j) \<noteq> 0) \<and> content d' = content d
     | Stuck \<Rightarrow> False)"
proof -
  let ?f = "first_free (content d) (\<lambda>j. 12 + 304 * j) 1 15"
  obtain d' where d': "fs_alloc_inode fs d = (free_outcome ?f, d')" "good d'"
      "content d' = (case ?f of None \<Rightarrow> content d | Some j \<Rightarrow> (content d)(12 + 304 * j := 1))"
    using yieldsD [OF mounted_fs.fs_alloc_inode_yields [OF assms(1)] assms(2) refl] by blast
  show ?thesis
  proof (cases ?f)
    case None
    then have "\<forall>j. 0 < j \<and> j < 16 \<longrightarrow> content d (12 + 304 * j) \<noteq> 0" by (auto simp: first_free_None)
    then show ?thesis using d' unfolding None by (auto simp: free_outcome_def)
  next
    case (Some j)
    from first_free_Some [OF Some] have "unat (of_nat j :: uint32) = j" by (simp add: unat_of_nat)
    then show ?thesis using d' first_free_Some [OF Some] unfolding Some by (auto simp: free_outcome_def)
  qed
qed

theorem fs_alloc_inode_correct_witness:
  "\<exists>r d'. fs_alloc_inode (fsdesc sim_cpu) sim_state = (r, d') \<and> (\<exists>i. r = Ok i \<and> 0 < unat i)"
proof -
  obtain r d' where r: "fs_alloc_inode (fsdesc sim_cpu) sim_state = (r, d')" and
    c: "case r of Ok i \<Rightarrow> 0 < unat i | Err e \<Rightarrow> \<forall>j::nat. \<not> (0 < j \<and> j < 16) | Stuck \<Rightarrow> False"
    using fs_alloc_inode_correct [OF sim_mounted sim_state_ok] unfolding sim_content by (fastforce split: outcome.splits)
  from c have "\<exists>i. r = Ok i \<and> 0 < unat i" by (cases r) (use gr0_conv_Suc in \<open>auto dest: spec [of _ 1]\<close>)
  then show ?thesis using r by blast
qed

text \<open>
  C20: Reading. \<open>fs_read\<close> on a well-formed file returns the requested slice of the file's decrypted bytes, cut at the
  end of the file, and changes nothing; 18 units of fuel are enough on a volume of 16 blocks.
\<close>

theorem fs_read_refines:
  assumes "mounted_fs fs content good cap" and "good d" and "unat ino < 16"
    and "file_ok (inode_at (content d) (unat ino))" and "0 < unat sz" and "unat sz \<le> FS_IO_MAX_SIZE" and "18 \<le> fuel"
  shows "\<exists>d'. fs_read fuel fs ino sz offset d =
      (Ok (take (unat sz) (drop (unat offset) (file_bytes (content d) (inode_at (content d) (unat ino))))), d') \<and>
    good d' \<and> content d' = content d"
  using yieldsD [OF mounted_fs.fs_read_yields [OF assms(1,3-7)] assms(2) refl] .

theorem fs_read_refines_witness:
  "\<exists>d'. fs_read 18 (fsdesc sim_cpu) 1 10 0 sim_state = (Ok [], d')"
  using fs_read_refines [OF sim_mounted sim_state_ok, of 1 10 18 0] zero_inode_fields
  by (auto simp: sim_content blank_inode file_ok_def file_bytes_def FS_IO_MAX_SIZE_def)


lemma unat_small_64 [simp]: "unat (1 :: uint64) = 1" "unat (2 :: uint64) = 2" "unat (3 :: uint64) = 3" "unat (10 :: uint64) = 10"
  by simp_all


text \<open>
  C22: Appending within the last block. Writing at an unaligned offset of the last block of a file keeps the bytes before the
  offset and puts the written bytes behind them, so that a later read returns the spliced file.
\<close>

theorem fs_append_then_read:
  assumes m: "mounted_fs fs content good cap" and d: "good d" and ino: "unat ino < 16"
    and e: "e = inode_at (content d) (unat ino)" and ok: "file_ok e"
    and off: "unat offset mod 4096 \<noteq> 0" "unat offset \<le> unat (i_size e)"
      "unat (i_block_count e) = Suc (unat offset div 4096)"
    and sz: "unat offset mod 4096 + unat sz \<le> 4096" and buf: "4096 - unat offset mod 4096 \<le> length buf"
    and n: "0 < unat n" "unat n \<le> FS_IO_MAX_SIZE" "18 \<le> fuel"
  shows "\<exists>d1 d2. fs_write fs ino buf sz offset d = (Ok (sz, buf), d1) \<and>
    fs_read fuel fs ino n start d1 =
      (Ok (take (unat n) (drop (unat start) (take (unat offset) (file_bytes (content d) e) @ take (unat sz) buf))), d2)"
proof -
  obtain c' where c': "yields good content (content d) (fs_write fs ino buf sz offset) (Ok (sz, buf)) c'"
      "stored (content d) c' (unat ino) (take (unat offset) (file_bytes (content d) e) @ take (unat sz) buf)"
    using mounted_fs.fs_write_append_yields [OF m ino e ok off sz buf] by blast
  from yieldsD [OF c'(1) d refl] c'(2) obtain d1 where w: "fs_write fs ino buf sz offset d = (Ok (sz, buf), d1)" "good d1"
      "stored (content d) (content d1) (unat ino) (take (unat offset) (file_bytes (content d) e) @ take (unat sz) buf)" by blast
  then have "file_ok (inode_at (content d1) (unat ino))" by (simp add: stored_def)
  from yieldsD [OF mounted_fs.fs_read_yields [OF m ino this n, of start] w(2) refl] w show ?thesis by (auto simp: stored_def)
qed

definition one_byte_file :: fs_inode_entry where
  "one_byte_file = zero_inode\<lparr>i_block_count := 1, i_size := 1\<rparr>"

theorem fs_append_then_read_witness:
  "\<exists>d d1 d2. kernel_write_disk sim_cpu (enc_inode one_byte_file) 316 sim_state = (Ok (), d) \<and>
     fs_write (fsdesc sim_cpu) 1 (replicate 4095 7) 3 1 d = (Ok (3, replicate 4095 7), d1) \<and>
     fs_read 18 (fsdesc sim_cpu) 1 2 1 d1 = (Ok [7, 7], d2)"
proof -
  have wf: "inode_wf one_byte_file"
    using inode_wf_at [of "\<lambda>_. 0" 0] by (simp add: blank_inode one_byte_file_def inode_wf_def)
  then obtain d where d: "kernel_write_disk sim_cpu (enc_inode one_byte_file) 316 sim_state = (Ok (), d)"
      "fs_ready sim_ok sim_phase d" "fs_content sim_sect d = put_inode (\<lambda>_. 0) 1 one_byte_file"
    using byte_store.wr_ok [OF sim_kernel.kernel_byte_store sim_state_ok, of 316 "enc_inode one_byte_file"]
    by (auto simp: sim_content put_inode_def FILESYSTEM_DISK_OFFSET_def fs_consts length_enc_inode)
  let ?e = "inode_at (fs_content sim_sect d) 1"
  have e: "?e = one_byte_file" using wf by (simp add: d(3) disk_simps)
  have len: "length (take 1 (file_bytes (fs_content sim_sect d) ?e)) = 1"
    unfolding e by (simp add: file_bytes_def one_byte_file_def BLOCK_SIZE_def)
  have "take 2 (drop 1 (take 1 (file_bytes (fs_content sim_sect d) ?e) @ take 3 (replicate 4095 7))) = [7, 7 :: byte]"
    using len by (simp add: numeral_2_eq_2 numeral_3_eq_3)
  then show ?thesis
    using fs_append_then_read [OF sim_mounted d(2), of 1 _ 1 3 "replicate 4095 7" 2 18 1] d(1) zero_inode_fields
    by (simp add: e [unfolded One_nat_def] file_ok_def one_byte_file_def FS_IO_MAX_SIZE_def)
qed


lemma blank_touch: "nm \<noteq> [] \<Longrightarrow> touch_result (\<lambda>_. 0) [] nm v = (Ok (), touched (\<lambda>_. 0) 0 nm 1 v)"
proof -
  assume "nm \<noteq> []"
  then have "child_of zero_node nm = None" using zero_node_children by (simp add: child_of_def find_zero_child)
  moreover have "first_free (\<lambda>_. 0) (\<lambda>j. 4892 + j) 1 15 = Some 1" by (simp add: first_free_def upt_conv_Cons)
  ultimately show ?thesis using zero_node_children by (simp add: touch_result_def blank_node)
qed


text \<open>
  C27: Creating a file keeps the tree well-formed and every path that resolved before resolves to the same node afterwards;
  when it succeeds the new path resolves and \<open>fs_getattr\<close> on it returns the inode it was created with.
\<close>

theorem fs_touch_getattr:
  assumes m: "mounted_fs fs content good cap" and d: "good d" and ok: "tree_ok (content d)"
    and es: "\<forall>e\<in>set es. name_ok e" and nm: "name_ok nm"
  shows "\<exists>r d'. fs_touch fs (path_of (es @ [nm])) v d = (r, d') \<and> good d' \<and> tree_ok (content d') \<and>
    (\<forall>ps q. (\<forall>e\<in>set ps. name_ok e) \<and> tree_walk (content d) 0 ps = Some q \<longrightarrow> tree_walk (content d') 0 ps = Some q) \<and>
    (r = Ok () \<longrightarrow> (\<exists>d2. fs_getattr fs (path_of (es @ [nm])) d' = (Ok v, d2)))"
proof -
  let ?c = "content d" and ?r = "touch_result (content d) es nm v"
  obtain d' where d': "fs_touch fs (path_of (es @ [nm])) v d = (fst ?r, d')" "good d'" "content d' = snd ?r"
    using yieldsD [OF mounted_fs.fs_touch_yields [OF m ok es nm] d refl] by blast
  show ?thesis
  proof (cases "fst ?r = Ok ()")
    case False
    then have "snd ?r = ?c" by (auto simp: touch_result_def split: option.splits if_splits)
    then show ?thesis using d' ok False by simp
  next
    case True
    then obtain p j where pj: "tree_walk ?c 0 es = Some p" "first_free ?c (\<lambda>j. 4892 + j) 1 15 = Some j"
        "child_of (node_at ?c p) nm = None" "n_children_count (node_at ?c p) \<noteq> 32" and r: "snd ?r = touched ?c p nm j v"
      by (auto simp: touch_result_def split: option.splits if_splits)
    have ne: "\<forall>e\<in>set ps. name_ok e \<Longrightarrow> \<forall>e\<in>set ps. e \<noteq> []" for ps by (auto simp: name_ok_def)
    have root: "node_used ?c 0" by (simp add: node_used_def)
    have "p < 16 \<and> node_used ?c p" using tree_walk_used [OF ok pj(1)] root ne [OF es] by simp
    then have can: "can_touch ?c p nm j"
      using ok nm pj first_free_Some [OF pj(2)] by (simp add: can_touch_def)
    note walk = touched_lookup [OF can refl pj(1) ne [OF es], of v]
    have tree: "tree_ok (content d')" using touched_tree_ok [OF can refl] by (simp add: d'(3) r)
    have "\<exists>d2. fs_getattr fs (path_of (es @ [nm])) d' = (Ok v, d2)"
      using yieldsD [OF mounted_fs.fs_getattr_yields [OF m tree, of "es @ [nm]"] d'(2) refl] es nm walk
        touched_nodes(2) [OF can refl, of v] by (auto simp: d'(3) r)
    then show ?thesis
      using d' tree touched_walk [OF can refl _ _ root] ne by (auto simp: r)
  qed
qed

theorem fs_touch_getattr_witness:
  "\<exists>d1 d2. fs_touch (fsdesc sim_cpu) (path_of [[97]]) 5 sim_state = (Ok (), d1) \<and>
     fs_getattr (fsdesc sim_cpu) (path_of [[97]]) d1 = (Ok 5, d2)"
proof -
  have "name_ok [97]" by (simp add: name_ok_def)
  then show ?thesis
    using fs_touch_getattr [OF sim_mounted sim_state_ok, of "[]" "[97]" 5] blank_tree_ok
      yieldsD [OF mounted_fs.fs_touch_yields [OF sim_mounted, of "\<lambda>_. 0" "[]" "[97]" 5] sim_state_ok sim_content]
    by (auto simp: sim_content blank_touch)
qed

end
