(* ===== verification/Filesystem_Removal.thy ===== *)
theory Filesystem_Removal
  imports Kernel_Filesystem
begin

text \<open>
  The removal of a file. \<open>fs_remove\<close> overwrites the entry with the one in the slot before the last, instead of the last one
  (it decrements \<open>children_count\<close> before it computes the slot), and leaves the slots past \<open>children_count\<close> as they are,
  while \<open>search_node\<close> looks at all 32 of them. What this means for lookups is shown here.
\<close>

section \<open>The entry of a name\<close>

definition slot_of :: "fs_node \<Rightarrow> byte list \<Rightarrow> nat option" where
  "slot_of node nm = find (\<lambda>s. child_name (n_children node ! s) = nm) [0..<child_slots node]"

lemma dir_find_slot:
  assumes "dir_ok c node" and "name_ok nm"
  shows "find_child (child_slots node) node nm 0 = Some (slot_of node nm)"
    and "child_of node nm = map_option (\<lambda>i. c_index (n_children node ! i)) (slot_of node nm)"
proof -
  obtain chs where chs: "n_children node = chs @ replicate (32 - length chs) zero_child" "length chs \<le> 32"
      "n_children_count node = of_nat (length chs)" "\<forall>ch\<in>set chs. child_ok c ch"
    using assms(1) by (auto simp: dir_ok_def)
  have k: "child_slots node = length chs" using child_slots_of_nat [OF chs(3,2)] by simp
  have nth: "s < length chs \<Longrightarrow> n_children node ! s = chs ! s" for s by (simp add: chs(1) nth_append)
  have "c_index (n_children node ! s) \<noteq> 0" if "s < length chs" for s
    using bspec [OF chs(4) nth_mem [OF that]] nth [OF that] by (auto simp: child_ok_def)
  then show "find_child (child_slots node) node nm 0 = Some (slot_of node nm)"
    using find_child_spec [OF dir_ok_names [OF assms(1)], of nm 0 "length chs"] assms(2) chs(2) k
    by (simp add: name_ok_def slot_of_def)
  have "slot_of node nm = find (\<lambda>s. child_name (chs ! s) = nm) [0..<length chs]"
    unfolding slot_of_def k by (rule find_cong) (simp_all add: nth)
  moreover have "map_option (\<lambda>i. c_index (n_children node ! i)) (find (\<lambda>s. child_name (chs ! s) = nm) [0..<length chs]) =
      map_option (\<lambda>i. c_index (chs ! i)) (find (\<lambda>s. child_name (chs ! s) = nm) [0..<length chs])"
    by (rule map_option_cong) (auto simp: find_Some_iff nth)
  moreover have "child_of node nm = map_option c_index (find (\<lambda>ch. child_name ch = nm) chs)"
    using dir_children [OF chs(1), of nm] assms(2) by (simp add: name_ok_def)
  ultimately show "child_of node nm = map_option (\<lambda>i. c_index (n_children node ! i)) (slot_of node nm)"
    using find_nth [of "\<lambda>ch. child_name ch = nm" chs] by (simp add: option.map_comp comp_def)
qed

lemma find_unique:
  assumes "x \<in> set xs" and "P x" and "\<And>y. y \<in> set xs \<Longrightarrow> P y \<Longrightarrow> y = x"
  shows "find P xs = Some x"
proof (cases "find P xs")
  case None
  then show ?thesis using assms(1,2) by (auto simp: find_None_iff)
next
  case (Some y)
  then have "y \<in> set xs" "P y" by (auto simp: find_Some_iff)
  then show ?thesis using assms(3) Some by blast
qed

text \<open>The directory without the entry in slot \<open>i\<close>, and what its lookups give.\<close>

definition unlinked :: "fs_node \<Rightarrow> nat \<Rightarrow> fs_node" where
  "unlinked node i = node\<lparr>n_children_count := n_children_count node - 1,
     n_children := (n_children node)[i := n_children node ! (child_slots node - 2)]\<rparr>"

lemma find_overwritten:
  assumes d: "distinct (map child_name chs)" and i: "i < length chs" and n: "2 \<le> length chs"
  defines "xs \<equiv> chs[i := chs ! (length chs - 2)]"
  shows "find (\<lambda>ch. child_name ch = e) xs =
    (if e = child_name (chs ! i) \<and> i \<noteq> length chs - 2 then None else find (\<lambda>ch. child_name ch = e) chs)"
proof (cases "i = length chs - 2")
  case True
  then show ?thesis by (simp add: xs_def)
next
  case False
  let ?v = "chs ! (length chs - 2)"
  have len: "length xs = length chs" by (simp add: xs_def)
  have nth: "xs ! s = (if s = i then ?v else chs ! s)" if "s < length chs" for s using that by (simp add: xs_def)
  have same: "s = t" if "s < length chs" "t < length chs" "child_name (chs ! s) = child_name (chs ! t)" for s t
    using d that nth_eq_iff_index_eq [of "map child_name chs" s t] by simp
  have v: "length chs - 2 < length chs" using n by simp
  show ?thesis
  proof (cases "\<exists>t<length chs. t \<noteq> i \<and> child_name (chs ! t) = e")
    case True
    then obtain t where t: "t < length chs" "t \<noteq> i" "child_name (chs ! t) = e" by blast
    have only: "y = chs ! t" if "y \<in> set chs" "child_name y = e" for y
      using that same t(1,3) by (metis in_set_conv_nth)
    have sub: "set xs \<subseteq> set chs" using set_update_subset_insert [of chs i ?v] nth_mem [OF v] by (auto simp: xs_def)
    have "xs ! t = chs ! t" using nth t by simp
    then have "chs ! t \<in> set xs" using nth_mem [of t xs] t(1) len by simp
    then have "find (\<lambda>ch. child_name ch = e) xs = Some (chs ! t)" using t(3) only sub by (intro find_unique) auto
    moreover have "find (\<lambda>ch. child_name ch = e) chs = Some (chs ! t)" using t only by (intro find_unique) auto
    moreover have "e \<noteq> child_name (chs ! i)" using same t i by metis
    ultimately show ?thesis by simp
  next
    case no: False
    have "child_name y \<noteq> e" if "y \<in> set xs" for y
      using that no False v by (auto simp: in_set_conv_nth len nth split: if_splits)
    then have "find (\<lambda>ch. child_name ch = e) xs = None" by (auto simp: find_None_iff)
    moreover have "find (\<lambda>ch. child_name ch = e) chs = None" if "e \<noteq> child_name (chs ! i)"
      using no that by (auto simp: find_None_iff in_set_conv_nth)
    ultimately show ?thesis using False by auto
  qed
qed

lemma unlinked_children:
  assumes dir: "dir_ok c node" and i: "slot_of node nm = Some i" and n: "2 \<le> child_slots node"
  shows "e \<noteq> [] \<Longrightarrow> child_of (unlinked node i) e =
      (if e = nm \<and> i \<noteq> child_slots node - 2 then None else child_of node e)"
    and "node_wf (unlinked node i)" and "remove_child node i = Some (unlinked node i)"
proof -
  obtain chs where chs: "n_children node = chs @ replicate (32 - length chs) zero_child" "length chs \<le> 32"
      "n_children_count node = of_nat (length chs)" "distinct (map child_name chs)"
    using dir by (auto simp: dir_ok_def)
  have k: "child_slots node = length chs" using child_slots_of_nat [OF chs(3,2)] by simp
  have il: "i < length chs" "child_name (chs ! i) = nm"
    using i by (auto simp: slot_of_def find_Some_iff k chs(1) nth_append)
  let ?chs = "chs[i := chs ! (length chs - 2)]"
  have v: "n_children node ! (child_slots node - 2) = chs ! (length chs - 2)" using n by (simp add: k chs(1) nth_append)
  have ch: "n_children (unlinked node i) = ?chs @ replicate (32 - length ?chs) zero_child"
    using il n by (simp add: unlinked_def v) (simp add: chs(1) list_update_append)
  show "child_of (unlinked node i) e = (if e = nm \<and> i \<noteq> child_slots node - 2 then None else child_of node e)" if "e \<noteq> []"
    using find_overwritten [OF chs(4) il(1), of e] n dir_children [OF ch that] dir_children [OF chs(1) that] by (simp add: k il(2))
  have wf: "node_wf node" using dir_ok_names [OF dir] by (simp add: names_ok_def)
  have "n_children node ! (child_slots node - 2) \<in> set (n_children node)"
    using wf n chs(2) by (intro nth_mem) (simp add: k node_wf_def MAX_CHILDREN_def)
  then show "node_wf (unlinked node i)"
    using wf set_update_subset_insert [of "n_children node" i "n_children node ! (child_slots node - 2)"]
    by (auto simp: node_wf_def unlinked_def)
  have "child_slots node - 1 - 1 = child_slots node - 2" by simp
  then show "remove_child node i = Some (unlinked node i)" using n by (simp add: remove_child_def unlinked_def Let_def)
qed

section \<open>The disk after a removal\<close>

definition unreferenced :: "fs_inode_entry \<Rightarrow> fs_inode_entry" where
  "unreferenced e = (if i_ref e = 1 then zero_inode else e\<lparr>i_ref := i_ref e - 1\<rparr>)"

definition unref_at :: "(nat \<Rightarrow> byte) \<Rightarrow> uint32 \<Rightarrow> nat \<Rightarrow> byte" where
  "unref_at c v = (if v = 0 then c else put_inode c (unat v) (unreferenced (inode_at c (unat v))))"

text \<open>A node that refers to an inode refers to one that counts the reference.\<close>

definition value_ok :: "(nat \<Rightarrow> byte) \<Rightarrow> uint32 \<Rightarrow> bool" where
  "value_ok c v \<longleftrightarrow> v = 0 \<or> unat v < 16 \<and> i_ref (inode_at c (unat v)) \<noteq> 0"

definition removed :: "(nat \<Rightarrow> byte) \<Rightarrow> nat \<Rightarrow> nat \<Rightarrow> nat \<Rightarrow> nat \<Rightarrow> byte" where
  "removed c p i j =
     (put_node (unref_at (put_node c p (unlinked (node_at c p) i)) (n_value (node_at c j))) j zero_node)(4892 + j := 0)"

definition can_remove :: "(nat \<Rightarrow> byte) \<Rightarrow> nat \<Rightarrow> byte list \<Rightarrow> nat \<Rightarrow> nat \<Rightarrow> bool" where
  "can_remove c p nm i j \<longleftrightarrow> tree_ok c \<and> p < 16 \<and> node_used c p \<and> slot_of (node_at c p) nm = Some i \<and>
     unat (c_index (n_children (node_at c p) ! i)) = j \<and> 0 < j \<and> j < 16 \<and> p \<noteq> j \<and> 2 \<le> child_slots (node_at c p) \<and>
     value_ok c (n_value (node_at c j))"

lemma inode_wf_unreferenced: "inode_wf (unreferenced (inode_at c i))"
  using inode_wf_at [of c i] inode_wf_dec [of "replicate INODE_ENTRY_SIZE 0"]
  by (auto simp: unreferenced_def zero_inode_def inode_wf_def)

lemma inode_at_put_node: "j < 16 \<Longrightarrow> inode_at (put_node c i n) j = inode_at c j"
  by (simp add: inode_at_def put_node_def content_read_upd_disjoint fs_consts)

lemma inode_at_fun_upd: "4876 \<le> x \<Longrightarrow> j < 16 \<Longrightarrow> inode_at (c(x := v)) j = inode_at c j"
  by (simp add: inode_at_def content_read_fun_upd fs_consts)

lemma put_inode_high: "4876 \<le> x \<Longrightarrow> i < 16 \<Longrightarrow> inode_wf e \<Longrightarrow> put_inode c i e x = c x"
  by (simp add: put_inode_def content_upd_def length_enc_inode fs_consts)

lemma unref_at_frame:
  assumes "value_ok c v"
  shows "node_at (unref_at c v) k = node_at c k" and "4876 \<le> x \<Longrightarrow> unref_at c v x = c x"
    and "k < 16 \<Longrightarrow> inode_at (unref_at c v) k = (if v \<noteq> 0 \<and> k = unat v then unreferenced (inode_at c k) else inode_at c k)"
  using assms inode_wf_unreferenced
  by (auto simp: unref_at_def value_ok_def disk_simps put_inode_high)

lemma removed_nodes:
  assumes can: "can_remove c p nm i j" and c': "c' = removed c p i j"
  shows "k < 16 \<Longrightarrow> node_used c' k \<longleftrightarrow> node_used c k \<and> k \<noteq> j"
    and "node_at c' j = zero_node" and "k \<noteq> j \<Longrightarrow> k \<noteq> p \<Longrightarrow> node_at c' k = node_at c k"
    and "e \<noteq> [] \<Longrightarrow> child_of (node_at c' p) e =
      (if e = nm \<and> i \<noteq> child_slots (node_at c p) - 2 then None else child_of (node_at c p) e)"
    and "k < 16 \<Longrightarrow> inode_at c' k =
      (if n_value (node_at c j) \<noteq> 0 \<and> k = unat (n_value (node_at c j)) then unreferenced (inode_at c k) else inode_at c k)"
proof -
  have r: "tree_ok c" "p < 16" "node_used c p" "slot_of (node_at c p) nm = Some i" "0 < j" "j < 16" "p \<noteq> j"
      "2 \<le> child_slots (node_at c p)" "value_ok c (n_value (node_at c j))"
    using can by (auto simp: can_remove_def)
  have dir: "dir_ok c (node_at c p)" using r by (simp add: tree_ok_def)
  note u = unlinked_children [OF dir r(4,8)]
  define c1 where "c1 = put_node c p (unlinked (node_at c p) i)"
  have n1: "node_at c1 k = (if k = p then unlinked (node_at c p) i else node_at c k)" for k
    using u(2) by (auto simp: c1_def disk_simps)
  have i1: "inode_at c1 k = inode_at c k" if "k < 16" for k using that by (simp add: c1_def inode_at_put_node)
  have "value_ok c1 (n_value (node_at c j))" using r(9) i1 by (auto simp: value_ok_def)
  note f = unref_at_frame [OF this]
  have z: "node_wf zero_node" using zero_node_wf [of "n_value zero_node"] by simp
  have c'': "c' = (put_node (unref_at c1 (n_value (node_at c j))) j zero_node)(4892 + j := 0)" by (simp add: c' removed_def c1_def)
  have at: "node_at c' k = (if k = j then zero_node else if k = p then unlinked (node_at c p) i else node_at c k)" for k
    using z r(6) by (auto simp: c'' disk_simps f(1) n1)
  show "node_at c' j = zero_node" "k \<noteq> j \<Longrightarrow> k \<noteq> p \<Longrightarrow> node_at c' k = node_at c k" by (simp_all add: at)
  show "e \<noteq> [] \<Longrightarrow> child_of (node_at c' p) e =
      (if e = nm \<and> i \<noteq> child_slots (node_at c p) - 2 then None else child_of (node_at c p) e)"
    using u(1) r(7) by (simp add: at)
  show "node_used c' k \<longleftrightarrow> node_used c k \<and> k \<noteq> j" if "k < 16"
  proof -
    have "unref_at c1 (n_value (node_at c j)) (4892 + k) = c (4892 + k)" using that f(2) by (simp add: c1_def put_node_low)
    then show ?thesis using that r(5,6) by (auto simp: node_used_def c'' put_node_low)
  qed
  show "inode_at c' k = (if n_value (node_at c j) \<noteq> 0 \<and> k = unat (n_value (node_at c j))
      then unreferenced (inode_at c k) else inode_at c k)" if "k < 16"
    using that r(6) f(3) [OF that] by (simp add: c'' inode_at_fun_upd inode_at_put_node i1)
qed

section \<open>The operation\<close>

text \<open>Where a path leads: the directory and the node. The root directory is not found when it is full.\<close>

definition find_entry_of :: "(nat \<Rightarrow> byte) \<Rightarrow> byte list list \<Rightarrow> byte list \<Rightarrow> (nat \<times> nat) option" where
  "find_entry_of c es nm =
     (case tree_walk c 0 es of
        None \<Rightarrow> None
      | Some p \<Rightarrow> if es = [] \<and> n_children_count (node_at c 0) = 32 then None
                  else map_option (\<lambda>i. (p, i)) (slot_of (node_at c p) nm))"

context mounted_fs
begin

lemma unref_inode_yields:
  assumes "unat v < 16" and "i_ref (inode_at c (unat v)) \<noteq> 0"
  shows "yield c (unref_inode fs v) (Ok ()) (put_inode c (unat v) (unreferenced (inode_at c (unat v))))"
proof -
  let ?e = "inode_at c (unat v)"
  have z: "i_block_count zero_inode = 0" using zero_inode_fields by simp
  have one: "i_ref ?e - 1 = 0 \<longleftrightarrow> i_ref ?e = 1" by (metis diff_eq_diff_eq diff_self)
  have nz: "0 < i_ref ?e" using assms(2) by (simp add: word_neq_0_conv)
  have "yield c (fsdw fs (enc_inode (unreferenced ?e)) (inode_addr fs v)) (Ok ()) (put_inode c (unat v) (unreferenced ?e))"
    by (rule put_inode_yields [OF assms(1) inode_wf_unreferenced])
  then show ?thesis
    unfolding unref_inode_def using z one nz
    by (intro yields_bind [OF read_inode_yields [OF assms(1)]]) (auto simp: unreferenced_def Let_def)
qed

lemma fs_remove_writes:
  assumes can: "can_remove c p nm i j"
  shows "yield c (io_bind (fsdw fs (enc_node (unlinked (node_at c p) i)) (node_addr fs (of_nat p))) (\<lambda>_.
      io_bind (read_node fs (of_nat j)) (\<lambda>node.
      io_bind (if n_value node \<noteq> 0 then io_ignore (unref_inode fs (n_value node)) else io_return ()) (\<lambda>_.
      io_bind (fsdw fs (enc_node zero_node) (node_addr fs (of_nat j))) (\<lambda>_.
      fsdw fs [0] (tree_usage_offset fs + ucast (of_nat j :: uint32)))))))
     (Ok ()) (removed c p i j)"
proof -
  have r: "p < 16" "slot_of (node_at c p) nm = Some i" "j < 16" "p \<noteq> j" "2 \<le> child_slots (node_at c p)"
      "value_ok c (n_value (node_at c j))" and dir: "dir_ok c (node_at c p)"
    using can by (auto simp: can_remove_def tree_ok_def)
  have un: "unat (of_nat p :: uint32) = p" "unat (of_nat j :: uint32) = j" using r by (simp_all add: unat_of_nat)
  note u = unlinked_children [OF dir r(2,5)]
  let ?c1 = "put_node c p (unlinked (node_at c p) i)" and ?v = "n_value (node_at c j)"
  have 1: "yield c (fsdw fs (enc_node (unlinked (node_at c p) i)) (node_addr fs (of_nat p))) (Ok ()) ?c1"
    using put_node_yields [of "of_nat p"] un r(1) u(2) by simp
  have "node_at ?c1 j = node_at c j" using u(2) r(4) by (simp add: disk_simps)
  then have 2: "yield ?c1 (read_node fs (of_nat j)) (Ok (node_at c j)) ?c1"
    using read_node_yields [of "of_nat j" ?c1] un r(3) by simp
  have v1: "value_ok ?c1 ?v" using r(6) by (auto simp: value_ok_def inode_at_put_node)
  have 3: "yield ?c1 (if ?v \<noteq> 0 then io_ignore (unref_inode fs ?v) else io_return ()) (Ok ()) (unref_at ?c1 ?v)"
    using v1 yields_ignore [OF unref_inode_yields [of ?v ?c1]] by (auto simp: unref_at_def value_ok_def yields_return)
  have 4: "yield c1 (fsdw fs (enc_node zero_node) (node_addr fs (of_nat j))) (Ok ()) (put_node c1 j zero_node)" for c1
    using put_node_yields [of "of_nat j" zero_node c1] un r(3) zero_node_wf [of "n_value zero_node"] by simp
  have 5: "yield c1 (fsdw fs [0] (tree_usage_offset fs + ucast (of_nat j :: uint32))) (Ok ()) (c1(4892 + j := 0))" for c1
    using write_byte_yields [of "tree_usage_offset fs + ucast (of_nat j :: uint32)" c1 0] unat_usage_addr [of "of_nat j"] un r(3) fits
    by (simp add: fs_end_def)
  show ?thesis unfolding removed_def
    by (rule yields_bind [OF 1], rule yields_bind [OF 2], rule yields_bind [OF 3 yields_bind [OF 4 5]])
qed

lemma fs_remove_yields:
  assumes ok: "tree_ok c" and es: "\<forall>e\<in>set es. name_ok e" and nm: "name_ok nm"
    and link: "\<forall>p i. find_entry_of c es nm = Some (p, i) \<longrightarrow>
      (let j = unat (c_index (n_children (node_at c p) ! i)) in p \<noteq> j \<and> value_ok c (n_value (node_at c j)))"
  shows "case find_entry_of c es nm of
      None \<Rightarrow> yield c (fs_remove fs (path_of (es @ [nm]))) (Err (- ENOENT)) c
    | Some (p, i) \<Rightarrow>
        if child_slots (node_at c p) = 1 then yield c (fs_remove fs (path_of (es @ [nm]))) Stuck c
        else can_remove c p nm i (unat (c_index (n_children (node_at c p) ! i))) \<and>
          yield c (fs_remove fs (path_of (es @ [nm]))) (Ok ()) (removed c p i (unat (c_index (n_children (node_at c p) ! i))))"
proof -
  have split: "split_path (path_of (es @ [nm])) = Some (if es = [] then [slash] else path_of es, nm)"
    using nm split_path_append [of nm "path_of es"] by (cases es) (auto simp: path_of_append name_ok_def)
  note search = search_parent_yields [OF ok es]
  define rest where "rest = (\<lambda>(pi, node). io_bind (io_some (find_child (child_slots node) node nm 0)) (\<lambda>found.
       case found of
         None \<Rightarrow> io_fail (- ENOENT)
       | Some i \<Rightarrow>
           let child_node_index = c_index (n_children node ! i)
           in
           io_bind (io_some (remove_child node i)) (\<lambda>node.
           io_bind (fsdw fs (enc_node node) (node_addr fs pi)) (\<lambda>_.
           io_bind (read_node fs child_node_index) (\<lambda>node.
           io_bind (if n_value node \<noteq> 0 then io_ignore (unref_inode fs (n_value node)) else io_return ()) (\<lambda>_.
           io_bind (fsdw fs (enc_node zero_node) (node_addr fs child_node_index)) (\<lambda>_.
           fsdw fs [0] (tree_usage_offset fs + ucast child_node_index))))))))"
  have rm: "fs_remove fs (path_of (es @ [nm])) = io_bind (search_node fs (if es = [] then [slash] else path_of es)) rest"
    unfolding fs_remove_def split io_bind_some prod.case rest_def ..
  show ?thesis
  proof (cases "\<exists>p. tree_walk c 0 es = Some p \<and> \<not> (es = [] \<and> n_children_count (node_at c 0) = 32)")
    case False
    then have "yield c (search_node fs (if es = [] then [slash] else path_of es)) (Err (- ENOENT)) c"
      using search by (auto split: option.splits)
    moreover have "find_entry_of c es nm = None" using False by (auto simp: find_entry_of_def split: option.split)
    ultimately show ?thesis by (simp add: rm yields_bind_Err)
  next
    case True
    then obtain p where p: "tree_walk c 0 es = Some p" "\<not> (es = [] \<and> n_children_count (node_at c 0) = 32)" by blast
    let ?n = "node_at c p"
    have found: "yield c (search_node fs (if es = [] then [slash] else path_of es)) (Ok (of_nat p, ?n)) c"
      using search unfolding p(1) option.case if_not_P [OF p(2)] .
    have fe: "find_entry_of c es nm = map_option (\<lambda>i. (p, i)) (slot_of ?n nm)" 
      unfolding find_entry_of_def p(1) option.case if_not_P [OF p(2)] ..
    have pu: "p < 16" "node_used c p" using tree_walk_used [OF ok p(1)] es by (auto simp: node_used_def name_ok_def)
    have dir: "dir_ok c ?n" using ok pu by (simp add: tree_ok_def)
    note slot = dir_find_slot [OF dir nm]
    show ?thesis
    proof (cases "slot_of ?n nm")
      case None
      then have "yield c (rest (of_nat p, ?n)) (Err (- ENOENT)) c" by (simp add: rest_def slot(1) yields_fail)
      then show ?thesis by (simp add: fe None rm yields_bind [OF found])
    next
      case (Some i)
      define j where "j = unat (c_index (n_children ?n ! i))"
      have cj: "c_index (n_children ?n ! i) = of_nat j" by (simp add: j_def)
      have i: "i < child_slots ?n" using Some by (auto simp: slot_of_def find_Some_iff)
      have f: "find_entry_of c es nm = Some (p, i)" using fe Some by simp
      show ?thesis
      proof (cases "child_slots ?n = 1")
        case True
        then have none: "remove_child ?n i = None" by (simp add: remove_child_def)
        have st: "yield c (io_bind (io_some None) g) Stuck c" for g :: "fs_node \<Rightarrow> ('d, unit) io"
          by (simp add: io_bind_def io_some_def io_stuck_def yields_def)
        have "yield c (rest (of_nat p, ?n)) Stuck c"
          unfolding rest_def prod.case slot(1) io_bind_some Some option.case Let_def none by (rule st)
        then show ?thesis by (simp add: f True rm yields_bind [OF found])
      next
        case False
        then have two: "2 \<le> child_slots ?n" using i by simp
        have "0 < j \<and> j < 16" using dir_ok_child [OF dir, of nm] slot(2) Some nm by (simp add: j_def name_ok_def)
        then have can: "can_remove c p nm i j" using ok pu Some two link f by (simp add: can_remove_def j_def Let_def)
        have "yield c (rest (of_nat p, ?n)) (Ok ()) (removed c p i j)"
          using fs_remove_writes [OF can] unlinked_children(3) [OF dir Some two] by (simp add: rest_def slot(1) Some Let_def cj)
        then show ?thesis using can False by (simp add: f rm yields_bind [OF found] j_def [symmetric])
      qed
    qed
  qed
qed

end

section \<open>Properties\<close>

text \<open>
  C28: Removing a file or a directory. A path that does not lead to an entry is refused with \<open>-ENOENT\<close> and the disk is unchanged.
  The only entry of a directory cannot be removed: the code reads before the array of children. Otherwise the call succeeds:
  the node is cleared and free again, its inode, if it has one, loses a reference and is cleared with the last one, the other
  nodes and inodes are unchanged, and the other names of the directory lead where they led before. The name itself is
  gone, unless it was in the slot before the last one: that slot is overwritten with itself, and the name still leads to the
  node, which is free.
\<close>

theorem fs_remove_unlinks:
  fixes content :: "'d \<Rightarrow> nat \<Rightarrow> byte"
  assumes "mounted_fs fs content good cap" and "good d" and "tree_ok (content d)"
    and "\<forall>e\<in>set es. name_ok e" and "name_ok nm"
    and "\<forall>p i. find_entry_of (content d) es nm = Some (p, i) \<longrightarrow>
      (let j = unat (c_index (n_children (node_at (content d) p) ! i))
       in p \<noteq> j \<and> value_ok (content d) (n_value (node_at (content d) j)))"
  shows "\<exists>r d'. fs_remove fs (path_of (es @ [nm])) d = (r, d') \<and> good d' \<and>
    (case find_entry_of (content d) es nm of
       None \<Rightarrow> r = Err (- ENOENT) \<and> content d' = content d
     | Some (p, i) \<Rightarrow>
         let c = content d; c' = content d'; n = node_at c p; j = unat (c_index (n_children n ! i)); v = n_value (node_at c j)
         in if child_slots n = 1 then r = Stuck
            else r = Ok () \<and> node_at c' j = zero_node \<and> (\<forall>k<16. node_used c' k \<longleftrightarrow> node_used c k \<and> k \<noteq> j) \<and>
              (\<forall>k. k \<noteq> j \<and> k \<noteq> p \<longrightarrow> node_at c' k = node_at c k) \<and>
              (\<forall>e. e \<noteq> [] \<longrightarrow> child_of (node_at c' p) e = (if e = nm \<and> i \<noteq> child_slots n - 2 then None else child_of n e)) \<and>
              (\<forall>k<16. inode_at c' k = (if v \<noteq> 0 \<and> k = unat v then unreferenced (inode_at c k) else inode_at c k)))"
proof -
  let ?c = "content d"
  note y = mounted_fs.fs_remove_yields [OF assms(1,3-6)]
  show ?thesis
  proof (cases "find_entry_of ?c es nm")
    case None
    then have "yields good content ?c (fs_remove fs (path_of (es @ [nm]))) (Err (- ENOENT)) ?c" using y by simp
    from yieldsD [OF this assms(2) refl] show ?thesis by (auto simp: None)
  next
    case (Some q)
    obtain p i where q: "q = (p, i)" by (cases q)
    let ?j = "unat (c_index (n_children (node_at ?c p) ! i))"
    have y': "if child_slots (node_at ?c p) = 1 then yields good content ?c (fs_remove fs (path_of (es @ [nm]))) Stuck ?c
        else can_remove ?c p nm i ?j \<and> yields good content ?c (fs_remove fs (path_of (es @ [nm]))) (Ok ()) (removed ?c p i ?j)"
      using y by (simp add: Some q)
    show ?thesis
    proof (cases "child_slots (node_at ?c p) = 1")
      case True
      then have "yields good content ?c (fs_remove fs (path_of (es @ [nm]))) Stuck ?c" using y' by simp
      from yieldsD [OF this assms(2) refl] True show ?thesis by (auto simp: Some q)
    next
      case False
      then have can: "can_remove ?c p nm i ?j"
        and "yields good content ?c (fs_remove fs (path_of (es @ [nm]))) (Ok ()) (removed ?c p i ?j)" using y' by simp_all
      from yieldsD [OF this(2) assms(2) refl] obtain d' where d': "fs_remove fs (path_of (es @ [nm])) d = (Ok (), d')" "good d'"
          "content d' = removed ?c p i ?j" by blast
      note n = removed_nodes [OF can d'(3)]
      show ?thesis
        by (rule exI [of _ "Ok ()"], rule exI [of _ d']) (use d'(1,2) n False in \<open>simp add: Some q Let_def\<close>)
    qed
  qed
qed

text \<open>A disk with two directories \<open>a\<close> and \<open>b\<close>, made by two calls of \<open>fs_touch\<close>.\<close>

lemma with_child_children:
  assumes "n_children node = chs @ replicate (32 - length chs) zero_child" and "length chs < 32"
    and "n_children_count node = of_nat (length chs)" and "length nm < 31"
  shows "with_child node nm j = node\<lparr>n_children := chs @ new_child nm j # replicate (31 - length chs) zero_child,
    n_children_count := of_nat (length chs) + 1\<rparr>"
  using add_child_spec [OF assms(1-3), of nm j] assms(2,4) by (simp add: with_child_def Suc_diff_Suc add.commute)

lemma touched_parent:
  assumes "can_touch c p nm j"
  shows "node_at (touched c p nm j v) p = with_child (node_at c p) nm (of_nat j)"
  using touched_nodes(7) [OF assms refl] zero_node_wf [of v] assms
  by (auto simp: touched_def disk_simps can_touch_def node_used_def)

lemma two_entries:
  obtains d where "fs_ready sim_ok sim_phase d" and "tree_ok (fs_content sim_sect d)"
    and "n_children (node_at (fs_content sim_sect d) 0) = [new_child [97] 1, new_child [98] 2] @ replicate 30 zero_child"
    and "child_slots (node_at (fs_content sim_sect d) 0) = 2"
    and "n_value (node_at (fs_content sim_sect d) 2) = 0"
proof -
  let ?c0 = "\<lambda>_ :: nat. 0 :: byte"
  have nm: "name_ok [97]" "name_ok [98]" by (simp_all add: name_ok_def)
  have no: "child_of zero_node [97] = None" using zero_node_children by (simp add: child_of_def find_zero_child)
  have can1: "can_touch ?c0 0 [97] 1"
    using blank_tree_ok nm(1) no zero_node_children by (simp add: can_touch_def node_used_def blank_node)
  define c1 where "c1 = touched ?c0 0 [97] 1 0"
  note t1 = touched_nodes [OF can1 c1_def]
  have ok1: "tree_ok c1" by (rule touched_tree_ok [OF can1 c1_def])
  have p1: "node_at c1 0 = zero_node\<lparr>n_children := [new_child [97] 1] @ replicate 31 zero_child, n_children_count := 1\<rparr>"
    using touched_parent [OF can1, of 0] with_child_children [of zero_node "[]" "[97]" 1] zero_node_children
    by (simp add: c1_def blank_node)
  have no2: "child_of (node_at c1 0) [98] = None" using t1(5) [of "[98]"] zero_node_children
    by (simp add: blank_node child_of_def find_zero_child)
  have u1: "c1 4893 \<noteq> 0" "c1 4894 = 0" by (simp_all add: c1_def touched_def put_node_low)
  have can2: "can_touch c1 0 [98] 2" using ok1 nm(2) no2 p1 u1 by (simp add: can_touch_def node_used_def)
  define c2 where "c2 = touched c1 0 [98] 2 0"
  note t2 = touched_nodes [OF can2 c2_def]
  have p2: "node_at c2 0 = zero_node\<lparr>n_children := [new_child [97] 1, new_child [98] 2] @ replicate 30 zero_child, n_children_count := 2\<rparr>"
    using touched_parent [OF can2, of 0] with_child_children [of "node_at c1 0" "[new_child [97] 1]" "[98]" 2] p1
    by (simp add: c2_def)
  have r2: "touch_result c1 [] [98] 0 = (Ok (), c2)"
  proof -
    have "first_free c1 (\<lambda>j. 4892 + j) 1 15 = Some 2" 
      using u1 by (simp add: first_free_def upt_conv_Cons Suc_1)
    then show ?thesis using no2 p1 by (simp add: touch_result_def c2_def)
  qed
  have y1: "yields (fs_ready sim_ok sim_phase) (fs_content sim_sect) ?c0 (fs_touch (fsdesc sim_cpu) (path_of [[97]]) 0) (Ok ()) c1"
    using mounted_fs.fs_touch_yields [OF sim_mounted blank_tree_ok _ nm(1), of "[]" 0] blank_touch [of "[97]" 0]
    by (simp add: c1_def)
  have y2: "yields (fs_ready sim_ok sim_phase) (fs_content sim_sect) c1 (fs_touch (fsdesc sim_cpu) (path_of [[98]]) 0) (Ok ()) c2"
    using mounted_fs.fs_touch_yields [OF sim_mounted ok1 _ nm(2), of "[]" 0] r2 by simp
  obtain d1 where d1: "fs_ready sim_ok sim_phase d1" "fs_content sim_sect d1 = c1"
    using yieldsD [OF y1 sim_state_ok sim_content] by blast
  obtain d2 where d2: "fs_ready sim_ok sim_phase d2" "fs_content sim_sect d2 = c2"
    using yieldsD [OF y2 d1] by blast
  have "tree_ok c2" by (rule touched_tree_ok [OF can2 c2_def])
  moreover have "child_slots (node_at c2 0) = 2" using child_slots_of_nat [of "node_at c2 0" 2] by (simp add: p2)
  ultimately show ?thesis using d2 p2 t2(2) by (intro that [of d2]) simp_all
qed

theorem fs_remove_unlinks_witness:
  "\<exists>d d'. child_of (node_at (fs_content sim_sect d) 0) [98] = Some 2 \<and>
     fs_remove (fsdesc sim_cpu) (path_of [[98]]) d = (Ok (), d') \<and>
     child_of (node_at (fs_content sim_sect d') 0) [98] = None \<and> child_of (node_at (fs_content sim_sect d') 0) [97] = Some 1"
proof -
  obtain d where d: "fs_ready sim_ok sim_phase d" "tree_ok (fs_content sim_sect d)"
      "n_children (node_at (fs_content sim_sect d) 0) = [new_child [97] 1, new_child [98] 2] @ replicate 30 zero_child"
      "child_slots (node_at (fs_content sim_sect d) 0) = 2" "n_value (node_at (fs_content sim_sect d) 2) = 0"
    by (rule two_entries) (rule that)
  let ?c = "fs_content sim_sect d"
  have names: "child_name (new_child [97] j) = [97]" "child_name (new_child [98] j) = [98]" for j by (simp_all add: child_name_new)
  have idx: "c_index (new_child n j) = j" for n j by (simp add: new_child_def)
  have ch: "child_of (node_at ?c 0) [97] = Some 1" "child_of (node_at ?c 0) [98] = Some 2"
    using d(3) by (simp_all add: child_of_def names idx)
  have "n_children_count (node_at ?c 0) \<noteq> 32" using d(4) by (auto simp: child_slots_def)
  then have fe: "find_entry_of ?c [] [98] = Some (0, 1)"
    using d(3,4) by (simp add: find_entry_of_def slot_of_def upt_conv_Cons names)
  have "name_ok [98]" by (simp add: name_ok_def)
  then obtain d' where "fs_remove (fsdesc sim_cpu) (path_of [[98]]) d = (Ok (), d')"
      "child_of (node_at (fs_content sim_sect d') 0) [98] = None" "child_of (node_at (fs_content sim_sect d') 0) [97] = Some 1"
    using fs_remove_unlinks [OF sim_mounted d(1,2), of "[]" "[98]"] d(3-5) fe ch by (auto simp: Let_def idx value_ok_def)
  then show ?thesis using ch by blast
qed

end
