(* ===== verification/Preservation.thy ===== *)
theory Preservation
  imports Kernel_Filesystem
begin

text \<open>
  A calculus for invariants of code in the state-and-error monad, and what it says of the file system
  and the devices. \<open>preserves I m R\<close>: from a state that satisfies \<open>I\<close>, \<open>m\<close> returns, if it does, to such a state,
  with a value that satisfies \<open>R\<close> unless it is an error code. (A run that gets stuck returns to nobody.)
\<close>

section \<open>The calculus\<close>

fun post :: "('s \<Rightarrow> bool) \<Rightarrow> ('a \<Rightarrow> bool) \<Rightarrow> 'a outcome \<times> 's \<Rightarrow> bool" where
  "post I R (Ok x, s) \<longleftrightarrow> I s \<and> R x"
| "post I R (Err e, s) \<longleftrightarrow> I s"
| "post I R (Stuck, s) \<longleftrightarrow> True"

definition preserves :: "('s \<Rightarrow> bool) \<Rightarrow> ('s, 'a) io \<Rightarrow> ('a \<Rightarrow> bool) \<Rightarrow> bool" where
  "preserves I m R \<longleftrightarrow> (\<forall>s. I s \<longrightarrow> post I R (m s))"

abbreviation keeps :: "('s \<Rightarrow> bool) \<Rightarrow> ('s, 'a) io \<Rightarrow> bool" where
  "keeps I m \<equiv> preserves I m (\<lambda>_. True)"

named_theorems keep \<open>rules for programs that keep an invariant\<close>

lemma preservesI: "(\<And>s. I s \<Longrightarrow> post I R (m s)) \<Longrightarrow> preserves I m R"
  by (simp add: preserves_def)

lemma preservesD: "preserves I m R \<Longrightarrow> I s \<Longrightarrow> m s = (Ok x, s') \<Longrightarrow> I s' \<and> R x"
  unfolding preserves_def by (metis post.simps(1))

lemma post_mono: "post I R r \<Longrightarrow> (\<And>x. R x \<Longrightarrow> Q x) \<Longrightarrow> post I Q r"
  by (induction I R r rule: post.induct) simp_all

lemma pres_weaken: "preserves I m R \<Longrightarrow> (\<And>x. R x \<Longrightarrow> Q x) \<Longrightarrow> preserves I m Q"
  unfolding preserves_def using post_mono by blast

lemma pres_return: "R x \<Longrightarrow> preserves I (io_return x) R"
  by (rule preservesI) (simp add: io_return_def)

lemma pres_assert: "preserves I (io_assert b) (\<lambda>_. b)"
  by (rule preservesI) simp

lemma pres_some: "preserves I (io_some v) (\<lambda>x. v = Some x)"
  by (rule preservesI) (cases v; simp)

lemma pres_bind:
  assumes "preserves I m R" and "\<And>x. R x \<Longrightarrow> preserves I (f x) Q"
  shows "preserves I (io_bind m f) Q"
proof (rule preservesI)
  fix s assume "I s"
  then have p: "post I R (m s)" using assms(1) by (simp add: preserves_def)
  obtain r s' where m: "m s = (r, s')" by force
  show "post I Q (io_bind m f s)"
  proof (cases r)
    case (Ok x)
    then show ?thesis using assms(2) [of x] p m by (simp add: io_bind_Ok preserves_def)
  qed (use p m in \<open>simp_all add: io_bind_Err io_bind_Stuck\<close>)
qed

lemma pres_try:
  assumes "preserves I m R"
  shows "preserves I (io_try m) (\<lambda>r. \<forall>x. r = Inr x \<longrightarrow> R x)"
proof (rule preservesI)
  fix s assume "I s"
  then have p: "post I R (m s)" using assms(1) by (simp add: preserves_def)
  obtain r s' where m: "m s = (r, s')" by force
  show "post I (\<lambda>r. \<forall>x. r = Inr x \<longrightarrow> R x) (io_try m s)"
    by (cases r) (use p m in \<open>simp_all add: io_try_run\<close>)
qed

text \<open>The rules for invariants alone have no unknown predicates and can be applied in any order.\<close>

lemma keep_return [keep]: "keeps I (io_return x)"
  by (rule pres_return) simp

lemma keep_fail [keep]: "keeps I (io_fail e)"
  by (rule preservesI) (simp add: io_fail_def)

lemma keep_stuck [keep]: "keeps I io_stuck"
  by (rule preservesI) (simp add: io_stuck_def)

lemma keep_assert [keep]: "keeps I (io_assert b)"
  by (rule pres_weaken [OF pres_assert]) simp

lemma keep_some [keep]: "keeps I (io_some v)"
  by (rule pres_weaken [OF pres_some]) simp

lemma keep_bind [keep]: "keeps I m \<Longrightarrow> (\<And>x. keeps I (f x)) \<Longrightarrow> keeps I (io_bind m f)"
  by (rule pres_bind)

lemma keep_try [keep]: "keeps I m \<Longrightarrow> keeps I (io_try m)"
  by (rule pres_weaken [OF pres_try]) simp_all

lemma keep_ignore [keep]:
  assumes "keeps I m"
  shows "keeps I (io_ignore m)"
proof (rule preservesI)
  fix s assume "I s"
  then have p: "post I (\<lambda>_. True) (m s)" using assms(1) by (simp add: preserves_def)
  obtain r s' where m: "m s = (r, s')" by force
  show "post I (\<lambda>_. True) (io_ignore m s)"
    by (cases r) (use p m in \<open>simp_all add: io_ignore_def\<close>)
qed

lemma pres_if [keep]: "(b \<Longrightarrow> preserves I m R) \<Longrightarrow> (\<not> b \<Longrightarrow> preserves I m' R) \<Longrightarrow> preserves I (if b then m else m') R"
  by simp

lemma pres_let [keep]: "preserves I (f x) R \<Longrightarrow> preserves I (let y = x in f y) R"
  by simp

lemma pres_option [keep]:
  "(v = None \<Longrightarrow> preserves I m R) \<Longrightarrow> (\<And>x. v = Some x \<Longrightarrow> preserves I (f x) R) \<Longrightarrow>
   preserves I (case v of None \<Rightarrow> m | Some x \<Rightarrow> f x) R"
  by (cases v) simp_all

lemma pres_sum [keep]:
  "(\<And>e. v = Inl e \<Longrightarrow> preserves I (g e) R) \<Longrightarrow> (\<And>x. v = Inr x \<Longrightarrow> preserves I (f x) R) \<Longrightarrow>
   preserves I (case v of Inl e \<Rightarrow> g e | Inr x \<Rightarrow> f x) R"
  by (cases v) simp_all

lemma pres_prod [keep]: "(\<And>x y. v = (x, y) \<Longrightarrow> preserves I (f x y) R) \<Longrightarrow> preserves I (case v of (x, y) \<Rightarrow> f x y) R"
  by (cases v) simp

text \<open>Code that changes the invariant: from \<open>P\<close> to \<open>Q\<close> with a value in \<open>R\<close>, when it returns without an error.\<close>

definition leads :: "('s \<Rightarrow> bool) \<Rightarrow> ('s, 'a) io \<Rightarrow> ('s \<Rightarrow> bool) \<Rightarrow> ('a \<Rightarrow> bool) \<Rightarrow> bool" where
  "leads P m Q R \<longleftrightarrow> (\<forall>s x s'. P s \<longrightarrow> m s = (Ok x, s') \<longrightarrow> Q s' \<and> R x)"

lemma leadsI: "(\<And>s x s'. P s \<Longrightarrow> m s = (Ok x, s') \<Longrightarrow> Q s' \<and> R x) \<Longrightarrow> leads P m Q R"
  by (simp add: leads_def)

lemma leadsD: "leads P m Q R \<Longrightarrow> P s \<Longrightarrow> m s = (Ok x, s') \<Longrightarrow> Q s' \<and> R x"
  unfolding leads_def by blast

lemma leads_preserves: "preserves I m R \<Longrightarrow> leads I m I R"
  by (rule leadsI) (rule preservesD)

lemma leads_bind:
  assumes "leads P m J R" and "\<And>x. R x \<Longrightarrow> leads J (f x) Q S"
  shows "leads P (io_bind m f) Q S"
proof (rule leadsI)
  fix s y s' assume "P s" and "io_bind m f s = (Ok y, s')"
  then show "Q s' \<and> S y" by (elim io_bind_OkE) (metis assms leadsD)
qed

lemma leads_weaken:
  "leads P m Q R \<Longrightarrow> (\<And>s. P' s \<Longrightarrow> P s) \<Longrightarrow> (\<And>s. Q s \<Longrightarrow> Q' s) \<Longrightarrow> (\<And>x. R x \<Longrightarrow> R' x) \<Longrightarrow> leads P' m Q' R'"
  unfolding leads_def by blast

lemma leads_if: "(b \<Longrightarrow> leads P m Q R) \<Longrightarrow> (\<not> b \<Longrightarrow> leads P m' Q R) \<Longrightarrow> leads P (if b then m else m') Q R"
  by simp

lemma leads_any: "leads P m (\<lambda>_. True) (\<lambda>_. True)"
  by (simp add: leads_def)

lemma leads_option:
  "(v = None \<Longrightarrow> leads P m Q R) \<Longrightarrow> (\<And>x. v = Some x \<Longrightarrow> leads P (f x) Q R) \<Longrightarrow>
   leads P (case v of None \<Rightarrow> m | Some x \<Rightarrow> f x) Q R"
  by (cases v) simp_all

lemma leads_keep_bind: "keeps I m \<Longrightarrow> (\<And>x. leads I (f x) Q S) \<Longrightarrow> leads I (io_bind m f) Q S"
  by (rule leads_bind [OF leads_preserves])

section \<open>The file system\<close>

text \<open>The file system keeps whatever its callbacks keep.\<close>

locale fs_callbacks =
  fixes fs :: "'d fs_descriptor" and I :: "'d \<Rightarrow> bool"
  assumes rd: "keeps I (fsdr fs a n)" and wr: "keeps I (fsdw fs bs a)" and rng: "keeps I (fsrng fs n)"
begin

lemmas cb = rd wr rng keep

lemma read_inode: "keeps I (read_inode fs a)"
  unfolding read_inode_def by (intro cb)

lemma unref_inode: "keeps I (unref_inode fs ino)"
  unfolding unref_inode_def by (intro cb read_inode)

lemma search_inode_loop: "keeps I (search_inode_loop n fs i)"
  by (induction n arbitrary: i) (auto intro!: cb)

lemma fs_alloc_inode: "keeps I (fs_alloc_inode fs)"
  unfolding fs_alloc_inode_def search_available_inode_def by (intro cb read_inode search_inode_loop)

lemma decrypt_block: "keeps I (decrypt_block fs i ctx)"
  unfolding decrypt_block_def by (intro cb)

lemma encrypt_block: "keeps I (encrypt_block fs i ctx buf)"
  unfolding encrypt_block_def by (intro cb)

lemma free_blocks_loop: "keeps I (free_blocks_loop k fs n start count a)"
  by (induction k arbitrary: start count a) (auto intro!: cb)

lemma search_free_blocks: "keeps I (search_free_blocks fs n)"
  unfolding search_free_blocks_def by (intro cb free_blocks_loop)

lemma blocks_available_loop: "keeps I (blocks_available_loop n fs a b i)"
  by (induction n arbitrary: a i) (auto intro!: cb)

lemma copy_block_loop: "keeps I (copy_block_loop n fs src c dst c')"
  by (induction n arbitrary: src c dst c') (auto intro!: cb decrypt_block encrypt_block)

lemma read_loop: "keeps I (read_loop k fs e sz sb eb ob b dst)"
  by (induction k arbitrary: b dst) (auto intro!: cb decrypt_block)

lemma fs_read: "keeps I (fs_read k fs ino sz off)"
  unfolding fs_read_def by (intro cb read_inode read_loop)

lemma write_blocks_loop: "keeps I (write_blocks_loop n fs i ctx d buf)"
  by (induction n arbitrary: i ctx d buf) (auto intro!: cb encrypt_block)

lemma set_availability_loop: "keeps I (set_availability_loop n fs b)"
  by (induction n arbitrary: b) (auto intro!: cb simp: set_availability_def)

lemma fs_write: "keeps I (fs_write fs ino buf sz off)"
  unfolding fs_write_def write_out_def relocate_def read_partial_def copy_block_def are_blocks_avaiblable_def
  by (intro cb read_inode blocks_available_loop decrypt_block encrypt_block copy_block_loop search_free_blocks
      write_blocks_loop set_availability_loop)

lemma read_node: "keeps I (read_node fs i)"
  unfolding read_node_def by (intro cb)

lemma follow_node: "keeps I (follow_node fs node edge)"
  unfolding follow_node_def by (intro cb read_node)

lemma search_loop: "keeps I (search_loop fs path i node)"
proof (induction "length path" arbitrary: path i node rule: less_induct)
  case less
  show ?case
  proof (cases path)
    case (Cons c rest)
    have "length (dropWhile (\<lambda>x. x \<noteq> slash) (if c = slash then rest else c # rest)) < length path"
      using Cons length_dropWhile_le [of "\<lambda>x. x \<noteq> slash" rest] by auto
    then show ?thesis by (simp only: Cons search_loop.simps Let_def) (intro cb follow_node less, simp add: Cons)
  qed (simp add: cb)
qed

lemma search_node: "keeps I (search_node fs path)"
  unfolding search_node_def by (intro cb read_node search_loop)

lemma fs_getattr: "keeps I (fs_getattr fs path)"
  unfolding fs_getattr_def by (intro cb search_node)

lemma search_node_loop: "keeps I (search_node_loop n fs i)"
  by (induction n arbitrary: i) (auto intro!: cb)

lemma fs_touch: "keeps I (fs_touch fs path v)"
  unfolding fs_touch_def search_available_node_def by (intro cb search_node search_node_loop)

lemma fs_remove: "keeps I (fs_remove fs path)"
  unfolding fs_remove_def by (intro cb search_node read_node unref_inode)

lemma fs_readdir_init: "preserves I (fs_readdir_init fs path) (\<lambda>(_, dr). dr_fsdesc dr = fs)"
  unfolding fs_readdir_init_def by (rule pres_bind [OF search_node]) (intro pres_prod pres_return, simp)

lemma fs_readdir_next:
  assumes "dr_fsdesc dr = fs"
  shows "preserves I (fs_readdir_next dr buf) (\<lambda>(_, dr'). dr_fsdesc dr' = fs)"
  unfolding fs_readdir_next_def assms
  by (rule pres_bind [OF read_node], rule pres_bind [OF pres_assert], rule pres_bind [OF pres_some], rule pres_return) (simp add: assms)

end

end
