(* ===== verification/Address_Spaces.thy ===== *)
theory Address_Spaces
  imports Kernel_State
begin

unbundle bit_operations_syntax

text \<open>
  The kernel's use of page tables: the initial kernel page table, switching of page tables, the
  consistency checks that run at every exception, and the pictures of memory on the console
  (\<^verbatim>\<open>kernel/kernel.c\<close> and \<^verbatim>\<open>kernel/k-hardware.c\<close>). A failed assertion stops the kernel (\<open>Stuck\<close>); so does an
  index outside \<open>pageinfo\<close>, \<open>processes\<close> or the table of colors, which the code does not check.
\<close>

section \<open>The kernel page table\<close>

definition MEMSIZE_VIRTUAL :: addr where "MEMSIZE_VIRTUAL = 0x300000"
definition console :: addr where "console = 0xB8000"

abbreviation kernel_pagetable :: "image \<Rightarrow> addr" where
  "kernel_pagetable \<equiv> img_kernel_pagetables"

definition kernel_pagetables :: "image \<Rightarrow> nat \<Rightarrow> addr" where
  "kernel_pagetables img i = kernel_pagetable img + of_nat (i * PAGESIZE)"

definition init_tables :: "image \<Rightarrow> mem \<Rightarrow> mem" where
  "init_tables img m =
     (let kpt = kernel_pagetables img; pe = (\<lambda>i. kpt i OR PTE_P OR PTE_W OR PTE_U);
          m = memset (kpt 0) 0 (5 * PAGESIZE) m;
          m = set_entry (kpt 0) 0 (pe 1) m;
          m = set_entry (kpt 1) 0 (pe 2) m;
          m = set_entry (kpt 2) 0 (pe 3) m
      in set_entry (kpt 2) 1 (pe 4) m)"

definition virtual_memory_init :: "image \<Rightarrow> ('d kernel, unit) io" where
  "virtual_memory_init img =
     io_bind (k_store (init_tables img)) (\<lambda>_.
     io_bind (on_ph_opt (virtual_memory_map (kernel_pagetable img) 0 0 MEMSIZE_PHYSICAL
                (ucast (PTE_P OR PTE_W OR PTE_U)) None)) (\<lambda>_.
     k_put (\<lambda>s. s\<lparr>cr3 := kernel_pagetable img\<rparr>)))"

definition identity_mapped :: "mem \<Rightarrow> addr \<Rightarrow> addr \<Rightarrow> bool" where
  "identity_mapped m pagetable a \<longleftrightarrow> vam_pa (virtual_memory_lookup m pagetable a) = a"

definition loadable :: "image \<Rightarrow> mem \<Rightarrow> addr \<Rightarrow> bool" where
  "loadable img m pagetable \<longleftrightarrow> PAGEOFFSET pagetable = 0 \<and>
     identity_mapped m pagetable (img_default_int_handler img) \<and>
     identity_mapped m (kernel_pagetable img) pagetable \<and>
     identity_mapped m pagetable (kernel_pagetable img) \<and>
     identity_mapped m pagetable (img_virtual_memory_map img)"

definition set_pagetable :: "image \<Rightarrow> addr \<Rightarrow> ('d kernel, unit) io" where
  "set_pagetable img pagetable =
     io_bind k_mem (\<lambda>m.
     io_bind (io_assert (loadable img m pagetable)) (\<lambda>_.
     k_put (\<lambda>s. s\<lparr>cr3 := pagetable\<rparr>)))"

section \<open>Consistency checks\<close>

text \<open>The loop visits the addresses from \<open>KERNEL_START_ADDR\<close> below \<open>end\<close> in steps of a page.\<close>

definition kernel_pages :: "image \<Rightarrow> addr list" where
  "kernel_pages img = map (\<lambda>i. KERNEL_START_ADDR + of_nat (i * PAGESIZE))
     [0..<(unat (img_end img) - unat KERNEL_START_ADDR + (PAGESIZE - 1)) div PAGESIZE]"

definition writable :: "mem \<Rightarrow> addr \<Rightarrow> addr \<Rightarrow> bool" where
  "writable m pt va \<longleftrightarrow> vam_perm (virtual_memory_lookup m pt va) AND ucast PTE_W \<noteq> 0"

definition check_page_table_mappings :: "image \<Rightarrow> mem \<Rightarrow> addr \<Rightarrow> bool" where
  "check_page_table_mappings img m pt \<longleftrightarrow> PTE_ADDR pt = pt \<and>
     list_all (\<lambda>va. identity_mapped m pt va \<and> (va \<ge> img_start_data img \<longrightarrow> writable m pt va)) (kernel_pages img) \<and>
     (let kstack = KERNEL_STACK_TOP - of_nat PAGESIZE in identity_mapped m pt kstack \<and> writable m pt kstack)"

definition owned_table :: "phys \<Rightarrow> addr \<Rightarrow> int \<Rightarrow> int \<Rightarrow> bool" where
  "owned_table st pt own rc \<longleftrightarrow>
     (let pn = unat (PAGENUMBER pt)
      in pn < NPAGES \<and> sint (owner (pageinfo st ! pn)) = own \<and> sint (refcount (pageinfo st ! pn)) = rc)"

text \<open>The first argument is the number of levels below the table: 3 at level 0.\<close>

primrec check_page_table_ownership_level :: "nat \<Rightarrow> phys \<Rightarrow> addr \<Rightarrow> int \<Rightarrow> int \<Rightarrow> bool" where
  "check_page_table_ownership_level 0 st pt own rc = owned_table st pt own rc"
| "check_page_table_ownership_level (Suc n) st pt own rc =
     (owned_table st pt own rc \<and>
      list_all (\<lambda>i. let pe = entry (p_mem st) pt i
                    in pe \<noteq> 0 \<longrightarrow> check_page_table_ownership_level n st (PTE_ADDR pe) own 1)
        [0..<NPAGETABLEENTRIES])"

definition check_page_table_ownership :: "image \<Rightarrow> 'd kernel \<Rightarrow> addr \<Rightarrow> int \<Rightarrow> bool" where
  "check_page_table_ownership img s pt pid =
     (if pt = kernel_pagetable img
      then check_page_table_ownership_level 3 (ph s) pt (sint PO_KERNEL)
             (1 + int (length (filter (\<lambda>p. p_state p \<noteq> P_FREE \<and> p_pagetable p = kernel_pagetable img) (processes s))))
      else check_page_table_ownership_level 3 (ph s) pt pid 1)"

definition check_process :: "image \<Rightarrow> 'd kernel \<Rightarrow> nat \<Rightarrow> bool" where
  "check_process img s pid \<longleftrightarrow>
     (let p = processes s ! pid
      in p_state p \<noteq> P_FREE \<and> p_state p \<noteq> P_BROKEN \<and> p_pagetable p \<noteq> kernel_pagetable img \<longrightarrow>
           check_page_table_mappings img (p_mem (ph s)) (p_pagetable p) \<and>
           check_page_table_ownership img s (p_pagetable p) (int pid))"

definition check_page :: "'d kernel \<Rightarrow> nat \<Rightarrow> bool" where
  "check_page s pn \<longleftrightarrow>
     (let pi = pageinfo (ph s) ! pn; own = sint (owner pi)
      in sint (refcount pi) > 0 \<and> own \<ge> 0 \<longrightarrow> nat own < NPROC \<and> p_state (processes s ! nat own) \<noteq> P_FREE)"

definition memory_consistent :: "image \<Rightarrow> 'd kernel \<Rightarrow> bool" where
  "memory_consistent img s \<longleftrightarrow> p_state (processes s ! 0) = P_FREE \<and>
     check_page_table_mappings img (p_mem (ph s)) (kernel_pagetable img) \<and>
     check_page_table_ownership img s (kernel_pagetable img) (- 1) \<and>
     list_all (check_process img s) [0..<NPROC] \<and>
     list_all (check_page s) [0..<NPAGES]"

definition check_virtual_memory :: "image \<Rightarrow> ('d kernel, unit) io" where
  "check_virtual_memory img = io_bind (k_get (memory_consistent img)) io_assert"

section \<open>Pictures of memory\<close>

definition memstate_colors :: "uint16 list" where
  "memstate_colors = [0x0D48, 0x0D4B, 0x0752, 0x072E, 0x0C31, 0x0A32, 0x0933, 0x0E34, 0x0F35,
     0x0C36, 0x0A37, 0x0938, 0x0E39, 0x0F41, 0x0C42, 0x0A43, 0x0944, 0x0E45, 0x0F46]"

definition memstate_color :: "physical_pageinfo \<Rightarrow> uint16 option" where
  "memstate_color pi =
     (let own = (if refcount pi = 0 then PO_FREE else owner pi); i = sint own - sint PO_KERNEL_HEAP
      in if 0 \<le> i \<and> nat i < length memstate_colors then Some (memstate_colors ! nat i) else None)"

primrec console_outs :: "console_call list \<Rightarrow> ('d kernel, unit) io" where
  "console_outs [] = io_return ()"
| "console_outs (c # cs) = io_bind (console_out c) (\<lambda>_. console_outs cs)"

definition physical_color :: "nat \<Rightarrow> physical_pageinfo \<Rightarrow> uint16 \<Rightarrow> uint16" where
  "physical_color pn pi color =
     (let color = (if pn = unat (PAGENUMBER console) then 0x0743 else color)
      in if sint (refcount pi) > 1 then 0x0753 else color)"

definition memshow_physical_page :: "nat \<Rightarrow> ('d kernel, unit) io" where
  "memshow_physical_page pn =
     io_bind (console_outs (if pn mod 64 = 0
                then [Console_printf (CPOS (1 + pn div 64) 3) 0x0F00 ''0x%06X '' [VInt (push_bit 12 (of_nat pn))]]
                else [])) (\<lambda>_.
     io_bind (k_get (\<lambda>s. pageinfo (ph s) ! pn)) (\<lambda>pi.
     io_bind (io_some (memstate_color pi)) (\<lambda>color.
     console_out (Console_cell (CPOS (1 + pn div 64) (12 + pn mod 64)) (physical_color pn pi color)))))"

primrec for_all :: "('a \<Rightarrow> ('d, unit) io) \<Rightarrow> 'a list \<Rightarrow> ('d, unit) io" where
  "for_all f [] = io_return ()"
| "for_all f (x # xs) = io_bind (f x) (\<lambda>_. for_all f xs)"

definition memshow_physical :: "('d kernel, unit) io" where
  "memshow_physical =
     io_bind (console_out (Console_printf (CPOS 0 32) 0x0F00 ''PHYSICAL MEMORY'' [])) (\<lambda>_.
     for_all memshow_physical_page [0..<NPAGES])"

definition virtual_color :: "vamapping \<Rightarrow> physical_pageinfo \<Rightarrow> uint16 \<Rightarrow> uint16" where
  "virtual_color vam pi color =
     (let color = (if vam_pn vam = PAGENUMBER console then 0x0743 else color);
          color = (if vam_perm vam AND ucast PTE_U \<noteq> 0
                   then push_bit 4 (color AND 0x0F00) OR drop_bit 4 (color AND 0xF000) OR (color AND 0x00FF)
                   else color)
      in if sint (refcount pi) > 1 then color AND 0x77FF else color)"

text \<open>The color of an owner outside the table is only needed for pages other than the console.\<close>

definition memshow_virtual_page :: "addr \<Rightarrow> nat \<Rightarrow> ('d kernel, unit) io" where
  "memshow_virtual_page pagetable pn =
     (let va = PAGEADDRESS pn in
     io_bind k_mem (\<lambda>m.
     let vam = virtual_memory_lookup m pagetable va in
     io_bind (if sint (vam_pn vam) < 0 then io_return 0x20
              else io_bind (io_assert (vam_pa vam < MEMSIZE_PHYSICAL)) (\<lambda>_.
                   io_bind (k_get (\<lambda>s. pageinfo (ph s) ! unat (vam_pn vam))) (\<lambda>pi.
                   io_bind (if vam_pn vam = PAGENUMBER console then io_return 0 else io_some (memstate_color pi)) (\<lambda>color.
                   io_return (virtual_color vam pi color))))) (\<lambda>color.
     io_bind (console_outs (if pn mod 64 = 0
                then [Console_printf (CPOS (11 + pn div 64) 3) 0x0F00 ''0x%06X '' [VInt (ucast va)]] else [])) (\<lambda>_.
     console_out (Console_cell (CPOS (11 + pn div 64) (12 + pn mod 64)) color)))))"

definition memshow_virtual :: "addr \<Rightarrow> byte list \<Rightarrow> ('d kernel, unit) io" where
  "memshow_virtual pagetable name =
     io_bind (io_assert (pagetable = PTE_ADDR pagetable)) (\<lambda>_.
     io_bind (console_out (Console_printf (CPOS 10 26) 0x0F00 ''VIRTUAL ADDRESS SPACE FOR %s'' [VStr name])) (\<lambda>_.
     for_all (memshow_virtual_page pagetable) [0..<unat MEMSIZE_VIRTUAL div PAGESIZE]))"

definition HZ :: nat where "HZ = 100"

function next_showing :: "proc list \<Rightarrow> nat \<Rightarrow> nat" where
  "next_showing procs i =
     (if i \<le> 2 * NPROC \<and> p_state (procs ! (i mod NPROC)) = P_FREE then next_showing procs (i + 1) else i)"
  by pat_completeness auto
termination by (relation "measure (\<lambda>(procs, i). Suc (2 * NPROC) - i)") auto

declare next_showing.simps [simp del]

definition memshow_virtual_animate :: "('d kernel, unit) io" where
  "memshow_virtual_animate =
     io_bind (k_put (\<lambda>s. if last_ticks s = 0 \<or> ticks s - last_ticks s \<ge> of_nat (HZ div 2)
                         then s\<lparr>last_ticks := ticks s, showing := showing s + 1\<rparr> else s)) (\<lambda>_.
     io_bind (k_put (\<lambda>s. s\<lparr>showing := next_showing (processes s) (showing s) mod NPROC\<rparr>)) (\<lambda>_.
     io_bind (k_get (\<lambda>s. (showing s, processes s ! showing s))) (\<lambda>(i, p).
     if p_state p \<noteq> P_FREE
     then io_bind (io_some (snprintf (replicate 4 0) 4 [0x25, 0x64, 0x20] [VInt (of_nat i)])) (\<lambda>(_, name).
          memshow_virtual (p_pagetable p) name)
     else io_return ())))"

end
