(* ===== verification/Elf.thy ===== *)
theory Elf
  imports Rojoc_Prelude
begin

text \<open>
  The headers of ELF executables in memory (\<^verbatim>\<open>lib-elf/elf.h\<close>), as far as the boot loader and the program
  loader of the kernel use them.
\<close>

definition ELF_MAGIC :: uint32 where "ELF_MAGIC = 0x464C457F"
definition ELF_PTYPE_LOAD :: uint32 where "ELF_PTYPE_LOAD = 1"

definition load16 :: "mem \<Rightarrow> addr \<Rightarrow> uint16" where
  "load16 m a = word_of_le (load_bytes m a 2)"

record elf_header =
  e_magic :: uint32
  e_entry :: uint64
  e_phoff :: uint64
  e_phnum :: uint16

definition read_elf_header :: "mem \<Rightarrow> addr \<Rightarrow> elf_header" where
  "read_elf_header m a = \<lparr>e_magic = load32 m a, e_entry = load64 m (a + 0x18), e_phoff = load64 m (a + 0x20),
     e_phnum = load16 m (a + 0x38)\<rparr>"

record elf_program =
  p_type :: uint32
  p_offset :: uint64
  p_va :: uint64
  p_filesz :: uint64
  p_memsz :: uint64

definition read_elf_program :: "mem \<Rightarrow> addr \<Rightarrow> elf_program" where
  "read_elf_program m a = \<lparr>p_type = load32 m a, p_offset = load64 m (a + 0x08), p_va = load64 m (a + 0x10),
     p_filesz = load64 m (a + 0x20), p_memsz = load64 m (a + 0x28)\<rparr>"

end
