(* ===== verification/Processes.thy ===== *)
theory Processes
  imports Address_Spaces Input Elf
begin

unbundle bit_operations_syntax

text \<open>
  Processes: the program loader of \<^verbatim>\<open>kernel/k-loader.c\<close> and the operations of \<^verbatim>\<open>kernel/kernel.c\<close> that set up,
  kill, schedule and run processes. Program images are ELF files in the kernel's own memory, at the
  addresses \<open>img_programs\<close>.
\<close>

section \<open>Access to memory and process descriptors\<close>

text \<open>
  The kernel runs on the identity mapping of physical memory in which page 0 is not writable. An
  access outside it is a page fault in the kernel, which panics.
\<close>

definition readable_at :: "addr \<Rightarrow> nat \<Rightarrow> bool" where
  "readable_at a n \<longleftrightarrow> unat a + n \<le> unat MEMSIZE_PHYSICAL"

definition writable_at :: "addr \<Rightarrow> nat \<Rightarrow> bool" where
  "writable_at a n \<longleftrightarrow> PAGESIZE \<le> unat a \<and> readable_at a n"

definition k_write :: "addr \<Rightarrow> nat \<Rightarrow> (mem \<Rightarrow> mem) \<Rightarrow> ('d kernel, unit) io" where
  "k_write a n f = io_bind (io_assert (writable_at a n)) (\<lambda>_. k_store f)"

text \<open>An index outside the array \<open>processes\<close> is undefined behaviour.\<close>

definition get_proc :: "uint32 \<Rightarrow> ('d kernel, proc) io" where
  "get_proc pid = io_bind (io_assert (unat pid < NPROC)) (\<lambda>_. k_get (\<lambda>s. processes s ! unat pid))"

definition upd_proc :: "nat \<Rightarrow> (proc \<Rightarrow> proc) \<Rightarrow> 'd kernel \<Rightarrow> 'd kernel" where
  "upd_proc i f s = s\<lparr>processes := (processes s)[i := f (processes s ! i)]\<rparr>"

definition set_proc :: "uint32 \<Rightarrow> (proc \<Rightarrow> proc) \<Rightarrow> ('d kernel, unit) io" where
  "set_proc pid f = io_bind (io_assert (unat pid < NPROC)) (\<lambda>_. k_put (upd_proc (unat pid) f))"

abbreviation current_proc :: "'d kernel \<Rightarrow> proc" where
  "current_proc s \<equiv> processes s ! current s"

definition get_current :: "('d kernel, proc) io" where
  "get_current = k_get current_proc"

definition set_current :: "(proc \<Rightarrow> proc) \<Rightarrow> ('d kernel, unit) io" where
  "set_current f = k_put (\<lambda>s. upd_proc (current s) f s)"

section \<open>Program loader\<close>

text \<open>\<open>load_pages\<close> returns the address that could not be assigned, if there is one.\<close>

partial_function (option) load_pages ::
  "uint32 \<Rightarrow> addr \<Rightarrow> allocator \<Rightarrow> addr \<Rightarrow> addr \<Rightarrow> phys \<Rightarrow> (addr option \<times> phys) option" where
  "load_pages pid pagetable allocator a end_mem st =
     (if a < end_mem
      then case page_alloc pid st of (paddr, st) \<Rightarrow>
             (case (if paddr > 0
                    then virtual_memory_map pagetable a paddr (of_nat PAGESIZE) (ucast (PTE_P OR PTE_W OR PTE_U)) allocator st
                    else Some (- 1, st)) of
                None \<Rightarrow> None
              | Some (r, st) \<Rightarrow> if r < 0 then Some (Some a, st)
                               else load_pages pid pagetable allocator (a + of_nat PAGESIZE) end_mem st)
      else Some (None, st))"

text \<open>Memory accesses while the page table of the process is loaded.\<close>

definition translate :: "mem \<Rightarrow> addr \<Rightarrow> addr \<Rightarrow> addr option" where
  "translate m pagetable va =
     (let vam = virtual_memory_lookup m pagetable va in if vam_pn vam = - 1 then None else Some (vam_pa vam))"

primrec v_memcpy :: "nat \<Rightarrow> addr \<Rightarrow> addr \<Rightarrow> addr \<Rightarrow> mem \<Rightarrow> mem option" where
  "v_memcpy 0 pt d s m = Some m"
| "v_memcpy (Suc n) pt d s m =
     Option.bind (translate m pt d) (\<lambda>pd. Option.bind (translate m pt s) (\<lambda>ps.
       v_memcpy n pt (d + 1) (s + 1) (m(pd := m ps))))"

primrec v_memset :: "nat \<Rightarrow> addr \<Rightarrow> addr \<Rightarrow> byte \<Rightarrow> mem \<Rightarrow> mem option" where
  "v_memset 0 pt d c m = Some m"
| "v_memset (Suc n) pt d c m = Option.bind (translate m pt d) (\<lambda>pd. v_memset n pt (d + 1) c (m(pd := c)))"

definition k_store_opt :: "(mem \<Rightarrow> mem option) \<Rightarrow> ('d kernel, unit) io" where
  "k_store_opt f = io_bind k_mem (\<lambda>m. io_bind (io_some (f m)) (\<lambda>m'. k_store (\<lambda>_. m')))"

definition program_load_segment ::
  "image \<Rightarrow> uint32 \<Rightarrow> elf_program \<Rightarrow> addr \<Rightarrow> allocator \<Rightarrow> ('d kernel, int) io" where
  "program_load_segment img pid eph src allocator =
     (let va = p_va eph; end_file = va + p_filesz eph; end_mem = va + p_memsz eph;
          va = va AND NOT (of_nat PAGESIZE - 1)
      in
      io_bind (get_proc pid) (\<lambda>p.
      io_bind (on_ph_opt (load_pages (p_pid p) (p_pagetable p) allocator va end_mem)) (\<lambda>r.
      case r of
        Some a \<Rightarrow>
          io_bind (console_out (Console_printf (CPOS 22 0) 0xC000
                     ''program_load_segment(pid %d): can't assign address %p\<newline>'' [VInt (p_pid p), VPtr a])) (\<lambda>_.
          io_return (- 1))
      | None \<Rightarrow>
          io_bind (set_pagetable img (p_pagetable p)) (\<lambda>_.
          io_bind (k_store_opt (v_memcpy (unat (end_file - va)) (p_pagetable p) va src)) (\<lambda>_.
          io_bind (k_store_opt (v_memset (unat (end_mem - end_file)) (p_pagetable p) end_file 0)) (\<lambda>_.
          io_bind (set_pagetable img (kernel_pagetable img)) (\<lambda>_.
          io_return 0)))))))"

text \<open>\<open>load_segments n\<close> runs the last \<open>n\<close> iterations of the loop over the program headers, from address \<open>pha\<close> on.\<close>

primrec load_segments :: "nat \<Rightarrow> image \<Rightarrow> uint32 \<Rightarrow> addr \<Rightarrow> addr \<Rightarrow> allocator \<Rightarrow> ('d kernel, int) io" where
  "load_segments 0 img pid eh pha allocator = io_return 0"
| "load_segments (Suc n) img pid eh pha allocator =
     io_bind (k_get (\<lambda>s. read_elf_program (p_mem (ph s)) pha)) (\<lambda>eph.
     io_bind (if p_type eph = ELF_PTYPE_LOAD
              then program_load_segment img pid eph (eh + p_offset eph) allocator else io_return 0) (\<lambda>r.
     if r < 0 then io_return (- 1) else load_segments n img pid eh (pha + 56) allocator))"

definition program_load :: "image \<Rightarrow> uint32 \<Rightarrow> nat \<Rightarrow> allocator \<Rightarrow> ('d kernel, int) io" where
  "program_load img pid programnumber allocator =
     io_bind (io_assert (programnumber < length (img_programs img))) (\<lambda>_.
     let eh = img_programs img ! programnumber in
     io_bind (k_get (\<lambda>s. read_elf_header (p_mem (ph s)) eh)) (\<lambda>h.
     io_bind (io_assert (e_magic h = ELF_MAGIC)) (\<lambda>_.
     io_bind (load_segments (unat (e_phnum h)) img pid eh (eh + e_phoff h) allocator) (\<lambda>r.
     if r < 0 then io_return (- 1)
     else io_bind (set_proc pid (\<lambda>p. p\<lparr>p_registers := (p_registers p)\<lparr>reg_rip := e_entry h\<rparr>\<rparr>)) (\<lambda>_.
          io_return 0)))))"

section \<open>Set-up\<close>

definition pagetable_alloc :: "('d kernel, addr) io" where
  "pagetable_alloc = io_bind get_current (\<lambda>p. on_ph (page_alloc (p_pid p)))"

text \<open>\<open>virtual_memory_map\<close> with the allocator \<open>pagetable_alloc\<close> of the current process; the result is ignored.\<close>

definition map_for_current :: "addr \<Rightarrow> addr \<Rightarrow> addr \<Rightarrow> uint64 \<Rightarrow> uint32 \<Rightarrow> ('d kernel, int) io" where
  "map_for_current pagetable va pa sz perm =
     io_bind get_current (\<lambda>p.
     on_ph_opt (virtual_memory_map pagetable va pa sz perm (Some (page_alloc (p_pid p)))))"

definition PTE_KERN :: uint32 where "PTE_KERN = ucast (PTE_P OR PTE_W)"
definition PTE_USER :: uint32 where "PTE_USER = ucast (PTE_P OR PTE_W OR PTE_U)"

definition map_kernel :: "image \<Rightarrow> addr \<Rightarrow> ('d kernel, unit) io" where
  "map_kernel img pagetable =
     io_bind (map_for_current pagetable KERNEL_START_ADDR KERNEL_START_ADDR
                (PAGEADDRESS (unat (PAGENUMBER (img_end img)) + 1) - KERNEL_START_ADDR) PTE_KERN) (\<lambda>_.
     io_bind (map_for_current pagetable (KERNEL_STACK_TOP - of_nat PAGESIZE) (KERNEL_STACK_TOP - of_nat PAGESIZE)
                (of_nat PAGESIZE) PTE_KERN) (\<lambda>_.
     io_bind (map_for_current pagetable console console (of_nat PAGESIZE) PTE_USER) (\<lambda>_.
     io_return ())))"

definition process_setup :: "image \<Rightarrow> uint32 \<Rightarrow> nat \<Rightarrow> uint32 \<Rightarrow> ('d kernel, unit) io" where
  "process_setup img pid program_number parent =
     io_bind (set_proc pid (\<lambda>p. process_init p 0)) (\<lambda>_.
     io_bind (k_put (\<lambda>s. s\<lparr>current := unat pid\<rparr>)) (\<lambda>_.
     io_bind pagetable_alloc (\<lambda>pagetable.
     io_bind (io_assert (pagetable \<noteq> 0)) (\<lambda>_.
     io_bind (map_kernel img pagetable) (\<lambda>_.
     io_bind (set_proc pid (\<lambda>p. p\<lparr>p_pagetable := pagetable\<rparr>)) (\<lambda>_.
     io_bind get_current (\<lambda>cur.
     io_bind (program_load img pid program_number (Some (page_alloc (p_pid cur)))) (\<lambda>r.
     io_bind (io_assert (r \<ge> 0)) (\<lambda>_.
     io_bind (set_proc pid (\<lambda>p. p\<lparr>p_registers := (p_registers p)\<lparr>reg_rsp := MEMSIZE_VIRTUAL\<rparr>\<rparr>)) (\<lambda>_.
     io_bind (on_ph (page_alloc pid)) (\<lambda>pstack_page.
     io_bind (map_for_current pagetable (MEMSIZE_VIRTUAL - of_nat PAGESIZE) pstack_page (of_nat PAGESIZE) PTE_USER) (\<lambda>_.
     io_bind (get_proc parent) (\<lambda>par.
     io_bind (get_proc pid) (\<lambda>p.
     io_bind (io_some (strcpy (p_cwd p) (p_cwd par))) (\<lambda>cwd.
     set_proc pid (\<lambda>p. p\<lparr>p_parent := parent, p_state := P_RUNNABLE, p_wait_pid := - 1, fd_max := 0,
                         fd_list := 0, p_cwd := cwd\<rparr>))))))))))))))))"

section \<open>Kill\<close>

definition release_pages :: "uint32 \<Rightarrow> ('d kernel, unit) io" where
  "release_pages pid = on_ph_opt (\<lambda>st. map_option (\<lambda>st. ((), st)) (free_pages pid st))"

definition process_kill :: "uint32 \<Rightarrow> ('d kernel, unit) io" where
  "process_kill pid =
     io_bind (set_proc pid (\<lambda>p. p\<lparr>p_state := P_BROKEN\<rparr>)) (\<lambda>_.
     io_bind (release_pages pid) (\<lambda>_.
     io_bind (get_proc pid) (\<lambda>p.
     if sint (p_parent p) \<ge> 1
     then io_bind (get_proc (p_parent p)) (\<lambda>parent.
          if p_wait_pid parent = pid
          then io_bind (k_write (p_wait_exit_code parent) 4 (store32 (p_wait_exit_code parent) (p_exit_code p))) (\<lambda>_.
               set_proc (p_parent p) (\<lambda>q. q\<lparr>p_state := P_RUNNABLE\<rparr>))
          else io_return ())
     else io_return ())))"

section \<open>Scheduling\<close>

text \<open>
  \<open>run\<close> ends in \<open>exception_return\<close>, which loads the registers of the process and continues in user mode:
  \<open>Ok ()\<close> is the state in which that happens.
\<close>

definition run :: "image \<Rightarrow> nat \<Rightarrow> ('d kernel, unit) io" where
  "run img i =
     io_bind (k_get (\<lambda>s. processes s ! i)) (\<lambda>p.
     io_bind (io_assert (p_state p = P_RUNNABLE)) (\<lambda>_.
     io_bind (k_put (\<lambda>s. s\<lparr>current := i\<rparr>)) (\<lambda>_.
     set_pagetable img (p_pagetable p))))"

text \<open>The loop of \<open>schedule\<close> spins when no process is runnable; it is then \<open>None\<close>.\<close>

partial_function (option) schedule_loop ::
  "image \<Rightarrow> 'd cpu \<Rightarrow> nat \<Rightarrow> 'd kernel \<Rightarrow> (unit outcome \<times> 'd kernel) option" where
  "schedule_loop img cpu pid s =
     (let pid = (pid + 1) mod NPROC
      in if p_state (processes s ! pid) = P_RUNNABLE then Some (run img pid s)
         else case check_keyboard_push cpu s of
                (Ok _, s) \<Rightarrow> schedule_loop img cpu pid s
              | r \<Rightarrow> Some r)"

definition schedule :: "image \<Rightarrow> 'd cpu \<Rightarrow> ('d kernel, unit) io" where
  "schedule img cpu = (\<lambda>s. case schedule_loop img cpu (unat (p_pid (current_proc s))) s of
     None \<Rightarrow> (Stuck, s) | Some r \<Rightarrow> r)"

end
