(* ===== verification/Kernel_Heap.thy ===== *)
theory Kernel_Heap
  imports Virtual_Memory Kernel_State
begin

unbundle bit_operations_syntax

text \<open>
  The kernel heap of \<^verbatim>\<open>kernel/k-malloc.c\<close>: a first-fit allocator on a linked list of free blocks, which
  grows page by page. Block headers are kept in physical memory, the way the code lays them
  out: the size at offset 0 and the next pointer at offset 8. A call that does not return is \<open>None\<close>.
\<close>

section \<open>Blocks\<close>

definition HEAP_MAXPAGES :: nat where "HEAP_MAXPAGES = 1024"
definition MIN_ALLOC_SIZE :: uint64 where "MIN_ALLOC_SIZE = 16"
definition HEADER_SIZE :: uint64 where "HEADER_SIZE = 16"

lemmas heap_consts = HEAP_MAXPAGES_def MIN_ALLOC_SIZE_def HEADER_SIZE_def

definition block_size :: "mem \<Rightarrow> addr \<Rightarrow> uint64" where
  "block_size m b = load64 m b"

definition block_next :: "mem \<Rightarrow> addr \<Rightarrow> addr" where
  "block_next m b = load64 m (b + 8)"

definition set_size :: "addr \<Rightarrow> uint64 \<Rightarrow> mem \<Rightarrow> mem" where
  "set_size b v m = store64 b v m"

definition set_next :: "addr \<Rightarrow> addr \<Rightarrow> mem \<Rightarrow> mem" where
  "set_next b v m = store64 (b + 8) v m"

text \<open>The static variables; \<open>heap_pagecount\<close> is the length of the list of pages.\<close>

record heap =
  h_phys :: phys
  h_pages :: "addr list"
  h_free :: addr

abbreviation h_mem :: "heap \<Rightarrow> mem" where
  "h_mem h \<equiv> p_mem (h_phys h)"

definition with_mem :: "mem \<Rightarrow> heap \<Rightarrow> heap" where
  "with_mem m h = h\<lparr>h_phys := (h_phys h)\<lparr>p_mem := m\<rparr>\<rparr>"

definition align_size :: "uint64 \<Rightarrow> uint64" where
  "align_size sz = (sz + 15) AND NOT 15"

definition extend_heap :: "addr \<Rightarrow> heap \<Rightarrow> heap option" where
  "extend_heap kernel_pagetable h =
     (if length (h_pages h) \<ge> HEAP_MAXPAGES then Some h
      else case page_alloc (scast PO_KERNEL_HEAP) (h_phys h) of (ptr, st) \<Rightarrow>
        if ptr = 0 then Some (h\<lparr>h_phys := st\<rparr>)
        else let st = st\<lparr>p_mem := memset ptr 0 PAGESIZE (p_mem st)\<rparr>
             in case virtual_memory_map kernel_pagetable ptr ptr (of_nat PAGESIZE) (ucast (PTE_P OR PTE_W)) None st of
                  None \<Rightarrow> None
                | Some (_, st) \<Rightarrow>
                    Some \<lparr>h_phys = st\<lparr>p_mem := set_next ptr (h_free h) (set_size ptr (of_nat PAGESIZE - HEADER_SIZE) (p_mem st))\<rparr>,
                          h_pages = h_pages h @ [ptr], h_free = ptr\<rparr>)"

text \<open>
  The first-fit search. \<open>prev\<close> is the block whose next field leads to the current one, \<open>None\<close> for the
  variable \<open>free_list\<close>.
\<close>

partial_function (option) find_block ::
  "mem \<Rightarrow> uint64 \<Rightarrow> addr option \<Rightarrow> addr \<Rightarrow> (addr option \<times> addr) option option" where
  "find_block m need prev cur =
     (if cur = 0 then Some None
      else if block_size m cur \<ge> need then Some (Some (prev, cur))
      else find_block m need (Some cur) (block_next m cur))"

definition link :: "addr option \<Rightarrow> addr \<Rightarrow> heap \<Rightarrow> heap" where
  "link prev v h = (case prev of None \<Rightarrow> h\<lparr>h_free := v\<rparr> | Some b \<Rightarrow> with_mem (set_next b v (h_mem h)) h)"

definition take_block :: "uint64 \<Rightarrow> addr option \<Rightarrow> addr \<Rightarrow> heap \<Rightarrow> heap" where
  "take_block alloc_size prev cur h =
     (let h = (if block_size (h_mem h) cur \<ge> alloc_size + HEADER_SIZE + MIN_ALLOC_SIZE
               then let new_block = cur + alloc_size; m = h_mem h;
                        m = set_size new_block (block_size m cur - alloc_size) m;
                        m = set_next new_block (block_next m cur) m;
                        m = set_size cur (alloc_size - HEADER_SIZE) m
                    in link prev new_block (with_mem m h)
               else link prev (block_next (h_mem h) cur) h);
          m = set_next cur 0 (h_mem h)
      in with_mem (memset (cur + HEADER_SIZE) 0 (unat (block_size m cur)) m) h)"

partial_function (option) kernel_malloc :: "addr \<Rightarrow> uint64 \<Rightarrow> heap \<Rightarrow> (addr \<times> heap) option" where
  "kernel_malloc kernel_pagetable sz h =
     (if sz = 0 \<or> sz > of_nat PAGESIZE - HEADER_SIZE then Some (0, h)
      else let alloc_size = align_size (sz + HEADER_SIZE)
           in case find_block (h_mem h) alloc_size None (h_free h) of
                None \<Rightarrow> None
              | Some (Some (prev, cur)) \<Rightarrow> Some (cur + HEADER_SIZE, take_block alloc_size prev cur h)
              | Some None \<Rightarrow>
                  (case extend_heap kernel_pagetable h of
                     None \<Rightarrow> None
                   | Some h \<Rightarrow> if h_free h = 0 then Some (0, h) else kernel_malloc kernel_pagetable sz h))"

partial_function (option) coalesce :: "mem \<Rightarrow> addr \<Rightarrow> mem option" where
  "coalesce m cur =
     (if cur = 0 then Some m
      else let nxt = block_next m cur
           in if nxt \<noteq> 0 \<and> cur + HEADER_SIZE + block_size m cur = nxt
              then coalesce (set_next cur (block_next m nxt)
                     (set_size cur (block_size m cur + (HEADER_SIZE + block_size m nxt)) m)) cur
              else coalesce m nxt)"

definition kernel_free :: "addr \<Rightarrow> heap \<Rightarrow> heap option" where
  "kernel_free ptr h =
     (if ptr = 0 then Some h
      else let block = ptr - HEADER_SIZE
           in if \<not> list_ex (\<lambda>page. block \<ge> page \<and> block < page + of_nat PAGESIZE) (h_pages h) \<or> block_next (h_mem h) block \<noteq> 0
              then Some h
              else let m = memset ptr 0 (unat (block_size (h_mem h) block)) (h_mem h)
                   in map_option (\<lambda>m. (with_mem m h)\<lparr>h_free := block\<rparr>) (coalesce (set_next block (h_free h) m) block))"

section \<open>On the kernel state\<close>

definition kernel_heap :: "'d kernel \<Rightarrow> heap" where
  "kernel_heap s = \<lparr>h_phys = ph s, h_pages = heap_pageinfo s, h_free = free_list s\<rparr>"

definition set_heap :: "heap \<Rightarrow> 'd kernel \<Rightarrow> 'd kernel" where
  "set_heap h s = s\<lparr>ph := h_phys h, heap_pageinfo := h_pages h, free_list := h_free h\<rparr>"

definition malloc :: "addr \<Rightarrow> uint64 \<Rightarrow> ('d kernel, addr) io" where
  "malloc kernel_pagetable sz =
     io_bind (k_get kernel_heap) (\<lambda>h.
     io_bind (io_some (kernel_malloc kernel_pagetable sz h)) (\<lambda>(p, h).
     io_bind (k_put (set_heap h)) (\<lambda>_. io_return p)))"

definition free :: "addr \<Rightarrow> ('d kernel, unit) io" where
  "free p =
     io_bind (k_get kernel_heap) (\<lambda>h.
     io_bind (io_some (kernel_free p h)) (\<lambda>h. k_put (set_heap h)))"

text \<open>\<open>testmalloc\<close>; its messages to the log are left out, \<open>arg\<close> is the string or \<open>None\<close> for a null pointer.\<close>

definition free_if :: "addr \<Rightarrow> ('d kernel, unit) io" where
  "free_if p = (if p \<noteq> 0 then free p else io_return ())"

primrec malloc_n :: "nat \<Rightarrow> addr \<Rightarrow> uint64 \<Rightarrow> ('d kernel, addr list) io" where
  "malloc_n 0 kpt sz = io_return []"
| "malloc_n (Suc n) kpt sz =
     io_bind (malloc kpt sz) (\<lambda>p. io_bind (malloc_n n kpt sz) (\<lambda>ps. io_return (p # ps)))"

primrec free_all :: "addr list \<Rightarrow> ('d kernel, unit) io" where
  "free_all [] = io_return ()"
| "free_all (p # ps) = io_bind (free_if p) (\<lambda>_. free_all ps)"

definition testmalloc :: "addr \<Rightarrow> byte list option \<Rightarrow> ('d kernel, unit) io" where
  "testmalloc kpt arg =
     io_bind (malloc kpt 100) (\<lambda>p1. io_bind (free_if p1) (\<lambda>_.
     io_bind (malloc kpt 200) (\<lambda>p2. io_bind (malloc kpt 300) (\<lambda>p3.
     io_bind (if p2 \<noteq> 0 \<and> p3 \<noteq> 0 then io_bind (free p2) (\<lambda>_. free p3) else io_return ()) (\<lambda>_.
     io_bind (malloc kpt 2048) (\<lambda>p4. io_bind (free_if p4) (\<lambda>_.
     io_bind (malloc_n 10 kpt 50) (\<lambda>ptrs. io_bind (free_all ptrs) (\<lambda>_.
     io_bind (malloc kpt 0) (\<lambda>p5.
     case arg of
       None \<Rightarrow> io_return ()
     | Some s \<Rightarrow>
         io_bind (io_some (atoi s)) (\<lambda>n.
         let sz = of_int n :: uint64
         in if sz > 0 \<and> sz \<le> of_nat PAGESIZE - HEADER_SIZE
            then io_bind (malloc kpt sz) free_if else io_return ())))))))))))"

end
