(* ===== verification/File_Descriptors.thy ===== *)
theory File_Descriptors
  imports Kernel_Heap
begin

text \<open>
  The lists of open files of \<^verbatim>\<open>kernel/k-filedescriptor.c\<close>. The entries are C structures in kernel memory:
  the descriptor at offset 0, the inode at 4, the file offset at 8 and the next pointer at 16. The
  functions take the value of the head pointer \<open>*fdl\<close> and return its final value along with their
  result, because they advance the caller's pointer. On a cyclic list they do not return (\<open>None\<close>).
\<close>

section \<open>Entries\<close>

definition FDENTRY_SIZE :: uint64 where "FDENTRY_SIZE = 24"

definition fde_fd :: "mem \<Rightarrow> addr \<Rightarrow> uint32" where "fde_fd m e = load32 m e"
definition fde_inode :: "mem \<Rightarrow> addr \<Rightarrow> uint32" where "fde_inode m e = load32 m (e + 4)"
definition fde_offset :: "mem \<Rightarrow> addr \<Rightarrow> uint32" where "fde_offset m e = load32 m (e + 8)"
definition fde_next :: "mem \<Rightarrow> addr \<Rightarrow> addr" where "fde_next m e = load64 m (e + 16)"

definition init_fdentry :: "addr \<Rightarrow> uint32 \<Rightarrow> uint32 \<Rightarrow> mem \<Rightarrow> mem" where
  "init_fdentry e fd inode m =
     (let m = store32 e fd m; m = store32 (e + 4) inode m; m = store32 (e + 8) 0 m
      in store64 (e + 16) 0 m)"

definition set_fde_offset :: "addr \<Rightarrow> uint32 \<Rightarrow> mem \<Rightarrow> mem" where
  "set_fde_offset e v m = store32 (e + 8) v m"

section \<open>Operations\<close>

partial_function (option) fdlist_end :: "mem \<Rightarrow> addr \<Rightarrow> addr option" where
  "fdlist_end m fdl = (if fdl \<noteq> 0 then fdlist_end m (fde_next m fdl) else Some fdl)"

definition fdlist_add_entry :: "addr \<Rightarrow> addr \<Rightarrow> uint32 \<Rightarrow> uint32 \<Rightarrow> ('d kernel, int \<times> addr) io" where
  "fdlist_add_entry kpt fdl fd inode =
     io_bind k_mem (\<lambda>m.
     io_bind (io_some (fdlist_end m fdl)) (\<lambda>fdl.
     io_bind (malloc kpt FDENTRY_SIZE) (\<lambda>entry.
     if entry = 0 then io_return (- 1, fdl)
     else io_bind (k_store (init_fdentry entry fd inode)) (\<lambda>_. io_return (0, entry)))))"

partial_function (option) fdlist_get_inode :: "mem \<Rightarrow> addr \<Rightarrow> uint32 \<Rightarrow> (uint32 \<times> addr) option" where
  "fdlist_get_inode m fdl fd =
     (if fdl \<noteq> 0
      then if fde_fd m fdl = fd then Some (fde_inode m fdl, fdl)
           else fdlist_get_inode m (fde_next m fdl) fd
      else Some (- 1, fdl))"

text \<open>The result of \<open>fdlist_search_entry\<close> is a pointer to an entry or null.\<close>

partial_function (option) fdlist_search_entry :: "mem \<Rightarrow> addr \<Rightarrow> uint32 \<Rightarrow> (addr \<times> addr) option" where
  "fdlist_search_entry m fdl fd =
     (if fdl \<noteq> 0
      then if fde_fd m fdl = fd then Some (fdl, fdl) else fdlist_search_entry m (fde_next m fdl) fd
      else Some (0, fdl))"

partial_function (option) fdlist_remove_entry :: "mem \<Rightarrow> addr \<Rightarrow> uint32 \<Rightarrow> (int \<times> addr) option" where
  "fdlist_remove_entry m fdl fd =
     (if fdl \<noteq> 0
      then if fde_fd m fdl = fd then Some (0, fde_next m fdl)
           else fdlist_remove_entry m (fde_next m fdl) fd
      else Some (- 1, fdl))"

end
