(* ===== verification/Syscalls.thy ===== *)
theory Syscalls
  imports Processes File_Descriptors Kernel_Filesystem
begin

unbundle bit_operations_syntax

text \<open>
  The exception handler of \<^verbatim>\<open>kernel/kernel.c\<close>, with one definition for every case of its \<open>switch\<close>, and the
  entry point \<open>kernel\<close>. A handler acts on the kernel state with the registers of the interrupted
  process in its descriptor; \<open>exception\<close> ends in the state in which a process continues in user mode.
  Pointers of a process are translated once, by \<open>virtual_memory_lookup\<close>, and used as physical addresses.
  Of a buffer that a failing \<open>fs_read\<close> or \<open>fs_write\<close> has partly overwritten the contents are left unchanged.
\<close>

section \<open>Pointers and strings of a process\<close>

text \<open>The object behind a pointer is taken to reach to the end of physical memory.\<close>

definition mem_from :: "mem \<Rightarrow> addr \<Rightarrow> byte list" where
  "mem_from m a = load_bytes m a (unat MEMSIZE_PHYSICAL - unat a)"

definition c_string :: "byte list \<Rightarrow> byte list option" where
  "c_string bs = (if 0 \<in> set bs then Some (cstr bs) else None)"

definition string_literal :: "string \<Rightarrow> byte list" where
  "string_literal s = map of_char s @ [0]"

definition user_ptr :: "(x86_64_registers \<Rightarrow> uint64) \<Rightarrow> ('d kernel, addr) io" where
  "user_ptr reg = k_get (\<lambda>s. vam_pa (virtual_memory_lookup (p_mem (ph s)) (p_pagetable (current_proc s))
     (reg (p_registers (current_proc s)))))"

definition arg :: "(x86_64_registers \<Rightarrow> uint64) \<Rightarrow> ('d kernel, uint64) io" where
  "arg reg = k_get (\<lambda>s. reg (p_registers (current_proc s)))"

definition set_rax :: "uint64 \<Rightarrow> ('d kernel, unit) io" where
  "set_rax v = set_current (\<lambda>p. p\<lparr>p_registers := (p_registers p)\<lparr>reg_rax := v\<rparr>\<rparr>)"

text \<open>\<open>resolve_path\<close> returns the contents of the buffer that it allocates.\<close>

definition resolve_path :: "image \<Rightarrow> addr \<Rightarrow> ('d kernel, byte list) io" where
  "resolve_path img pa =
     io_bind (malloc (kernel_pagetable img) 256) (\<lambda>buffer.
     io_bind get_current (\<lambda>p.
     io_bind k_mem (\<lambda>m.
     io_bind (io_some (c_string (p_cwd p))) (\<lambda>cwd.
     io_bind (io_some (c_string (mem_from m pa))) (\<lambda>path.
     let r = join_path cwd path in
     io_bind (k_write buffer (length r + 1) (store_bytes (r @ [0]) buffer)) (\<lambda>_.
     io_return r))))))"

definition user_path :: "image \<Rightarrow> ('d kernel, byte list) io" where
  "user_path img = io_bind (user_ptr reg_rdi) (resolve_path img)"

section \<open>Files\<close>

definition ENOTDIR :: int where "ENOTDIR = 20"

definition sys_hello :: "'d cpu \<Rightarrow> ('d kernel, unit) io" where
  "sys_hello cpu =
     io_bind (console_out (Console_printf (CPOS 10 10) 0x0C00 ''Hello, from Kernel'' [])) (\<lambda>_.
     io_bind (io_try (kernel_read_disk cpu 0 16)) (\<lambda>r.
     case r of
       Inl e \<Rightarrow> io_stuck
     | Inr buffer \<Rightarrow>
         io_bind (io_ignore (kernel_write_disk cpu (buffer[0 := 0x4D]) 0)) (\<lambda>_.
         io_ignore (kernel_read_disk cpu 0 16))))"

definition sys_open :: "image \<Rightarrow> 'd cpu \<Rightarrow> ('d kernel, unit) io" where
  "sys_open img cpu =
     io_bind (user_path img) (\<lambda>path.
     io_bind (io_try (fs_getattr (fsdesc cpu) path)) (\<lambda>r.
     case r of
       Inl e \<Rightarrow> set_rax (of_int e)
     | Inr inode \<Rightarrow>
         io_bind (set_current (\<lambda>p. p\<lparr>fd_max := fd_max p + 1\<rparr>)) (\<lambda>_.
         io_bind get_current (\<lambda>p.
         io_bind (fdlist_add_entry (kernel_pagetable img) (fd_list p) (fd_max p) inode) (\<lambda>(r, fdl).
         io_bind (set_current (\<lambda>p. p\<lparr>fd_list := fdl\<rparr>)) (\<lambda>_.
         if r < 0 then set_rax (of_int r) else set_rax (scast (fd_max p))))))))"

definition sys_remove :: "image \<Rightarrow> 'd cpu \<Rightarrow> ('d kernel, unit) io" where
  "sys_remove img cpu =
     io_bind (user_path img) (\<lambda>path.
     io_bind (io_try (fs_remove (fsdesc cpu) path)) (\<lambda>r.
     case r of Inl e \<Rightarrow> set_rax (- 1) | Inr _ \<Rightarrow> set_rax 0))"

definition find_entry :: "uint32 \<Rightarrow> ('d kernel, addr) io" where
  "find_entry fd =
     io_bind k_mem (\<lambda>m.
     io_bind get_current (\<lambda>p.
     io_bind (io_some (fdlist_search_entry m (fd_list p) fd)) (\<lambda>(entry, fdl).
     io_bind (set_current (\<lambda>p. p\<lparr>fd_list := fdl\<rparr>)) (\<lambda>_.
     io_return entry))))"

text \<open>
  The loop of \<open>fs_read\<close> has at most \<open>2 ^ 32\<close> iterations unless it never ends. A null entry is read like any
  other: page 0 is readable for the kernel.
\<close>

definition sys_read :: "'d cpu \<Rightarrow> ('d kernel, unit) io" where
  "sys_read cpu =
     io_bind (arg reg_rdi) (\<lambda>rdi.
     io_bind (user_ptr reg_rsi) (\<lambda>buf.
     io_bind (arg reg_rdx) (\<lambda>sz.
     io_bind (find_entry (ucast rdi)) (\<lambda>entry.
     io_bind k_mem (\<lambda>m.
     io_bind (io_try (fs_read (2 ^ 32 + 1) (fsdesc cpu) (fde_inode m entry) sz (scast (fde_offset m entry)))) (\<lambda>r.
     case r of
       Inl e \<Rightarrow> set_rax (of_int e)
     | Inr bytes \<Rightarrow>
         let r = of_nat (length bytes) :: uint32 in
         io_bind (if bytes = [] then io_return () else k_write buf (length bytes) (store_bytes bytes buf)) (\<lambda>_.
         if sint r < 0 then set_rax (scast r)
         else io_bind (k_write (entry + 8) 4 (\<lambda>m. set_fde_offset entry (fde_offset m entry + r) m)) (\<lambda>_.
              set_rax (scast r)))))))))"

definition sys_write :: "'d cpu \<Rightarrow> ('d kernel, unit) io" where
  "sys_write cpu =
     io_bind (arg reg_rdi) (\<lambda>rdi.
     io_bind (user_ptr reg_rsi) (\<lambda>buf.
     io_bind (arg reg_rdx) (\<lambda>sz.
     io_bind (find_entry (ucast rdi)) (\<lambda>entry.
     if entry = 0 then set_rax (- 1)
     else
       io_bind k_mem (\<lambda>m.
       io_bind (io_try (fs_write (fsdesc cpu) (fde_inode m entry) (mem_from m buf) sz (scast (fde_offset m entry)))) (\<lambda>r.
       case r of
         Inl e \<Rightarrow> set_rax (of_int e)
       | Inr (n, bytes) \<Rightarrow>
           io_bind (if bytes = mem_from m buf then io_return ()
                    else k_write buf (length bytes) (store_bytes bytes buf)) (\<lambda>_.
           if sint (ucast n :: uint32) < 0 then set_rax (scast (ucast n :: uint32))
           else io_bind (k_write (entry + 8) 4 (\<lambda>m. set_fde_offset entry (fde_offset m entry + ucast sz) m)) (\<lambda>_.
                set_rax sz))))))))"

definition sys_mkdir :: "image \<Rightarrow> 'd cpu \<Rightarrow> ('d kernel, unit) io" where
  "sys_mkdir img cpu =
     io_bind (user_path img) (\<lambda>path.
     io_bind (io_try (fs_touch (fsdesc cpu) path 0)) (\<lambda>r.
     case r of Inl e \<Rightarrow> set_rax (of_int e) | Inr _ \<Rightarrow> set_rax 0))"

definition sys_touch :: "image \<Rightarrow> 'd cpu \<Rightarrow> ('d kernel, unit) io" where
  "sys_touch img cpu =
     io_bind (user_path img) (\<lambda>path.
     io_bind (io_try (fs_alloc_inode (fsdesc cpu))) (\<lambda>r.
     case r of
       Inl e \<Rightarrow> set_rax (of_int e)
     | Inr inode \<Rightarrow>
         io_bind (io_try (fs_touch (fsdesc cpu) path inode)) (\<lambda>r.
         case r of Inl e \<Rightarrow> set_rax (of_int e) | Inr _ \<Rightarrow> set_rax 0)))"

text \<open>
  The loop of \<open>INT_SYS_LISTDIR\<close> over the children, which returns the advanced pointer \<open>buffer\<close>; the local
  array \<open>name\<close> is overwritten up to its terminator before it is read.
\<close>

primrec list_names :: "nat \<Rightarrow> 'd kernel fs_dirreader \<Rightarrow> addr \<Rightarrow> ('d kernel, addr) io" where
  "list_names 0 dr buffer = io_return buffer"
| "list_names (Suc n) dr buffer =
     io_bind (io_try (fs_readdir_next dr (replicate 32 0))) (\<lambda>r.
     case r of
       Inl e \<Rightarrow> io_bind (set_rax (of_int e)) (\<lambda>_. io_return buffer)
     | Inr (name, dr) \<Rightarrow>
         let line = cstr (take 32 name) @ [10] in
         io_bind (k_write buffer (length line) (store_bytes line buffer)) (\<lambda>_.
         list_names n dr (buffer + of_nat (length line))))"

definition sys_listdir :: "image \<Rightarrow> 'd cpu \<Rightarrow> ('d kernel, unit) io" where
  "sys_listdir img cpu =
     io_bind (user_path img) (\<lambda>path.
     io_bind (user_ptr reg_rsi) (\<lambda>buffer.
     io_bind (io_try (fs_readdir_init (fsdesc cpu) path)) (\<lambda>r.
     case r of
       Inl e \<Rightarrow> set_rax (of_int e)
     | Inr (children_count, dr) \<Rightarrow>
         if sint children_count < 0 then set_rax (scast children_count)
         else io_bind (list_names (nat (sint children_count)) dr buffer) (\<lambda>buffer.
              io_bind (k_write buffer 1 (\<lambda>m. m(buffer := 0))) (\<lambda>_.
              set_rax 0)))))"

definition sys_getcwd :: "('d kernel, unit) io" where
  "sys_getcwd =
     io_bind (user_ptr reg_rdi) (\<lambda>buffer.
     io_bind get_current (\<lambda>p.
     io_bind (io_some (c_string (p_cwd p))) (\<lambda>cwd.
     io_bind (k_write buffer (length cwd + 1) (store_bytes (cwd @ [0]) buffer)) (\<lambda>_.
     set_rax 0))))"

definition sys_chdir :: "image \<Rightarrow> 'd cpu \<Rightarrow> ('d kernel, unit) io" where
  "sys_chdir img cpu =
     io_bind (user_path img) (\<lambda>path.
     io_bind (io_try (fs_getattr (fsdesc cpu) path)) (\<lambda>r.
     case r of
       Inl e \<Rightarrow> set_rax (of_int e)
     | Inr value \<Rightarrow>
         if value > 0 then set_rax (of_int (- ENOTDIR))
         else io_bind get_current (\<lambda>p.
              io_bind (io_some (copy_to_buffer (p_cwd p) path)) (\<lambda>cwd.
              io_bind (set_current (\<lambda>p. p\<lparr>p_cwd := cwd\<rparr>)) (\<lambda>_.
              set_rax 0)))))"

section \<open>Memory\<close>

definition out_of_memory :: "('d kernel, unit) io" where
  "out_of_memory = console_out (Console_printf (CPOS 24 0) 0x0C00 ''Out of physical memory!'' [])"

definition sys_page_alloc :: "('d kernel, unit) io" where
  "sys_page_alloc =
     io_bind (arg reg_rdi) (\<lambda>vaddr.
     io_bind get_current (\<lambda>p.
     io_bind (on_ph (page_alloc (p_pid p))) (\<lambda>paddr.
     if paddr = 0 then io_bind (set_rax (- 1)) (\<lambda>_. out_of_memory)
     else io_bind (on_ph_opt (virtual_memory_map (p_pagetable p) vaddr paddr (of_nat PAGESIZE) PTE_USER None)) (\<lambda>_.
          set_rax vaddr))))"

section \<open>Programs\<close>

definition exit_with :: "uint32 \<Rightarrow> ('d kernel, unit) io" where
  "exit_with code =
     io_bind (set_current (\<lambda>p. p\<lparr>p_exit_code := code\<rparr>)) (\<lambda>_.
     io_bind get_current (\<lambda>p. process_kill (p_pid p)))"

definition sys_exit :: "('d kernel, unit) io" where
  "sys_exit = io_bind (arg reg_rdi) (\<lambda>rdi. exit_with (ucast rdi))"

text \<open>The programs that \<open>INT_SYS_EXECV\<close> knows, in the order of its comparisons.\<close>

definition programs :: "(string \<times> nat) list" where
  "programs = [(''cat'', 3), (''echo'', 4), (''ls'', 5), (''mkdir'', 6), (''rm'', 7), (''entropy'', 8),
     (''plane'', 9), (''touch'', 10)]"

primrec find_program :: "byte list \<Rightarrow> (string \<times> nat) list \<Rightarrow> nat option option" where
  "find_program path [] = Some None"
| "find_program path (p # ps) =
     Option.bind (strcmp path (string_literal (fst p))) (\<lambda>c.
       if c = 0 then Some (Some (snd p)) else find_program path ps)"

text \<open>\<open>argv[i]\<close>, and the number of the arguments before the null pointer; \<open>None\<close> is a page fault.\<close>

definition argv_at :: "mem \<Rightarrow> addr \<Rightarrow> nat \<Rightarrow> addr option" where
  "argv_at m argv i =
     (let a = argv + 8 * of_nat i in if readable_at a 8 then Some (load64 m a) else None)"

primrec count_args :: "nat \<Rightarrow> mem \<Rightarrow> addr \<Rightarrow> nat \<Rightarrow> nat option" where
  "count_args 0 m argv argc = None"
| "count_args (Suc n) m argv argc =
     Option.bind (argv_at m argv argc) (\<lambda>p. if p = 0 then Some argc else count_args n m argv (argc + 1))"

text \<open>\<open>strcpy\<close> in kernel memory; its argument counts down the bytes of physical memory.\<close>

primrec k_strcpy :: "nat \<Rightarrow> addr \<Rightarrow> addr \<Rightarrow> mem \<Rightarrow> mem option" where
  "k_strcpy 0 dst src m = None"
| "k_strcpy (Suc n) dst src m =
     (if readable_at src 1 \<and> writable_at dst 1
      then let c = m src; m = m(dst := c) in if c = 0 then Some m else k_strcpy n (dst + 1) (src + 1) m
      else None)"

primrec copy_args ::
  "nat \<Rightarrow> addr \<Rightarrow> addr \<Rightarrow> addr \<Rightarrow> addr \<Rightarrow> nat \<Rightarrow> uint64 \<Rightarrow> mem \<Rightarrow> mem option" where
  "copy_args 0 pagetable argv pargs_pa pargs_va i offset m = Some m"
| "copy_args (Suc n) pagetable argv pargs_pa pargs_va i offset m =
     (if \<not> writable_at (pargs_pa + 8 * of_nat i) 8 then None
      else let m = store64 (pargs_pa + 8 * of_nat i) (pargs_va + offset) m in
      Option.bind (argv_at m argv i) (\<lambda>p.
      let pa = vam_pa (virtual_memory_lookup m pagetable p) in
      Option.bind (k_strcpy (unat MEMSIZE_PHYSICAL) (pargs_pa + offset) pa m) (\<lambda>m.
      Option.bind (strlen (mem_from m pa)) (\<lambda>len.
      copy_args n pagetable argv pargs_pa pargs_va (i + 1) (offset + of_nat len + 1) m))))"

text \<open>The loop that releases the pages of the process except the one of the arguments.\<close>

primrec clear_pages_loop :: "nat \<Rightarrow> uint32 \<Rightarrow> addr \<Rightarrow> phys \<Rightarrow> phys option" where
  "clear_pages_loop 0 pid keep st = Some st"
| "clear_pages_loop (Suc n) pid keep st =
     Option.bind (clear_pages_loop n pid keep st) (\<lambda>st.
       if scast (owner (pageinfo st ! n)) = pid \<and> PAGEADDRESS n \<noteq> keep
       then if refcount (pageinfo st ! n) = 1
            then Some (st\<lparr>pageinfo := (pageinfo st)[n := \<lparr>owner = PO_FREE, refcount = 0\<rparr>]\<rparr>)
            else None
       else Some st)"

definition clear_pages :: "uint32 \<Rightarrow> addr \<Rightarrow> ('d kernel, unit) io" where
  "clear_pages pid keep = on_ph_opt (\<lambda>st. map_option (\<lambda>st. ((), st)) (clear_pages_loop NPAGETABLEENTRIES pid keep st))"

definition PARGS_VA :: addr where "PARGS_VA = 0x140000"

definition exec_program :: "image \<Rightarrow> nat \<Rightarrow> ('d kernel, unit) io" where
  "exec_program img program_number =
     io_bind (user_ptr reg_rsi) (\<lambda>argv.
     io_bind k_mem (\<lambda>m.
     io_bind (io_some (count_args (unat MEMSIZE_PHYSICAL) m argv 0)) (\<lambda>argc.
     io_bind get_current (\<lambda>p.
     io_bind (on_ph (page_alloc (p_pid p))) (\<lambda>pargs_pa.
     if pargs_pa = 0 then io_bind out_of_memory (\<lambda>_. io_stuck)
     else
       io_bind (k_store_opt (copy_args argc (p_pagetable p) argv pargs_pa PARGS_VA 0 (8 * (of_nat argc + 1)))) (\<lambda>_.
       io_bind (k_write (pargs_pa + 8 * of_nat argc) 8 (store64 (pargs_pa + 8 * of_nat argc) 0)) (\<lambda>_.
       io_bind (clear_pages (p_pid p) pargs_pa) (\<lambda>_.
       io_bind (process_setup img (p_pid p) program_number (p_parent p)) (\<lambda>_.
       io_bind get_current (\<lambda>p.
       io_bind (on_ph_opt (virtual_memory_map (p_pagetable p) PARGS_VA pargs_pa (of_nat PAGESIZE) PTE_USER None)) (\<lambda>r.
       io_bind (io_assert (r = 0)) (\<lambda>_.
       set_current (\<lambda>p. p\<lparr>p_registers := (p_registers p)\<lparr>reg_rdi := of_nat argc, reg_rsi := PARGS_VA\<rparr>\<rparr>)))))))))))))"

definition exec_testmalloc :: "image \<Rightarrow> ('d kernel, unit) io" where
  "exec_testmalloc img =
     io_bind (user_ptr reg_rsi) (\<lambda>argv.
     io_bind k_mem (\<lambda>m.
     io_bind get_current (\<lambda>p.
     io_bind (io_some (argv_at m argv 1)) (\<lambda>a.
     testmalloc (kernel_pagetable img)
       (if a \<noteq> 0 then Some (mem_from m (vam_pa (virtual_memory_lookup m (p_pagetable p) a))) else None)))))"

text \<open>The commands that the kernel executes itself.\<close>

definition shell_command :: "image \<Rightarrow> string \<Rightarrow> ('d kernel, unit) io" where
  "shell_command img c =
     (if c = ''show'' then k_put (\<lambda>s. s\<lparr>memshow_enabled := True\<rparr>)
      else if c = ''hide'' then io_bind (k_put (\<lambda>s. s\<lparr>memshow_enabled := False\<rparr>)) (\<lambda>_. console_out Console_clear)
      else if c = ''clear'' then console_out Console_clear
      else exec_testmalloc img)"

primrec find_command :: "byte list \<Rightarrow> string list \<Rightarrow> string option option" where
  "find_command path [] = Some None"
| "find_command path (c # cs) =
     Option.bind (strcmp path (string_literal c)) (\<lambda>r. if r = 0 then Some (Some c) else find_command path cs)"

definition sys_execv :: "image \<Rightarrow> ('d kernel, unit) io" where
  "sys_execv img =
     io_bind (user_ptr reg_rdi) (\<lambda>pa.
     io_bind k_mem (\<lambda>m.
     let path = mem_from m pa in
     io_bind (io_some (find_command path [''show'', ''hide'', ''clear'', ''testmalloc''])) (\<lambda>c.
     case c of
       Some c \<Rightarrow> io_bind (shell_command img c) (\<lambda>_. exit_with 0)
     | None \<Rightarrow>
         io_bind (io_some (find_program path programs)) (\<lambda>n.
         case n of None \<Rightarrow> set_rax (- 1) | Some program_number \<Rightarrow> exec_program img program_number))))"

section \<open>Processes\<close>

definition sys_wait :: "('d kernel, unit) io" where
  "sys_wait =
     io_bind (arg reg_rdi) (\<lambda>rdi.
     io_bind (user_ptr reg_rsi) (\<lambda>exit_code.
     let pid = ucast rdi :: uint32 in
     io_bind (io_assert (sint pid \<ge> 1)) (\<lambda>_.
     io_bind (get_proc pid) (\<lambda>child.
     io_bind get_current (\<lambda>p.
     io_bind (io_assert (p_parent child = p_pid p)) (\<lambda>_.
     io_bind (set_rax 0) (\<lambda>_.
     if p_state child = P_BROKEN then k_write exit_code 4 (store32 exit_code (p_exit_code child))
     else set_current (\<lambda>p. p\<lparr>p_state := P_BLOCKED, p_wait_pid := pid, p_wait_exit_code := exit_code\<rparr>))))))))"

definition sys_forget :: "('d kernel, unit) io" where
  "sys_forget =
     io_bind (arg reg_rdi) (\<lambda>rdi.
     let pid = ucast rdi :: uint32 in
     io_bind (io_assert (sint pid \<ge> 1)) (\<lambda>_.
     io_bind (get_proc pid) (\<lambda>child.
     io_bind get_current (\<lambda>p.
     io_bind (io_assert (p_parent child = p_pid p \<and> p_state child = P_BROKEN)) (\<lambda>_.
     io_bind (set_proc pid (\<lambda>p. p\<lparr>p_state := P_FREE\<rparr>)) (\<lambda>_.
     set_rax 0))))))"

definition free_slot :: "proc list \<Rightarrow> nat option" where
  "free_slot procs = List.find (\<lambda>i. p_state (procs ! i) = P_FREE) [1..<NPROC]"

text \<open>One iteration of the loop of \<open>INT_SYS_FORK\<close>; the child is the current process.\<close>

definition fork_page :: "nat \<Rightarrow> uint32 \<Rightarrow> addr \<Rightarrow> addr \<Rightarrow> ('d kernel, unit) io" where
  "fork_page parent pid pagetable va =
     io_bind k_mem (\<lambda>m.
     io_bind (k_get (\<lambda>s. processes s ! parent)) (\<lambda>par.
     let vam = virtual_memory_lookup m (p_pagetable par) va in
     if vam_pn vam = - 1 then io_return ()
     else
       io_bind (io_assert (sint (vam_pn vam) \<ge> 0 \<and> unat (vam_pn vam) < NPAGES)) (\<lambda>_.
       io_bind (k_get (\<lambda>s. owner (pageinfo (ph s) ! unat (vam_pn vam)))) (\<lambda>own.
       if scast own = p_pid par
       then io_bind (on_ph (page_alloc pid)) (\<lambda>pa.
            io_bind (io_assert (pa \<noteq> 0)) (\<lambda>_.
            io_bind (k_store (memcpy pa (vam_pa vam) PAGESIZE)) (\<lambda>_.
            io_bind (map_for_current pagetable va pa (of_nat PAGESIZE) (vam_perm vam)) (\<lambda>_.
            io_return ()))))
       else io_bind (map_for_current pagetable va (vam_pa vam) (of_nat PAGESIZE) (vam_perm vam)) (\<lambda>_.
            io_return ())))))"

definition fork_pages :: "addr list" where
  "fork_pages = map PAGEADDRESS [0..<unat MEMSIZE_VIRTUAL div PAGESIZE]"

definition sys_fork :: "('d kernel, unit) io" where
  "sys_fork =
     io_bind (k_get (\<lambda>s. (free_slot (processes s), current s))) (\<lambda>(slot, parent).
     case slot of
       None \<Rightarrow> set_rax (- 1)
     | Some pid \<Rightarrow>
         io_bind (k_put (\<lambda>s. s\<lparr>current := pid\<rparr>)) (\<lambda>_.
         io_bind pagetable_alloc (\<lambda>pagetable.
         if pagetable = 0
         then io_bind (k_put (\<lambda>s. s\<lparr>current := parent\<rparr>)) (\<lambda>_. set_rax (- 1))
         else
           io_bind (for_all (fork_page parent (of_nat pid) pagetable) fork_pages) (\<lambda>_.
           io_bind (k_get (\<lambda>s. processes s ! parent)) (\<lambda>par.
           io_bind get_current (\<lambda>child.
           io_bind (io_some (strcpy (p_cwd child) (p_cwd par))) (\<lambda>cwd.
           io_bind (set_current (\<lambda>p. p\<lparr>p_parent := p_pid par, p_pagetable := pagetable,
                      p_registers := (p_registers par)\<lparr>reg_rax := 0\<rparr>, p_state := P_RUNNABLE, p_wait_pid := - 1,
                      p_cwd := cwd\<rparr>)) (\<lambda>_.
           io_bind (k_put (\<lambda>s. s\<lparr>current := parent\<rparr>)) (\<lambda>_.
           set_rax (of_nat pid))))))))))"

definition sys_kill :: "('d kernel, unit) io" where
  "sys_kill =
     io_bind (set_rax 0) (\<lambda>_.
     io_bind (arg reg_rdi) (\<lambda>rdi. process_kill (ucast rdi)))"

section \<open>Page faults\<close>

definition PFERR_PRESENT :: uint64 where "PFERR_PRESENT = 1"
definition PFERR_WRITE :: uint64 where "PFERR_WRITE = 2"
definition PFERR_USER :: uint64 where "PFERR_USER = 4"

definition page_fault :: "'d cpu \<Rightarrow> x86_64_registers \<Rightarrow> ('d kernel, unit) io" where
  "page_fault cpu reg =
     (if reg_err reg AND PFERR_USER = 0 then io_stuck
      else
        io_bind (k_get (\<lambda>s. (rcr2 cpu (hw s), p_pid (current_proc s)))) (\<lambda>(a, pid).
        io_bind (console_out (Console_printf (CPOS 24 0) 0x0C00 ''Process %d page fault for %p (%s %s, rip=%p)!\<newline>''
          [VInt pid, VPtr a,
           VStr (string_literal (if reg_err reg AND PFERR_WRITE \<noteq> 0 then ''write'' else ''read'')),
           VStr (string_literal (if reg_err reg AND PFERR_PRESENT \<noteq> 0 then ''protection problem'' else ''missing page'')),
           VPtr (reg_rip reg)])) (\<lambda>_.
        set_current (\<lambda>p. p\<lparr>p_state := P_BROKEN\<rparr>))))"

section \<open>The exception handler\<close>

definition SYSCALL :: "int \<Rightarrow> uint64" where
  "SYSCALL n = of_int (int INT_SYS + n + 1)"

definition INT_SYS_READ :: uint64 where "INT_SYS_READ = SYSCALL 0"
definition INT_SYS_WRITE :: uint64 where "INT_SYS_WRITE = SYSCALL 1"
definition INT_SYS_OPEN :: uint64 where "INT_SYS_OPEN = SYSCALL 2"
definition INT_SYS_HELLO :: uint64 where "INT_SYS_HELLO = SYSCALL 6"
definition INT_SYS_FORGET :: uint64 where "INT_SYS_FORGET = SYSCALL 7"
definition INT_SYS_WAIT :: uint64 where "INT_SYS_WAIT = SYSCALL 8"
definition INT_SYS_KEYBORD :: uint64 where "INT_SYS_KEYBORD = SYSCALL 9"
definition INT_SYS_PAGE_ALLOC :: uint64 where "INT_SYS_PAGE_ALLOC = SYSCALL 10"
definition INT_SYS_SCHED_YIELD :: uint64 where "INT_SYS_SCHED_YIELD = SYSCALL 11"
definition INT_SYS_GETPID :: uint64 where "INT_SYS_GETPID = SYSCALL 12"
definition INT_SYS_FORK :: uint64 where "INT_SYS_FORK = SYSCALL 13"
definition INT_SYS_EXECV :: uint64 where "INT_SYS_EXECV = SYSCALL 14"
definition INT_SYS_EXIT :: uint64 where "INT_SYS_EXIT = SYSCALL 15"
definition INT_SYS_KILL :: uint64 where "INT_SYS_KILL = SYSCALL 16"
definition INT_SYS_GETCWD :: uint64 where "INT_SYS_GETCWD = SYSCALL 17"
definition INT_SYS_CHDIR :: uint64 where "INT_SYS_CHDIR = SYSCALL 18"
definition INT_SYS_MKDIR :: uint64 where "INT_SYS_MKDIR = SYSCALL 19"
definition INT_SYS_GETRANDOM :: uint64 where "INT_SYS_GETRANDOM = SYSCALL 20"
definition INT_SYS_LISTDIR :: uint64 where "INT_SYS_LISTDIR = SYSCALL 21"
definition INT_SYS_TOUCH :: uint64 where "INT_SYS_TOUCH = SYSCALL 22"
definition INT_SYS_REMOVE :: uint64 where "INT_SYS_REMOVE = SYSCALL 23"

lemmas syscall_numbers = SYSCALL_def INT_SYS_def INT_SYS_READ_def INT_SYS_WRITE_def INT_SYS_OPEN_def INT_SYS_HELLO_def
  INT_SYS_FORGET_def INT_SYS_WAIT_def INT_SYS_KEYBORD_def INT_SYS_PAGE_ALLOC_def INT_SYS_SCHED_YIELD_def INT_SYS_GETPID_def
  INT_SYS_FORK_def INT_SYS_EXECV_def INT_SYS_EXIT_def INT_SYS_KILL_def INT_SYS_GETCWD_def INT_SYS_CHDIR_def
  INT_SYS_MKDIR_def INT_SYS_GETRANDOM_def INT_SYS_LISTDIR_def INT_SYS_TOUCH_def INT_SYS_REMOVE_def

text \<open>
  The cases of the \<open>switch\<close> that come back to its end. \<open>INT_SYS_PANIC\<close> and the numbers without a case end
  in \<open>panic\<close>.
\<close>

definition handle :: "image \<Rightarrow> 'd cpu \<Rightarrow> x86_64_registers \<Rightarrow> ('d kernel, unit) io" where
  "handle img cpu reg =
     (let n = reg_intno reg in
      if n = INT_SYS_GETPID then io_bind get_current (\<lambda>p. set_rax (scast (p_pid p)))
      else if n = INT_SYS_EXIT then sys_exit
      else if n = INT_SYS_HELLO then sys_hello cpu
      else if n = INT_SYS_KEYBORD then io_bind (check_keyboard_pop cpu) (\<lambda>c. set_rax (of_int c))
      else if n = INT_SYS_OPEN then sys_open img cpu
      else if n = INT_SYS_REMOVE then sys_remove img cpu
      else if n = INT_SYS_GETRANDOM then io_bind (get_entropy_value cpu) (\<lambda>v. set_rax (ucast v))
      else if n = INT_SYS_PAGE_ALLOC then sys_page_alloc
      else if n = INT_SYS_READ then sys_read cpu
      else if n = INT_SYS_WRITE then sys_write cpu
      else if n = INT_SYS_MKDIR then sys_mkdir img cpu
      else if n = INT_SYS_TOUCH then sys_touch img cpu
      else if n = INT_SYS_LISTDIR then sys_listdir img cpu
      else if n = INT_SYS_EXECV then sys_execv img
      else if n = INT_SYS_WAIT then sys_wait
      else if n = INT_SYS_FORGET then sys_forget
      else if n = INT_SYS_GETCWD then sys_getcwd
      else if n = INT_SYS_CHDIR then sys_chdir img cpu
      else if n = of_nat INT_PAGEFAULT then page_fault cpu reg
      else if n = INT_SYS_FORK then sys_fork
      else if n = INT_SYS_KILL then sys_kill
      else io_stuck)"

definition enter_kernel :: "image \<Rightarrow> 'd cpu \<Rightarrow> x86_64_registers \<Rightarrow> ('d kernel, unit) io" where
  "enter_kernel img cpu reg =
     io_bind (set_current (\<lambda>p. p\<lparr>p_registers := reg\<rparr>)) (\<lambda>_.
     io_bind (set_pagetable img (kernel_pagetable img)) (\<lambda>_.
     io_bind (k_get (\<lambda>s. sint (load32 (p_mem (ph s)) cursorpos))) (\<lambda>cpos.
     io_bind (on_hw (console_show_cursor (pio cpu) cpos)) (\<lambda>_.
     io_bind (if reg_intno reg \<noteq> of_nat INT_PAGEFAULT \<or> reg_err reg AND PFERR_USER \<noteq> 0
              then io_bind (check_virtual_memory img) (\<lambda>_.
                   io_bind (k_get memshow_enabled) (\<lambda>b.
                   if b then io_bind memshow_physical (\<lambda>_. memshow_virtual_animate) else io_return ()))
              else io_return ()) (\<lambda>_.
     check_keyboard_push cpu)))))"

definition leave_kernel :: "image \<Rightarrow> 'd cpu \<Rightarrow> ('d kernel, unit) io" where
  "leave_kernel img cpu =
     io_bind (k_get (\<lambda>s. (current s, p_state (current_proc s)))) (\<lambda>(i, st).
     if st = P_RUNNABLE then run img i else schedule img cpu)"

definition exception :: "image \<Rightarrow> 'd cpu \<Rightarrow> x86_64_registers \<Rightarrow> ('d kernel, unit) io" where
  "exception img cpu reg =
     io_bind (enter_kernel img cpu reg) (\<lambda>_.
     if reg_intno reg = of_nat INT_TIMER
     then io_bind (k_put (\<lambda>s. s\<lparr>ticks := ticks s + 1\<rparr>)) (\<lambda>_. schedule img cpu)
     else if reg_intno reg = INT_SYS_SCHED_YIELD then schedule img cpu
     else io_bind (handle img cpu reg) (\<lambda>_. leave_kernel img cpu))"

section \<open>The entry point\<close>

definition initial_processes :: "proc list" where
  "initial_processes =
     (map (\<lambda>i. zero_proc\<lparr>p_pid := of_nat i\<rparr>) [0..<NPROC])[0 := zero_proc\<lparr>p_cwd := 0x2F # replicate 255 0\<rparr>]"

definition hardware_init :: "image \<Rightarrow> 'd cpu \<Rightarrow> ('d kernel, uint16) io" where
  "hardware_init img cpu =
     io_bind (k_put (\<lambda>s. s\<lparr>proc_tables := segments_init (img_tables img) KERNEL_STACK_TOP (proc_tables s)\<rparr>)) (\<lambda>_.
     io_bind (on_hw (interrupt_init (pio cpu))) (\<lambda>enabled.
     io_bind (virtual_memory_init img) (\<lambda>_.
     io_return enabled)))"

definition kernel_start :: "image \<Rightarrow> 'd cpu \<Rightarrow> ('d kernel, unit) io" where
  "kernel_start img cpu =
     io_bind (hardware_init img cpu) (\<lambda>enabled.
     io_bind (k_put (\<lambda>s. s\<lparr>ph := pageinfo_init (img_end img) (ph s)\<rparr>)) (\<lambda>_.
     io_bind (console_out Console_clear) (\<lambda>_.
     io_bind (on_hw (timer_init (pio cpu) (int HZ) enabled)) (\<lambda>_.
     io_bind (request_user_entropy cpu) (\<lambda>_.
     io_bind (on_ph_opt (virtual_memory_map (kernel_pagetable img) 0 0 (of_nat PAGESIZE) (ucast PTE_P) None)) (\<lambda>_.
     io_bind (fs_init ((fsdesc cpu)\<lparr>avail_block_table_offset := 0\<rparr>) (kernel_read_disk cpu) (kernel_write_disk cpu)
                (fs_generate_random cpu)) (\<lambda>_.
     io_bind (k_put (\<lambda>s. s\<lparr>processes := initial_processes\<rparr>)) (\<lambda>_.
     io_bind (process_setup img 5 2 0) (\<lambda>_.
     io_bind (process_setup img 1 1 0) (\<lambda>_.
     run img 1))))))))))"

end
