(* ===== verification/Kernel_Invariant.thy ===== *)
theory Kernel_Invariant
  imports Preservation Syscalls
begin

text \<open>
  The invariant of the process table and the state machine of the running system: programs that compute
  in user mode, devices that act on their own, and exceptions that the kernel handles. Every handler of
  \<open>exception\<close> is shown to keep the invariant.
\<close>

section \<open>Code that leaves the process table alone\<close>

locale table_frame =
  fixes I :: "'d kernel \<Rightarrow> bool"
  assumes frame: "I s \<Longrightarrow> processes s' = processes s \<Longrightarrow> current s' = current s \<Longrightarrow> I s'"
begin

lemma keep_get [keep]: "keeps I (k_get f)"
  by (rule preservesI) (simp add: k_get_def)

lemma keep_mem [keep]: "keeps I k_mem"
  unfolding k_mem_def by (rule keep_get)

lemma keep_put: "(\<And>s. processes (f s) = processes s) \<Longrightarrow> (\<And>s. current (f s) = current s) \<Longrightarrow> keeps I (k_put f)"
  by (rule preservesI) (simp add: k_put_def frame)

lemma keep_store [keep]: "keeps I (k_store f)"
  unfolding k_store_def by (rule keep_put) simp_all

lemma keep_console [keep]: "keeps I (console_out c)"
  unfolding console_out_def by (rule keep_put) simp_all

lemma post_frame: "I s \<Longrightarrow> processes s' = processes s \<Longrightarrow> current s' = current s \<Longrightarrow> post I (\<lambda>_. True) (r, s')"
  by (cases r) (simp_all add: frame [of s])

lemma keep_hw [keep]: "keeps I (on_hw m)"
  by (rule preservesI) (simp add: on_hw_def post_frame split: prod.split)

lemma keep_kbd [keep]: "keeps I (on_kbd m)"
  by (rule preservesI) (simp add: on_kbd_def post_frame split: prod.split)

lemma frame_ph: "I s \<Longrightarrow> I (s\<lparr>ph := p\<rparr>)"
  by (rule frame [of s]) simp_all

lemma keep_ph [keep]: "keeps I (on_ph f)"
  by (rule preservesI) (simp add: on_ph_def frame_ph split: prod.split)

lemma keep_ph_opt [keep]: "keeps I (on_ph_opt f)"
  by (rule preservesI) (simp add: on_ph_opt_def frame_ph split: option.split prod.split)

lemma keep_write [keep]: "keeps I (k_write a n f)"
  unfolding k_write_def by (intro keep)

lemma keep_store_opt [keep]: "keeps I (k_store_opt f)"
  unfolding k_store_opt_def by (intro keep)

lemma keep_cr3: "keeps I (k_put (\<lambda>s. s\<lparr>cr3 := a\<rparr>))"
  by (rule keep_put) simp_all

lemma keep_set_pagetable [keep]: "keeps I (set_pagetable img pt)"
  unfolding set_pagetable_def by (intro keep keep_cr3)

lemma keep_check_virtual_memory [keep]: "keeps I (check_virtual_memory img)"
  unfolding check_virtual_memory_def by (intro keep)

subsection \<open>Keys and entropy\<close>

lemma keep_check_keyboard [keep]: "keeps I (check_keyboard cpu)"
  unfolding check_keyboard_def by (intro keep keep_cr3)

lemma keep_stdin: "keeps I (k_put (set_stdin r))"
  by (rule keep_put) (simp_all add: set_stdin_def split: prod.split)

lemma keep_check_keyboard_push [keep]: "keeps I (check_keyboard_push cpu)"
  unfolding check_keyboard_push_def by (intro keep keep_stdin)

lemma keep_check_keyboard_pop [keep]: "keeps I (check_keyboard_pop cpu)"
  unfolding check_keyboard_pop_def by (intro keep keep_stdin)

lemma keep_entropy:
  "keeps I (k_put (\<lambda>s. s\<lparr>entropy_buffer := f s, entropy_initialized := g s, entropy_usage_counter := h s\<rparr>))"
  "keeps I (k_put (\<lambda>s. s\<lparr>entropy_buffer := f s, entropy_usage_counter := h s\<rparr>))"
  "keeps I (k_put (\<lambda>s. s\<lparr>entropy_buffer := f s\<rparr>))" "keeps I (k_put (\<lambda>s. s\<lparr>entropy_usage_counter := h s\<rparr>))"
  by (rule keep_put; simp)+

lemma keep_collect_byte [keep]: "keeps I (collect_byte cpu i)"
  unfolding collect_byte_def by (intro keep keep_entropy)

lemma keep_request_loop [keep]: "keeps I (request_loop n cpu)"
  by (induction n) (simp_all only: request_loop.simps, (intro keep; assumption)+)

lemma keep_refresh_loop [keep]: "keeps I (refresh_loop n cpu)"
  by (induction n) (simp_all only: refresh_loop.simps collect_single_keystroke_def, (intro keep; assumption)+)

lemma keep_request_user_entropy [keep]: "keeps I (request_user_entropy cpu)"
  unfolding request_user_entropy_def by (intro keep keep_entropy)

lemma keep_value_loop [keep]: "keeps I (value_loop n cpu v)"
  by (induction n arbitrary: v) (simp_all only: value_loop.simps, (intro keep; assumption)+)

lemma keep_get_entropy_value [keep]: "keeps I (get_entropy_value cpu)"
  unfolding get_entropy_value_def refresh_entropy_def by (intro keep keep_entropy)

lemma keep_random_loop [keep]: "keeps I (random_loop n cpu)"
  by (induction n) (simp_all only: random_loop.simps, (intro keep; assumption)+)

subsection \<open>Heap, pictures of memory, file system\<close>

lemma keep_set_heap: "keeps I (k_put (set_heap h))"
  by (rule keep_put) (simp_all add: set_heap_def)

lemma keep_malloc [keep]: "keeps I (malloc kpt sz)"
  unfolding malloc_def by (intro keep keep_set_heap)

lemma keep_free [keep]: "keeps I (free p)"
  unfolding free_def by (intro keep keep_set_heap)

lemma keep_malloc_n [keep]: "keeps I (malloc_n n kpt sz)"
  by (induction n) (simp_all only: malloc_n.simps, (intro keep; assumption)+)

lemma keep_free_all [keep]: "keeps I (free_all ps)"
  by (induction ps) (simp_all only: free_all.simps free_if_def, (intro keep; assumption)+)

lemma keep_testmalloc [keep]: "keeps I (testmalloc kpt a)"
  unfolding testmalloc_def free_if_def by (intro keep)

lemma keep_fdlist_add_entry [keep]: "keeps I (fdlist_add_entry kpt fdl fd inode)"
  unfolding fdlist_add_entry_def by (intro keep)

lemma keep_for_all: "(\<And>x. keeps I (f x)) \<Longrightarrow> keeps I (for_all f xs)"
  by (induction xs) (simp_all add: keep_return keep_bind)

lemma keep_console_outs [keep]: "keeps I (console_outs cs)"
  by (induction cs) (simp_all only: console_outs.simps, (intro keep; assumption)+)

lemma keep_memshow_physical [keep]: "keeps I memshow_physical"
  unfolding memshow_physical_def memshow_physical_page_def by (intro keep keep_for_all)

lemma keep_memshow_virtual [keep]: "keeps I (memshow_virtual pt name)"
  unfolding memshow_virtual_def memshow_virtual_page_def by (intro keep keep_for_all)

lemma keep_memshow_virtual_animate [keep]: "keeps I memshow_virtual_animate"
  unfolding memshow_virtual_animate_def by (intro keep keep_put) simp_all

end

sublocale table_frame \<subseteq> kernel_fs: fs_callbacks "fsdesc cpu" I for cpu
  by unfold_locales (simp_all add: fsdesc_def kernel_read_disk_def kernel_write_disk_def fs_generate_random_def keep_hw keep_random_loop)

section \<open>The process table\<close>

text \<open>
  Registers with which a process continues in user mode: in the code segment of applications with privilege
  level 3, interruptible, and without access to the I/O ports.
\<close>

definition user_mode :: "x86_64_registers \<Rightarrow> bool" where
  "user_mode r \<longleftrightarrow> reg_cs r = ucast (SEGSEL_APP_CODE OR 3) \<and> reg_rflags r AND (EFLAGS_IF OR EFLAGS_IOPL_3) = EFLAGS_IF"

text \<open>
  Every descriptor has its index as process number and a terminated string as working directory. Process 0 never
  runs, waits or gets a parent. A process that runs or waits, or that has ever waited, has the registers of user mode.
\<close>

definition proc_ok :: "nat \<Rightarrow> proc \<Rightarrow> bool" where
  "proc_ok i p \<longleftrightarrow> p_pid p = of_nat i \<and> length (p_cwd p) = 256 \<and> 0 \<in> set (p_cwd p) \<and>
     (i = 0 \<longrightarrow> p_parent p = 0 \<and> p_state p \<in> {P_FREE, P_BROKEN}) \<and>
     (user_mode (p_registers p) \<or> p_wait_pid p = 0 \<and> p_state p \<in> {P_FREE, P_BROKEN})"

definition procs_ok :: "'d kernel \<Rightarrow> bool" where
  "procs_ok s \<longleftrightarrow> length (processes s) = NPROC \<and> (\<forall>i<NPROC. proc_ok i (processes s ! i))"

text \<open>
  In the kernel: process \<open>k\<close> has entered it, with registers of user mode, and \<open>current\<close> is process \<open>c\<close>, which is
  another one only while \<open>k\<close> is forked.
\<close>

definition trap_ok :: "nat \<Rightarrow> nat \<Rightarrow> 'd kernel \<Rightarrow> bool" where
  "trap_ok k c s \<longleftrightarrow> procs_ok s \<and> 0 < k \<and> k < NPROC \<and> user_mode (p_registers (processes s ! k)) \<and>
     current s = c \<and> 0 < c \<and> c < NPROC"

interpretation procs: table_frame procs_ok
  by unfold_locales (simp add: procs_ok_def)

interpretation tab: table_frame "trap_ok k c" for k c
  by unfold_locales (simp add: trap_ok_def procs_ok_def)

lemma trap_okD: "trap_ok k c s \<Longrightarrow> procs_ok s" "trap_ok k c s \<Longrightarrow> 0 < c \<and> c < NPROC" "trap_ok k c s \<Longrightarrow> current s = c"
  by (simp_all add: trap_ok_def)

lemma procs_ok_proc: "procs_ok s \<Longrightarrow> i < NPROC \<Longrightarrow> proc_ok i (processes s ! i)"
  by (simp add: procs_ok_def)

lemma upd_proc_procs_ok:
  assumes "procs_ok s" and "i < NPROC" and "proc_ok i (f (processes s ! i))"
  shows "procs_ok (upd_proc i f s)"
proof -
  have "proc_ok j ((processes s)[i := f (processes s ! i)] ! j)" if "j < NPROC" for j
    using assms(1,3) that by (cases "j = i") (auto simp: procs_ok_def)
  then show ?thesis using assms(1,2) by (simp add: procs_ok_def upd_proc_def)
qed

text \<open>An update of descriptor \<open>i\<close> that can rely on user mode when \<open>i\<close> is the process that has entered the kernel.\<close>

definition keeps_proc :: "nat \<Rightarrow> nat \<Rightarrow> (proc \<Rightarrow> proc) \<Rightarrow> bool" where
  "keeps_proc k i f \<longleftrightarrow> (\<forall>p. proc_ok i p \<longrightarrow> (i = k \<longrightarrow> 0 < k \<and> user_mode (p_registers p)) \<longrightarrow>
     proc_ok i (f p) \<and> (i = k \<longrightarrow> user_mode (p_registers (f p))))"

lemma upd_proc_ok:
  assumes "trap_ok k c s" and "i < NPROC" and "keeps_proc k i f"
  shows "trap_ok k c (upd_proc i f s)"
proof -
  have l: "length (processes s) = NPROC" and p: "proc_ok i (processes s ! i)"
    using assms(1,2) by (simp_all add: trap_ok_def procs_ok_def)
  have f: "proc_ok i (f (processes s ! i))" "i = k \<Longrightarrow> user_mode (p_registers (f (processes s ! i)))"
    using assms(1,3) p by (auto simp: keeps_proc_def trap_ok_def)
  have "procs_ok (upd_proc i f s)"
    using assms(1,2) f(1) by (intro upd_proc_procs_ok) (simp_all add: trap_ok_def)
  moreover have "user_mode (p_registers (processes (upd_proc i f s) ! k))"
    using assms(1,2) f(2) l by (cases "i = k") (simp_all add: upd_proc_def trap_ok_def)
  ultimately show ?thesis using assms(1) by (simp add: trap_ok_def) (simp add: upd_proc_def)
qed

lemma keep_set_current:
  assumes "keeps_proc k c f"
  shows "keeps (trap_ok k c) (set_current f)"
proof (rule preservesI)
  fix s :: "'a kernel" assume s: "trap_ok k c s"
  then have "trap_ok k c (upd_proc c f s)" using trap_okD(2) [OF s] by (intro upd_proc_ok assms) simp_all
  then show "post (trap_ok k c) (\<lambda>_. True) (set_current f s)" using s by (simp add: set_current_def k_put_def trap_okD)
qed

lemma keep_set_proc:
  assumes "unat pid < NPROC \<Longrightarrow> keeps_proc k (unat pid) f"
  shows "keeps (trap_ok k c) (set_proc pid f)"
  unfolding set_proc_def
proof (rule pres_bind [OF pres_assert], rule preservesI)
  fix s :: "'a kernel" assume "unat pid < NPROC" "trap_ok k c s"
  then have "trap_ok k c (upd_proc (unat pid) f s)" by (intro upd_proc_ok assms) simp_all
  then show "post (trap_ok k c) (\<lambda>_. True) (k_put (upd_proc (unat pid) f) s)" by (simp add: k_put_def)
qed

lemma pres_k_get: "(\<And>s. I s \<Longrightarrow> R (f s)) \<Longrightarrow> preserves I (k_get f) R"
  by (rule preservesI) (simp add: k_get_def)

lemma pres_get_current: "preserves (trap_ok k c) get_current (\<lambda>p. 0 < c \<and> c < NPROC \<and> proc_ok c p)"
  unfolding get_current_def by (rule pres_k_get) (simp add: trap_ok_def procs_ok_proc)

lemma keep_get_current [keep]: "keeps (trap_ok k c) get_current"
  by (rule pres_weaken [OF pres_get_current]) simp

lemma pres_get_proc: "preserves (trap_ok k c) (get_proc pid) (\<lambda>p. unat pid < NPROC \<and> proc_ok (unat pid) p)"
  unfolding get_proc_def
  by (rule pres_bind [OF pres_assert], rule pres_k_get) (simp add: trap_ok_def procs_ok_proc)

lemma keep_get_proc [keep]: "keeps (trap_ok k c) (get_proc pid)"
  by (rule pres_weaken [OF pres_get_proc]) simp

lemma proc_ok_cwd: "proc_ok i p \<Longrightarrow> length (p_cwd p) = 256"
  by (simp add: proc_ok_def)

lemma proc_ok_pid: "proc_ok i p \<Longrightarrow> i < NPROC \<Longrightarrow> unat (p_pid p) = i"
  by (simp add: proc_ok_def NPROC_def unat_of_nat)

lemma strcpy_result: "strcpy dst src = Some r \<Longrightarrow> length r = length dst \<and> 0 \<in> set r"
  by (induction dst src arbitrary: r rule: strcpy.induct) (auto split: if_splits)

lemma copy_to_buffer_result: "copy_to_buffer dst str = Some r \<Longrightarrow> length r = length dst \<and> 0 \<in> set r"
  by (induction dst str arbitrary: r rule: copy_to_buffer.induct) (auto split: if_splits)

section \<open>The handlers\<close>

lemma keeps_proc_registers:
  "(\<And>r. user_mode r \<Longrightarrow> user_mode (f r)) \<Longrightarrow> keeps_proc k i (\<lambda>p. p\<lparr>p_registers := f (p_registers p)\<rparr>)"
  by (auto simp: keeps_proc_def proc_ok_def)

lemma user_mode_upd [simp]:
  "user_mode (r\<lparr>reg_rax := v\<rparr>) = user_mode r" "user_mode (r\<lparr>reg_rip := v\<rparr>) = user_mode r"
  "user_mode (r\<lparr>reg_rsp := v\<rparr>) = user_mode r" "user_mode (r\<lparr>reg_rdi := v\<rparr>) = user_mode r"
  "user_mode (r\<lparr>reg_rsi := v\<rparr>) = user_mode r"
  by (simp_all add: user_mode_def)

lemma keep_set_rax [keep]: "keeps (trap_ok k c) (set_rax v)"
  unfolding set_rax_def by (rule keep_set_current) (simp add: keeps_proc_registers)

lemma keep_arg [keep]: "keeps (trap_ok k k) (arg r)"
  unfolding arg_def by (intro keep)

lemma keep_user_ptr [keep]: "keeps (trap_ok k k) (user_ptr r)"
  unfolding user_ptr_def by (intro keep)

lemma keep_user_path [keep]: "keeps (trap_ok k k) (user_path img)"
  unfolding user_path_def resolve_path_def by (intro keep)

lemmas fs_keep [keep] = tab.kernel_fs.fs_getattr tab.kernel_fs.fs_remove tab.kernel_fs.fs_read tab.kernel_fs.fs_write
  tab.kernel_fs.fs_touch tab.kernel_fs.fs_alloc_inode

lemma keep_fd_list [keep]: "keeps (trap_ok k k) (set_current (\<lambda>p. p\<lparr>fd_list := l\<rparr>))"
  "keeps (trap_ok k k) (set_current (\<lambda>p. p\<lparr>fd_max := fd_max p + 1\<rparr>))"
  by (rule keep_set_current; simp add: keeps_proc_def proc_ok_def)+

lemma keep_sys_hello: "keeps (trap_ok k k) (sys_hello cpu)"
  unfolding sys_hello_def kernel_read_disk_def kernel_write_disk_def by (intro keep)

lemma keep_sys_open: "keeps (trap_ok k k) (sys_open img cpu)"
  unfolding sys_open_def by (intro keep)

lemma keep_sys_remove: "keeps (trap_ok k k) (sys_remove img cpu)"
  unfolding sys_remove_def by (intro keep)

lemma keep_sys_read: "keeps (trap_ok k k) (sys_read cpu)"
  unfolding sys_read_def find_entry_def by (intro keep)

lemma keep_sys_write: "keeps (trap_ok k k) (sys_write cpu)"
  unfolding sys_write_def find_entry_def by (intro keep)

lemma keep_sys_mkdir: "keeps (trap_ok k k) (sys_mkdir img cpu)"
  unfolding sys_mkdir_def by (intro keep)

lemma keep_sys_touch: "keeps (trap_ok k k) (sys_touch img cpu)"
  unfolding sys_touch_def by (intro keep)

lemma keep_sys_getcwd: "keeps (trap_ok k k) sys_getcwd"
  unfolding sys_getcwd_def by (intro keep)

lemma keep_sys_page_alloc: "keeps (trap_ok k k) sys_page_alloc"
  unfolding sys_page_alloc_def out_of_memory_def by (intro keep)

lemma keep_page_fault: "keeps (trap_ok k k) (page_fault cpu reg)"
  unfolding page_fault_def by (intro keep keep_set_current) (simp add: keeps_proc_def proc_ok_def)

lemma pres_list_names:
  assumes "dr_fsdesc dr = fsdesc cpu"
  shows "keeps (trap_ok k k) (list_names n dr buffer)"
  using assms
proof (induction n arbitrary: dr buffer)
  case (Suc n)
  show ?case unfolding list_names.simps
    by (rule pres_bind [OF pres_try [OF tab.kernel_fs.fs_readdir_next [OF Suc.prems]]]) (auto intro!: keep Suc.IH split: sum.split)
qed (simp add: keep)

lemma keep_sys_listdir: "keeps (trap_ok k k) (sys_listdir img cpu)"
proof -
  have "keeps (trap_ok k k) (case r of Inl e \<Rightarrow> set_rax (of_int e)
     | Inr (children_count, dr) \<Rightarrow>
         if sint children_count < 0 then set_rax (scast children_count)
         else io_bind (list_names (nat (sint children_count)) dr buffer) (\<lambda>buffer.
              io_bind (k_write buffer 1 (\<lambda>m. m(buffer := 0))) (\<lambda>_. set_rax 0)))"
    if "\<forall>x. r = Inr x \<longrightarrow> (\<lambda>(_, dr). dr_fsdesc dr = fsdesc cpu) x" for r buffer
    using that by (intro keep pres_list_names [of _ cpu]) auto
  then show ?thesis unfolding sys_listdir_def
    by (intro keep_bind keep_user_path keep_user_ptr pres_bind [OF pres_try [OF tab.kernel_fs.fs_readdir_init]])
qed

lemma keeps_proc_cwd: "length cwd = 256 \<Longrightarrow> 0 \<in> set cwd \<Longrightarrow> keeps_proc k i (\<lambda>p. p\<lparr>p_cwd := cwd\<rparr>)"
  by (simp add: keeps_proc_def proc_ok_def)

lemma keep_sys_chdir: "keeps (trap_ok k k) (sys_chdir img cpu)"
proof -
  have "keeps_proc k k (\<lambda>p. p\<lparr>p_cwd := cwd\<rparr>)" if "copy_to_buffer (p_cwd p) path = Some cwd" "proc_ok k p" for p path cwd
    using that copy_to_buffer_result [OF that(1)] by (intro keeps_proc_cwd) (simp_all add: proc_ok_cwd)
  then have "keeps (trap_ok k k) (io_bind get_current (\<lambda>p. io_bind (io_some (copy_to_buffer (p_cwd p) path)) (\<lambda>cwd.
              io_bind (set_current (\<lambda>p. p\<lparr>p_cwd := cwd\<rparr>)) (\<lambda>_. set_rax 0))))" for path
    by (intro pres_bind [OF pres_get_current] pres_bind [OF pres_some] keep_bind keep_set_current keep_set_rax) blast
  then show ?thesis unfolding sys_chdir_def
    by (intro keep_bind [OF keep_user_path] keep_bind [OF keep_try] fs_keep pres_sum pres_if keep_set_rax)
qed

lemma sint_pos_unat: "1 \<le> sint w \<Longrightarrow> unat w \<noteq> 0" for w :: uint32
  by (metis sint_0 not_one_le_zero unsigned_eq_0_iff)

text \<open>A parent that waits for the process being killed has waited before, so it continues in user mode.\<close>

lemma keep_wake_parent:
  assumes "sint q \<ge> 1" and "0 < unat pid"
  shows "keeps (trap_ok k c) (io_bind (get_proc q) (\<lambda>parent.
          if p_wait_pid parent = pid
          then io_bind (k_write (p_wait_exit_code parent) 4 (f parent)) (\<lambda>_. set_proc q (\<lambda>q. q\<lparr>p_state := P_RUNNABLE\<rparr>))
          else io_return ()))"
proof (rule preservesI)
  fix s :: "'a kernel" assume s: "trap_ok k c s"
  let ?p = "processes s ! unat q" and ?wake = "\<lambda>p. p\<lparr>p_state := P_RUNNABLE\<rparr>"
  have woken: "trap_ok k c (upd_proc (unat q) ?wake (s\<lparr>ph := h\<rparr>))" if "unat q < NPROC" "p_wait_pid ?p = pid" for h
  proof -
    have p: "proc_ok (unat q) ?p" using s that(1) by (simp add: trap_ok_def procs_ok_proc)
    have "pid \<noteq> 0" "unat q \<noteq> 0" using assms sint_pos_unat by auto
    then have "procs_ok (upd_proc (unat q) ?wake (s\<lparr>ph := h\<rparr>))"
      using s p that by (intro upd_proc_procs_ok) (auto simp: trap_ok_def procs_ok_def proc_ok_def)
    moreover have "user_mode (p_registers (processes (upd_proc (unat q) ?wake (s\<lparr>ph := h\<rparr>)) ! k))"
      using s by (cases "unat q = k") (simp_all add: upd_proc_def trap_ok_def procs_ok_def)
    ultimately show ?thesis using s by (simp add: trap_ok_def) (simp add: upd_proc_def)
  qed
  show "post (trap_ok k c) (\<lambda>_. True) (io_bind (get_proc q) (\<lambda>parent.
          if p_wait_pid parent = pid
          then io_bind (k_write (p_wait_exit_code parent) 4 (f parent)) (\<lambda>_. set_proc q ?wake)
          else io_return ()) s)"
    using s woken by (simp add: io_bind_def get_proc_def k_get_def k_write_def k_store_def k_put_def set_proc_def
        io_return_def)
qed

lemma keep_process_kill [keep]: "keeps (trap_ok k c) (process_kill pid)"
proof -
  have kill: "keeps_proc k i (\<lambda>p. p\<lparr>p_state := P_BROKEN\<rparr>)" for i by (auto simp: keeps_proc_def proc_ok_def)
  have "keeps (trap_ok k c) (if sint (p_parent p) \<ge> 1
     then io_bind (get_proc (p_parent p)) (\<lambda>parent.
          if p_wait_pid parent = pid
          then io_bind (k_write (p_wait_exit_code parent) 4 (store32 (p_wait_exit_code parent) (p_exit_code p))) (\<lambda>_.
               set_proc (p_parent p) (\<lambda>q. q\<lparr>p_state := P_RUNNABLE\<rparr>))
          else io_return ())
     else io_return ())" if "proc_ok (unat pid) p" for p
    using that by (intro pres_if keep_wake_parent keep_return) (auto simp: proc_ok_def intro: gr0I)
  then show ?thesis unfolding process_kill_def release_pages_def
    by (intro keep_bind [OF keep_set_proc [OF kill]] keep_bind [OF tab.keep_ph_opt] pres_bind [OF pres_get_proc]) blast
qed

lemma keep_exit_with [keep]: "keeps (trap_ok k k) (exit_with code)"
  unfolding exit_with_def by (intro keep keep_set_current) (simp add: keeps_proc_def proc_ok_def)

lemma keep_sys_wait: "keeps (trap_ok k k) sys_wait"
  unfolding sys_wait_def by (intro keep keep_set_current) (auto simp: keeps_proc_def proc_ok_def)

lemma keep_sys_forget: "keeps (trap_ok k k) sys_forget"
  unfolding sys_forget_def by (intro keep keep_set_proc) (auto simp: keeps_proc_def proc_ok_def)

subsection \<open>New address spaces\<close>

lemma keep_pagetable_alloc [keep]: "keeps (trap_ok k c) pagetable_alloc"
  unfolding pagetable_alloc_def by (intro keep)

lemma keep_map_for_current [keep]: "keeps (trap_ok k c) (map_for_current pt va pa sz perm)"
  unfolding map_for_current_def by (intro keep)

lemma keep_fork_page [keep]: "keeps (trap_ok k c) (fork_page parent pid pt va)"
  unfolding fork_page_def by (intro keep)

lemma free_slot_range: "free_slot ps = Some i \<Longrightarrow> 0 < i \<and> i < NPROC"
  unfolding free_slot_def by (auto simp: find_Some_iff simp del: upt_Suc)

text \<open>The end of \<open>INT_SYS_FORK\<close>, from the copy of the working directory on.\<close>

lemma keep_fork_tail:
  "keeps (trap_ok k c) (io_bind (k_get (\<lambda>s. processes s ! k)) (\<lambda>par.
     io_bind get_current (\<lambda>child.
     io_bind (io_some (strcpy (p_cwd child) (p_cwd par))) (\<lambda>cwd.
     set_current (\<lambda>p. p\<lparr>p_parent := p_pid par, p_pagetable := pt, p_registers := (p_registers par)\<lparr>reg_rax := 0\<rparr>,
       p_state := P_RUNNABLE, p_wait_pid := - 1, p_cwd := cwd\<rparr>)))))"
proof (rule pres_bind)
  show "preserves (trap_ok k c) (k_get (\<lambda>s. processes s ! k)) (\<lambda>p. user_mode (p_registers p))"
    by (rule pres_k_get) (simp add: trap_ok_def)
next
  fix par assume par: "user_mode (p_registers par)"
  have "keeps_proc k c (\<lambda>p. p\<lparr>p_parent := p_pid par, p_pagetable := pt, p_registers := (p_registers par)\<lparr>reg_rax := 0\<rparr>,
       p_state := P_RUNNABLE, p_wait_pid := - 1, p_cwd := cwd\<rparr>)"
    if "strcpy (p_cwd child) (p_cwd par) = Some cwd" "0 < c \<and> c < NPROC \<and> proc_ok c child" for child cwd
    using par that strcpy_result [OF that(1)] by (simp add: keeps_proc_def proc_ok_def)
  then show "keeps (trap_ok k c) (io_bind get_current (\<lambda>child.
     io_bind (io_some (strcpy (p_cwd child) (p_cwd par))) (\<lambda>cwd.
     set_current (\<lambda>p. p\<lparr>p_parent := p_pid par, p_pagetable := pt, p_registers := (p_registers par)\<lparr>reg_rax := 0\<rparr>,
       p_state := P_RUNNABLE, p_wait_pid := - 1, p_cwd := cwd\<rparr>))))"
    by (intro pres_bind [OF pres_get_current] pres_bind [OF pres_some] keep_set_current) blast
qed

lemma leads_current: "0 < d \<Longrightarrow> d < NPROC \<Longrightarrow> leads (trap_ok k c) (k_put (\<lambda>s. s\<lparr>current := d\<rparr>)) (trap_ok k d) (\<lambda>_. True)"
  by (rule leadsI) (auto simp: k_put_def trap_ok_def procs_ok_def)

lemma pres_fork_slot:
  "preserves (trap_ok k k) (k_get (\<lambda>s. (free_slot (processes s), current s)))
     (\<lambda>x. snd x = k \<and> 0 < k \<and> k < NPROC \<and> (\<forall>pid. fst x = Some pid \<longrightarrow> 0 < pid \<and> pid < NPROC))"
  by (rule pres_k_get) (simp add: trap_ok_def free_slot_range)

lemma leads_fork_child:
  assumes "0 < pid" and "pid < NPROC" and "0 < k" and "k < NPROC"
  shows "leads (trap_ok k k) (io_bind (k_put (\<lambda>s. s\<lparr>current := pid\<rparr>)) (\<lambda>_.
         io_bind pagetable_alloc (\<lambda>pagetable.
         if pagetable = 0
         then io_bind (k_put (\<lambda>s. s\<lparr>current := k\<rparr>)) (\<lambda>_. set_rax (- 1))
         else
           io_bind (for_all (fork_page k (of_nat pid) pagetable) fork_pages) (\<lambda>_.
           io_bind (k_get (\<lambda>s. processes s ! k)) (\<lambda>par.
           io_bind get_current (\<lambda>child.
           io_bind (io_some (strcpy (p_cwd child) (p_cwd par))) (\<lambda>cwd.
           io_bind (set_current (\<lambda>p. p\<lparr>p_parent := p_pid par, p_pagetable := pagetable,
                      p_registers := (p_registers par)\<lparr>reg_rax := 0\<rparr>, p_state := P_RUNNABLE, p_wait_pid := - 1,
                      p_cwd := cwd\<rparr>)) (\<lambda>_.
           io_bind (k_put (\<lambda>s. s\<lparr>current := k\<rparr>)) (\<lambda>_.
           set_rax (of_nat pid)))))))))) (trap_ok k k) (\<lambda>_. True)"
proof -
  have resume: "leads (trap_ok k pid) (io_bind (k_put (\<lambda>s. s\<lparr>current := k\<rparr>)) (\<lambda>_. set_rax v)) (trap_ok k k) (\<lambda>_. True)" for v
    by (rule leads_bind [OF leads_current]) (use assms in \<open>simp_all add: leads_preserves keep_set_rax\<close>)
  show ?thesis
    by (rule leads_bind [OF leads_current [OF assms(1,2)]], rule leads_keep_bind [OF keep_pagetable_alloc], rule leads_if,
        rule resume, rule leads_keep_bind [OF tab.keep_for_all [OF keep_fork_page]])
      (rule leads_keep_bind [OF keep_fork_tail resume, unfolded io_bind_assoc])
qed

lemma leads_sys_fork: "leads (trap_ok k k) sys_fork (trap_ok k k) (\<lambda>_. True)"
  unfolding sys_fork_def
proof (rule leads_bind [OF leads_preserves [OF pres_fork_slot]], goal_cases)
  case (1 x)
  then show ?case
    by (cases x, cases "fst x") (use leads_preserves [OF keep_set_rax] in \<open>simp_all add: leads_fork_child\<close>)
qed

lemma keep_set_registers [keep]: "keeps (trap_ok k c) (set_proc pid (\<lambda>p. p\<lparr>p_registers := (p_registers p)\<lparr>reg_rip := a\<rparr>\<rparr>))"
  "keeps (trap_ok k c) (set_proc pid (\<lambda>p. p\<lparr>p_registers := (p_registers p)\<lparr>reg_rsp := a\<rparr>\<rparr>))"
  "keeps (trap_ok k c) (set_proc pid (\<lambda>p. p\<lparr>p_pagetable := pt\<rparr>))"
  by (rule keep_set_proc; simp add: keeps_proc_def proc_ok_def)+

lemma keep_program_load_segment [keep]: "keeps (trap_ok k k) (program_load_segment img pid eph src alc)"
  unfolding program_load_segment_def by (intro keep)

lemma keep_load_segments [keep]: "keeps (trap_ok k k) (load_segments n img pid eh pha alc)"
  by (induction n arbitrary: pha) (simp_all only: load_segments.simps, (intro keep; assumption?)+)

lemma keep_program_load [keep]: "keeps (trap_ok k k) (program_load img pid n alc)"
  unfolding program_load_def by (intro keep)

lemma keep_map_kernel [keep]: "keeps (trap_ok k k) (map_kernel img pt)"
  unfolding map_kernel_def by (intro keep)

subsection \<open>Setting up a process\<close>

lemma user_mode_process_init: "user_mode (p_registers (process_init p 0))"
  by (simp add: user_mode_def process_init_def zero_registers_def EFLAGS_IF_def EFLAGS_IOPL_3_def
      PROCINIT_ALLOW_PROGRAMMED_IO_def PROCINIT_DISABLE_INTERRUPTS_def)

text \<open>\<open>process_setup\<close> makes the process current and gives it registers of user mode, from any table in order.\<close>

lemma leads_process_start:
  assumes "0 < unat pid"
  shows "leads procs_ok (io_bind (set_proc pid (\<lambda>p. process_init p 0)) (\<lambda>_. k_put (\<lambda>s. s\<lparr>current := unat pid\<rparr>)))
    (trap_ok (unat pid) (unat pid)) (\<lambda>_. True)"
proof (rule leadsI)
  fix s :: "'a kernel" and x s'
  assume s: "procs_ok s"
    and run: "io_bind (set_proc pid (\<lambda>p. process_init p 0)) (\<lambda>_. k_put (\<lambda>s. s\<lparr>current := unat pid\<rparr>)) s = (Ok x, s')"
  note u = user_mode_process_init
  have pid: "unat pid < NPROC" and s': "s' = (upd_proc (unat pid) (\<lambda>p. process_init p 0) s)\<lparr>current := unat pid\<rparr>"
    using run by (auto simp: set_proc_def io_bind_def k_put_def split: if_splits)
  have "proc_ok (unat pid) (process_init (processes s ! unat pid) 0)"
    using procs_ok_proc [OF s pid] u [of "processes s ! unat pid"] assms by (simp add: proc_ok_def process_init_def Let_def)
  then have "procs_ok (upd_proc (unat pid) (\<lambda>p. process_init p 0) s)" using s pid by (intro upd_proc_procs_ok)
  then show "trap_ok (unat pid) (unat pid) s' \<and> True"
    using s pid assms u by (simp add: trap_ok_def s') (simp add: upd_proc_def procs_ok_def)
qed

lemma keep_setup_tail:
  assumes "0 < unat pid"
  shows "keeps (trap_ok (unat pid) c) (io_bind (get_proc pid) (\<lambda>p.
     io_bind (io_some (strcpy (p_cwd p) src)) (\<lambda>cwd.
     set_proc pid (\<lambda>p. p\<lparr>p_parent := parent, p_state := P_RUNNABLE, p_wait_pid := - 1, fd_max := 0,
                         fd_list := 0, p_cwd := cwd\<rparr>))))"
proof (intro pres_bind [OF pres_get_proc] pres_bind [OF pres_some] keep_set_proc)
  fix p cwd assume p: "unat pid < NPROC \<and> proc_ok (unat pid) p" and cwd: "strcpy (p_cwd p) src = Some cwd"
  show "keeps_proc (unat pid) (unat pid) (\<lambda>p. p\<lparr>p_parent := parent, p_state := P_RUNNABLE, p_wait_pid := - 1, fd_max := 0,
                         fd_list := 0, p_cwd := cwd\<rparr>)"
    using p strcpy_result [OF cwd] assms by (simp add: keeps_proc_def proc_ok_def)
qed

lemma leads_process_setup:
  assumes "0 < unat pid"
  shows "leads procs_ok (process_setup img pid n parent) (trap_ok (unat pid) (unat pid)) (\<lambda>_. True)"
  unfolding process_setup_def
  by (rule leads_bind [OF leads_process_start [OF assms] leads_preserves, unfolded io_bind_assoc])
    (rule keep_setup_tail [OF assms] | rule keep)+

subsection \<open>Replacing the program\<close>

lemma leads_exec_program: "leads (trap_ok k k) (exec_program img n) (trap_ok k k) (\<lambda>_. True)"
proof -
  have regs: "keeps_proc k k (\<lambda>p. p\<lparr>p_registers := (p_registers p)\<lparr>reg_rdi := a, reg_rsi := b\<rparr>\<rparr>)" for a b
    by (rule keeps_proc_registers) simp
  have replaced: "leads (trap_ok k k) (io_bind (process_setup img (p_pid p) n parent) f) (trap_ok k k) (\<lambda>_. True)"
    if p: "0 < k \<and> k < NPROC \<and> proc_ok k p" and f: "\<And>x. keeps (trap_ok k k) (f x)" for p parent f
  proof -
    have "unat (p_pid p) = k" using p proc_ok_pid by blast
    then have "leads (trap_ok k k) (process_setup img (p_pid p) n parent) (trap_ok k k) (\<lambda>_. True)"
      using leads_process_setup [of "p_pid p" img n parent] p
      by (intro leads_weaken [OF leads_process_setup]) (simp_all add: trap_okD(1))
    then show ?thesis by (rule leads_bind) (rule leads_preserves [OF f])
  qed
  show ?thesis
    unfolding exec_program_def out_of_memory_def clear_pages_def
    by (rule leads_bind [OF leads_preserves [OF pres_get_current]] replaced leads_if keep_set_current [OF regs]
        leads_keep_bind leads_preserves | assumption | rule keep)+
qed

lemma keep_shell_command: "keeps (trap_ok k k) (shell_command img c)"
  unfolding shell_command_def exec_testmalloc_def by (intro keep tab.keep_put) simp_all

lemma leads_sys_execv: "leads (trap_ok k k) (sys_execv img) (trap_ok k k) (\<lambda>_. True)"
  unfolding sys_execv_def Let_def
  by (rule leads_exec_program leads_option leads_keep_bind leads_preserves keep_shell_command | rule keep)+

section \<open>The exception handler\<close>

lemma leads_handle: "leads (trap_ok k k) (handle img cpu reg) (trap_ok k k) (\<lambda>_. True)"
  unfolding handle_def Let_def sys_exit_def sys_kill_def
  by (intro leads_if leads_sys_fork leads_sys_execv leads_preserves keep keep_sys_hello keep_sys_open keep_sys_remove
      keep_sys_read keep_sys_write keep_sys_mkdir keep_sys_touch keep_sys_listdir keep_sys_wait keep_sys_forget
      keep_sys_getcwd keep_sys_chdir keep_page_fault keep_sys_page_alloc)

lemma leads_save_registers:
  assumes "user_mode reg"
  shows "leads (\<lambda>s. procs_ok s \<and> current s = k \<and> 0 < k \<and> k < NPROC) (set_current (\<lambda>p. p\<lparr>p_registers := reg\<rparr>))
    (trap_ok k k) (\<lambda>_. True)"
proof (rule leadsI)
  fix s :: "'a kernel" and x s'
  assume s: "procs_ok s \<and> current s = k \<and> 0 < k \<and> k < NPROC" and run: "set_current (\<lambda>p. p\<lparr>p_registers := reg\<rparr>) s = (Ok x, s')"
  have "procs_ok (upd_proc k (\<lambda>p. p\<lparr>p_registers := reg\<rparr>) s)"
    using s assms procs_ok_proc [of s k] by (intro upd_proc_procs_ok) (auto simp: proc_ok_def)
  moreover have "s' = upd_proc k (\<lambda>p. p\<lparr>p_registers := reg\<rparr>) s" using s run by (auto simp: set_current_def k_put_def)
  ultimately show "trap_ok k k s' \<and> True"
    using s assms by (simp add: trap_ok_def) (simp add: upd_proc_def procs_ok_def)
qed

lemma leads_enter_kernel:
  "user_mode reg \<Longrightarrow> leads (\<lambda>s. procs_ok s \<and> current s = k \<and> 0 < k \<and> k < NPROC) (enter_kernel img cpu reg) (trap_ok k k) (\<lambda>_. True)"
  unfolding enter_kernel_def by (rule leads_bind [OF leads_save_registers]) (assumption, intro leads_preserves keep)

section \<open>The state machine\<close>

text \<open>
  A process runs: the table is in order, and the processor executes the current process, which is
  runnable, on its page table.
\<close>

definition running_ok :: "'d kernel \<Rightarrow> bool" where
  "running_ok s \<longleftrightarrow> procs_ok s \<and> 0 < current s \<and> current s < NPROC \<and> p_state (current_proc s) = P_RUNNABLE \<and>
     cr3 s = p_pagetable (current_proc s) \<and> user_mode (p_registers (current_proc s))"

lemma run_running:
  assumes "procs_ok s" and "i < NPROC" and "run img i s = (Ok x, s')"
  shows "running_ok s'"
proof -
  have st: "p_state (processes s ! i) = P_RUNNABLE" and s': "s' = s\<lparr>current := i, cr3 := p_pagetable (processes s ! i)\<rparr>"
    using assms(3) by (auto simp: run_def k_get_def k_put_def k_mem_def set_pagetable_def io_bind_def split: if_splits)
  have "i \<noteq> 0" "user_mode (p_registers (processes s ! i))"
    using procs_ok_proc [OF assms(1,2)] st by (cases i; auto simp: proc_ok_def)+
  then show ?thesis using assms(1,2) st by (simp add: running_ok_def s' procs_ok_def)
qed

lemma schedule_loop_running:
  assumes "schedule_loop img cpu pid s = Some y" and "procs_ok s" and "fst y = Ok x"
  shows "running_ok (snd y)"
  using assms
proof (induction rule: schedule_loop.raw_induct [rotated 1, consumes 1, case_names loop])
  case (loop f img cpu pid s y)
  show ?case
  proof (cases "p_state (processes s ! ((pid + 1) mod NPROC)) = P_RUNNABLE")
    case True
    then have "run img ((pid + 1) mod NPROC) s = (Ok x, snd y)" using loop.hyps loop.prems(2) by (cases y) (auto simp: Let_def)
    then show ?thesis using loop.prems by (intro run_running) (simp_all add: NPROC_def)
  next
    case False
    obtain r s1 where r: "check_keyboard_push cpu s = (r, s1)" by force
    obtain z where c: "check_keyboard_push cpu s = (Ok z, s1)" and f: "f img cpu ((pid + 1) mod NPROC) s1 = Some y"
      using False loop.hyps loop.prems(2) by (cases r; cases y) (auto simp: r Let_def)
    then have "procs_ok s1" using preservesD [OF procs.keep_check_keyboard_push loop.prems(1) c] by simp
    then show ?thesis using loop.IH f loop.prems(2) by blast
  qed
qed

lemma leads_schedule: "leads procs_ok (schedule img cpu) running_ok (\<lambda>_. True)"
proof (rule leadsI)
  fix s x s' assume "procs_ok s" "schedule img cpu s = (Ok x, s')"
  then show "running_ok s' \<and> True"
    using schedule_loop_running [of img cpu "unat (p_pid (current_proc s))" s "(Ok x, s')" x]
    by (simp add: schedule_def split: option.splits)
qed

lemma leads_leave_kernel: "leads (trap_ok k k) (leave_kernel img cpu) running_ok (\<lambda>_. True)"
proof (rule leadsI)
  fix s x s' assume "trap_ok k k s" "leave_kernel img cpu s = (Ok x, s')"
  then show "running_ok s' \<and> True"
    using leadsD [OF leads_schedule, of s img cpu x s'] run_running [of s k img x s']
    by (auto simp: leave_kernel_def io_bind_def k_get_def trap_ok_def split: if_splits)
qed

text \<open>An exception of a process in user mode returns to a process in user mode.\<close>

lemma exception_running:
  assumes "running_ok s" and "user_mode reg" and "exception img cpu reg s = (Ok x, s')"
  shows "running_ok s'"
proof -
  let ?k = "current s"
  have timer: "keeps (trap_ok ?k ?k) (k_put (\<lambda>s. s\<lparr>ticks := ticks s + 1\<rparr>))" by (rule tab.keep_put) simp_all
  have sched: "leads (trap_ok ?k ?k) (schedule img cpu) running_ok (\<lambda>_. True)"
    by (rule leads_weaken [OF leads_schedule]) (simp_all add: trap_okD(1))
  have "leads (\<lambda>s. procs_ok s \<and> current s = ?k \<and> 0 < ?k \<and> ?k < NPROC) (exception img cpu reg) running_ok (\<lambda>_. True)"
    unfolding exception_def
    by (rule leads_bind [OF leads_enter_kernel [OF assms(2)]])
      (intro leads_if leads_keep_bind [OF timer] sched leads_bind [OF leads_handle leads_leave_kernel])
  from leadsD [OF this _ assms(3)] show ?thesis using assms(1) by (simp add: running_ok_def)
qed

text \<open>The kernel starts the shell as process 1.\<close>

lemma initial_processes_ok: "procs_ok (s\<lparr>processes := initial_processes\<rparr>)"
proof -
  have "proc_ok i (initial_processes ! i)" if "i < NPROC" for i
    using that by (cases "i = 0") (auto simp: initial_processes_def proc_ok_def zero_proc_def NPROC_def nth_list_update)
  then show ?thesis by (simp add: procs_ok_def) (simp add: initial_processes_def)
qed

lemma kernel_start_running:
  assumes "kernel_start img cpu s = (Ok x, s')"
  shows "running_ok s'"
proof -
  have init: "leads (\<lambda>_. True) (k_put (\<lambda>s. s\<lparr>processes := initial_processes\<rparr>)) procs_ok (\<lambda>_. True)"
    using initial_processes_ok by (auto simp: leads_def k_put_def)
  have run: "leads (trap_ok 1 1) (run img 1) running_ok (\<lambda>_. True)"
    by (rule leadsI) (metis run_running trap_okD(1,2))
  have setup5: "leads procs_ok (process_setup img 5 2 0) procs_ok (\<lambda>_. True)"
    by (rule leads_weaken [OF leads_process_setup]) (simp_all add: trap_okD(1))
  have setup1: "leads procs_ok (process_setup img 1 1 0) (trap_ok 1 1) (\<lambda>_. True)"
    using leads_process_setup [of 1 img 1 0] by simp
  have "leads (\<lambda>_. True) (kernel_start img cpu) running_ok (\<lambda>_. True)"
    unfolding kernel_start_def
    by (rule leads_bind [OF init] leads_bind [OF setup5] leads_bind [OF setup1] run | rule leads_bind [OF leads_any])+
  from leadsD [OF this _ assms] show ?thesis by simp
qed

text \<open>
  The steps of the running system. The current process writes a byte that its page table maps writable for user mode;
  a device changes its state; or the process enters the kernel, by an interrupt, a fault or a system call
  with any registers of user mode, and the kernel returns to a process.
\<close>

inductive kernel_step :: "image \<Rightarrow> 'd cpu \<Rightarrow> 'd kernel \<Rightarrow> 'd kernel \<Rightarrow> bool" for img cpu where
  user_write: "vam = virtual_memory_lookup (p_mem (ph s)) (cr3 s) va \<Longrightarrow> vam_perm vam AND PTE_USER = PTE_USER \<Longrightarrow>
    kernel_step img cpu s (s\<lparr>ph := (ph s)\<lparr>p_mem := (p_mem (ph s))(vam_pa vam := b)\<rparr>\<rparr>)"
| device: "kernel_step img cpu s (s\<lparr>hw := d\<rparr>)"
| trap: "user_mode reg \<Longrightarrow> exception img cpu reg s = (Ok (), s') \<Longrightarrow> kernel_step img cpu s s'"

inductive_cases kernel_stepE: "kernel_step img cpu s s'"

lemma running_ok_step: "kernel_step img cpu s s' \<Longrightarrow> running_ok s \<Longrightarrow> running_ok s'"
proof (erule kernel_stepE, goal_cases)
  case (3 reg)
  then show ?case using exception_running by blast
qed (simp_all add: running_ok_def procs_ok_def)

lemma proc_ok_runs: "proc_ok i p \<Longrightarrow> p_state p \<in> {P_RUNNABLE, P_BLOCKED} \<Longrightarrow> 0 < i \<and> p_pid p = of_nat i \<and> user_mode (p_registers p)"
  by (cases "i = 0") (auto simp: proc_ok_def)


definition witness_state :: "nat kernel" where
  "witness_state = (upd_proc 1 (\<lambda>p. (process_init p 0)\<lparr>p_state := P_RUNNABLE, p_pagetable := 0x1000\<rparr>)
     ((idle_kernel 0)\<lparr>processes := initial_processes\<rparr>))\<lparr>current := 1, cr3 := 0x1000\<rparr>"

lemma witness_state_running: "running_ok witness_state"
proof -
  let ?f = "\<lambda>p. (process_init p 0)\<lparr>p_state := P_RUNNABLE, p_pagetable := 0x1000\<rparr>" and ?s = "(idle_kernel (0::nat))\<lparr>processes := initial_processes\<rparr>"
  have l: "length initial_processes = NPROC" by (simp add: initial_processes_def)
  have "proc_ok 1 (initial_processes ! 1)" using procs_ok_proc [OF initial_processes_ok, of 1] by (simp add: NPROC_def)
  then have "proc_ok 1 (?f (initial_processes ! 1))"
    using user_mode_process_init [of "initial_processes ! 1"] by (simp add: proc_ok_def) (simp add: process_init_def Let_def)
  then have "procs_ok (upd_proc 1 ?f ?s)" by (intro upd_proc_procs_ok initial_processes_ok) (simp_all add: NPROC_def)
  then show ?thesis
    using user_mode_process_init [of "initial_processes ! 1"] l
    by (simp add: running_ok_def witness_state_def procs_ok_def) (simp add: upd_proc_def NPROC_def)
qed


end
