(* ===== verification/Kernel_Heap_Correct.thy ===== *)
theory Kernel_Heap_Correct
  imports Kernel_Heap
begin

unbundle bit_operations_syntax

text \<open>
  Correctness of the kernel heap: the free list as a list of disjoint blocks inside the heap's
  pages, and what \<open>kernel_malloc\<close> and \<open>kernel_free\<close> do to the set of allocated bytes.
\<close>

section \<open>Headers\<close>

lemma word8_split:
  fixes b :: addr
  assumes "unat b + 16 \<le> 2 ^ 64"
  shows "unat (b + 8) = unat b + 8"
  using assms by (simp add: unat_word_ariths)

lemma header_parts_disjoint: "unat b + 16 \<le> 2 ^ 64 \<Longrightarrow> rgn b 8 \<inter> rgn (b + 8) 8 = {}"
  by (rule rgn_disjointI) (simp_all add: word8_split)

lemma header_same [simp]:
  assumes "unat b + 16 \<le> 2 ^ 64"
  shows "block_size (set_size b v m) b = v" "block_next (set_size b v m) b = block_next m b"
    "block_next (set_next b v m) b = v" "block_size (set_next b v m) b = block_size m b"
  using header_parts_disjoint [OF assms]
  by (auto simp: block_size_def block_next_def set_size_def set_next_def load64_store64_disjoint Int_commute)

lemma header_outside:
  assumes "unat b + 16 \<le> 2 ^ 64" and "unat x \<notin> {unat b..<unat b + 16}"
  shows "set_size b v m x = m x" "set_next b v m x = m x"
  using assms
  by (auto simp: set_size_def set_next_def store64_apply_outside rgn_nat word8_split)

lemma header_cong:
  assumes "unat b + 16 \<le> 2 ^ 64" and "\<And>x. unat x \<in> {unat b..<unat b + 16} \<Longrightarrow> m x = m' x"
  shows "block_size m b = block_size m' b" "block_next m b = block_next m' b"
proof -
  show "block_size m b = block_size m' b"
    unfolding block_size_def by (rule load64_cong) (use assms in \<open>auto simp: rgn_nat\<close>)
  show "block_next m b = block_next m' b"
    unfolding block_next_def by (rule load64_cong) (use assms in \<open>auto simp: rgn_nat word8_split\<close>)
qed

lemma memset_nat_outside:
  assumes "unat a + n \<le> 2 ^ 64" and "unat x \<notin> {unat a..<unat a + n}"
  shows "memset a c n m x = m x"
  using assms by (intro memset_outside) (auto simp: rgn_nat)

lemma memset_inside:
  assumes "unat a + n \<le> 2 ^ 64" and "unat x \<in> {unat a..<unat a + n}"
  shows "memset a c n m x = ucast c"
proof -
  have "x \<in> rgn a n" using assms by (simp add: rgn_nat)
  moreover have "unat (x - a) < n" using \<open>x \<in> rgn a n\<close> by (simp add: rgn_def)
  ultimately show ?thesis using assms by (simp add: memset_eq_store store_bytes_apply)
qed

section \<open>The free list\<close>

definition extent :: "mem \<Rightarrow> addr \<Rightarrow> nat set" where
  "extent m b = {unat b..<unat b + 16 + unat (block_size m b)}"

primrec chain :: "mem \<Rightarrow> addr \<Rightarrow> addr list \<Rightarrow> bool" where
  "chain m a [] = (a = 0)"
| "chain m a (b # bs) = (a = b \<and> b \<noteq> 0 \<and> chain m (block_next m b) bs)"

definition free_bytes :: "mem \<Rightarrow> addr list \<Rightarrow> nat set" where
  "free_bytes m bs = (\<Union>b\<in>set bs. extent m b)"

text \<open>Blocks at aligned addresses, pairwise disjoint, inside \<open>S\<close>.\<close>

definition blocks_ok :: "mem \<Rightarrow> addr list \<Rightarrow> nat set \<Rightarrow> bool" where
  "blocks_ok m bs S \<longleftrightarrow> distinct bs \<and> S \<subseteq> {1..<0x200000} \<and>
     (\<forall>b\<in>set bs. unat b mod 16 = 0 \<and> extent m b \<subseteq> S) \<and>
     (\<forall>b\<in>set bs. \<forall>b'\<in>set bs. b \<noteq> b' \<longrightarrow> extent m b \<inter> extent m b' = {})"

lemma free_bytes_simps [simp]:
  "free_bytes m [] = {}" "free_bytes m (b # bs) = extent m b \<union> free_bytes m bs"
  "free_bytes m (bs @ cs) = free_bytes m bs \<union> free_bytes m cs"
  by (auto simp: free_bytes_def)

lemma extent_header: "{unat b..<unat b + 16} \<subseteq> extent m b"
  by (auto simp: extent_def)

lemma block_bounds:
  assumes "blocks_ok m bs S" and "b \<in> set bs"
  shows "unat b \<noteq> 0" "unat b + 16 + unat (block_size m b) \<le> 0x200000" "unat b + 16 \<le> 2 ^ 64" "unat b mod 16 = 0" "extent m b \<subseteq> S"
proof -
  have e: "extent m b \<subseteq> {1..<0x200000}" "extent m b \<subseteq> S" "unat b mod 16 = 0" using assms by (auto simp: blocks_ok_def)
  have "unat b \<in> extent m b" "unat b + 15 + unat (block_size m b) \<in> extent m b" by (auto simp: extent_def)
  then have "unat b \<noteq> 0 \<and> unat b + 15 + unat (block_size m b) < 0x200000" using e(1) by auto
  then show "unat b \<noteq> 0" "unat b + 16 + unat (block_size m b) \<le> 0x200000" "unat b + 16 \<le> 2 ^ 64" "unat b mod 16 = 0" "extent m b \<subseteq> S"
    using e by auto
qed

lemma blocks_ok_disjoint:
  "blocks_ok m bs S \<Longrightarrow> b \<in> set bs \<Longrightarrow> b' \<in> set bs \<Longrightarrow> b \<noteq> b' \<Longrightarrow> extent m b \<inter> extent m b' = {}"
  by (simp add: blocks_ok_def)

text \<open>Blocks whose headers are not written keep their size and successor.\<close>

lemma blocks_same:
  assumes "blocks_ok m bs S" and "b \<in> set bs" and "\<And>x. unat x \<in> extent m b \<Longrightarrow> m' x = m x"
  shows "block_size m' b = block_size m b" "block_next m' b = block_next m b" "extent m' b = extent m b"
proof -
  note h = header_cong [OF block_bounds(3) [OF assms(1,2)], of m' m]
  show s: "block_size m' b = block_size m b" "block_next m' b = block_next m b"
    using h assms(3) extent_header [of b m] by blast+
  then show "extent m' b = extent m b" by (simp add: extent_def)
qed

lemma chain_cong:
  "(\<And>b. b \<in> set bs \<Longrightarrow> block_next m' b = block_next m b) \<Longrightarrow> chain m' a bs = chain m a bs"
  by (induction bs arbitrary: a) auto

lemma chain_split: "chain m a (xs @ b # ys) \<Longrightarrow> chain m b (b # ys)"
  by (induction xs arbitrary: a) auto

text \<open>The search walks the list and stops at the first block that is large enough.\<close>

lemma find_block_spec:
  assumes "chain m a bs"
  shows "find_block m need prev a = Some (
    case find (\<lambda>b. block_size m b \<ge> need) bs of
      None \<Rightarrow> None
    | Some b \<Rightarrow> Some (if takeWhile (\<lambda>b. \<not> block_size m b \<ge> need) bs = [] then prev
                       else Some (last (takeWhile (\<lambda>b. \<not> block_size m b \<ge> need) bs)), b))"
  using assms
proof (induction bs arbitrary: a prev)
  case Nil
  then show ?case by (simp add: find_block.simps)
next
  case (Cons b bs)
  then have *: "find_block m need prev a = (if block_size m b \<ge> need then Some (Some (prev, b))
      else find_block m need (Some b) (block_next m b))"
    by (subst find_block.simps) simp
  show ?case using Cons.IH [of "block_next m b" "Some b"] Cons.prems
    unfolding * by (auto split: option.split)
qed

lemma find_split:
  "find P xs = Some x \<Longrightarrow> \<exists>ys zs. xs = ys @ x # zs \<and> takeWhile (\<lambda>x. \<not> P x) xs = ys \<and> P x"
proof (induction xs)
  case (Cons a xs)
  show ?case
  proof (cases "P a")
    case True
    then show ?thesis using Cons.prems by (intro exI [of _ "[]"] exI [of _ xs]) auto
  next
    case False
    then obtain ys zs where "xs = ys @ x # zs" "takeWhile (\<lambda>x. \<not> P x) xs = ys" "P x"
      using Cons by auto
    then show ?thesis using False by (intro exI [of _ "a # ys"] exI [of _ zs]) auto
  qed
qed simp

section \<open>Taking a block\<close>

lemma chain_relink:
  assumes "chain m a (xs @ cur # ys)" and "\<And>b. b \<in> set xs \<Longrightarrow> b \<noteq> last xs \<Longrightarrow> block_next m' b = block_next m b"
    and "xs \<noteq> [] \<Longrightarrow> block_next m' (last xs) = t" and "chain m' t zs" and "distinct xs"
  shows "chain m' (if xs = [] then t else a) (xs @ zs)"
  using assms
proof (induction xs arbitrary: a)
  case (Cons x xs)
  show ?case
  proof (cases "xs = []")
    case False
    then have "x \<noteq> last xs" using Cons.prems(5) by auto
    then show ?thesis using Cons.IH [of "block_next m x"] Cons.prems False by auto
  qed (use Cons.prems in auto)
qed simp

definition link_target :: "addr list \<Rightarrow> addr option" where
  "link_target xs = (if xs = [] then None else Some (last xs))"

lemma link_effect:
  "h_mem (link (link_target xs) t h) = (if xs = [] then h_mem h else set_next (last xs) t (h_mem h))"
  "h_free (link (link_target xs) t h) = (if xs = [] then t else h_free h)"
  "h_pages (link (link_target xs) t h) = h_pages h"
  "\<exists>m. h_phys (link (link_target xs) t h) = (h_phys h)\<lparr>p_mem := m\<rparr>"
proof -
  show "\<exists>m. h_phys (link (link_target xs) t h) = (h_phys h)\<lparr>p_mem := m\<rparr>"
    by (cases "xs = []") (auto simp: link_target_def link_def with_mem_def intro: exI [of _ "h_mem h"])
qed (auto simp: link_target_def link_def with_mem_def)

text \<open>
  Rebuilding the list after the block \<open>cur\<close> was used up, up to the blocks \<open>zs\<close> (none, or the rest of
  \<open>cur\<close>), when memory has changed only inside \<open>cur\<close> and in the next field of the block before it.
\<close>

lemma replace_block:
  assumes ok: "blocks_ok m bs S" and ch: "chain m a bs" and bs: "bs = xs @ cur # ys"
    and out_all: "\<forall>x. unat x \<notin> extent m cur \<and> (xs = [] \<or> unat x \<notin> {unat (last xs)..<unat (last xs) + 16}) \<longrightarrow> m' x = m x"
    and prev: "xs \<noteq> [] \<longrightarrow> block_next m' (last xs) = t \<and> block_size m' (last xs) = block_size m (last xs)"
    and zs_all: "\<forall>b\<in>set zs. unat b mod 16 = 0 \<and> extent m' b \<subseteq> extent m cur \<and> b \<noteq> 0" and "length zs \<le> 1"
    and new: "zs = [] \<longrightarrow> t = block_next m cur" "\<forall>b. zs = [b] \<longrightarrow> t = b \<and> block_next m' b = block_next m cur"
  shows "blocks_ok m' (xs @ zs @ ys) S" and "chain m' (if xs = [] then t else a) (xs @ zs @ ys)"
    and "free_bytes m' (xs @ ys) = free_bytes m (xs @ ys)"
proof -
  have zs: "\<And>b. b \<in> set zs \<Longrightarrow> unat b mod 16 = 0 \<and> extent m' b \<subseteq> extent m cur \<and> b \<noteq> 0" "length zs \<le> 1"
    using zs_all assms(7) by blast+
  have out: "unat x \<notin> extent m cur \<Longrightarrow> xs = [] \<or> unat x \<notin> {unat (last xs)..<unat (last xs) + 16} \<Longrightarrow> m' x = m x" for x
    using out_all by blast
  have dist: "distinct bs" using ok by (simp add: blocks_ok_def)
  have cur: "cur \<in> set bs" and notin: "cur \<notin> set xs" "cur \<notin> set ys" using bs dist by auto
  have same: "block_size m' b = block_size m b" "extent m' b = extent m b" "xs = [] \<or> b \<noteq> last xs \<Longrightarrow> block_next m' b = block_next m b"
    if b: "b \<in> set xs \<union> set ys" for b
  proof -
    have inbs: "b \<in> set bs" and ne: "b \<noteq> cur" using b bs notin by auto
    have dc: "extent m b \<inter> extent m cur = {}" using blocks_ok_disjoint [OF ok inbs cur ne] .
    show "xs = [] \<or> b \<noteq> last xs \<Longrightarrow> block_next m' b = block_next m b"
      and "block_size m' b = block_size m b"
    proof -
      have eq: "block_size m' b = block_size m b \<and> block_next m' b = block_next m b" if "xs = [] \<or> b \<noteq> last xs"
      proof -
        have "m' x = m x" if x: "unat x \<in> extent m b" for x
        proof (rule out)
          show "unat x \<notin> extent m cur" using dc x by auto
          have "extent m b \<inter> extent m (last xs) = {}" if "xs \<noteq> []"
            using that \<open>xs = [] \<or> b \<noteq> last xs\<close> blocks_ok_disjoint [OF ok inbs, of "last xs"] bs by auto
          then show "xs = [] \<or> unat x \<notin> {unat (last xs)..<unat (last xs) + 16}"
            using x extent_header [of "last xs" m] by blast
        qed
        then show ?thesis using blocks_same [OF ok inbs] by blast
      qed
      then show "xs = [] \<or> b \<noteq> last xs \<Longrightarrow> block_next m' b = block_next m b" by blast
      show "block_size m' b = block_size m b" using eq prev by (cases "xs = [] \<or> b \<noteq> last xs") auto
    qed
    then show "extent m' b = extent m b" by (simp add: extent_def)
  qed
  show fb: "free_bytes m' (xs @ ys) = free_bytes m (xs @ ys)" using same(2) by (auto simp: free_bytes_def)
  have ysd: "last xs \<notin> set ys" if "xs \<noteq> []"
  proof -
    have "last xs \<in> set xs" using that by simp
    then show ?thesis using dist bs by (auto simp: disjoint_iff)
  qed
  have "chain m (block_next m cur) ys" using chain_split [of m a xs cur ys] ch bs by simp
  then have chy: "chain m' (block_next m cur) ys"
    using chain_cong [of ys m' m "block_next m cur"] same(3) ysd by fastforce
  have "chain m' t (zs @ ys)"
  proof (cases zs)
    case Nil
    then show ?thesis using chy new(1) by simp
  next
    case (Cons b zs')
    then have "zs = [b]" using zs(2) by simp
    then show ?thesis using new(2) chy zs(1) by auto
  qed
  then show "chain m' (if xs = [] then t else a) (xs @ zs @ ys)"
    using chain_relink [OF ch [unfolded bs], of m' t "zs @ ys"] same(3) prev dist bs by auto
  have xy: "b \<in> set bs \<and> b \<noteq> cur" if "b \<in> set (xs @ ys)" for b using that bs notin by auto
  have ex: "extent m' b = extent m b" "unat b mod 16 = 0" "extent m b \<subseteq> S" "extent m b \<inter> extent m cur = {}"
    if "b \<in> set (xs @ ys)" for b
    using xy [OF that] same(2) that block_bounds [OF ok] blocks_ok_disjoint [OF ok _ cur] by auto
  have z: "unat b mod 16 = 0 \<and> extent m' b \<subseteq> extent m cur \<and> b \<notin> set (xs @ ys)" if "b \<in> set zs" for b
  proof -
    have "unat b \<in> extent m' b" by (simp add: extent_def)
    then have "b \<notin> set (xs @ ys)" using zs(1) [OF that] ex(1,4) by blast
    then show ?thesis using zs(1) [OF that] by simp
  qed
  show "blocks_ok m' (xs @ zs @ ys) S"
    unfolding blocks_ok_def
  proof (intro conjI ballI impI)
    have "distinct zs" using zs(2) by (cases zs) auto
    then show "distinct (xs @ zs @ ys)" using dist z bs by auto
    show "S \<subseteq> {1..<0x200000}" using ok by (simp add: blocks_ok_def)
  next
    fix b assume "b \<in> set (xs @ zs @ ys)"
    then consider "b \<in> set (xs @ ys)" | "b \<in> set zs" by auto
    then have "unat b mod 16 = 0 \<and> extent m' b \<subseteq> S"
      using ex z block_bounds(5) [OF ok cur] by cases (auto, blast)
    then show "unat b mod 16 = 0" "extent m' b \<subseteq> S" by auto
  next
    fix b b' assume bb: "b \<in> set (xs @ zs @ ys)" "b' \<in> set (xs @ zs @ ys)" "b \<noteq> b'"
    show "extent m' b \<inter> extent m' b' = {}"
    proof (cases "b \<in> set zs \<or> b' \<in> set zs")
      case True
      moreover have "\<not> (b \<in> set zs \<and> b' \<in> set zs)" using bb(3) zs(2) by (cases zs) auto
      ultimately show ?thesis using z ex bb by (auto; blast)
    next
      case False
      then have b: "b \<in> set (xs @ ys)" "b' \<in> set (xs @ ys)" using bb by auto
      then show ?thesis using ex(1) blocks_ok_disjoint [OF ok, of b b'] xy bb(3) by simp
    qed
  qed
qed

text \<open>
  The common end of both branches of \<open>kernel_malloc\<close>: the predecessor is linked to \<open>t\<close>, and the block
  \<open>cur\<close>, by now of size \<open>sz\<close>, is marked as allocated and cleared.
\<close>

definition finish_take :: "addr list \<Rightarrow> addr \<Rightarrow> addr \<Rightarrow> heap \<Rightarrow> heap" where
  "finish_take xs t cur h =
     (let h = link (link_target xs) t h; m = set_next cur 0 (h_mem h)
      in with_mem (memset (cur + HEADER_SIZE) 0 (unat (block_size m cur)) m) h)"

lemma finish_take_state:
  "h_free (finish_take xs t cur h) = (if xs = [] then t else h_free h)"
  "h_pages (finish_take xs t cur h) = h_pages h"
  "\<exists>m. h_phys (finish_take xs t cur h) = (h_phys h)\<lparr>p_mem := m\<rparr>"
  using link_effect [of xs t h] by (auto simp: finish_take_def Let_def with_mem_def)

lemma finish_take_mem:
  assumes ok: "blocks_ok m bs S" and bs: "bs = xs @ cur # ys"
    and out: "\<forall>x. unat x \<notin> extent m cur \<longrightarrow> h_mem h x = m x"
    and sz: "unat (block_size (h_mem h) cur) \<le> unat (block_size m cur)"
    and e: "e = {unat cur..<unat cur + 16 + unat (block_size (h_mem h) cur)}"
    and m': "m' = h_mem (finish_take xs t cur h)"
  shows "unat x \<notin> e \<Longrightarrow> xs = [] \<or> unat x \<notin> {unat (last xs)..<unat (last xs) + 16} \<Longrightarrow> m' x = h_mem h x"
    and "unat x \<in> e \<Longrightarrow> unat cur + 16 \<le> unat x \<Longrightarrow> m' x = 0"
    and "xs \<noteq> [] \<Longrightarrow> block_next m' (last xs) = t \<and> block_size m' (last xs) = block_size m (last xs)"
proof -
  let ?m = "h_mem h" and ?sz = "block_size (h_mem h) cur"
  define m4 where "m4 = (if xs = [] then ?m else set_next (last xs) t ?m)"
  define m5 where "m5 = set_next cur 0 m4"
  have cur: "cur \<in> set bs" and last: "xs \<noteq> [] \<Longrightarrow> last xs \<in> set bs" "xs \<noteq> [] \<Longrightarrow> last xs \<noteq> cur"
    using bs ok by (auto simp: blocks_ok_def)
  note b = block_bounds [OF ok cur]
  have lb: "xs \<noteq> [] \<Longrightarrow> unat (last xs) + 16 \<le> 2 ^ 64" using block_bounds(3) [OF ok last(1)] .
  have esub: "e \<subseteq> extent m cur" "{unat cur..<unat cur + 16} \<subseteq> e" using sz by (auto simp: e extent_def)
  have disj: "xs \<noteq> [] \<Longrightarrow> {unat (last xs)..<unat (last xs) + 16} \<inter> extent m cur = {}"
    using blocks_ok_disjoint [OF ok last(1) cur last(2)] extent_header [of "last xs" m] by blast
  have m4_out: "m4 x = ?m x" if "xs = [] \<or> unat x \<notin> {unat (last xs)..<unat (last xs) + 16}" for x
    using that header_outside(2) [OF lb] by (auto simp: m4_def)
  have "m4 x = ?m x" if "unat x \<in> {unat cur..<unat cur + 16}" for x
    using that disj esub m4_out [of x] by blast
  then have "block_size m4 cur = ?sz" using header_cong(1) [OF b(3)] by blast
  then have m'_eq: "m' = memset (cur + HEADER_SIZE) 0 (unat ?sz) m5"
    using b(3) by (simp add: m' finish_take_def Let_def with_mem_def link_effect m4_def [symmetric] m5_def [symmetric])
  have c16: "unat (cur + HEADER_SIZE) = unat cur + 16" using b by (simp add: heap_consts unat_word_ariths)
  then have c16b: "unat (cur + HEADER_SIZE) + unat ?sz \<le> 2 ^ 64" using b sz by simp
  have m'_out: "m' x = m4 x" if "unat x \<notin> e" for x
    using that memset_nat_outside [OF c16b, of x 0 m5] header_outside(2) [OF b(3), of x] c16
    by (auto simp: m'_eq m5_def e)
  show "unat x \<notin> e \<Longrightarrow> xs = [] \<or> unat x \<notin> {unat (last xs)..<unat (last xs) + 16} \<Longrightarrow> m' x = ?m x"
    using m'_out m4_out by simp
  show "unat x \<in> e \<Longrightarrow> unat cur + 16 \<le> unat x \<Longrightarrow> m' x = 0"
    using memset_inside [OF c16b, of x 0 m5] c16 by (auto simp: m'_eq e)
  show "block_next m' (last xs) = t \<and> block_size m' (last xs) = block_size m (last xs)" if ne: "xs \<noteq> []"
  proof -
    have "m' x = m4 x" "?m x = m x" if "unat x \<in> {unat (last xs)..<unat (last xs) + 16}" for x
      using that disj [OF ne] esub m'_out [of x] out by blast+
    then have "block_size m' (last xs) = block_size m4 (last xs)" "block_next m' (last xs) = block_next m4 (last xs)"
      "block_size ?m (last xs) = block_size m (last xs)"
      using header_cong [OF lb [OF ne]] by blast+
    then show ?thesis using ne lb [OF ne] by (simp add: m4_def)
  qed
qed

text \<open>Splitting a block: the header of the rest is written behind the allocated part.\<close>

definition split_block :: "uint64 \<Rightarrow> addr \<Rightarrow> mem \<Rightarrow> mem" where
  "split_block need cur m =
     (let m1 = set_size (cur + need) (block_size m cur - need) m;
          m2 = set_next (cur + need) (block_next m1 cur) m1
      in set_size cur (need - HEADER_SIZE) m2)"

lemma split_block_mem:
  assumes b: "unat cur + 16 + unat (block_size m cur) \<le> 0x200000"
    and need: "32 \<le> unat need" "unat need + 32 \<le> unat (block_size m cur)"
  shows "unat (cur + need) = unat cur + unat need"
    and "unat x \<notin> extent m cur \<Longrightarrow> split_block need cur m x = m x"
    and "block_size (split_block need cur m) cur = need - HEADER_SIZE"
    and "block_size (split_block need cur m) (cur + need) = block_size m cur - need"
    and "block_next (split_block need cur m) (cur + need) = block_next m cur"
proof -
  let ?nb = "cur + need"
  define m1 where "m1 = set_size ?nb (block_size m cur - need) m"
  define m2 where "m2 = set_next ?nb (block_next m1 cur) m1"
  show nb: "unat ?nb = unat cur + unat need" using b need by (simp add: unat_word_ariths)
  have nb16: "unat ?nb + 16 \<le> 2 ^ 64" and c16: "unat cur + 16 \<le> 2 ^ 64" using nb b need by auto
  have split: "split_block need cur m = set_size cur (need - HEADER_SIZE) m2"
    by (simp add: split_block_def Let_def m1_def m2_def)
  have next_cur: "block_next m1 cur = block_next m cur"
    using header_cong(2) [OF c16, of m1 m] header_outside(1) [OF nb16] nb need by (auto simp: m1_def)
  have "split_block need cur m x = m2 x" if "unat x \<in> {unat ?nb..<unat ?nb + 16}" for x
    using that header_outside(1) [OF c16, of x] nb need by (auto simp: split)
  then have "block_size (split_block need cur m) ?nb = block_size m2 ?nb"
      "block_next (split_block need cur m) ?nb = block_next m2 ?nb"
    using header_cong [OF nb16] by blast+
  then show "block_size (split_block need cur m) ?nb = block_size m cur - need"
      "block_next (split_block need cur m) ?nb = block_next m cur"
    using nb16 next_cur by (simp_all add: m2_def m1_def)
  show "block_size (split_block need cur m) cur = need - HEADER_SIZE" using c16 by (simp add: split)
  show "split_block need cur m x = m x" if "unat x \<notin> extent m cur"
    using that header_outside(1) [OF c16, of x] header_outside [OF nb16, of x] nb need
    by (auto simp: split m2_def m1_def extent_def)
qed

lemma take_block_eq:
  "take_block need (link_target xs) cur h =
     (if block_size (h_mem h) cur \<ge> need + HEADER_SIZE + MIN_ALLOC_SIZE
      then finish_take xs (cur + need) cur (with_mem (split_block need cur (h_mem h)) h)
      else finish_take xs (block_next (h_mem h) cur) cur h)"
  by (simp add: take_block_def finish_take_def split_block_def Let_def)

lemma take_block_cases:
  assumes ok: "blocks_ok (h_mem h) bs S" and bs: "bs = xs @ cur # ys"
    and fit: "need \<le> block_size (h_mem h) cur" and need: "unat need mod 16 = 0" "32 \<le> unat need" "unat need \<le> 4096"
  obtains t zs h1 where "take_block need (link_target xs) cur h = finish_take xs t cur h1"
    and "h_free h1 = h_free h" "h_pages h1 = h_pages h" "\<exists>m. h_phys h1 = (h_phys h)\<lparr>p_mem := m\<rparr>"
    and "\<forall>x. unat x \<notin> extent (h_mem h) cur \<longrightarrow> h_mem h1 x = h_mem h x"
    and "unat (block_size (h_mem h1) cur) \<le> unat (block_size (h_mem h) cur)"
    and "unat need \<le> 16 + unat (block_size (h_mem h1) cur)"
    and "length zs \<le> 1" and "zs = [] \<Longrightarrow> t = block_next (h_mem h) cur"
    and "\<And>b. zs = [b] \<Longrightarrow> t = b \<and> unat b mod 16 = 0 \<and> b \<noteq> 0 \<and> block_next (h_mem h1) b = block_next (h_mem h) cur \<and>
      unat b = unat cur + 16 + unat (block_size (h_mem h1) cur) \<and>
      unat b + 16 + unat (block_size (h_mem h1) b) = unat cur + 16 + unat (block_size (h_mem h) cur)"
proof (cases "block_size (h_mem h) cur \<ge> need + HEADER_SIZE + MIN_ALLOC_SIZE")
  case False
  have "unat need \<le> unat (block_size (h_mem h) cur)" using fit by (simp add: word_le_nat_alt)
  moreover have "\<exists>m. h_phys h = (h_phys h)\<lparr>p_mem := m\<rparr>" by (rule exI [of _ "h_mem h"]) simp
  ultimately show thesis using that [of "block_next (h_mem h) cur" h "[]"] False by (simp add: take_block_eq)
next
  case True
  note b = block_bounds [OF ok, of cur]
  have c: "cur \<in> set bs" using bs by simp
  have "unat (need + HEADER_SIZE + MIN_ALLOC_SIZE) = unat need + 32" using need by (simp add: heap_consts unat_word_ariths)
  with True have n32: "unat need + 32 \<le> unat (block_size (h_mem h) cur)" by (simp add: word_le_nat_alt)
  note sp = split_block_mem [OF b(2) [OF c] need(2) n32]
  have hsz: "unat (need - HEADER_SIZE) = unat need - 16" using need by (simp add: heap_consts unat_sub word_le_nat_alt)
  have nsz: "unat (block_size (h_mem h) cur - need) = unat (block_size (h_mem h) cur) - unat need" using fit by (simp add: unat_sub)
  have al: "unat (cur + need) mod 16 = 0" using sp(1) b(4) [OF c] need(1) by (simp add: mod_add_eq [symmetric, of "unat cur"])
  have nz: "cur + need \<noteq> 0" using sp(1) b(1) [OF c] by (metis add_eq_0_iff_both_eq_0 unat_0)
  show thesis
  proof (rule that [of "cur + need" "with_mem (split_block need cur (h_mem h)) h" "[cur + need]"])
    show "take_block need (link_target xs) cur h =
      finish_take xs (cur + need) cur (with_mem (split_block need cur (h_mem h)) h)" using True by (simp add: take_block_eq)
  qed (use sp n32 need hsz nsz al nz in \<open>auto simp: with_mem_def\<close>)
qed

lemma take_block_spec:
  assumes ok: "blocks_ok (h_mem h) bs S" and ch: "chain (h_mem h) (h_free h) bs" and bs: "bs = xs @ cur # ys"
    and fit: "need \<le> block_size (h_mem h) cur" and need: "unat need mod 16 = 0" "32 \<le> unat need" "unat need \<le> 4096"
    and h': "h' = take_block need (link_target xs) cur h"
  shows "\<exists>bs'. blocks_ok (h_mem h') bs' S \<and> chain (h_mem h') (h_free h') bs' \<and> h_pages h' = h_pages h \<and>
    (\<exists>m'. h_phys h' = (h_phys h)\<lparr>p_mem := m'\<rparr>) \<and>
    (\<forall>x. unat x \<notin> free_bytes (h_mem h) bs \<longrightarrow> h_mem h' x = h_mem h x) \<and>
    free_bytes (h_mem h') bs' \<subseteq> free_bytes (h_mem h) bs \<and>
    {unat cur..<unat cur + unat need} \<subseteq> free_bytes (h_mem h) bs - free_bytes (h_mem h') bs' \<and>
    (\<forall>x. unat x \<in> {unat cur + 16..<unat cur + unat need} \<longrightarrow> h_mem h' x = 0)"
proof -
  let ?m = "h_mem h"
  have cur: "cur \<in> set bs" and last: "xs \<noteq> [] \<Longrightarrow> last xs \<in> set bs" using bs by auto
  note b = block_bounds [OF ok cur]
  obtain t zs h1 where take: "take_block need (link_target xs) cur h = finish_take xs t cur h1"
    and h1: "h_free h1 = h_free h" "h_pages h1 = h_pages h" "\<exists>m. h_phys h1 = (h_phys h)\<lparr>p_mem := m\<rparr>"
    and out1: "\<forall>x. unat x \<notin> extent ?m cur \<longrightarrow> h_mem h1 x = ?m x"
    and s1: "unat (block_size (h_mem h1) cur) \<le> unat (block_size ?m cur)" "unat need \<le> 16 + unat (block_size (h_mem h1) cur)"
    and zs1: "length zs \<le> 1" and new0: "zs = [] \<Longrightarrow> t = block_next ?m cur"
    and new1: "\<And>b. zs = [b] \<Longrightarrow> t = b \<and> unat b mod 16 = 0 \<and> b \<noteq> 0 \<and> block_next (h_mem h1) b = block_next ?m cur \<and>
      unat b = unat cur + 16 + unat (block_size (h_mem h1) cur) \<and>
      unat b + 16 + unat (block_size (h_mem h1) b) = unat cur + 16 + unat (block_size ?m cur)"
    by (rule take_block_cases [OF ok bs fit need]) (rule that)
  let ?e = "{unat cur..<unat cur + 16 + unat (block_size (h_mem h1) cur)}" and ?m' = "h_mem h'"
  have h'_eq: "h' = finish_take xs t cur h1" using h' take by simp
  note ft = finish_take_mem [OF ok bs out1 s1(1) refl refl, where t = t, folded h'_eq]
  have esub: "?e \<subseteq> extent ?m cur" using s1 by (auto simp: extent_def)
  have disj: "xs \<noteq> [] \<Longrightarrow> {unat (last xs)..<unat (last xs) + 16} \<inter> extent ?m cur = {}"
    using blocks_ok_disjoint [OF ok last cur] ok bs extent_header [of "last xs" ?m] by (fastforce simp: blocks_ok_def)
  have out: "?m' x = ?m x" if "unat x \<notin> extent ?m cur" "xs = [] \<or> unat x \<notin> {unat (last xs)..<unat (last xs) + 16}" for x
  proof -
    have "unat x \<notin> ?e" using that(1) esub by blast
    then show ?thesis using ft(1) [OF _ that(2)] out1 that(1) by simp
  qed
  have nb: "t = b \<and> block_next ?m' b = block_next ?m cur \<and> unat b mod 16 = 0 \<and> b \<noteq> 0 \<and> extent ?m' b \<subseteq> extent ?m cur - ?e"
    if "zs = [b]" for b
  proof -
    have "?m' x = h_mem h1 x" if x: "unat x \<in> {unat b..<unat b + 16}" for x
    proof (rule ft(1))
      show "unat x \<notin> ?e" using x new1 [OF \<open>zs = [b]\<close>] by auto
      have "unat x \<in> extent ?m cur" using x new1 [OF \<open>zs = [b]\<close>] by (auto simp: extent_def)
      then show "xs = [] \<or> unat x \<notin> {unat (last xs)..<unat (last xs) + 16}" using disj by blast
    qed
    moreover have "unat b + 16 \<le> 2 ^ 64" using new1 [OF that] b by simp
    ultimately have "block_next ?m' b = block_next (h_mem h1) b" "block_size ?m' b = block_size (h_mem h1) b"
      using header_cong by blast+
    then show ?thesis using new1 [OF that] by (auto simp: extent_def)
  qed
  have zs: "unat b mod 16 = 0 \<and> extent ?m' b \<subseteq> extent ?m cur \<and> b \<noteq> 0" if "b \<in> set zs" for b
    using that zs1 nb by (cases zs) auto
  have new: "t = b \<and> block_next ?m' b = block_next ?m cur" if "zs = [b]" for b using nb [OF that] by simp
  have out': "\<forall>x. unat x \<notin> extent ?m cur \<and> (xs = [] \<or> unat x \<notin> {unat (last xs)..<unat (last xs) + 16}) \<longrightarrow> ?m' x = ?m x"
    and prev': "xs \<noteq> [] \<longrightarrow> block_next ?m' (last xs) = t \<and> block_size ?m' (last xs) = block_size ?m (last xs)"
    and zs': "\<forall>b\<in>set zs. unat b mod 16 = 0 \<and> extent ?m' b \<subseteq> extent ?m cur \<and> b \<noteq> 0"
    and new': "zs = [] \<longrightarrow> t = block_next ?m cur" "\<forall>b. zs = [b] \<longrightarrow> t = b \<and> block_next ?m' b = block_next ?m cur"
    using out ft(3) zs new0 new by blast+
  note r = replace_block [OF ok ch bs out' prev' zs' zs1 new']
  have fbz: "free_bytes ?m' zs \<subseteq> extent ?m cur - ?e" using nb zs1 by (cases zs) auto
  have "free_bytes ?m (xs @ ys) \<inter> extent ?m cur = {}"
    using blocks_ok_disjoint [OF ok _ cur] ok bs by (auto simp: free_bytes_def blocks_ok_def)
  moreover have "extent ?m cur \<subseteq> free_bytes ?m bs" using cur by (auto simp: free_bytes_def)
  ultimately have fb: "free_bytes ?m' (xs @ zs @ ys) \<subseteq> free_bytes ?m bs"
      "?e \<subseteq> free_bytes ?m bs - free_bytes ?m' (xs @ zs @ ys)"
    using r(3) fbz esub bs by auto
  have keep: "\<forall>x. unat x \<notin> free_bytes ?m bs \<longrightarrow> ?m' x = ?m x"
  proof (intro allI impI out)
    fix x assume x: "unat x \<notin> free_bytes ?m bs"
    show "unat x \<notin> extent ?m cur" using x cur by (auto simp: free_bytes_def)
    show "xs = [] \<or> unat x \<notin> {unat (last xs)..<unat (last xs) + 16}"
      using x last extent_header [of "last xs" ?m] by (auto simp: free_bytes_def)
  qed
  have "{unat cur..<unat cur + unat need} \<subseteq> ?e" using s1(2) by auto
  from subset_trans [OF this fb(2)] r(1) fb(1) keep
  show ?thesis
  proof (intro exI [of _ "xs @ zs @ ys"] conjI)
    show "\<forall>x. unat x \<in> {unat cur + 16..<unat cur + unat need} \<longrightarrow> ?m' x = 0" using ft(2) s1(2) by auto
    show "\<exists>m'. h_phys h' = (h_phys h)\<lparr>p_mem := m'\<rparr>" using finish_take_state(3) [of xs t cur h1] h1(3) by (auto simp: h'_eq)
    have "h_free h' = (if xs = [] then t else h_free h)" using finish_take_state(1) [of xs t cur h1] h1(1) by (simp add: h'_eq)
    then show "chain ?m' (h_free h') (xs @ zs @ ys)" using r(2) by simp
  qed (use finish_take_state(1,2) [of xs t cur h1] h1 in \<open>simp_all add: h'_eq\<close>)
qed

section \<open>The heap\<close>

definition page_bytes :: "addr \<Rightarrow> nat set" where
  "page_bytes p = {unat p..<unat p + 4096}"

definition heap_space :: "heap \<Rightarrow> nat set" where
  "heap_space h = (\<Union>p\<in>set (h_pages h). page_bytes p)"

text \<open>
  The invariant: the free list is the chain of the blocks \<open>bs\<close>; these are disjoint and lie in the heap's
  pages, which belong to the heap and are not page tables of the kernel.
\<close>

definition heap_ok :: "addr \<Rightarrow> heap \<Rightarrow> addr list \<Rightarrow> bool" where
  "heap_ok kpt h bs \<longleftrightarrow> chain (h_mem h) (h_free h) bs \<and> blocks_ok (h_mem h) bs (heap_space h) \<and>
     phys_ok (h_phys h) \<and> distinct (h_pages h) \<and>
     (\<forall>p\<in>set (h_pages h). page_aligned p \<and> p \<in> used_pages (h_phys h)) \<and>
     pt_wf (entry (h_mem h)) kpt (used_pages (h_phys h)) \<and> tables (h_mem h) kpt \<inter> set (h_pages h) = {}"

definition allocated :: "heap \<Rightarrow> addr list \<Rightarrow> nat set" where
  "allocated h bs = heap_space h - free_bytes (h_mem h) bs"

lemma rgn_page: "page_aligned p \<Longrightarrow> x \<in> rgn p 4096 \<longleftrightarrow> unat x \<in> page_bytes p"
  using unat_aligned_bound [of p] by (simp add: rgn_nat page_bytes_def)

lemma page_bytes_disjoint:
  assumes "page_aligned p" and "page_aligned q" and "p \<noteq> q"
  shows "page_bytes p \<inter> page_bytes q = {}"
  using aligned_apart [of p q] assms by (auto simp: page_bytes_def)

lemma table_unchanged:
  assumes wf: "pt_wf (entry m) pt U" and "U \<subseteq> U'"
    and same: "\<And>t x. t \<in> tables m pt \<Longrightarrow> unat x \<in> page_bytes t \<Longrightarrow> m' x = m x"
  shows "pt_wf (entry m') pt U'" and "tables m' pt = tables m pt"
proof -
  have al: "page_aligned t" if "t \<in> tables m pt" for t using that pt_wf_table [OF wf] by (auto simp: tables_def)
  then have s: "m' x = m x" if "t \<in> tables m pt" "x \<in> rgn t 4096" for t x using that same rgn_page by blast
  show "pt_wf (entry m') pt U'" by (rule table_frame(1) [OF wf assms(2) s])
  show "tables m' pt = tables m pt" using walk_frame [OF wf s] by (simp add: tables_def cong: conj_cong)
qed

lemma table_off_page:
  assumes wf: "pt_wf (entry m) pt U" and "U \<subseteq> U'" and p: "page_aligned p" "p \<notin> tables m pt"
    and same: "\<forall>x. unat x \<notin> page_bytes p \<longrightarrow> m' x = m x"
  shows "pt_wf (entry m') pt U'" and "tables m' pt = tables m pt"
proof -
  have "m' x = m x" if "t \<in> tables m pt" "unat x \<in> page_bytes t" for t x
  proof -
    have "page_aligned t" "t \<noteq> p" using that(1) p pt_wf_table [OF wf] by (auto simp: tables_def)
    then show ?thesis using page_bytes_disjoint [OF _ p(1)] same that(2) by blast
  qed
  then show "pt_wf (entry m') pt U'" "tables m' pt = tables m pt" using table_unchanged [OF wf assms(2)] by blast+
qed

text \<open>Without an allocator, mapping changes only memory.\<close>

lemma descend_None: "descend n va pm None pt st = Some (l4, st') \<Longrightarrow> st' = st"
  by (induction n arbitrary: pt) (auto simp: Let_def split: if_splits)

lemma map_loop_None:
  "map_loop n pt va pad pm None last123 l4 st = Some (r, st') \<Longrightarrow> \<exists>m. st' = st\<lparr>p_mem := m\<rparr>"
proof (induction n arbitrary: va pad last123 l4 st)
  case 0
  then show ?case by (auto intro: exI [of _ "p_mem st"])
next
  case (Suc n)
  let ?look = "if ucast (drop_bit 21 va) \<noteq> last123 then lookup_l4pagetable pt va pm None st else Some (l4, st)"
  obtain l4' st1 where l: "?look = Some (l4', st1)" using Suc.prems by (fastforce simp: Let_def split: option.splits if_splits)
  then have "st1 = st" using descend_None by (auto simp: lookup_l4pagetable_def split: if_splits)
  with Suc.prems Suc.IH l show ?case
    by (fastforce simp: Let_def split: if_splits intro: exI [of _ "p_mem st"])
qed

lemma map_None_pages:
  "virtual_memory_map pt va pad sz pm None st = Some (r, st') \<Longrightarrow> \<exists>m. st' = st\<lparr>p_mem := m\<rparr>"
  by (auto simp: virtual_memory_map_def map_loop_None split: if_splits)

lemma heap_pages_few:
  assumes "distinct ps" and "set ps \<subseteq> used_pages st"
  shows "length ps < HEAP_MAXPAGES"
proof -
  have "set ps \<subseteq> PAGEADDRESS ` {..<NPAGES}" using assms(2) by (auto simp: used_pages_def)
  then have "card (set ps) \<le> card (PAGEADDRESS ` {..<NPAGES})" by (intro card_mono) auto
  also have "\<dots> \<le> 512" using card_image_le [of "{..<NPAGES}" PAGEADDRESS] by (simp add: NPAGES_def)
  finally show ?thesis using distinct_card [OF assms(1)] by (simp add: HEAP_MAXPAGES_def)
qed

lemma used_page_bounds:
  assumes "phys_ok st" and "p \<in> used_pages st"
  shows "page_aligned p" "unat p + 4096 \<le> 0x200000"
proof -
  obtain pn where "pn < NPAGES" "p = PAGEADDRESS pn" using assms(2) by (auto simp: used_pages_def)
  then show "page_aligned p" "unat p + 4096 \<le> 0x200000"
    by (simp_all add: unat_PAGEADDRESS NPAGES_def)
qed

text \<open>Mapping the new page in the kernel's page table leaves all other pages alone.\<close>

lemma map_heap_page:
  assumes ok: "phys_ok st" and wf: "pt_wf (entry (p_mem st)) kpt (used_pages st)"
    and p: "p \<in> used_pages st"
  obtains r m where "virtual_memory_map kpt p p (of_nat PAGESIZE) (ucast (PTE_P OR PTE_W)) None st = Some (r, st\<lparr>p_mem := m\<rparr>)"
    and "pt_wf (entry m) kpt (used_pages st)" and "tables m kpt = tables (p_mem st) kpt"
    and "\<forall>x. (\<forall>t\<in>tables (p_mem st) kpt. unat x \<notin> page_bytes t) \<longrightarrow> m x = p_mem st x"
proof -
  note b = used_page_bounds [OF ok p]
  have perm: "scast (ucast (PTE_P OR PTE_W) :: uint32) = (3 :: uint64)" by (simp add: pte_flags)
  have "walk (entry (p_mem st)) kpt 0 0 = Some kpt" by simp
  then have "page_aligned kpt" using pt_wf_table [OF wf, of 0] by blast
  then have a: "map_asserts kpt p p (of_nat PAGESIZE) (scast (ucast (PTE_P OR PTE_W) :: uint32))"
    using b unfolding perm
    by (auto simp: map_asserts_def page_aligned_unat PAGESIZE_def MEMSIZE_PHYSICAL_def word_le_nat_alt unat_word_ariths)
  obtain r st' where r: "virtual_memory_map kpt p p (of_nat PAGESIZE) (ucast (PTE_P OR PTE_W)) None st = Some (r, st')"
      "pt_grows kpt (p_mem st) (used_pages st) (p_mem st') (used_pages st')"
    using virtual_memory_map_spec [OF ok, of 1 None, OF _ _ wf a] b by (auto simp: PO_FREE_def PAGESIZE_def)
  obtain m where st': "st' = st\<lparr>p_mem := m\<rparr>" using map_None_pages [OF r(1)] by blast
  have g: "pt_wf (entry m) kpt (used_pages st)" "tables m kpt = tables (p_mem st) kpt"
    "x \<notin> (\<Union>t\<in>tables m kpt. rgn t 4096) \<Longrightarrow> m x = p_mem st x" for x
    using r(2) by (auto simp: pt_grows_def st')
  have "page_aligned t" if "t \<in> tables (p_mem st) kpt" for t using that pt_wf_table [OF wf] by (auto simp: tables_def)
  then show thesis using that [of r m] r(1) g by (auto simp: st' rgn_page)
qed

lemma blocks_frame:
  assumes ok: "blocks_ok m bs S" and same: "\<forall>x. unat x \<in> S \<longrightarrow> m' x = m x" and ch: "chain m a bs"
  shows "blocks_ok m' bs S" and "chain m' a bs" and "free_bytes m' bs = free_bytes m bs"
proof -
  have s: "block_size m' b = block_size m b" "block_next m' b = block_next m b" "extent m' b = extent m b"
    if "b \<in> set bs" for b
    using blocks_same [OF ok that, of m'] same block_bounds(5) [OF ok that] by blast+
  show "blocks_ok m' bs S" using ok s(3) by (simp add: blocks_ok_def)
  show "chain m' a bs" using ch s(2) chain_cong by blast
  show "free_bytes m' bs = free_bytes m bs" using s(3) by (simp add: free_bytes_def)
qed

lemma add_page_block:
  assumes bl: "blocks_ok m bs S" and ch: "chain m a bs" and keep: "\<forall>x. unat x \<in> S \<longrightarrow> m' x = m x"
    and p: "page_aligned p" "p \<noteq> 0" "unat p + 4096 \<le> 0x200000" "page_bytes p \<inter> S = {}"
    and sz: "block_size m' p = 4080" "block_next m' p = a"
  shows "blocks_ok m' (p # bs) (S \<union> page_bytes p)" and "chain m' p (p # bs)"
proof -
  note fr = blocks_frame [OF bl keep ch]
  have ext: "extent m' p = page_bytes p" by (auto simp: extent_def sz page_bytes_def)
  have "unat p mod 4096 = 0" using p(1) page_aligned_unat by blast
  moreover have "unat p mod 16 = unat p mod 4096 mod 16" by (simp add: mod_mod_cancel)
  ultimately have al: "unat p mod 16 = 0" by simp
  have "0 < unat p" using p(2) by (simp add: unat_gt_0)
  then have pb: "page_bytes p \<subseteq> {1..<0x200000}" "unat p \<in> page_bytes p" using p(3) by (auto simp: page_bytes_def)
  have "p \<notin> set bs" using block_bounds(5) [OF fr(1), of p] p(4) ext pb(2) by blast
  moreover have "extent m' b \<inter> page_bytes p = {}" "unat b mod 16 = 0" "extent m' b \<subseteq> S" if "b \<in> set bs" for b
    using block_bounds(4,5) [OF fr(1) that] p(4) by auto
  ultimately show "blocks_ok m' (p # bs) (S \<union> page_bytes p)"
    using fr(1) pb(1) al ext unfolding blocks_ok_def by auto
  show "chain m' p (p # bs)" using fr(2) sz p(2) by simp
qed

lemma alloc_heap_page:
  assumes ph: "phys_ok st" and fp: "free_page st q" and wf: "pt_wf (entry (p_mem st)) kpt (used_pages st)"
  obtains p st2 where "page_alloc (scast PO_KERNEL_HEAP) st = (p, st2)" and "p \<noteq> 0"
    and "phys_ok (st2\<lparr>p_mem := memset p 0 PAGESIZE (p_mem st2)\<rparr>)" and "p \<notin> used_pages st" and "used_pages st2 = insert p (used_pages st)"
    and "\<forall>x. unat x \<notin> page_bytes p \<longrightarrow> memset p 0 PAGESIZE (p_mem st2) x = p_mem st x"
    and "pt_wf (entry (memset p 0 PAGESIZE (p_mem st2))) kpt (used_pages st2)"
    and "tables (memset p 0 PAGESIZE (p_mem st2)) kpt = tables (p_mem st) kpt"
proof -
  let ?w = "scast PO_KERNEL_HEAP :: uint32"
  have w: "ucast ?w \<noteq> PO_FREE" by (simp add: PO_KERNEL_HEAP_def PO_FREE_def)
  obtain p st2 where al: "page_alloc ?w st = (p, st2)" "p \<noteq> 0"
    using fp free_page_nonzero [OF ph] by (rule_tac page_alloc_cases [OF ph, of ?w]) auto
  then have ph2: "phys_ok st2" and fresh: "page_aligned p" "p \<notin> used_pages st" "used_pages st2 = insert p (used_pages st)"
    and m1: "\<And>x. x \<notin> rgn p PAGESIZE \<Longrightarrow> p_mem st2 x = p_mem st x"
    using page_alloc.alloc_fresh [OF ph w al] page_alloc.alloc_inv [OF ph w] page_alloc.alloc_frame [OF ph w al] al by auto
  have m2: "\<forall>x. unat x \<notin> page_bytes p \<longrightarrow> memset p 0 PAGESIZE (p_mem st2) x = p_mem st x"
    using m1 rgn_page [OF fresh(1)] by (simp add: PAGESIZE_def memset_outside)
  have "p \<notin> tables (p_mem st) kpt" using fresh(2) pt_wf_table [OF wf] by (auto simp: tables_def)
  note t = table_off_page [OF wf _ fresh(1) this m2, of "used_pages st2"]
  show thesis using that [OF al] ph2 fresh m2 t by auto
qed

lemma extend_heap_spec:
  assumes ok: "heap_ok kpt h bs" and fp: "free_page (h_phys h) q"
  shows "\<exists>p h'. extend_heap kpt h = Some h' \<and> heap_ok kpt h' (p # bs) \<and> h_pages h' = h_pages h @ [p] \<and>
    page_bytes p \<inter> heap_space h = {} \<and> block_size (h_mem h') p = 4080 \<and>
    free_bytes (h_mem h') bs = free_bytes (h_mem h) bs \<and>
    (\<forall>x. unat x \<in> heap_space h \<longrightarrow> h_mem h' x = h_mem h x)"
proof -
  let ?st = "h_phys h"
  have ch: "chain (h_mem h) (h_free h) bs" and bl: "blocks_ok (h_mem h) bs (heap_space h)" and ph: "phys_ok ?st"
    and pg: "distinct (h_pages h)" "\<And>p. p \<in> set (h_pages h) \<Longrightarrow> page_aligned p \<and> p \<in> used_pages ?st"
    and wf: "pt_wf (entry (h_mem h)) kpt (used_pages ?st)" and tp: "tables (h_mem h) kpt \<inter> set (h_pages h) = {}"
    using ok by (auto simp: heap_ok_def)
  have few: "\<not> length (h_pages h) \<ge> HEAP_MAXPAGES" using heap_pages_few [OF pg(1), of ?st] pg(2) by (simp add: subset_iff)
  obtain p st1 where al: "page_alloc (scast PO_KERNEL_HEAP) ?st = (p, st1)" "p \<noteq> 0"
    and st1: "phys_ok (st1\<lparr>p_mem := memset p 0 PAGESIZE (p_mem st1)\<rparr>)" "p \<notin> used_pages ?st" "used_pages st1 = insert p (used_pages ?st)"
    and m2: "\<forall>x. unat x \<notin> page_bytes p \<longrightarrow> memset p 0 PAGESIZE (p_mem st1) x = h_mem h x"
    and wf2: "pt_wf (entry (memset p 0 PAGESIZE (p_mem st1))) kpt (used_pages st1)"
      "tables (memset p 0 PAGESIZE (p_mem st1)) kpt = tables (h_mem h) kpt"
    using alloc_heap_page [OF ph fp wf] by blast
  define st2 where "st2 = st1\<lparr>p_mem := memset p 0 PAGESIZE (p_mem st1)\<rparr>"
  have pu: "p \<in> used_pages st2" "phys_ok st2" using st1 by (simp_all add: st2_def)
  note pb = used_page_bounds [OF pu(2,1)]
  have wf2': "pt_wf (entry (p_mem st2)) kpt (used_pages st2)" "tables (p_mem st2) kpt = tables (h_mem h) kpt"
    using wf2 by (simp_all add: st2_def)
  obtain r m3 where map: "virtual_memory_map kpt p p (of_nat PAGESIZE) (ucast (PTE_P OR PTE_W)) None st2 = Some (r, st2\<lparr>p_mem := m3\<rparr>)"
    and wf3: "pt_wf (entry m3) kpt (used_pages st2)" "tables m3 kpt = tables (h_mem h) kpt"
    and m3: "\<forall>x. (\<forall>t\<in>tables (h_mem h) kpt. unat x \<notin> page_bytes t) \<longrightarrow> m3 x = p_mem st2 x"
    using map_heap_page [OF pu(2) wf2'(1) pu(1)] wf2'(2) by metis
  define m4 where "m4 = set_next p (h_free h) (set_size p (of_nat PAGESIZE - HEADER_SIZE) m3)"
  have p16: "unat p + 16 \<le> 2 ^ 64" using pb(2) by simp
  have m4: "\<forall>x. unat x \<notin> page_bytes p \<longrightarrow> m4 x = m3 x"
    using header_outside [OF p16] by (auto simp: m4_def page_bytes_def)
  have tab: "page_aligned t \<and> t \<in> used_pages ?st" if "t \<in> tables (h_mem h) kpt" for t
    using that pt_wf_table [OF wf] by (auto simp: tables_def)
  have pt: "p \<notin> tables m3 kpt" using tab st1(2) wf3(2) by blast
  note wf4 = table_off_page [OF wf3(1) order_refl pb(1) pt m4]
  have apart: "page_bytes p \<inter> page_bytes t = {}" if "t \<in> used_pages ?st" for t
    using that page_bytes_disjoint [OF pb(1)] st1(2) used_page_bounds(1) [OF ph that] by blast
  have hp: "page_bytes p \<inter> heap_space h = {}" using pg(2) apart by (auto simp: heap_space_def)
  have keep: "\<forall>x. unat x \<in> heap_space h \<longrightarrow> m4 x = h_mem h x"
  proof (intro allI impI)
    fix x :: addr assume x: "unat x \<in> heap_space h"
    obtain p' where p': "p' \<in> set (h_pages h)" "unat x \<in> page_bytes p'" using x by (auto simp: heap_space_def)
    have "unat x \<notin> page_bytes t" if "t \<in> tables (h_mem h) kpt" for t
      using p' page_bytes_disjoint [of t p'] tab [OF that] pg(2) tp that by blast
    moreover have "unat x \<notin> page_bytes p" using x hp by blast
    ultimately show "m4 x = h_mem h x" using m4 m3 m2 by (simp add: st2_def)
  qed
  have sz: "block_size m4 p = 4080" "block_next m4 p = h_free h" using p16 by (simp_all add: m4_def PAGESIZE_def heap_consts)
  note bl' = add_page_block [OF bl ch keep pb(1) al(2) pb(2) hp sz]
  define h' where "h' = \<lparr>h_phys = st2\<lparr>p_mem := m4\<rparr>, h_pages = h_pages h @ [p], h_free = p\<rparr>"
  have "heap_space h' = heap_space h \<union> page_bytes p" by (auto simp: heap_space_def h'_def)
  then have "heap_ok kpt h' (p # bs)"
    using bl' pu(2) st1 pg wf4 wf3(2) tp pt pb(1) unfolding heap_ok_def by (auto simp: h'_def st2_def)
  moreover have "extend_heap kpt h = Some h'"
    using few al map by (simp add: extend_heap_def st2_def [symmetric] h'_def m4_def Let_def)
  ultimately show ?thesis using hp sz keep blocks_frame(3) [OF bl keep ch] by (auto simp: h'_def)
qed

section \<open>Allocation\<close>

lemma unat_align: "unat (a AND NOT 15 :: uint64) = unat a div 16 * 16"
  using unat_round_down [of 4 a] by (simp add: mask_eq_exp_minus_1)

lemma align_size_bounds:
  assumes "0 < unat sz" and "unat sz \<le> 4064"
  shows "unat (align_size (sz + HEADER_SIZE)) mod 16 = 0" "32 \<le> unat (align_size (sz + HEADER_SIZE))"
    "unat (align_size (sz + HEADER_SIZE)) \<le> 4080" "unat sz + 16 \<le> unat (align_size (sz + HEADER_SIZE))"
proof -
  have "unat (sz + HEADER_SIZE + 15) = unat sz + 31" using assms by (simp add: heap_consts unat_word_ariths)
  then have e: "unat (align_size (sz + HEADER_SIZE)) = (unat sz + 31) div 16 * 16" unfolding align_size_def unat_align by simp
  then show "unat (align_size (sz + HEADER_SIZE)) mod 16 = 0" by simp
  show "32 \<le> unat (align_size (sz + HEADER_SIZE))" "unat (align_size (sz + HEADER_SIZE)) \<le> 4080"
    unfolding e using assms div_le_mono [of 32 "unat sz + 31" 16] div_le_mono [of "unat sz + 31" 4095 16] by simp_all
  show "unat sz + 16 \<le> unat (align_size (sz + HEADER_SIZE))"
    unfolding e using div_mult_mod_eq [of "unat sz + 31" 16] mod_less_divisor [of 16 "unat sz + 31"] by linarith
qed

lemma malloc_unfold:
  assumes "0 < unat sz" and "unat sz \<le> 4080"
  shows "kernel_malloc kpt sz h =
     (let need = align_size (sz + HEADER_SIZE) in
      case find_block (h_mem h) need None (h_free h) of
        None \<Rightarrow> None
      | Some (Some (prev, cur)) \<Rightarrow> Some (cur + HEADER_SIZE, take_block need prev cur h)
      | Some None \<Rightarrow> (case extend_heap kpt h of None \<Rightarrow> None
           | Some h \<Rightarrow> if h_free h = 0 then Some (0, h) else kernel_malloc kpt sz h))"
proof -
  have "sz \<noteq> 0" "\<not> sz > of_nat PAGESIZE - HEADER_SIZE"
    using assms by (auto simp: word_less_nat_alt PAGESIZE_def heap_consts)
  then show ?thesis by (subst kernel_malloc.simps) simp
qed

lemma find_first_fit:
  assumes "chain m a bs"
  shows "find_block m need None a = Some (map_option (\<lambda>b. (link_target (takeWhile (\<lambda>b. \<not> block_size m b \<ge> need) bs), b))
    (find (\<lambda>b. block_size m b \<ge> need) bs))"
  using find_block_spec [OF assms] by (auto simp: link_target_def split: option.split)

lemma heap_ok_change:
  assumes ok: "heap_ok kpt h bs" and h': "h_pages h' = h_pages h" "\<exists>m. h_phys h' = (h_phys h)\<lparr>p_mem := m\<rparr>"
    and bl: "blocks_ok (h_mem h') bs' (heap_space h)" "chain (h_mem h') (h_free h') bs'"
    and keep: "\<forall>x. unat x \<notin> heap_space h \<longrightarrow> h_mem h' x = h_mem h x"
  shows "heap_ok kpt h' bs'"
proof -
  have "unat x \<notin> heap_space h" if t: "t \<in> tables (h_mem h) kpt" "unat x \<in> page_bytes t" for t and x :: addr
  proof -
    have "page_aligned t" using t(1) ok pt_wf_table by (auto simp: heap_ok_def tables_def)
    then show ?thesis using t ok page_bytes_disjoint [of t] by (fastforce simp: heap_ok_def heap_space_def)
  qed
  then have tab: "h_mem h' x = h_mem h x" if "t \<in> tables (h_mem h) kpt" "unat x \<in> page_bytes t" for t x
    using that keep by blast
  have "pt_wf (entry (h_mem h)) kpt (used_pages (h_phys h))" using ok by (simp add: heap_ok_def)
  note t = table_unchanged [OF this order_refl tab]
  have "heap_space h' = heap_space h" using h'(1) by (simp add: heap_space_def)
  then show ?thesis using ok h' bl t by (auto simp: heap_ok_def)
qed

text \<open>What an allocation of \<open>n\<close> bytes at \<open>p\<close> means for the heap.\<close>

definition allocates :: "addr \<Rightarrow> heap \<Rightarrow> addr list \<Rightarrow> nat \<Rightarrow> addr \<Rightarrow> heap \<Rightarrow> addr list \<Rightarrow> bool" where
  "allocates kpt h bs n p h' bs' \<longleftrightarrow> heap_ok kpt h' bs' \<and> p \<noteq> 0 \<and> unat p mod 16 = 0 \<and>
     {unat p - 16..<unat p + n} \<subseteq> allocated h' bs' - allocated h bs \<and>
     (\<forall>x. unat x \<in> allocated h bs \<longrightarrow> unat x \<in> allocated h' bs' \<and> h_mem h' x = h_mem h x) \<and>
     (\<forall>x. unat x \<in> {unat p..<unat p + n} \<longrightarrow> h_mem h' x = 0)"

lemma malloc_fits:
  assumes ok: "heap_ok kpt h bs" and sz: "0 < unat sz" "unat sz \<le> 4064"
    and fit: "\<exists>b\<in>set bs. block_size (h_mem h) b \<ge> align_size (sz + HEADER_SIZE)"
  shows "\<exists>p h' bs'. kernel_malloc kpt sz h = Some (p, h') \<and> allocates kpt h bs (unat sz) p h' bs'"
proof -
  let ?need = "align_size (sz + HEADER_SIZE)" and ?m = "h_mem h"
  note al = align_size_bounds [OF sz]
  have ch: "chain ?m (h_free h) bs" and bl: "blocks_ok ?m bs (heap_space h)" using ok by (auto simp: heap_ok_def)
  obtain cur where f: "find (\<lambda>b. block_size ?m b \<ge> ?need) bs = Some cur"
    using fit by (fastforce simp: find_None_iff dest: not_None_eq [THEN iffD1, rotated])
  obtain xs ys where bs: "bs = xs @ cur # ys" "takeWhile (\<lambda>b. \<not> block_size ?m b \<ge> ?need) bs = xs" "block_size ?m cur \<ge> ?need"
    using find_split [OF f] by blast
  define h' where "h' = take_block ?need (link_target xs) cur h"
  obtain bs' where bs': "blocks_ok (h_mem h') bs' (heap_space h)" "chain (h_mem h') (h_free h') bs'" "h_pages h' = h_pages h"
      "\<exists>m'. h_phys h' = (h_phys h)\<lparr>p_mem := m'\<rparr>" and keep: "\<forall>x. unat x \<notin> free_bytes ?m bs \<longrightarrow> h_mem h' x = ?m x"
    and sub: "free_bytes (h_mem h') bs' \<subseteq> free_bytes ?m bs"
    and new: "{unat cur..<unat cur + unat ?need} \<subseteq> free_bytes ?m bs - free_bytes (h_mem h') bs'"
    and zero: "\<forall>x. unat x \<in> {unat cur + 16..<unat cur + unat ?need} \<longrightarrow> h_mem h' x = 0"
    using take_block_spec [OF bl ch bs(1,3) al(1,2) _ h'_def] al(3) by auto
  have b: "unat cur \<noteq> 0" "unat cur mod 16 = 0" "unat cur + 16 \<le> 0x200000" using block_bounds [OF bl, of cur] bs(1) by auto
  have p: "unat (cur + HEADER_SIZE) = unat cur + 16" using b by (simp add: heap_consts unat_word_ariths)
  have space: "heap_space h' = heap_space h" using bs'(3) by (simp add: heap_space_def)
  have free_in: "free_bytes ?m bs \<subseteq> heap_space h" using bl by (auto simp: free_bytes_def blocks_ok_def)
  have ok': "heap_ok kpt h' bs'" using heap_ok_change [OF ok bs'(3,4,1,2)] keep free_in by blast
  have "kernel_malloc kpt sz h = Some (cur + HEADER_SIZE, h')"
    using malloc_unfold [of sz kpt h] sz find_first_fit [OF ch, of ?need] f bs(2) by (simp add: Let_def h'_def)
  moreover have "{unat cur..<unat cur + 16 + unat sz} \<subseteq> {unat cur..<unat cur + unat ?need}" using al(4) by auto
  then have "{unat cur..<unat cur + 16 + unat sz} \<subseteq> allocated h' bs' - allocated h bs"
    using new free_in unfolding allocated_def space by blast
  moreover have "cur + HEADER_SIZE \<noteq> 0" using p by (metis add_is_0 unat_0 zero_neq_numeral)
  moreover have "unat x \<in> allocated h' bs' \<and> h_mem h' x = ?m x" if "unat x \<in> allocated h bs" for x :: addr
    using that sub keep unfolding allocated_def space by blast
  moreover have "h_mem h' x = 0" if "unat x \<in> {unat cur + 16..<unat cur + 16 + unat sz}" for x
    using that zero al(4) by auto
  ultimately have "allocates kpt h bs (unat sz) (cur + HEADER_SIZE) h' bs'"
    using ok' b(2) by (simp add: allocates_def p mod_add_left_eq)
  then show ?thesis using \<open>kernel_malloc kpt sz h = Some (cur + HEADER_SIZE, h')\<close> by blast
qed

lemma malloc_extends:
  assumes ok: "heap_ok kpt h bs" and sz: "0 < unat sz" "unat sz \<le> 4064" and fp: "free_page (h_phys h) q"
    and unfit: "\<not> (\<exists>b\<in>set bs. block_size (h_mem h) b \<ge> align_size (sz + HEADER_SIZE))"
  shows "\<exists>p h' bs'. kernel_malloc kpt sz h = Some (p, h') \<and> allocates kpt h bs (unat sz) p h' bs'"
proof -
  let ?need = "align_size (sz + HEADER_SIZE)"
  obtain q h1 where h1: "extend_heap kpt h = Some h1" "heap_ok kpt h1 (q # bs)" "h_pages h1 = h_pages h @ [q]"
      "page_bytes q \<inter> heap_space h = {}" "block_size (h_mem h1) q = 4080" "free_bytes (h_mem h1) bs = free_bytes (h_mem h) bs"
      "\<forall>x. unat x \<in> heap_space h \<longrightarrow> h_mem h1 x = h_mem h x"
    using extend_heap_spec [OF ok fp] by blast
  have "?need \<le> block_size (h_mem h1) q" using align_size_bounds(3) [OF sz] h1(5) by (simp add: word_le_nat_alt)
  then obtain p h' bs' where r: "kernel_malloc kpt sz h1 = Some (p, h')" "allocates kpt h1 (q # bs) (unat sz) p h' bs'"
    using malloc_fits [OF h1(2) sz] by auto
  have ch: "chain (h_mem h) (h_free h) bs" using ok by (simp add: heap_ok_def)
  have "h_free h1 \<noteq> 0" using h1(2) by (simp add: heap_ok_def)
  moreover have "find (\<lambda>b. block_size (h_mem h) b \<ge> ?need) bs = None" using unfit by (simp add: find_None_iff)
  ultimately have "kernel_malloc kpt sz h = kernel_malloc kpt sz h1"
    using malloc_unfold [of sz kpt h] sz find_first_fit [OF ch, of ?need] h1(1) by (simp add: Let_def)
  moreover have "extent (h_mem h1) q = page_bytes q" by (auto simp: extent_def h1(5) page_bytes_def)
  then have "allocated h1 (q # bs) = allocated h bs"
    using h1(3,4,6) by (auto simp: allocated_def heap_space_def)
  then have "allocates kpt h bs (unat sz) p h' bs'"
    using r(2) h1(7) unfolding allocates_def by (auto simp: allocated_def)
  ultimately show ?thesis using r(1) by auto
qed

section \<open>Release\<close>

lemma blocks_ok_Cons:
  "blocks_ok m (b # bs) S \<longleftrightarrow> blocks_ok m bs S \<and> b \<notin> set bs \<and> unat b mod 16 = 0 \<and> extent m b \<subseteq> S \<and>
     extent m b \<inter> free_bytes m bs = {}"
proof -
  have alt: "blocks_ok m bs S \<longleftrightarrow> distinct bs \<and> S \<subseteq> {1..<0x200000} \<and> (\<forall>b\<in>set bs. unat b mod 16 = 0 \<and> extent m b \<subseteq> S) \<and>
      pairwise (\<lambda>b b'. extent m b \<inter> extent m b' = {}) (set bs)" for bs
    by (simp add: blocks_ok_def pairwise_def)
  have "(\<forall>b'\<in>set bs. extent m b \<inter> extent m b' = {} \<and> extent m b' \<inter> extent m b = {}) \<longleftrightarrow> extent m b \<inter> free_bytes m bs = {}"
    by (auto simp: free_bytes_def)
  then show ?thesis by (auto simp add: alt pairwise_insert)
qed

lemma own_extent: "unat b \<in> extent m b"
  by (simp add: extent_def)

lemma not_member_extent: "extent m b \<inter> free_bytes m bs = {} \<Longrightarrow> b \<notin> set bs"
  using own_extent by (fastforce simp: free_bytes_def)

definition headers :: "addr list \<Rightarrow> nat set" where
  "headers bs = (\<Union>b\<in>set bs. {unat b..<unat b + 16})"

lemma headers_simps [simp]: "headers [] = {}" "headers (b # bs) = {unat b..<unat b + 16} \<union> headers bs"
  by (auto simp: headers_def)

lemma headers_free: "headers bs \<subseteq> free_bytes m bs"
  using extent_header by (fastforce simp: headers_def free_bytes_def)

text \<open>Joining a block with its successor in the list that also follows it in memory.\<close>

lemma join_blocks:
  assumes ok: "blocks_ok m (b # nx # bs) S" and ch: "chain m b (b # nx # bs)" and adj: "b + HEADER_SIZE + block_size m b = nx"
    and m': "m' = set_next b (block_next m nx) (set_size b (block_size m b + (HEADER_SIZE + block_size m nx)) m)"
  shows "blocks_ok m' (b # bs) S" and "chain m' b (b # bs)" and "free_bytes m' (b # bs) = free_bytes m (b # nx # bs)"
    and "\<forall>x. unat x \<notin> {unat b..<unat b + 16} \<longrightarrow> m' x = m x"
proof -
  note B = block_bounds [OF ok, of b] and N = block_bounds [OF ok, of nx]
  have nx: "unat nx = unat b + 16 + unat (block_size m b)"
    using B adj by (auto simp: heap_consts unat_word_ariths)
  have sz: "block_size m' b = block_size m b + (HEADER_SIZE + block_size m nx)" "block_next m' b = block_next m nx"
    using B by (simp_all add: m')
  have "unat (block_size m' b) = unat (block_size m b) + 16 + unat (block_size m nx)"
    using N B nx unfolding sz by (auto simp: heap_consts unat_word_ariths)
  then have ext: "extent m' b = extent m b \<union> extent m nx" using nx by (auto simp: extent_def)
  show out1: "\<forall>x. unat x \<notin> {unat b..<unat b + 16} \<longrightarrow> m' x = m x" using header_outside [of b] B by (simp add: m')
  have out: "m' x = m x" if "unat x \<notin> extent m b" for x using that extent_header out1 by blast
  have rest: "blocks_ok m bs S" "extent m b \<inter> free_bytes m bs = {}" "extent m nx \<inter> free_bytes m bs = {}"
    using ok by (auto simp: blocks_ok_Cons)
  have chr: "chain m (block_next m nx) bs" using ch by simp
  have "\<forall>b'\<in>set bs. \<forall>x. unat x \<in> extent m b' \<longrightarrow> m' x = m x" using out rest(2) by (auto simp: free_bytes_def)
  then have same: "block_next m' b' = block_next m b'" "extent m' b' = extent m b'" if "b' \<in> set bs" for b'
    using blocks_same [OF rest(1) that, of m'] that by blast+
  have fb: "free_bytes m' bs = free_bytes m bs" using same(2) by (simp add: free_bytes_def)
  have "blocks_ok m' bs S" using rest(1) same(2) by (simp add: blocks_ok_def)
  then show "blocks_ok m' (b # bs) S"
    using ok fb ext by (auto simp: blocks_ok_Cons)
  show "chain m' b (b # bs)" using ch chr chain_cong [of bs m' m] same(1) sz(2) by simp
  show "free_bytes m' (b # bs) = free_bytes m (b # nx # bs)" using ext fb by auto
qed

lemma coalesce_spec:
  "blocks_ok m bs S \<Longrightarrow> chain m a bs \<Longrightarrow>
   \<exists>m' bs'. coalesce m a = Some m' \<and> blocks_ok m' bs' S \<and> chain m' a bs' \<and> free_bytes m' bs' = free_bytes m bs \<and>
     (\<forall>x. unat x \<notin> headers bs \<longrightarrow> m' x = m x)"
proof (induction bs arbitrary: m a rule: length_induct)
  case (1 bs)
  show ?case
  proof (cases bs)
    case Nil
    then show ?thesis using "1.prems" by (intro exI [of _ m] exI [of _ "[]"]) (simp add: coalesce.simps)
  next
    case (Cons b cs)
    then have a: "a = b" "b \<noteq> 0" "chain m (block_next m b) cs" using "1.prems" by auto
    have step: "coalesce m a = (if block_next m b \<noteq> 0 \<and> b + HEADER_SIZE + block_size m b = block_next m b
        then coalesce (set_next b (block_next m (block_next m b))
               (set_size b (block_size m b + (HEADER_SIZE + block_size m (block_next m b))) m)) b
        else coalesce m (block_next m b))"
      using a by (subst coalesce.simps) (simp add: Let_def)
    show ?thesis
    proof (cases "block_next m b \<noteq> 0 \<and> b + HEADER_SIZE + block_size m b = block_next m b")
      case True
      then obtain nx ds where cs: "cs = nx # ds" "block_next m b = nx" using a(3) by (cases cs) auto
      define m1 where "m1 = set_next b (block_next m nx) (set_size b (block_size m b + (HEADER_SIZE + block_size m nx)) m)"
      have ok: "blocks_ok m (b # nx # ds) S" and ch: "chain m b (b # nx # ds)" using "1.prems" Cons cs a by auto
      note j = join_blocks [OF ok ch True [unfolded cs(2), THEN conjunct2] m1_def]
      obtain m' bs' where r: "coalesce m1 b = Some m'" "blocks_ok m' bs' S" "chain m' b bs'"
          "free_bytes m' bs' = free_bytes m1 (b # ds)" "\<forall>x. unat x \<notin> headers (b # ds) \<longrightarrow> m' x = m1 x"
        using "1.IH" [rule_format, of "b # ds" m1 b] j Cons cs(1) by auto
      have "coalesce m a = Some m'" using step True r(1) by (simp add: cs(2) m1_def)
      moreover have "free_bytes m' bs' = free_bytes m bs" unfolding r(4) j(3) Cons cs(1) ..
      moreover have "\<forall>x. unat x \<notin> headers bs \<longrightarrow> m' x = m x" using r(5) j(4) Cons cs(1) by simp
      ultimately show ?thesis using r(2,3) a(1) by blast
    next
      case False
      have ok: "blocks_ok m cs S" "extent m b \<inter> free_bytes m cs = {}" "extent m b \<subseteq> S" "unat b mod 16 = 0"
        using "1.prems"(1) Cons by (auto simp: blocks_ok_Cons)
      obtain m' cs' where r: "coalesce m (block_next m b) = Some m'" "blocks_ok m' cs' S" "chain m' (block_next m b) cs'"
          "free_bytes m' cs' = free_bytes m cs" "\<forall>x. unat x \<notin> headers cs \<longrightarrow> m' x = m x"
        using "1.IH" [rule_format, of cs m "block_next m b"] ok(1) a(3) Cons by auto
      have "\<And>x. unat x \<in> extent m b \<Longrightarrow> m' x = m x" using r(5) ok(2) headers_free [of cs m] by blast
      then have same: "block_next m' b = block_next m b" "extent m' b = extent m b"
        using blocks_same [OF "1.prems"(1), of b m'] Cons by auto
      have "blocks_ok m' (b # cs') S" "chain m' a (b # cs')"
        using r same ok a not_member_extent [of m' b cs'] by (auto simp: blocks_ok_Cons)
      then show ?thesis using step False r same Cons by (intro exI [of _ m'] exI [of _ "b # cs'"]) auto
    qed
  qed
qed

text \<open>A cleared block put in front of the free list.\<close>

lemma put_in_front:
  assumes ch: "chain m a bs" and bl: "blocks_ok m bs S" and b: "unat b mod 16 = 0"
    and S: "extent m b \<subseteq> S" "extent m b \<inter> free_bytes m bs = {}"
    and m': "m' = set_next b a (memset (b + 16) 0 (unat (block_size m b)) m)"
  shows "blocks_ok m' (b # bs) S" and "chain m' b (b # bs)" and "free_bytes m' (b # bs) = extent m b \<union> free_bytes m bs"
    and "\<forall>x. unat x \<notin> extent m b \<longrightarrow> m' x = m x" and "\<forall>x. unat x \<in> extent m b \<and> unat b + 16 \<le> unat x \<longrightarrow> m' x = 0"
    and "b \<noteq> 0" and "unat b + 16 + unat (block_size m b) \<le> 0x200000"
proof -
  let ?sz = "unat (block_size m b)"
  have bd: "unat b \<noteq> 0" "unat b + 16 + ?sz \<le> 0x200000"
    using block_bounds(1,2) [of m "[b]" S b] S b bl by (auto simp: blocks_ok_def)
  then show b0: "b \<noteq> 0" and "unat b + 16 + ?sz \<le> 0x200000" by auto
  define m1 where "m1 = memset (b + 16) 0 ?sz m"
  have p: "unat (b + 16) = unat b + 16" using bd by (simp add: unat_word_ariths)
  have b16: "unat b + 16 \<le> 2 ^ 64" "unat (b + 16) + ?sz \<le> 2 ^ 64" using bd p by auto
  have m1: "m1 x = (if unat x \<in> extent m b \<and> unat b + 16 \<le> unat x then 0 else m x)" for x
    using memset_inside [OF b16(2), of x 0 m] memset_nat_outside [OF b16(2), of x 0 m] p by (auto simp: m1_def extent_def)
  have "block_size m1 b = block_size m b" using header_cong(1) [OF b16(1), of m1 m] m1 by auto
  then have h2: "block_size m' b = block_size m b" "block_next m' b = a" using b16(1) by (simp_all add: m' m1_def [symmetric])
  have ext: "extent m' b = extent m b" by (simp add: extent_def h2)
  have m2: "m' x = m1 x" if "unat x \<notin> {unat b..<unat b + 16}" for x
    using header_outside(2) [OF b16(1) that] by (simp add: m' m1_def)
  show out: "\<forall>x. unat x \<notin> extent m b \<longrightarrow> m' x = m x"
  proof (intro allI impI)
    fix x :: addr assume x: "unat x \<notin> extent m b"
    then have "unat x \<notin> {unat b..<unat b + 16}" using extent_header by blast
    then show "m' x = m x" using m1 [of x] m2 x by simp
  qed
  show "\<forall>x. unat x \<in> extent m b \<and> unat b + 16 \<le> unat x \<longrightarrow> m' x = 0" using m1 m2 by auto
  have "\<forall>b'\<in>set bs. \<forall>x. unat x \<in> extent m b' \<longrightarrow> m' x = m x" using out S(2) by (auto simp: free_bytes_def)
  then have same: "block_next m' b' = block_next m b'" "extent m' b' = extent m b'" if "b' \<in> set bs" for b'
    using blocks_same [OF bl that, of m'] that by blast+
  then show fb: "free_bytes m' (b # bs) = extent m b \<union> free_bytes m bs" using ext by (simp add: free_bytes_def)
  have "free_bytes m' bs = free_bytes m bs" using same(2) by (simp add: free_bytes_def)
  moreover have "blocks_ok m' bs S" using bl same(2) by (simp add: blocks_ok_def)
  ultimately show "blocks_ok m' (b # bs) S"
    using b S ext not_member_extent [of m' b bs] by (auto simp: blocks_ok_Cons)
  show "chain m' b (b # bs)" using ch chain_cong [of bs m' m] same(1) h2(2) b0 by auto
qed

lemma heap_address_valid:
  assumes ok: "heap_ok kpt h bs" and "unat b \<in> heap_space h"
  shows "list_ex (\<lambda>page. b \<ge> page \<and> b < page + of_nat PAGESIZE) (h_pages h)"
proof -
  obtain pg where pg: "pg \<in> set (h_pages h)" "unat b \<in> page_bytes pg" using assms(2) by (auto simp: heap_space_def)
  then have "unat (pg + of_nat PAGESIZE) = unat pg + 4096"
    using used_page_bounds(2) [of "h_phys h" pg] ok by (auto simp: heap_ok_def PAGESIZE_def unat_word_ariths)
  then have "b \<ge> pg \<and> b < pg + of_nat PAGESIZE" using pg(2) by (simp add: page_bytes_def word_le_nat_alt word_less_nat_alt)
  then show ?thesis using pg(1) by (auto simp: list_ex_iff)
qed

lemma kernel_free_spec:
  assumes ok: "heap_ok kpt h bs" and b: "unat b mod 16 = 0" "block_next (h_mem h) b = 0"
    and ext: "extent (h_mem h) b \<subseteq> allocated h bs"
  shows "\<exists>h' bs'. kernel_free (b + 16) h = Some h' \<and> heap_ok kpt h' bs' \<and>
    allocated h' bs' = allocated h bs - extent (h_mem h) b \<and>
    (\<forall>x. unat x \<in> allocated h' bs' \<longrightarrow> h_mem h' x = h_mem h x) \<and>
    (\<forall>x. unat x \<in> extent (h_mem h) b \<and> unat b + 16 \<le> unat x \<longrightarrow> h_mem h' x = 0)"
proof -
  let ?m = "h_mem h" and ?S = "heap_space h"
  have ch: "chain ?m (h_free h) bs" and bl: "blocks_ok ?m bs ?S" using ok by (auto simp: heap_ok_def)
  have S: "extent ?m b \<subseteq> ?S" "extent ?m b \<inter> free_bytes ?m bs = {}" using ext by (auto simp: allocated_def)
  define m2 where "m2 = set_next b (h_free h) (memset (b + 16) 0 (unat (block_size ?m b)) ?m)"
  note f = put_in_front [OF ch bl b(1) S m2_def]
  have "unat (b + 16) \<noteq> 0" using f(7) by (simp add: unat_word_ariths)
  then have p: "b + 16 \<noteq> 0" by auto
  obtain m' bs' where r: "coalesce m2 b = Some m'" "blocks_ok m' bs' ?S" "chain m' b bs'"
      "free_bytes m' bs' = extent ?m b \<union> free_bytes ?m bs" "\<forall>x. unat x \<notin> headers (b # bs) \<longrightarrow> m' x = m2 x"
    using coalesce_spec [OF f(1,2)] f(3) by auto
  define h' where "h' = (with_mem m' h)\<lparr>h_free := b\<rparr>"
  have h': "h_mem h' = m'" "h_pages h' = h_pages h" "h_free h' = b" "\<exists>m. h_phys h' = (h_phys h)\<lparr>p_mem := m\<rparr>"
    by (auto simp: h'_def with_mem_def)
  have "headers (b # bs) \<subseteq> extent ?m b \<union> free_bytes ?m bs" using headers_free [of bs ?m] extent_header [of b ?m] by auto
  then have out: "m' x = ?m x" if "unat x \<notin> extent ?m b \<union> free_bytes ?m bs" for x using that r(5) f(4) by (metis UnCI subsetD)
  have "free_bytes ?m bs \<subseteq> ?S" using bl by (auto simp: free_bytes_def blocks_ok_def)
  then have "heap_ok kpt h' bs'"
    using heap_ok_change [OF ok h'(2,4)] r(2,3) out S(1) unfolding h'(1,3) by blast
  moreover have "heap_space h' = ?S" using h'(2) by (simp add: heap_space_def)
  then have al: "allocated h' bs' = allocated h bs - extent ?m b" using r(4) by (auto simp: allocated_def h'(1))
  moreover have "kernel_free (b + 16) h = Some h'"
    using p heap_address_valid [OF ok, of b] S(1) own_extent [of b ?m] b(2) r(1)
    by (auto simp: kernel_free_def HEADER_SIZE_def Let_def m2_def [symmetric] h'_def)
  moreover have "m' x = 0" if "unat x \<in> extent ?m b" "unat b + 16 \<le> unat x" for x
  proof -
    have "unat x \<notin> headers (b # bs)" using that S(2) headers_free [of bs ?m] by auto
    then show ?thesis using r(5) f(5) that by auto
  qed
  moreover have "m' x = ?m x" if "unat x \<in> allocated h' bs'" for x using that out unfolding al by (auto simp: allocated_def)
  ultimately show ?thesis using h'(1) by auto
qed

section \<open>Properties\<close>

text \<open>
  C24: \<open>kernel_malloc\<close> of 1 to 4064 bytes returns whenever a free block is large enough or a physical page is free. The pointer it
  returns is 16-byte aligned and not null; the block behind it, header included, was free or is on a new
  page and is no longer free; its bytes are zero; everything that was allocated before stays allocated
  and unchanged; and the heap stays well-formed.
\<close>

theorem kernel_malloc_correct:
  assumes "heap_ok kpt h bs" and "0 < unat sz" and "unat sz \<le> 4064"
    and "(\<exists>b\<in>set bs. align_size (sz + HEADER_SIZE) \<le> block_size (h_mem h) b) \<or> (\<exists>pn. free_page (h_phys h) pn)"
  shows "\<exists>p h' bs'. kernel_malloc kpt sz h = Some (p, h') \<and> heap_ok kpt h' bs' \<and> p \<noteq> 0 \<and> unat p mod 16 = 0 \<and>
     {unat p - 16..<unat p + unat sz} \<subseteq> allocated h' bs' - allocated h bs \<and>
     (\<forall>x. unat x \<in> allocated h bs \<longrightarrow> unat x \<in> allocated h' bs' \<and> h_mem h' x = h_mem h x) \<and>
     (\<forall>x. unat x \<in> {unat p..<unat p + unat sz} \<longrightarrow> h_mem h' x = 0)"
  using malloc_fits [OF assms(1-3)] malloc_extends [OF assms(1-3)] assms(4) unfolding allocates_def by blast

lemma empty_heap_ok:
  "heap_ok 0x40000 \<lparr>h_phys = pageinfo_init 0x60000 boot_phys, h_pages = [], h_free = 0\<rparr> []"
  using boot_phys_init_ok initial_table_wf [of "0x60000" "0x40000"]
  by (simp add: heap_ok_def blocks_ok_def heap_space_def)

lemma boot_free_page: "free_page (pageinfo_init 0x60000 boot_phys) 1"
  by (simp add: free_page_def NPAGES_def boot_phys_init_nth initial_pageinfo_def initial_owner_def PAGEADDRESS_def
      physical_memory_isreserved_def page_consts PO_FREE_def)

theorem kernel_malloc_correct_witness:
  "\<exists>p h'. kernel_malloc 0x40000 100 \<lparr>h_phys = pageinfo_init 0x60000 boot_phys, h_pages = [], h_free = 0\<rparr> = Some (p, h') \<and>
     p \<noteq> 0 \<and> (\<forall>x. unat x \<in> {unat p..<unat p + 100} \<longrightarrow> h_mem h' x = 0)"
proof -
  have "\<exists>pn. free_page (pageinfo_init 0x60000 boot_phys) pn" using boot_free_page by blast
  then show ?thesis using kernel_malloc_correct [OF empty_heap_ok, of 100] by (simp, blast)
qed

lemma extend_exhausted:
  assumes "phys_ok (h_phys h)" and "\<forall>pn. \<not> free_page (h_phys h) pn"
  shows "extend_heap kpt h = Some h"
  using assms by (rule_tac page_alloc_cases [OF assms(1), of "scast PO_KERNEL_HEAP"]) (auto simp: extend_heap_def)

lemma malloc_diverges:
  assumes "kernel_malloc kpt sz h = Some y"
  shows "0 < unat sz \<Longrightarrow> unat sz \<le> 4080 \<Longrightarrow> extend_heap kpt h = Some h \<Longrightarrow> h_free h \<noteq> 0 \<Longrightarrow>
    find_block (h_mem h) (align_size (sz + HEADER_SIZE)) None (h_free h) = Some None \<Longrightarrow> False"
  using assms
proof (induction rule: kernel_malloc.raw_induct [rotated 1, consumes 1, case_names 1])
  case (1 f kpt sz h y)
  have "sz \<noteq> 0" "\<not> sz > of_nat PAGESIZE - HEADER_SIZE"
    using "1.prems"(1,2) by (auto simp: word_less_nat_alt PAGESIZE_def heap_consts)
  then show ?case using 1 by (cases y) (auto simp: Let_def)
qed

text \<open>
  C25: Out of memory. When no free block fits and no physical page is free, \<open>kernel_malloc\<close> returns NULL if the free list is empty;
  if the free list is not empty it calls itself again for ever.
\<close>

theorem kernel_malloc_exhausted:
  assumes "heap_ok kpt h bs" and "0 < unat sz" and "unat sz \<le> 4080"
    and "\<forall>b\<in>set bs. \<not> align_size (sz + HEADER_SIZE) \<le> block_size (h_mem h) b" and "\<forall>pn. \<not> free_page (h_phys h) pn"
  shows "kernel_malloc kpt sz h = (if h_free h = 0 then Some (0, h) else None)"
proof -
  have ch: "chain (h_mem h) (h_free h) bs" and ph: "phys_ok (h_phys h)" using assms(1) by (auto simp: heap_ok_def)
  have "find (\<lambda>b. block_size (h_mem h) b \<ge> align_size (sz + HEADER_SIZE)) bs = None" using assms(4) by (simp add: find_None_iff)
  then have f: "find_block (h_mem h) (align_size (sz + HEADER_SIZE)) None (h_free h) = Some None"
    using find_first_fit [OF ch] by simp
  note e = extend_exhausted [OF ph assms(5), of kpt]
  have "kernel_malloc kpt sz h = None" if "h_free h \<noteq> 0"
    using malloc_diverges [OF _ assms(2,3) e that f] by (meson not_None_eq)
  moreover have "kernel_malloc kpt sz h = Some (0, h)" if "h_free h = 0"
    by (subst malloc_unfold [OF assms(2,3)]) (simp add: f [unfolded that] e that Let_def)
  ultimately show ?thesis by simp
qed

text \<open>A heap of one page with one free block of 16 bytes, when every page is in use.\<close>

definition full_heap :: heap where
  "full_heap = \<lparr>h_phys = \<lparr>p_mem = (\<lambda>x. if x = 0x100000 then 16 else 0),
       pageinfo = replicate NPAGES \<lparr>owner = PO_KERNEL, refcount = 1\<rparr>, pageno = 0\<rparr>,
     h_pages = [0x100000], h_free = 0x100000\<rparr>"

lemma full_heap_block: "block_size (h_mem full_heap) 0x100000 = 16" "block_next (h_mem full_heap) 0x100000 = 0"
  by (simp_all add: full_heap_def block_size_def block_next_def load64_def load_bytes_def upt_rec)

lemma full_heap_pages: "\<not> free_page (h_phys full_heap) pn" "phys_ok (h_phys full_heap)"
  by (simp_all add: full_heap_def free_page_def phys_ok_def page_ok_def PO_KERNEL_def PO_FREE_def list_all_length NPAGES_def)

lemma full_heap_used: "pn < 512 \<Longrightarrow> PAGEADDRESS pn \<in> used_pages (h_phys full_heap)"
  using full_heap_pages(1) by (simp add: used_pages_def NPAGES_def)

lemma full_heap_table:
  "pt_wf (entry (h_mem full_heap)) 0x40000 (used_pages (h_phys full_heap))" "tables (h_mem full_heap) 0x40000 \<subseteq> {0x40000}"
proof -
  have e: "entry (h_mem full_heap) 0x40000 i = 0" if "i < 512" for i
  proof -
    have b: "unat (0x40000 + 8 * of_nat i :: addr) + 8 \<le> 0x42000" using that by (simp add: unat_word_ariths unat_of_nat)
    have "x \<noteq> 0x100000" if "x \<in> rgn (0x40000 + 8 * of_nat i) 8" for x
      using that rgn_nat [of "0x40000 + 8 * of_nat i" 8 x] b by auto
    then show ?thesis unfolding entry_def by (intro load64_zero) (auto simp: full_heap_def)
  qed
  have "0x40000 \<in> used_pages (h_phys full_heap)" using full_heap_used [of 64] by (simp add: PAGEADDRESS_def)
  then show "pt_wf (entry (h_mem full_heap)) 0x40000 (used_pages (h_phys full_heap))"
    by (intro pt_wf_empty) (simp_all add: e page_aligned_unat MEMSIZE_PHYSICAL_def)
  have "walk (entry (h_mem full_heap)) 0x40000 va k = (if k = 0 then Some 0x40000 else None)" for va k
    by (induction k) (simp_all add: e PAGEINDEX_less)
  then show "tables (h_mem full_heap) 0x40000 \<subseteq> {0x40000}" by (auto simp: tables_def)
qed

lemma full_heap_space: "heap_space full_heap = {0x100000..<0x101000}" "extent (h_mem full_heap) 0x100000 = {0x100000..<0x100020}"
  by (simp_all add: extent_def full_heap_block) (simp add: heap_space_def page_bytes_def full_heap_def)

lemma full_heap_ok_with:
  assumes "chain (h_mem full_heap) f bs" and "set bs \<subseteq> {0x100000}" and "distinct bs"
  shows "heap_ok 0x40000 (full_heap\<lparr>h_free := f\<rparr>) bs"
proof -
  have sp: "heap_space (full_heap\<lparr>h_free := f\<rparr>) = {0x100000..<0x101000}"
    using full_heap_space(1) by (simp add: heap_space_def)
  have only: "b = 0x100000" if "b \<in> set bs" for b using that assms(2) by blast
  have "unat b mod 16 = 0" "extent (h_mem full_heap) b \<subseteq> {0x100000..<0x101000}" if "b \<in> set bs" for b
    by (simp_all only: only [OF that] full_heap_space) simp_all
  moreover have "b = b'" if "b \<in> set bs" "b' \<in> set bs" for b b' using that [THEN only] by simp
  ultimately have "blocks_ok (h_mem full_heap) bs {0x100000..<0x101000}"
    using assms(3) unfolding blocks_ok_def by auto
  moreover have "h_pages full_heap = [0x100000]" by (simp add: full_heap_def)
  moreover have "0x100000 \<in> used_pages (h_phys full_heap)" using full_heap_used [of 256] by (simp add: PAGEADDRESS_def)
  ultimately show ?thesis
    using assms(1) full_heap_table full_heap_pages(2) sp unfolding heap_ok_def by (auto simp: page_aligned_unat)
qed

lemma full_heap_ok: "heap_ok 0x40000 full_heap [0x100000]"
  using full_heap_ok_with [of "0x100000" "[0x100000]"] full_heap_block by (simp add: full_heap_def)

theorem kernel_malloc_exhausted_witness: "kernel_malloc 0x40000 100 full_heap = None"
proof -
  have "unat (align_size (100 + HEADER_SIZE)) \<ge> 116" using align_size_bounds(4) [of 100] by simp
  then have "\<not> align_size (100 + HEADER_SIZE) \<le> 16" by (auto simp: word_le_nat_alt)
  then show ?thesis
    using kernel_malloc_exhausted [OF full_heap_ok, of 100] full_heap_block full_heap_pages(1) by (simp add: full_heap_def)
qed

text \<open>
  C26: Releasing a block. \<open>kernel_free\<close> of the payload pointer of an allocated block returns; exactly the bytes of this block become
  free, its payload is zeroed, all other allocated bytes keep their contents, and the heap stays
  well-formed, with adjacent blocks of the list merged.
\<close>

theorem kernel_free_correct:
  assumes "heap_ok kpt h bs" and "unat b mod 16 = 0" and "block_next (h_mem h) b = 0"
    and "extent (h_mem h) b \<subseteq> allocated h bs"
  shows "\<exists>h' bs'. kernel_free (b + 16) h = Some h' \<and> heap_ok kpt h' bs' \<and>
    allocated h' bs' = allocated h bs - extent (h_mem h) b \<and>
    (\<forall>x. unat x \<in> allocated h' bs' \<longrightarrow> h_mem h' x = h_mem h x) \<and>
    (\<forall>x. unat x \<in> extent (h_mem h) b \<and> unat b + 16 \<le> unat x \<longrightarrow> h_mem h' x = 0)"
  using assms by (rule kernel_free_spec)

theorem kernel_free_correct_witness:
  "\<exists>h' bs'. kernel_free 0x100010 (full_heap\<lparr>h_free := 0\<rparr>) = Some h' \<and> allocated h' bs' = {0x100020..<0x101000}"
proof -
  let ?h = "full_heap\<lparr>h_free := 0\<rparr>"
  have ok: "heap_ok 0x40000 ?h []" using full_heap_ok_with [of 0 "[]"] by simp
  have al: "allocated ?h [] = {0x100000..<0x101000}"
    using full_heap_space(1) by (simp add: allocated_def heap_space_def)
  have "extent (h_mem ?h) 0x100000 = {0x100000..<0x100020}" using full_heap_space(2) by simp
  then show ?thesis
    using kernel_free_correct [OF ok, of "0x100000"] al full_heap_block(2) by (auto simp: ivl_diff)
qed

end
