(* ===== verification/Address_Spaces_Correct.thy ===== *)
theory Address_Spaces_Correct
  imports Address_Spaces Kernel_Heap_Correct Input
begin

unbundle bit_operations_syntax

text \<open>
  The kernel page table after boot: it is well-formed, maps physical memory to itself, and passes the
  checks that the kernel makes at every exception.
\<close>

section \<open>The initial tables\<close>

text \<open>
  What the linker script guarantees: the kernel lies between \<open>KERNEL_START_ADDR\<close> and the page of its stack,
  and the page tables are page-aligned.
\<close>

definition image_ok :: "image \<Rightarrow> bool" where
  "image_ok img \<longleftrightarrow> page_aligned (kernel_pagetable img) \<and> 0x40000 \<le> unat (kernel_pagetable img) \<and>
     unat (kernel_pagetable img) + 0x5000 \<le> unat (img_end img) \<and> unat (img_end img) \<le> 0x9F000 \<and>
     (\<forall>a\<in>{img_default_int_handler img, img_virtual_memory_map img}. 0x40000 \<le> unat a \<and> unat a < unat (img_end img))"

lemma kernel_pagetables_addr:
  assumes "image_ok img" and "i < 5"
  shows "unat (kernel_pagetables img i) = unat (kernel_pagetable img) + i * 4096"
    and "page_aligned (kernel_pagetables img i)" and "kernel_pagetables img i < MEMSIZE_PHYSICAL"
    and "kernel_pagetables img i \<noteq> 0"
proof -
  have b: "unat (kernel_pagetable img) + 0x5000 \<le> 0x9F000" "0x40000 \<le> unat (kernel_pagetable img)"
    using assms(1) by (simp_all add: image_ok_def)
  show u: "unat (kernel_pagetables img i) = unat (kernel_pagetable img) + i * 4096"
    using b assms(2) by (simp add: kernel_pagetables_def PAGESIZE_def unat_word_ariths unat_of_nat)
  show "page_aligned (kernel_pagetables img i)" using assms(1) by (simp add: page_aligned_unat u image_ok_def)
  show "kernel_pagetables img i < MEMSIZE_PHYSICAL" using u b assms(2) by (simp add: word_less_nat_alt MEMSIZE_PHYSICAL_def)
  show "kernel_pagetables img i \<noteq> 0" using u b by (auto simp: word_unat_eq_iff)
qed

lemma kernel_pagetables_eq_iff:
  "image_ok img \<Longrightarrow> i < 5 \<Longrightarrow> j < 5 \<Longrightarrow> kernel_pagetables img i = kernel_pagetables img j \<longleftrightarrow> i = j"
  using kernel_pagetables_addr(1) [of img i] kernel_pagetables_addr(1) [of img j] by (auto simp: word_unat_eq_iff)

lemma PTE_ADDR_aligned: "page_aligned p \<Longrightarrow> PTE_ADDR p = p"
  using entry_parts(1) [of p 0 0] by simp

lemma entry_present:
  assumes "page_aligned p"
  shows "(p OR PTE_P OR PTE_W OR PTE_U) AND PTE_P \<noteq> 0" and "PTE_ADDR (p OR PTE_P OR PTE_W OR PTE_U) = p"
    and "(p OR PTE_P OR PTE_W OR PTE_U) AND 7 = 7"
proof -
  have "PTE_ADDR p = p" using PTE_ADDR_aligned [OF assms] .
  then show "(p OR PTE_P OR PTE_W OR PTE_U) AND PTE_P \<noteq> 0" "PTE_ADDR (p OR PTE_P OR PTE_W OR PTE_U) = p"
      "(p OR PTE_P OR PTE_W OR PTE_U) AND 7 = 7"
    using PTE_ADDR_or_7 [OF assms] by simp_all
qed

lemma init_tables_entry:
  assumes img: "image_ok img" and "j < 5" and "i < 512"
  shows "entry (init_tables img m) (kernel_pagetables img j) i =
    (if j < 2 \<and> i = 0 \<or> j = 2 \<and> i < 2 then kernel_pagetables img (j + 1 + i) OR PTE_P OR PTE_W OR PTE_U else 0)"
proof -
  let ?T = "kernel_pagetables img"
  have al: "page_aligned (?T k)" if "k < 5" for k using kernel_pagetables_addr(2) [OF img that] .
  have T0: "?T 0 = kernel_pagetable img" by (simp add: kernel_pagetables_def)
  have z: "entry (memset (?T 0) 0 (5 * PAGESIZE) m) (?T j) i = 0"
  proof (unfold entry_def, rule load64_zero)
    fix x assume x: "x \<in> rgn (?T j + 8 * of_nat i) 8"
    then have "x \<in> rgn (?T j) 4096" using entry_rgn [OF al] assms by blast
    then have "unat x \<in> {unat (?T 0)..<unat (?T 0) + 5 * PAGESIZE}"
      using unat_aligned_bound [OF al [OF assms(2)]] kernel_pagetables_addr(1) [OF img] assms(2)
      by (simp add: rgn_nat PAGESIZE_def T0)
    then show "memset (?T 0) 0 (5 * PAGESIZE) m x = 0"
      using img by (subst memset_inside) (auto simp: T0 image_ok_def PAGESIZE_def)
  qed
  note eq = kernel_pagetables_eq_iff [OF img]
  have "entry (init_tables img m) (?T j) i =
      (if j = 2 \<and> i = 1 then ?T 4 OR PTE_P OR PTE_W OR PTE_U else if j = 2 \<and> i = 0 then ?T 3 OR PTE_P OR PTE_W OR PTE_U
       else if j = 1 \<and> i = 0 then ?T 2 OR PTE_P OR PTE_W OR PTE_U
       else if j = 0 \<and> i = 0 then ?T 1 OR PTE_P OR PTE_W OR PTE_U else 0)"
    using assms(2,3) by (simp add: init_tables_def Let_def entry_set_entry al eq z del: One_nat_def)
  then show ?thesis by (auto simp: less_2_cases_iff eval_nat_numeral)
qed

lemma init_tables_walk:
  fixes m :: mem and va :: addr
  assumes "image_ok img"
  defines "E \<equiv> entry (init_tables img m)" and "T \<equiv> kernel_pagetables img"
  shows "walk E (T 0) va 1 = (if PAGEINDEX va 0 = 0 then Some (T 1) else None)"
    and "walk E (T 0) va 2 = (if PAGEINDEX va 0 = 0 \<and> PAGEINDEX va 1 = 0 then Some (T 2) else None)"
    and "walk E (T 0) va 3 = (if PAGEINDEX va 0 = 0 \<and> PAGEINDEX va 1 = 0 \<and> PAGEINDEX va 2 < 2
           then Some (T (3 + PAGEINDEX va 2)) else None)"
proof -
  have al: "page_aligned (T j)" if "j < 5" for j using kernel_pagetables_addr(2) assms that by simp
  have E: "E (T j) i = (if j < 2 \<and> i = 0 \<or> j = 2 \<and> i < 2 then T (j + 1 + i) OR PTE_P OR PTE_W OR PTE_U else 0)"
    if "j < 5" "i < 512" for j i
    using init_tables_entry [OF assms(1) that] by (simp add: E_def T_def)
  have p: "(T j OR PTE_P OR PTE_W OR PTE_U) AND PTE_P \<noteq> 0" "PTE_ADDR (T j OR PTE_P OR PTE_W OR PTE_U) = T j" if "j < 5" for j
    using entry_present [OF al [OF that]] by simp_all
  show 1: "walk E (T 0) va 1 = (if PAGEINDEX va 0 = 0 then Some (T 1) else None)"
    using p [of 1] by (simp add: E PAGEINDEX_less)
  then show 2: "walk E (T 0) va 2 = (if PAGEINDEX va 0 = 0 \<and> PAGEINDEX va 1 = 0 then Some (T 2) else None)"
    using p [of 2] by (simp add: numeral_2_eq_2 E PAGEINDEX_less)
  then show "walk E (T 0) va 3 = (if PAGEINDEX va 0 = 0 \<and> PAGEINDEX va 1 = 0 \<and> PAGEINDEX va 2 < 2
           then Some (T (3 + PAGEINDEX va 2)) else None)"
    using p [of "3 + PAGEINDEX va 2"] by (simp add: numeral_3_eq_3 numeral_2_eq_2 E PAGEINDEX_less)
qed

lemma walk_levels:
  "k \<le> 3 \<Longrightarrow> k = 0 \<or> k = 1 \<or> k = 2 \<or> k = (3 :: nat)"
  by linarith

lemma init_tables_wf:
  assumes img: "image_ok img" and U: "\<And>j. j < 5 \<Longrightarrow> kernel_pagetables img j \<in> U"
  shows "pt_wf (entry (init_tables img m)) (kernel_pagetable img) U"
    and "tables (init_tables img m) (kernel_pagetable img) = kernel_pagetables img ` {..<5}"
proof -
  define E where "E = entry (init_tables img m)"
  define T where "T = kernel_pagetables img"
  define level where "level va k = (if k < 3 then k else 3 + PAGEINDEX va 2)" for va :: addr and k :: nat
  have T0: "kernel_pagetable img = T 0" by (simp add: T_def kernel_pagetables_def)
  have w: "walk E (T 0) va k = Some t \<longleftrightarrow> t = T (level va k) \<and> level va k < 5 \<and> (\<forall>j<min k 2. PAGEINDEX va j = 0)"
    if "k \<le> 3" for va k t
    using walk_levels [OF that] init_tables_walk [OF img, of m va, folded E_def T_def]
    by (elim disjE) (auto simp: level_def less_2_cases_iff)
  have inj: "T i = T j \<longleftrightarrow> i = j" if "i < 5" "j < 5" for i j
    using kernel_pagetables_eq_iff [OF img that] by (simp add: T_def)
  have path: "k = k' \<and> same_path k va va'" if "k \<le> 3" "k' \<le> 3" "walk E (T 0) va k = Some t" "walk E (T 0) va' k' = Some t"
    for va va' k k' t
  proof -
    note w1 = w [OF that(1), THEN iffD1, OF that(3)] and w2 = w [OF that(2), THEN iffD1, OF that(4)]
    have l: "level va k = level va' k'" using w1 w2 inj by metis
    then have "k = k'" using that(1,2) by (auto simp: level_def split: if_splits)
    moreover have "PAGEINDEX va j = PAGEINDEX va' j" if j: "j < k" for j
    proof (cases "j < 2")
      case True
      then show ?thesis using w1 w2 j \<open>k = k'\<close> by simp
    next
      case False
      then have "j = 2" "k = 3" using j \<open>k \<le> 3\<close> by linarith+
      then show ?thesis using l \<open>k = k'\<close> by (simp add: level_def)
    qed
    ultimately show ?thesis by (simp add: same_path_def)
  qed
  have full: "E t (PAGEINDEX va k) AND 7 = 7"
    if "k < 3" "walk E (T 0) va k = Some t" "E t (PAGEINDEX va k) AND PTE_P \<noteq> 0" for va k t
  proof -
    have t: "t = T k" using w [of k va t] that(1,2) by (simp add: level_def)
    have "E (T k) (PAGEINDEX va k) \<noteq> 0" using that(3) t by auto
    then have "E (T k) (PAGEINDEX va k) = T (k + 1 + PAGEINDEX va k) OR PTE_P OR PTE_W OR PTE_U" "k + 1 + PAGEINDEX va k < 5"
      using init_tables_entry [OF img, of k "PAGEINDEX va k" m] that(1) PAGEINDEX_less by (auto simp: E_def T_def split: if_splits)
    then show ?thesis
      using entry_present(3) [OF kernel_pagetables_addr(2) [OF img, of "k + 1 + PAGEINDEX va k"]] t by (simp add: T_def)
  qed
  have tab: "t \<in> U \<and> page_aligned t \<and> t < MEMSIZE_PHYSICAL \<and> t \<noteq> 0" if "k \<le> 3" "walk E (T 0) va k = Some t" for va k t
    using w [OF that(1), THEN iffD1, OF that(2)] U kernel_pagetables_addr [OF img] by (auto simp: T_def)
  show "pt_wf (entry (init_tables img m)) (kernel_pagetable img) U"
    unfolding pt_wf_def E_def [symmetric] T0 using tab path full by blast
  have in_tab: "T j \<in> tables (init_tables img m) (T 0)" if j: "j < 5" for j
  proof -
    have "\<exists>va k. k \<le> 3 \<and> walk E (T 0) va k = Some (T j)"
    proof (cases "j < 3")
      case True
      then show ?thesis by (intro exI [of _ 0] exI [of _ j]) (simp add: w level_def PAGEINDEX_nat)
    next
      case False
      then have "j - 3 < 2" "3 + (j - 3) = j" using j by simp_all
      moreover have "PAGEINDEX (push_bit 21 (of_nat (j - 3))) 2 = j - 3" "PAGEINDEX (push_bit 21 (of_nat (j - 3))) 0 = 0"
          "PAGEINDEX (push_bit 21 (of_nat (j - 3))) 1 = 0"
        using \<open>j - 3 < 2\<close> by (auto simp: less_2_cases_iff PAGEINDEX_nat push_bit_eq_mult)
      ultimately show ?thesis
        by (intro exI [of _ "push_bit 21 (of_nat (j - 3))"] exI [of _ 3]) (simp add: w level_def less_2_cases_iff j)
    qed
    then show ?thesis by (auto simp: tables_def E_def)
  qed
  show "tables (init_tables img m) (kernel_pagetable img) = kernel_pagetables img ` {..<5}"
    using in_tab w unfolding T0 by (auto simp: tables_def E_def T_def)
qed

section \<open>Mapping without an allocator\<close>

text \<open>A null allocator is a source of pages that never delivers.\<close>

interpretation no_pages: page_source "\<lambda>w st. (0, st)" "\<lambda>st. True" "\<lambda>st. U" "\<lambda>w. True" for U :: "addr set"
  by unfold_locales auto

lemma map_without_allocator:
  assumes wf: "pt_wf (entry (p_mem st)) pt U" and a: "map_asserts pt va pad sz (scast pm)"
    and "unat va + unat sz \<le> 2 ^ 48"
  obtains r m' where "virtual_memory_map pt va pad sz pm None st = Some (r, st\<lparr>p_mem := m'\<rparr>)"
    and "r = 0 \<or> (\<exists>va'. unat va \<le> unat va' \<and> unat va' < unat va + unat sz \<and> walk (entry m') pt va' 3 = None)"
    and "pt_grows pt (p_mem st) U m' U"
    and "\<And>va'. unat va' < 2 ^ 48 \<Longrightarrow>
       (if unat va \<le> unat va' \<and> unat va' < unat va + unat sz
        then r = 0 \<longrightarrow> vam_of (leaf (entry m') pt va') va' =
                       vam_of (mapped_entry pad (scast pm) (unat va' - unat va)) va'
        else vam_of (leaf (entry m') pt va') va' = vam_of (leaf (entry (p_mem st)) pt va') va')"
proof -
  have b: "unat va + unat sz div 4096 * 4096 \<le> 2 ^ 48" using assms(3) map_asserts_facts(3) [OF a] by simp
  have c: "cache_ok (p_mem st) pt (scast pm) (- 1) 0" by (simp add: cache_ok_def)
  obtain r st' where l: "map_loop (unat sz div 4096) pt va pad (scast pm) None (- 1) 0 st = Some (r, st')"
      "r = 0 \<or> (\<exists>va'. unat va \<le> unat va' \<and> unat va' < unat va + unat sz \<and> walk (entry (p_mem st')) pt va' 3 = None)"
      "pt_grows pt (p_mem st) U (p_mem st') U"
      "\<And>va'. unat va' < 2 ^ 48 \<Longrightarrow>
       (if unat va \<le> unat va' \<and> unat va' < unat va + unat sz
        then r = 0 \<longrightarrow> vam_of (leaf (entry (p_mem st')) pt va') va' =
                       vam_of (mapped_entry pad (scast pm) (unat va' - unat va)) va'
        else vam_of (leaf (entry (p_mem st')) pt va') va' = vam_of (leaf (entry (p_mem st)) pt va') va')"
    using no_pages.map_loop_spec [OF TrueI TrueI disjI1 [OF refl] wf b map_asserts_facts(2) [OF a] c]
    unfolding map_asserts_facts(3) [OF a] by blast
  obtain m' where "st' = st\<lparr>p_mem := m'\<rparr>" using map_loop_None [OF l(1)] by blast
  then have m': "p_mem st' = m'" "st' = st\<lparr>p_mem := m'\<rparr>" by simp_all
  show ?thesis
    by (rule that [of r m', OF _ l(2-4) [unfolded m'(1)]]) (use l(1) m'(2) a in \<open>simp add: virtual_memory_map_def PAGESIZE_def\<close>)
qed

text \<open>Only level-4 tables change.\<close>

lemma map_loop_None_frame:
  assumes "pt_wf (entry (p_mem st)) pt U" and "map_loop n pt va pad pm None last123 l4 st = Some (r, st')"
    and "unat va + n * 4096 \<le> 2 ^ 48" and "unat va mod 4096 = 0" and "cache_ok (p_mem st) pt pm last123 l4"
    and "\<forall>va' l. walk (entry (p_mem st)) pt va' 3 = Some l \<longrightarrow> x \<notin> rgn l 4096"
  shows "p_mem st' x = p_mem st x"
  using assms
proof (induction n arbitrary: va pad last123 l4 st)
  case 0
  then show ?case by simp
next
  case (Suc n)
  note prems = Suc.prems
  have va: "unat va < 2 ^ 48" using prems(3) by simp
  let ?look = "if ucast (drop_bit 21 va) \<noteq> last123 then lookup_l4pagetable pt va pm None st else Some (l4, st)"
  obtain l4' st1 where l: "?look = Some (l4', st1)" "walk (entry (p_mem st1)) pt va 3 = (if l4' = 0 then None else Some l4')"
    using no_pages.cached_or_looked_up [OF TrueI TrueI _ prems(1) va prems(5), of None] by blast
  have st1: "st1 = st" using descend_None l(1) by (auto simp: lookup_l4pagetable_def split: if_splits)
  show ?case
  proof (cases "pm AND PTE_P \<noteq> 0 \<and> l4' = 0")
    case True
    then show ?thesis using prems(2) l st1 by (auto simp: Let_def)
  next
    case False
    define m2 where "m2 = (if l4' = 0 then p_mem st
      else set_entry l4' (PAGEINDEX va 3) (mapped_entry pad pm 0) (p_mem st))"
    have step: "map_loop n pt (va + 4096) (pad + 4096) pm None (ucast (drop_bit 21 va)) l4' (st\<lparr>p_mem := m2\<rparr>) = Some (r, st')"
      using prems(2) l(1) st1 False by (auto simp: Let_def m2_def mapped_entry_def PAGESIZE_def split: if_splits)
    have l4': "l4' = 0 \<longrightarrow> pm AND PTE_P = 0" using False by auto
    note mp = map_page [OF prems(1) va prems(4) l(2) [unfolded st1] l4' m2_def]
    have va4: "unat (va + 4096) = unat va + 4096" using prems(3) by (simp add: unat_word_ariths)
    have w3: "walk (entry m2) pt va' 3 = walk (entry (p_mem st)) pt va' 3" for va'
    proof (cases "l4' = 0")
      case False
      then have "walk (entry (p_mem st)) pt va 3 = Some l4'" using l(2) st1 by simp
      from pt_grows_set_leaf(3) [OF prems(1) this, of m2] show ?thesis using False by (simp add: m2_def)
    qed (simp add: m2_def)
    have c2: "cache_ok m2 pt pm (ucast (drop_bit 21 va)) l4'"
      using w3 l(2) st1 va l4' by (intro cache_okI) simp_all
    have "pt_wf (entry m2) pt U" using mp(1) by (simp add: pt_grows_def)
    then have "p_mem st' x = m2 x"
      using Suc.IH [OF _ step] va4 prems(3,4,6) w3 c2 by simp
    moreover have "m2 x = p_mem st x"
    proof (cases "l4' = 0")
      case nz: False
      then have w: "walk (entry (p_mem st)) pt va 3 = Some l4'" using l(2) st1 by simp
      then have "x \<notin> rgn l4' 4096" "page_aligned l4'" using prems(6) pt_wf_table [OF prems(1) _ w] by auto
      then show ?thesis using nz entry_rgn [OF _ PAGEINDEX_less, of l4'] unfolding m2_def set_entry_def
        by (auto intro!: store64_apply_outside)
    qed (simp add: m2_def)
    ultimately show ?thesis by simp
  qed
qed

section \<open>The kernel page table after boot\<close>

text \<open>The pages from \<open>KERNEL_START_ADDR\<close> to \<open>end\<close>, page 0 and the kernel stack are in use after \<open>pageinfo_init\<close>.\<close>

lemma kernel_pages_used:
  assumes "length (pageinfo st) = NPAGES" and "page_aligned a" and "0x40000 \<le> unat a" and "unat a < unat kend" and "unat kend \<le> 0x9F000"
  shows "a \<in> used_pages (pageinfo_init kend st)" and "pageinfo (pageinfo_init kend st) ! unat (PAGENUMBER a) = \<lparr>owner = PO_KERNEL, refcount = 1\<rparr>"
proof -
  define pn where "pn = unat (PAGENUMBER a)"
  have "a < MEMSIZE_PHYSICAL" using assms(4,5) by (simp add: MEMSIZE_PHYSICAL_def word_less_nat_alt)
  then have pn: "PAGEADDRESS pn = a" "pn < NPAGES"
    using PAGEADDRESS_PAGENUMBER assms(2-5) by (simp_all add: pn_def unat_PAGENUMBER NPAGES_def)
  have "initial_owner kend a = PO_KERNEL"
    using assms(3-5) by (simp add: initial_owner_def physical_memory_isreserved_def page_consts word_le_nat_alt word_less_nat_alt)
      (auto simp: word_unat_eq_iff)
  then have i: "pageinfo (pageinfo_init kend st) ! pn = \<lparr>owner = PO_KERNEL, refcount = 1\<rparr>"
    using pn by (simp add: pageinfo_init_spec [OF assms(1)] initial_pageinfo_def owner_consts)
  then show "pageinfo (pageinfo_init kend st) ! unat (PAGENUMBER a) = \<lparr>owner = PO_KERNEL, refcount = 1\<rparr>"
    by (simp add: pn_def)
  show "a \<in> used_pages (pageinfo_init kend st)"
    using i pn unfolding used_pages_def free_page_def by (auto simp: owner_consts intro!: image_eqI [of _ _ pn])
qed

definition identity_vam :: "addr \<Rightarrow> uint32 \<Rightarrow> vamapping" where
  "identity_vam va perm = \<lparr>vam_pn = PAGENUMBER va, vam_pa = va, vam_perm = perm\<rparr>"

definition no_vam :: vamapping where
  "no_vam = \<lparr>vam_pn = - 1, vam_pa = - 1, vam_perm = 0\<rparr>"

lemma low_index:
  assumes "unat va < 0x200000"
  shows "PAGEINDEX va 0 = 0" "PAGEINDEX va 1 = 0" "PAGEINDEX va 2 = 0"
  using assms by (simp_all add: PAGEINDEX_nat)

lemma pte_numerals: "PTE_P OR PTE_W OR PTE_U = 7" "PTE_P OR PTE_W = 3" "ucast (7 :: uint64) = (7 :: uint32)"
    "scast (7 :: uint32) = (7 :: uint64)" "scast (1 :: uint32) = (1 :: uint64)" "ucast PTE_P = (1 :: uint32)"
  by (simp_all add: pte_flags)

lemma virtual_memory_init_spec:
  assumes img: "image_ok img" and U: "\<forall>j<5. kernel_pagetables img j \<in> U"
  obtains m' where "virtual_memory_init img s = (Ok (), s\<lparr>ph := (ph s)\<lparr>p_mem := m'\<rparr>, cr3 := kernel_pagetable img\<rparr>)"
    and "pt_wf (entry m') (kernel_pagetable img) U" and "tables m' (kernel_pagetable img) = kernel_pagetables img ` {..<5}"
    and "\<And>va. unat va < 2 ^ 48 \<Longrightarrow> virtual_memory_lookup m' (kernel_pagetable img) va =
           (if unat va < 0x200000 then identity_vam va 7 else no_vam)"
    and "\<And>j i. j < 3 \<Longrightarrow> i < 512 \<Longrightarrow>
           entry m' (kernel_pagetables img j) i = entry (init_tables img (p_mem (ph s))) (kernel_pagetables img j) i"
    and "\<And>va. unat va < 0x200000 \<Longrightarrow> walk (entry m') (kernel_pagetable img) va 3 = Some (kernel_pagetables img 3)"
proof -
  define m0 where "m0 = init_tables img (p_mem (ph s))"
  define st where "st = (ph s)\<lparr>p_mem := m0\<rparr>"
  let ?pt = "kernel_pagetable img" and ?T = "kernel_pagetables img"
  have T0: "?pt = ?T 0" by (simp add: kernel_pagetables_def)
  note T = kernel_pagetables_addr [OF img]
  have wf: "pt_wf (entry (p_mem st)) ?pt U" using init_tables_wf(1) [OF img] U by (simp add: st_def m0_def)
  have a: "map_asserts ?pt 0 0 MEMSIZE_PHYSICAL (scast (7 :: uint32))"
    using T(2) [of 0] by (simp add: map_asserts_def pte_numerals page_aligned_unat MEMSIZE_PHYSICAL_def PAGESIZE_def T0)
  have b: "unat (0 :: addr) + unat MEMSIZE_PHYSICAL \<le> 2 ^ 48" by (simp add: MEMSIZE_PHYSICAL_def)
  obtain r m' where r: "virtual_memory_map ?pt 0 0 MEMSIZE_PHYSICAL 7 None st = Some (r, st\<lparr>p_mem := m'\<rparr>)"
      "r = 0 \<or> (\<exists>va'. unat (0 :: addr) \<le> unat va' \<and> unat va' < unat (0 :: addr) + unat MEMSIZE_PHYSICAL \<and>
         walk (entry m') ?pt va' 3 = None)"
      "pt_grows ?pt (p_mem st) U m' U"
      "\<And>va'. unat va' < 2 ^ 48 \<Longrightarrow>
       (if unat (0 :: addr) \<le> unat va' \<and> unat va' < unat (0 :: addr) + unat MEMSIZE_PHYSICAL
        then r = 0 \<longrightarrow> vam_of (leaf (entry m') ?pt va') va' =
                       vam_of (mapped_entry 0 (scast (7 :: uint32)) (unat va' - unat (0 :: addr))) va'
        else vam_of (leaf (entry m') ?pt va') va' = vam_of (leaf (entry (p_mem st)) ?pt va') va')"
    using map_without_allocator [OF wf a b] by metis
  have w3: "walk (entry m') ?pt va 3 = Some (?T 3)" if "unat va < 0x200000" for va
    using pt_grows_walk [OF r(3), of va 3 "?T 3"] init_tables_walk(3) [OF img, of "p_mem (ph s)" va] low_index [OF that]
    by (simp add: st_def m0_def T0)
  have r0: "r = 0" using r(2) w3 by (auto simp: MEMSIZE_PHYSICAL_def)
  have wf': "pt_wf (entry m') ?pt U" using r(3) by (simp add: pt_grows_def)
  have "tables m' ?pt = tables m0 ?pt" using r(3) by (simp add: pt_grows_def st_def)
  then have tab: "tables m' ?pt = ?T ` {..<5}"
    using init_tables_wf(2) [OF img, of U] U by (simp add: m0_def)
  have out: "vam_of (leaf (entry m0) ?pt va) va = no_vam" for va
    using init_tables_walk(3) [OF img, of "p_mem (ph s)" va] init_tables_entry [OF img, of "3 + PAGEINDEX va 2" "PAGEINDEX va 3" "p_mem (ph s)"]
    by (auto simp: leaf_def m0_def T0 vam_of_def no_vam_def PAGEINDEX_less)
  have lk: "virtual_memory_lookup m' ?pt va = (if unat va < 0x200000 then identity_vam va 7 else no_vam)"
    if "unat va < 2 ^ 48" for va
    using r(4) [OF that] r0 out vam_of_mapped [of 0 0 va 7]
    by (simp add: lookup_leaf [OF wf'] MEMSIZE_PHYSICAL_def pte_numerals identity_vam_def page_aligned_def pte_flags st_def)
  have same: "entry m' (?T j) i = entry m0 (?T j) i" if ji: "j < 3" "i < 512" for j i
  proof (rule entry_cong)
    fix x assume x: "x \<in> rgn (?T j) 4096"
    have off: "x \<notin> rgn l 4096" if "walk (entry m0) ?pt va 3 = Some l" for va l
    proof -
      have "l = ?T (3 + PAGEINDEX va 2)" "PAGEINDEX va 2 < 2"
        using that init_tables_walk(3) [OF img, of "p_mem (ph s)" va] by (auto simp: m0_def T0 split: if_splits)
      then have "l \<noteq> ?T j" "page_aligned l" using ji(1) kernel_pagetables_eq_iff [OF img] T(2) by auto
      then show ?thesis using x page_rgn_disjoint [of l "?T j"] T(2) [of j] ji(1) by auto
    qed
    have "map_loop 512 ?pt 0 0 7 None (- 1) 0 st = Some (r, st\<lparr>p_mem := m'\<rparr>)"
      using r(1) a by (simp add: virtual_memory_map_def MEMSIZE_PHYSICAL_def PAGESIZE_def pte_numerals)
    then show "m' x = m0 x"
      using map_loop_None_frame [OF wf, of 512 0 0 7 "- 1" 0 r "st\<lparr>p_mem := m'\<rparr>" x] off by (simp add: cache_ok_def st_def)
  qed (use ji T(2) [of j] in simp_all)
  have "virtual_memory_init img s = (Ok (), s\<lparr>ph := (ph s)\<lparr>p_mem := m'\<rparr>, cr3 := ?pt\<rparr>)"
    using r(1) by (simp add: virtual_memory_init_def io_bind_def k_store_run on_ph_opt_def k_put_run pte_numerals st_def m0_def)
  from that [OF this wf' tab lk same [unfolded m0_def] w3] show ?thesis .
qed

text \<open>Mapping one page whose level-4 table exists.\<close>

lemma map_one_page:
  assumes wf: "pt_wf (entry (p_mem st)) pt U" and w3: "walk (entry (p_mem st)) pt va 3 = Some l4"
    and a: "map_asserts pt va pad (of_nat PAGESIZE) (scast pm)" and va: "unat va < 2 ^ 48"
  defines "m' \<equiv> set_entry l4 (PAGEINDEX va 3) (mapped_entry pad (scast pm) 0) (p_mem st)"
  shows "virtual_memory_map pt va pad (of_nat PAGESIZE) pm allocator st = Some (0, st\<lparr>p_mem := m'\<rparr>)"
    and "pt_grows pt (p_mem st) U m' U"
    and "unat va' < 2 ^ 48 \<Longrightarrow> virtual_memory_lookup m' pt va' =
      (if unat va \<le> unat va' \<and> unat va' < unat va + 4096
       then vam_of (mapped_entry pad (scast pm) (unat va' - unat va)) va' else virtual_memory_lookup (p_mem st) pt va')"
proof -
  have l4: "l4 \<noteq> 0" using pt_wf_table [OF wf _ w3] by simp
  have "unat va div 2 ^ 21 < 2 ^ 27" using va by (simp add: less_mult_imp_div_less)
  then have "ucast (drop_bit 21 va) \<noteq> (- 1 :: uint32)"
    using index123 [OF va] by (auto simp: unsigned_minus_1_eq_mask mask_eq_exp_minus_1)
  moreover have "lookup_l4pagetable pt va (scast pm) allocator st = Some (l4, st)"
    unfolding lookup_l4pagetable_def by (rule descend_present [OF wf _ _ w3]) simp_all
  moreover have "unat (of_nat PAGESIZE :: uint64) div PAGESIZE = Suc 0" by (simp add: PAGESIZE_def)
  ultimately show "virtual_memory_map pt va pad (of_nat PAGESIZE) pm allocator st = Some (0, st\<lparr>p_mem := m'\<rparr>)"
    using a l4 by (simp add: virtual_memory_map_def m'_def mapped_entry_def)
  have m': "m' = (if l4 = 0 then p_mem st else set_entry l4 (PAGEINDEX va 3) (mapped_entry pad (scast pm) 0) (p_mem st))"
    using l4 by (simp add: m'_def)
  note mp = map_page [OF wf va map_asserts_facts(2) [OF a] _ _ m']
  show g: "pt_grows pt (p_mem st) U m' U" using mp(1) w3 l4 by simp
  assume va': "unat va' < 2 ^ 48"
  have wf': "pt_wf (entry m') pt U" using g by (simp add: pt_grows_def)
  show "virtual_memory_lookup m' pt va' =
      (if unat va \<le> unat va' \<and> unat va' < unat va + 4096
       then vam_of (mapped_entry pad (scast pm) (unat va' - unat va)) va' else virtual_memory_lookup (p_mem st) pt va')"
    using mp(3) [OF _ _ va'] w3 l4 mapped_entry_first [of "unat va' - unat va"]
    by (auto simp: lookup_leaf [OF wf] lookup_leaf [OF wf'])
qed

text \<open>\<open>kernel\<close> then makes page 0 inaccessible to applications and read-only.\<close>

lemma map_page_zero:
  assumes wf: "pt_wf (entry (p_mem st)) pt U" and w3: "walk (entry (p_mem st)) pt 0 3 = Some l4"
    and lk: "\<forall>va. unat va < 2 ^ 48 \<longrightarrow>
      virtual_memory_lookup (p_mem st) pt va = (if unat va < 0x200000 then identity_vam va 7 else no_vam)"
  obtains m' where "virtual_memory_map pt 0 0 (of_nat PAGESIZE) (ucast PTE_P) None st = Some (0, st\<lparr>p_mem := m'\<rparr>)"
    and "pt_grows pt (p_mem st) U m' U"
    and "\<And>va. unat va < 2 ^ 48 \<Longrightarrow> virtual_memory_lookup m' pt va =
           (if unat va < 4096 then identity_vam va 1 else if unat va < 0x200000 then identity_vam va 7 else no_vam)"
    and "\<And>t i. page_aligned t \<Longrightarrow> i < 512 \<Longrightarrow> t \<noteq> l4 \<Longrightarrow> entry m' t i = entry (p_mem st) t i"
proof -
  have al: "page_aligned l4" "page_aligned pt" using pt_wf_table [OF wf _ w3] pt_wf_table [OF wf, of 0 0 pt] by simp_all
  have a: "map_asserts pt 0 0 (of_nat PAGESIZE) (scast (1 :: uint32))"
    using al(2) by (simp add: map_asserts_def PAGESIZE_def MEMSIZE_PHYSICAL_def page_aligned_unat pte_numerals)
  note mo = map_one_page [OF wf w3 a, simplified]
  show ?thesis
    by (rule that [OF mo(1) [folded pte_numerals(6)] mo(2)])
      (use mo(3) lk vam_of_mapped [of 0 0 _ 1] al in
        \<open>auto simp: pte_numerals identity_vam_def page_aligned_def pte_flags entry_set_entry PAGEINDEX_less\<close>)
qed

section \<open>The checks at boot\<close>

lemma initial_pageinfo_cases:
  "initial_pageinfo kend pn \<in> {\<lparr>owner = PO_RESERVED, refcount = 1\<rparr>, \<lparr>owner = PO_KERNEL, refcount = 1\<rparr>, \<lparr>owner = PO_FREE, refcount = 0\<rparr>}"
  by (auto simp: initial_pageinfo_def initial_owner_def owner_consts)

lemma check_page_initial:
  assumes "pageinfo (ph s) = map (initial_pageinfo kend) [0..<NPAGES]" and "pn < NPAGES"
  shows "check_page s pn"
  using initial_pageinfo_cases [of kend pn] assms by (auto simp: check_page_def owner_consts)

lemma kernel_tables_owned:
  assumes img: "image_ok img" and e: "\<And>j i. j < 3 \<Longrightarrow> i < 512 \<Longrightarrow>
      entry (p_mem st) (kernel_pagetables img j) i = entry (init_tables img m) (kernel_pagetables img j) i"
    and own: "\<And>j. j < 5 \<Longrightarrow> owned_table st (kernel_pagetables img j) own 1"
  shows "check_page_table_ownership_level 3 st (kernel_pagetables img 0) own 1"
proof -
  have en: "entry (p_mem st) (kernel_pagetables img j) i =
      (if j < 2 \<and> i = 0 \<or> j = 2 \<and> i < 2 then kernel_pagetables img (j + 1 + i) OR PTE_P OR PTE_W OR PTE_U else 0)"
    if "j < 3" "i < NPAGETABLEENTRIES" for j i
    using e [OF that(1)] init_tables_entry [OF img _, of j i m] that by (simp add: NPAGETABLEENTRIES_def)
  have ad: "PTE_ADDR (kernel_pagetables img j OR PTE_P OR PTE_W OR PTE_U) = kernel_pagetables img j" if "j < 5" for j
    using entry_present(2) [OF kernel_pagetables_addr(2) [OF img that]] .
  have L0: "check_page_table_ownership_level 0 st (kernel_pagetables img j) own 1" if "j < 5" for j using own [OF that] by simp
  have L1: "check_page_table_ownership_level 1 st (kernel_pagetables img 2) own 1"
    using own [of 2] L0 ad by (auto simp: list_all_iff Let_def en)
  have L2: "check_page_table_ownership_level 2 st (kernel_pagetables img 1) own 1"
    using own [of 1] L1 ad [of 2] by (auto simp: numeral_2_eq_2 list_all_iff Let_def en)
  show ?thesis
    using own [of 0] L2 ad [of 1] by (auto simp: numeral_3_eq_3 numeral_2_eq_2 list_all_iff Let_def en)
qed

lemma kernel_page_bounds:
  assumes "va \<in> set (kernel_pages img)" and "unat (img_end img) \<le> 0x9F000"
  shows "0x40000 \<le> unat va" and "unat va < 0xA0000"
proof -
  obtain i where i: "i < (unat (img_end img) - unat KERNEL_START_ADDR + (PAGESIZE - 1)) div PAGESIZE"
      "va = KERNEL_START_ADDR + of_nat (i * PAGESIZE)"
    using assms(1) unfolding kernel_pages_def by auto
  have "(unat (img_end img) - unat KERNEL_START_ADDR + (PAGESIZE - 1)) div PAGESIZE \<le> 0x60"
    using assms(2) unfolding page_consts by simp
  with i(1) have b: "i * 4096 < 0x60000" by linarith
  then have "unat va = 0x40000 + i * 4096" using i(2) by (simp add: page_consts unat_word_ariths unat_of_nat)
  then show "0x40000 \<le> unat va" "unat va < 0xA0000" using b by simp_all
qed

lemma kernel_checks_pass:
  assumes img: "image_ok img" and pages: "pageinfo (ph s) = map (initial_pageinfo (img_end img)) [0..<NPAGES]"
    and e: "\<And>j i. j < 3 \<Longrightarrow> i < 512 \<Longrightarrow>
      entry (p_mem (ph s)) (kernel_pagetables img j) i = entry (init_tables img m) (kernel_pagetables img j) i"
    and id: "\<And>va. 4096 \<le> unat va \<Longrightarrow> unat va < 0x200000 \<Longrightarrow>
      identity_mapped (p_mem (ph s)) (kernel_pagetable img) va \<and> writable (p_mem (ph s)) (kernel_pagetable img) va"
    and free: "length (processes s) = NPROC" "\<forall>p\<in>set (processes s). p_state p = P_FREE"
  shows "memory_consistent img s"
proof -
  let ?pt = "kernel_pagetable img" and ?T = "kernel_pagetables img" and ?kend = "img_end img"
  have T0: "?T 0 = ?pt" by (simp add: kernel_pagetables_def)
  note T = kernel_pagetables_addr [OF img]
  have b: "unat ?kend \<le> 0x9F000" "unat ?pt + 0x5000 \<le> unat ?kend" "0x40000 \<le> unat ?pt" using img by (simp_all add: image_ok_def)
  have none: "filter (\<lambda>p. p_state p \<noteq> P_FREE \<and> p_pagetable p = ?pt) (processes s) = []"
    using free(2) by (auto simp: filter_empty_conv)
  have own: "owned_table (ph s) (?T j) (sint PO_KERNEL) 1" if "j < 5" for j
  proof -
    have "pageinfo (pageinfo_init ?kend (ph s)) = pageinfo (ph s)" using pages by (simp add: pageinfo_init_spec)
    then show ?thesis
      using kernel_pages_used(2) [of "ph s" "?T j" ?kend] T(1-3) [OF that] b pages that
      by (simp add: owned_table_def unat_PAGENUMBER NPAGES_def)
  qed
  then have "check_page_table_ownership_level 3 (ph s) (?T 0) (sint PO_KERNEL) 1"
    by (intro kernel_tables_owned [OF img e])
  then have "check_page_table_ownership img s ?pt (- 1)" by (simp add: check_page_table_ownership_def none T0)
  moreover have "check_page_table_mappings img (p_mem (ph s)) ?pt"
    using id kernel_page_bounds [OF _ b(1)] PTE_ADDR_aligned [OF T(2) [of 0]]
    by (fastforce simp: check_page_table_mappings_def list_all_iff T0 page_consts Let_def)
  moreover have "check_page s pn" if "pn < NPAGES" for pn using pages that by (rule check_page_initial)
  ultimately show ?thesis
    using free by (simp add: memory_consistent_def list_all_iff check_process_def NPROC_def)
qed

lemma kernel_table_boot:
  assumes img: "image_ok img" and st: "length (pageinfo (ph s)) = NPAGES" "pageno (ph s) < NPAGES"
    and free: "length (processes s) = NPROC" "\<forall>p\<in>set (processes s). p_state p = P_FREE"
  shows "\<exists>s' m. io_bind (virtual_memory_init img) (\<lambda>_.
      io_bind (k_put (\<lambda>s. s\<lparr>ph := pageinfo_init (img_end img) (ph s)\<rparr>)) (\<lambda>_.
      on_ph_opt (virtual_memory_map (kernel_pagetable img) 0 0 (of_nat PAGESIZE) (ucast PTE_P) None))) s = (Ok 0, s') \<and>
    m = p_mem (ph s') \<and> phys_ok (ph s') \<and> cr3 s' = kernel_pagetable img \<and>
    pt_wf (entry m) (kernel_pagetable img) (used_pages (ph s')) \<and>
    (\<forall>va. unat va < 2 ^ 48 \<longrightarrow> virtual_memory_lookup m (kernel_pagetable img) va =
       (if unat va < 4096 then identity_vam va 1 else if unat va < 0x200000 then identity_vam va 7 else no_vam)) \<and>
    loadable img m (kernel_pagetable img) \<and> check_virtual_memory img s' = (Ok (), s')"
proof -
  let ?pt = "kernel_pagetable img" and ?T = "kernel_pagetables img" and ?kend = "img_end img"
  have T0: "?T 0 = ?pt" by (simp add: kernel_pagetables_def)
  note T = kernel_pagetables_addr [OF img]
  have e: "unat ?kend \<le> 0x9F000" "unat ?pt + 0x5000 \<le> unat ?kend" "0x40000 \<le> unat ?pt" using img by (simp_all add: image_ok_def)
  define U where "U = used_pages (pageinfo_init ?kend (ph s))"
  have used: "?T j \<in> used_pages (pageinfo_init ?kend st)" "pageinfo (pageinfo_init ?kend st) ! unat (PAGENUMBER (?T j)) = \<lparr>owner = PO_KERNEL, refcount = 1\<rparr>"
    if "j < 5" "length (pageinfo st) = NPAGES" for j st
    using kernel_pages_used [OF that(2) T(2) [OF that(1)], of ?kend] T(1) [OF that(1)] e that(1) by simp_all
  have U: "\<forall>j<5. ?T j \<in> U" using used st(1) by (simp add: U_def)
  obtain m1 where m1: "virtual_memory_init img s = (Ok (), s\<lparr>ph := (ph s)\<lparr>p_mem := m1\<rparr>, cr3 := ?pt\<rparr>)"
      "pt_wf (entry m1) ?pt U" "tables m1 ?pt = ?T ` {..<5}"
      "\<And>va. unat va < 2 ^ 48 \<Longrightarrow> virtual_memory_lookup m1 ?pt va = (if unat va < 0x200000 then identity_vam va 7 else no_vam)"
      "\<And>j i. j < 3 \<Longrightarrow> i < 512 \<Longrightarrow> entry m1 (?T j) i = entry (init_tables img (p_mem (ph s))) (?T j) i"
      "\<And>va. unat va < 0x200000 \<Longrightarrow> walk (entry m1) ?pt va 3 = Some (?T 3)"
    by (rule virtual_memory_init_spec [OF img U, of s]) (rule that)
  define st1 where "st1 = pageinfo_init ?kend ((ph s)\<lparr>p_mem := m1\<rparr>)"
  have st1: "st1 = (ph s)\<lparr>p_mem := m1, pageinfo := map (initial_pageinfo ?kend) [0..<NPAGES]\<rparr>" "p_mem st1 = m1"
    using st(1) by (simp_all add: st1_def pageinfo_init_spec)
  have U1: "U = used_pages st1" using st(1) by (simp add: U_def st1_def pageinfo_init_spec used_pages_def free_page_def)
  have wf1: "pt_wf (entry (p_mem st1)) ?pt U" "walk (entry (p_mem st1)) ?pt 0 3 = Some (?T 3)"
      "\<forall>va. unat va < 2 ^ 48 \<longrightarrow> virtual_memory_lookup (p_mem st1) ?pt va = (if unat va < 0x200000 then identity_vam va 7 else no_vam)"
    using m1(2,4,6) by (simp_all add: st1(2))
  obtain m where m: "virtual_memory_map ?pt 0 0 (of_nat PAGESIZE) (ucast PTE_P) None st1 = Some (0, st1\<lparr>p_mem := m\<rparr>)"
      "pt_grows ?pt (p_mem st1) U m U"
      "\<And>va. unat va < 2 ^ 48 \<Longrightarrow> virtual_memory_lookup m ?pt va =
         (if unat va < 4096 then identity_vam va 1 else if unat va < 0x200000 then identity_vam va 7 else no_vam)"
      "\<And>t i. page_aligned t \<Longrightarrow> i < 512 \<Longrightarrow> t \<noteq> ?T 3 \<Longrightarrow> entry m t i = entry (p_mem st1) t i"
    by (rule map_page_zero [OF wf1]) (rule that)
  define s' where "s' = s\<lparr>ph := st1\<lparr>p_mem := m\<rparr>, cr3 := ?pt\<rparr>"
  have run: "io_bind (virtual_memory_init img) (\<lambda>_.
      io_bind (k_put (\<lambda>s. s\<lparr>ph := pageinfo_init ?kend (ph s)\<rparr>)) (\<lambda>_.
      on_ph_opt (virtual_memory_map ?pt 0 0 (of_nat PAGESIZE) (ucast PTE_P) None))) s = (Ok 0, s')"
    using m(1) by (simp add: io_bind_Ok [where m = "virtual_memory_init img" and d = s, OF m1(1)] io_bind_put on_ph_opt_def s'_def st1_def)
  have "owner (initial_pageinfo ?kend 0) \<noteq> PO_FREE"
    by (simp add: initial_pageinfo_def PAGEADDRESS_def initial_owner_0 owner_consts)
  then have ok: "phys_ok (ph s')"
    using st(2) by (simp add: s'_def st1(1) phys_ok_def list_all_iff initial_pageinfo_ok)
  have id: "identity_mapped m ?pt va" "writable m ?pt va" if "4096 \<le> unat va" "unat va < 0x200000" for va
    using m(3) [of va] that by (simp_all add: identity_mapped_def writable_def identity_vam_def pte_flags)
  have "loadable img m ?pt"
    using id T(2) [of 0] img e unfolding loadable_def image_ok_def by (auto simp: PAGEOFFSET_def page_aligned_def)
  moreover have "entry m (?T j) i = entry (init_tables img (p_mem (ph s))) (?T j) i" if "j < 3" "i < 512" for j i
    using m(4) [OF T(2) that(2)] m1(5) [OF that] kernel_pagetables_eq_iff [OF img, of j 3] that(1) by (simp add: st1(2))
  then have "memory_consistent img s'"
    using id by (intro kernel_checks_pass [OF img, where m = "p_mem (ph s)"]) (use st free in \<open>simp_all add: s'_def st1(1)\<close>)
  then have "check_virtual_memory img s' = (Ok (), s')" by (simp add: check_virtual_memory_def kernel_simps)
  moreover have "pt_wf (entry m) ?pt (used_pages (ph s'))"
    using m(2) by (simp add: pt_grows_def s'_def U1)
  ultimately show ?thesis
    using run ok m(3) by (intro exI [of _ s'] exI [of _ m]) (simp add: s'_def)
qed


text \<open>A kernel image, and a machine on which it starts.\<close>

definition sample_image :: image where
  "sample_image = \<lparr>img_end = 0x60000, img_start_data = 0x50000, img_kernel_pagetables = 0x58000,
     img_default_int_handler = 0x40100, img_virtual_memory_map = 0x40200, img_programs = [], img_tables = sample_tables\<rparr>"

definition boot_kernel :: "'d \<Rightarrow> 'd kernel" where
  "boot_kernel d = (idle_kernel d)\<lparr>ph := boot_phys, cr3 := 0x8000, entropy_initialized := False\<rparr>"

lemma sample_image_ok: "image_ok sample_image"
  by (simp add: image_ok_def sample_image_def page_aligned_def)

lemma sample_loadable: "\<exists>m. loadable sample_image m 0x58000"
  using kernel_table_boot [OF sample_image_ok, of "boot_kernel ()"]
  by (auto simp: sample_image_def boot_kernel_def idle_kernel_def boot_phys_def NPAGES_def zero_proc_def)


end
