(* ===== verification/Processes_Correct.thy ===== *)
theory Processes_Correct
  imports Syscalls Address_Spaces_Correct
begin

text \<open>
  What the process operations guarantee: scheduling in round-robin order, and the hand-over of an exit
  code to a waiting parent with the release of the child's memory.
\<close>

section \<open>Scheduling\<close>

text \<open>A keyboard on which no key is waiting, as \<open>schedule\<close> polls it.\<close>

locale quiet_keyboard =
  fixes cpu :: "'d cpu" and quiet :: "'d \<Rightarrow> bool"
  assumes no_key: "quiet d \<Longrightarrow> inb (pio cpu) 0x64 d = (st, d') \<Longrightarrow> st AND 1 = 0 \<and> quiet d'"
begin

lemma push_quiet:
  assumes "quiet (hw s)"
  obtains d' where "check_keyboard_push cpu s = (Ok (), s\<lparr>hw := d'\<rparr>)" and "quiet d'"
proof -
  obtain st d' where d: "inb (pio cpu) 0x64 (hw s) = (st, d')" by force
  then have "st AND 1 = 0" "quiet d'" using no_key [OF assms] by auto
  then show ?thesis
    using d by (intro that [of d'])
      (simp_all add: check_keyboard_push_def check_keyboard_def io_bind_def on_kbd_def keyboard_readc_def)
qed

text \<open>\<open>schedule_loop\<close> finds the first runnable process after \<open>pid\<close>.\<close>

lemma schedule_loop_runs:
  assumes "quiet (hw s)" and "\<forall>k. 0 < k \<and> k < n \<longrightarrow> p_state (processes s ! ((pid + k) mod NPROC)) \<noteq> P_RUNNABLE"
    and "p_state (processes s ! ((pid + n) mod NPROC)) = P_RUNNABLE" and "0 < n"
  shows "\<exists>d'. quiet d' \<and> schedule_loop img cpu pid s = Some (run img ((pid + n) mod NPROC) (s\<lparr>hw := d'\<rparr>))"
  using assms
proof (induction n arbitrary: s pid)
  case 0
  then show ?case by simp
next
  case (Suc n)
  show ?case
  proof (cases "n = 0")
    case True
    have "s = s\<lparr>hw := hw s\<rparr>" by simp
    then show ?thesis using Suc.prems(1,3) True
      by (subst schedule_loop.simps) (auto simp: Let_def intro!: exI [of _ "hw s"])
  next
    case False
    define q where "q = Suc pid mod NPROC"
    have nr: "p_state (processes s ! q) \<noteq> P_RUNNABLE" using Suc.prems(2) False by (auto simp: q_def)
    obtain d' where d: "check_keyboard_push cpu s = (Ok (), s\<lparr>hw := d'\<rparr>)" "quiet d'"
      using push_quiet [OF Suc.prems(1)] .
    have m: "(q + k) mod NPROC = (pid + Suc k) mod NPROC" for k by (simp add: q_def mod_simps)
    have skip: "\<forall>k. 0 < k \<and> k < n \<longrightarrow> p_state (processes s ! ((q + k) mod NPROC)) \<noteq> P_RUNNABLE"
      using Suc.prems(2) unfolding m by (meson Suc_less_eq zero_less_Suc)
    have "\<exists>d''. quiet d'' \<and> schedule_loop img cpu q (s\<lparr>hw := d'\<rparr>) = Some (run img ((q + n) mod NPROC) (s\<lparr>hw := d'\<rparr>\<lparr>hw := d''\<rparr>))"
      by (rule Suc.IH) (use Suc.prems(3) skip d False in \<open>simp_all add: m\<close>)
    then show ?thesis
      using nr d(1) by (subst schedule_loop.simps) (auto simp: Let_def m q_def [symmetric])
  qed
qed

end

interpretation no_typing: quiet_keyboard typed_cpu "\<lambda>d. d = []"
  by unfold_locales (auto simp: typed_cpu_def typed_inb_def)

text \<open>How many processes may run before process \<open>i\<close> when process \<open>pid\<close> gives up the processor.\<close>

definition turns_before :: "nat \<Rightarrow> nat \<Rightarrow> nat" where
  "turns_before pid i = (i + NPROC - pid - 1) mod NPROC"

lemma wrap_once: "k < 2 * n \<Longrightarrow> k mod n = (if k < n then k else k - (n :: nat))"
  by (simp add: mod_if)

lemma turns_before_cases:
  "pid < NPROC \<Longrightarrow> j < NPROC \<Longrightarrow> turns_before pid j = (if pid < j then j - pid - 1 else j + 15 - pid)"
  unfolding turns_before_def NPROC_def by (subst wrap_once) auto

lemma turns_before_reach: "pid < NPROC \<Longrightarrow> j < NPROC \<Longrightarrow> (pid + (turns_before pid j + 1)) mod NPROC = j"
  by (subst wrap_once) (auto simp: turns_before_cases NPROC_def)

lemma turns_before_after:
  assumes "pid < NPROC" and "j < NPROC" and "0 < n" and "n < turns_before pid j + 1"
  shows "turns_before ((pid + n) mod NPROC) j < turns_before pid j"
proof -
  have "turns_before pid j < NPROC" by (simp add: turns_before_def NPROC_def)
  then have "pid + n < 2 * NPROC" using assms by linarith
  then have m: "(pid + n) mod NPROC = (if pid + n < NPROC then pid + n else pid + n - NPROC)" by (rule wrap_once)
  moreover have "(pid + n) mod NPROC < NPROC" by (simp add: NPROC_def)
  ultimately show ?thesis using assms by (auto simp: turns_before_cases NPROC_def split: if_splits)
qed

text \<open>
  C30: Scheduling is fair. When no key is waiting and process \<open>n\<close> places after the current one is the first runnable process in
  cyclic order, \<open>schedule\<close> runs it: it becomes the current process, with its page table loaded and nothing else changed. Every
  other runnable process then has fewer processes before it than it had, so that it runs after at most 15 others.
\<close>

theorem schedule_round_robin:
  fixes s :: "'d kernel"
  assumes keys: "quiet_keyboard cpu quiet" "quiet (hw s)"
    and pid: "pid = unat (p_pid (current_proc s))" "pid < NPROC"
    and n: "0 < n" "n \<le> NPROC" "i = (pid + n) mod NPROC"
    and first: "\<forall>k. 0 < k \<and> k < n \<longrightarrow> p_state (processes s ! ((pid + k) mod NPROC)) \<noteq> P_RUNNABLE"
    and run: "p_state (processes s ! i) = P_RUNNABLE" "loadable img (p_mem (ph s)) (p_pagetable (processes s ! i))"
  shows "(\<exists>d'. schedule img cpu s = (Ok (), s\<lparr>hw := d', current := i, cr3 := p_pagetable (processes s ! i)\<rparr>)) \<and>
    (\<forall>j<NPROC. p_state (processes s ! j) = P_RUNNABLE \<and> j \<noteq> i \<longrightarrow> turns_before i j < turns_before pid j)"
proof (intro conjI allI impI)
  obtain d' where "schedule_loop img cpu pid s = Some (Processes.run img i (s\<lparr>hw := d'\<rparr>))"
    using quiet_keyboard.schedule_loop_runs [OF keys first, of img] n run by auto
  then show "\<exists>d'. schedule img cpu s = (Ok (), s\<lparr>hw := d', current := i, cr3 := p_pagetable (processes s ! i)\<rparr>)"
    using run pid(1) by (auto simp: schedule_def Processes.run_def set_pagetable_def io_bind_def kernel_simps intro!: exI [of _ d'])
next
  fix j assume j: "j < NPROC" "p_state (processes s ! j) = P_RUNNABLE \<and> j \<noteq> i"
  define k where "k = turns_before pid j + 1"
  have kj: "(pid + k) mod NPROC = j" using turns_before_reach [OF pid(2) j(1)] by (simp add: k_def)
  then have "n \<noteq> k" "\<not> k < n" using first j(2) n(3) by (auto simp: k_def)
  then show "turns_before i j < turns_before pid j"
    using turns_before_after [OF pid(2) j(1), of n] n by (simp add: k_def)
qed

text \<open>Processes 1 and 3 are runnable; both use the kernel's page table.\<close>

definition two_runnable :: "mem \<Rightarrow> byte list kernel" where
  "two_runnable m =
     (let p = zero_proc\<lparr>p_state := P_RUNNABLE, p_pagetable := 0x58000\<rparr>
      in (idle_kernel [])\<lparr>ph := boot_phys\<lparr>p_mem := m\<rparr>, current := 1,
           processes := (replicate NPROC zero_proc)[1 := p\<lparr>p_pid := 1\<rparr>, 3 := p\<lparr>p_pid := 3\<rparr>]\<rparr>)"

theorem schedule_round_robin_witness:
  "\<exists>m d'. schedule sample_image typed_cpu (two_runnable m) = (Ok (), (two_runnable m)\<lparr>hw := d', current := 3, cr3 := 0x58000\<rparr>)"
proof -
  obtain m where m: "loadable sample_image m 0x58000" using sample_loadable by blast
  have k: "k = 1" if "0 < k" "k < 2" for k :: nat using that by simp
  from m show ?thesis
    using schedule_round_robin [OF no_typing.quiet_keyboard_axioms, of "two_runnable m" 1 2 3 sample_image]
    by (fastforce simp: two_runnable_def idle_kernel_def NPROC_def zero_proc_def dest!: k)
qed

section \<open>Exit and wait\<close>

lemma sint_small: "unat (w :: uint32) < 2 ^ 31 \<Longrightarrow> sint w = uint w"
proof -
  assume "unat w < 2 ^ 31"
  then have "int (unat w) < int (2 ^ 31)" by (simp only: of_nat_less_iff)
  then have "uint w < 2 ^ 31" by simp
  moreover have "- (2 ^ 31) \<le> uint w" by (rule order_trans [OF _ uint_ge_0]) simp
  ultimately show ?thesis unfolding sint_uint by (intro signed_take_bit_int_eq_self) simp_all
qed

lemma get_proc_run [kernel_simps]:
  "get_proc pid s = (if unat pid < NPROC then (Ok (processes s ! unat pid), s) else (Stuck, s))"
  by (simp add: get_proc_def io_bind_def kernel_simps)

lemma set_proc_run [kernel_simps]:
  "set_proc pid f s = (if unat pid < NPROC then (Ok (), upd_proc (unat pid) f s) else (Stuck, s))"
  by (simp add: set_proc_def io_bind_def kernel_simps)

lemma get_current_run [kernel_simps]: "get_current s = (Ok (current_proc s), s)"
  by (simp add: get_current_def kernel_simps)

lemma set_current_run [kernel_simps]: "set_current f s = (Ok (), upd_proc (current s) f s)"
  by (simp add: set_current_def kernel_simps)

lemma k_write_run [kernel_simps]:
  "k_write a n f s = (if writable_at a n then (Ok (), s\<lparr>ph := (ph s)\<lparr>p_mem := f (p_mem (ph s))\<rparr>\<rparr>) else (Stuck, s))"
  by (simp add: k_write_def io_bind_def kernel_simps)

lemma release_pages_run:
  assumes "phys_ok (ph s)" and "pid \<noteq> 0"
  shows "release_pages pid s = (Ok (), s\<lparr>ph := (ph s)\<lparr>pageinfo := map (release pid) (pageinfo (ph s))\<rparr>\<rparr>)"
  by (simp add: release_pages_def on_ph_opt_def free_pages_spec [OF assms])

text \<open>The state after \<open>process_kill pid\<close>, without and with a parent that waits for \<open>pid\<close>.\<close>

definition killed :: "uint32 \<Rightarrow> 'd kernel \<Rightarrow> 'd kernel" where
  "killed pid s = (upd_proc (unat pid) (\<lambda>p. p\<lparr>p_state := P_BROKEN\<rparr>) s)
     \<lparr>ph := (ph s)\<lparr>pageinfo := map (release pid) (pageinfo (ph s))\<rparr>\<rparr>"

definition woken :: "nat \<Rightarrow> uint32 \<Rightarrow> 'd kernel \<Rightarrow> 'd kernel" where
  "woken q code s = (upd_proc q (\<lambda>p. p\<lparr>p_state := P_RUNNABLE\<rparr>) s)
     \<lparr>ph := (ph s)\<lparr>p_mem := store32 (p_wait_exit_code (processes s ! q)) code (p_mem (ph s))\<rparr>\<rparr>"

lemma process_kill_run:
  fixes s :: "'d kernel"
  defines "p pid \<equiv> processes s ! unat pid"
  assumes pid: "0 < unat pid" "unat pid < NPROC" and len: "length (processes s) = NPROC" and ok: "phys_ok (ph s)"
    and par: "unat (p_parent (p pid)) < NPROC" "p_parent (p pid) \<noteq> pid"
    and wr: "p_parent (p pid) \<noteq> 0 \<and> p_wait_pid (p (p_parent (p pid))) = pid \<longrightarrow> writable_at (p_wait_exit_code (p (p_parent (p pid)))) 4"
  shows "process_kill pid s = (Ok (), if p_parent (p pid) \<noteq> 0 \<and> p_wait_pid (p (p_parent (p pid))) = pid
     then woken (unat (p_parent (p pid))) (p_exit_code (p pid)) (killed pid s) else killed pid s)"
proof -
  let ?par = "p_parent (p pid)"
  have "sint ?par = uint ?par" using par(1) by (intro sint_small) (simp add: NPROC_def)
  then have pos: "1 \<le> sint ?par \<longleftrightarrow> ?par \<noteq> 0" using uint_ge_0 [of ?par] uint_0_iff [of ?par] by linarith
  have ne: "unat ?par \<noteq> unat pid" "pid \<noteq> 0" using par(2) pid(1) by (auto simp: word_unat_eq_iff)
  show ?thesis
    using pid par wr len ne pos release_pages_run [OF _ ne(2), of "upd_proc (unat pid) (\<lambda>p. p\<lparr>p_state := P_BROKEN\<rparr>) s"] ok
    by (auto simp: process_kill_def io_bind_def kernel_simps killed_def woken_def upd_proc_def p_def)
qed

text \<open>
  C31: The end of a process. When process \<open>pid\<close> calls \<open>sys_exit\<close> while its parent waits for it, the call returns to the scheduler with the child
  broken and the parent runnable, the exit code stored where the parent asked for it (truncated to an \<open>int\<close>), every page of the child
  free, every other page and process descriptor unchanged, and the page information consistent.
\<close>

theorem exit_wakes_parent:
  fixes s :: "'d kernel"
  defines "p \<equiv> current_proc s" and "parent \<equiv> processes s ! unat (p_parent (current_proc s))"
  assumes s: "length (processes s) = NPROC" "phys_ok (ph s)" "current s = unat pid" "p_pid p = pid" "0 < unat pid" "unat pid < NPROC"
    and par: "p_parent p \<noteq> 0" "p_parent p \<noteq> pid" "unat (p_parent p) < NPROC" "p_wait_pid parent = pid"
    and wr: "writable_at (p_wait_exit_code parent) 4" and zero: "scast (owner (pageinfo (ph s) ! 0)) \<noteq> pid"
  shows "\<exists>s'. sys_exit s = (Ok (), s') \<and> phys_ok (ph s') \<and>
    processes s' = (processes s)[unat pid := p\<lparr>p_exit_code := ucast (reg_rdi (p_registers p)), p_state := P_BROKEN\<rparr>,
      unat (p_parent p) := parent\<lparr>p_state := P_RUNNABLE\<rparr>] \<and>
    load32 (p_mem (ph s')) (p_wait_exit_code parent) = ucast (reg_rdi (p_registers p)) \<and>
    (\<forall>x. x \<notin> rgn (p_wait_exit_code parent) 4 \<longrightarrow> p_mem (ph s') x = p_mem (ph s) x) \<and>
    (\<forall>pn<NPAGES. if scast (owner (pageinfo (ph s) ! pn)) = pid then free_page (ph s') pn
       else pageinfo (ph s') ! pn = pageinfo (ph s) ! pn)"
proof -
  let ?code = "ucast (reg_rdi (p_registers p)) :: uint32"
  define s1 where "s1 = upd_proc (unat pid) (\<lambda>p. p\<lparr>p_exit_code := ?code\<rparr>) s"
  have ne: "unat (p_parent p) \<noteq> unat pid" using par(2) by (simp add: word_unat_eq_iff)
  have s1: "processes s1 ! unat pid = p\<lparr>p_exit_code := ?code\<rparr>" "processes s1 ! unat (p_parent p) = parent"
      "length (processes s1) = NPROC" "ph s1 = ph s" "current s1 = unat pid"
    using s ne by (simp_all add: s1_def upd_proc_def p_def parent_def)
  have "sys_exit s = process_kill pid s1"
    using s s1(1) by (simp add: sys_exit_def exit_with_def arg_def io_bind_def kernel_simps s1_def upd_proc_def p_def)
  also have "\<dots> = (Ok (), woken (unat (p_parent p)) ?code (killed pid s1))"
    using process_kill_run [OF s(5,6) s1(3), unfolded s1] s(2) par wr by (simp add: s1(2))
  finally have run: "sys_exit s = (Ok (), woken (unat (p_parent p)) ?code (killed pid s1))" .
  have "pid \<noteq> 0" using s(5) by auto
  then have ok: "phys_ok ((ph s)\<lparr>pageinfo := map (release pid) (pageinfo (ph s))\<rparr>)"
    using phys_ok_free_pages [OF s(2) _ zero] by (simp add: free_pages_spec [OF s(2)])
  have w: "p_wait_exit_code (processes (killed pid s1) ! unat (p_parent p)) = p_wait_exit_code parent"
    using s1 ne by (simp add: killed_def upd_proc_def)
  have "processes (woken (unat (p_parent p)) ?code (killed pid s1)) = (processes s)[unat pid := p\<lparr>p_exit_code := ?code, p_state := P_BROKEN\<rparr>,
      unat (p_parent p) := parent\<lparr>p_state := P_RUNNABLE\<rparr>]"
    using s1 s ne by (simp add: woken_def killed_def upd_proc_def s1_def p_def)
  moreover have "ph (woken (unat (p_parent p)) ?code (killed pid s1)) = (ph s)\<lparr>pageinfo := map (release pid) (pageinfo (ph s)),
      p_mem := store32 (p_wait_exit_code parent) ?code (p_mem (ph s))\<rparr>"
    unfolding woken_def w by (simp add: killed_def s1(4))
  moreover have "length (pageinfo (ph s)) = NPAGES" using s(2) by (simp add: phys_ok_def)
  ultimately show ?thesis
    using run ok by (intro exI [of _ "woken (unat (p_parent p)) ?code (killed pid s1)"])
      (auto simp: store32_apply_outside free_page_def release_def)
qed

definition exiting_child :: "unit kernel" where
  "exiting_child = (idle_kernel ())\<lparr>current := 2, processes := (replicate NPROC zero_proc)
     [1 := zero_proc\<lparr>p_pid := 1, p_state := P_BLOCKED, p_wait_pid := 2, p_wait_exit_code := 0x150000\<rparr>,
      2 := zero_proc\<lparr>p_pid := 2, p_parent := 1, p_state := P_RUNNABLE, p_registers := zero_registers\<lparr>reg_rdi := 7\<rparr>\<rparr>]\<rparr>"

theorem exit_wakes_parent_witness:
  "\<exists>s'. sys_exit exiting_child = (Ok (), s') \<and> p_state (processes s' ! 1) = P_RUNNABLE \<and> load32 (p_mem (ph s')) 0x150000 = 7"
proof -
  have "owner (pageinfo (ph exiting_child) ! 0) = PO_RESERVED"
    using boot_phys_init_nth [of 0 "0x60000"] by (simp add: exiting_child_def idle_kernel_def initial_pageinfo_def PAGEADDRESS_def initial_owner_0 NPAGES_def)
  then show ?thesis
    using exit_wakes_parent [of exiting_child 2] boot_phys_init_ok
    by (auto simp: exiting_child_def idle_kernel_def NPROC_def writable_at_def readable_at_def page_consts owner_consts
        zero_proc_def zero_registers_def)
qed

end
