(* ===== verification/Fork_Correct.thy ===== *)
theory Fork_Correct
  imports Kernel_Invariant Processes_Correct
begin

unbundle bit_operations_syntax

text \<open>
  What \<open>INT_SYS_FORK\<close> promises: the child gets an address space of its own with the contents of the parent's,
  made of fresh pages that belong to it, and nothing that was in use changes.
\<close>

section \<open>Pages for one owner\<close>

text \<open>Since \<open>st0\<close>, pages have been allocated to \<open>w\<close> and nothing else has happened to the page information.\<close>

definition grants :: "phys \<Rightarrow> uint32 \<Rightarrow> phys \<Rightarrow> bool" where
  "grants st0 w st \<longleftrightarrow> phys_ok st \<and> (\<forall>pn<NPAGES. pageinfo st ! pn = pageinfo st0 ! pn \<or>
     free_page st0 pn \<and> pageinfo st ! pn = \<lparr>owner = ucast w, refcount = 1\<rparr>)"

lemma grants_refl: "phys_ok st \<Longrightarrow> grants st w st"
  by (simp add: grants_def)

lemma grants_ok: "grants st0 w st \<Longrightarrow> phys_ok st"
  by (simp add: grants_def)

lemma grants_mem [simp]: "grants st0 w (st\<lparr>p_mem := m\<rparr>) = grants st0 w st"
  by (simp add: grants_def phys_ok_def)

lemma grants_used: "grants st0 w st \<Longrightarrow> ucast w \<noteq> PO_FREE \<Longrightarrow> used_pages st0 \<subseteq> used_pages st"
  by (auto simp: grants_def used_pages_def free_page_def)

lemma grants_alloc:
  assumes g: "grants st0 w st" and w: "ucast w \<noteq> PO_FREE"
  shows "grants st0 w (snd (page_alloc w st))"
proof -
  have ok: "phys_ok st" using g by (simp add: grants_def)
  have ok': "phys_ok (snd (page_alloc w st))" using phys_ok_page_alloc [OF ok w] .
  show ?thesis
  proof (rule page_alloc_cases [OF ok, of w], goal_cases)
    case (1 pn)
    have l: "length (pageinfo st) = NPAGES" using ok by (simp add: phys_ok_def)
    have "free_page st0 pn"
      using 1(1) g w by (auto simp: grants_def free_page_def)
    moreover have "(pageinfo st)[pn := v] ! n = (if n = pn then v else pageinfo st ! n)" if "n < NPAGES" for n v
      using l that 1(1) by (simp add: free_page_def)
    ultimately show ?case using 1 g ok' unfolding grants_def by simp
  next
    case 2
    then show ?case using g by simp
  qed
qed

interpretation child_pages: page_source page_alloc "grants st0 w" used_pages "\<lambda>w'. w' = w \<and> ucast w \<noteq> PO_FREE" for st0 w
  by unfold_locales
    (simp add: grants_alloc, use page_alloc.alloc_fresh grants_ok in blast, use page_alloc.alloc_frame grants_ok in blast,
      use page_alloc.alloc_none grants_ok in blast, simp_all)

definition exhausted :: "phys \<Rightarrow> bool" where
  "exhausted st \<longleftrightarrow> (\<forall>pn. \<not> free_page st pn)"

lemma exhausted_alloc: "phys_ok st \<Longrightarrow> page_alloc w st = (0, st') \<Longrightarrow> exhausted st"
  using free_page_nonzero [of st] by (rule_tac page_alloc_cases [of st w]) (auto simp: exhausted_def)

lemma exhausted_used: "exhausted st \<Longrightarrow> used_pages st \<subseteq> used_pages st' \<Longrightarrow> exhausted st'"
proof -
  assume e: "exhausted st" and u: "used_pages st \<subseteq> used_pages st'"
  have "\<not> free_page st' pn" for pn
  proof
    assume f: "free_page st' pn"
    then have "PAGEADDRESS pn \<in> used_pages st" using e by (auto simp: exhausted_def used_pages_def free_page_def)
    then show False using u used_pages_fresh [OF f] by blast
  qed
  then show ?thesis by (simp add: exhausted_def)
qed

section \<open>Steps of a copy\<close>

text \<open>
  \<open>extends pt st st'\<close>: more pages come into use, some of them as tables of \<open>pt\<close>, and the other pages keep their
  contents.
\<close>

definition extends :: "addr \<Rightarrow> phys \<Rightarrow> phys \<Rightarrow> bool" where
  "extends pt st st' \<longleftrightarrow> used_pages st \<subseteq> used_pages st' \<and>
     tables (p_mem st') pt \<inter> used_pages st \<subseteq> tables (p_mem st) pt \<and>
     (\<forall>p\<in>used_pages st - tables (p_mem st) pt. \<forall>x\<in>rgn p PAGESIZE. p_mem st' x = p_mem st x)"

lemma extends_refl: "extends pt st st"
  by (simp add: extends_def)

lemma extends_trans: "extends pt st st' \<Longrightarrow> extends pt st' st'' \<Longrightarrow> extends pt st st''"
proof -
  assume 1: "extends pt st st'" and 2: "extends pt st' st''"
  have p: "p \<in> used_pages st' - tables (p_mem st') pt" if "p \<in> used_pages st - tables (p_mem st) pt" for p
    using 1 that unfolding extends_def by blast
  have "used_pages st \<subseteq> used_pages st''" using 1 2 unfolding extends_def by blast
  moreover have "tables (p_mem st'') pt \<inter> used_pages st \<subseteq> tables (p_mem st) pt" using 1 2 unfolding extends_def by blast
  moreover have "p_mem st'' x = p_mem st x" if "p \<in> used_pages st - tables (p_mem st) pt" "x \<in> rgn p PAGESIZE" for p x
  proof -
    have "p_mem st'' x = p_mem st' x" using 2 p [OF that(1)] that(2) unfolding extends_def by blast
    also have "\<dots> = p_mem st x" using 1 that unfolding extends_def by blast
    finally show ?thesis .
  qed
  ultimately show ?thesis unfolding extends_def by blast
qed

lemma used_pages_aligned: "p \<in> used_pages st \<Longrightarrow> page_aligned p \<and> p < MEMSIZE_PHYSICAL"
  by (auto simp: used_pages_def PAGEADDRESS_less)

lemma extends_grows:
  assumes "pt_grows pt (p_mem st) (used_pages st) (p_mem st') (used_pages st')"
  shows "extends pt st st'"
proof -
  note g = assms [unfolded pt_grows_def]
  have "p_mem st' x = p_mem st x" if p: "p \<in> used_pages st - tables (p_mem st) pt" "x \<in> rgn p PAGESIZE" for p x
  proof -
    have "x \<notin> rgn t 4096" if t: "t \<in> tables (p_mem st') pt" for t
    proof -
      have "t \<noteq> p" using t p g by blast
      moreover have "page_aligned t" using t g pt_wf_table by (fastforce simp: tables_def)
      ultimately show ?thesis
        using page_rgn_disjoint [of t p] used_pages_aligned [of p st] p by (auto simp: PAGESIZE_def)
    qed
    then show ?thesis using g by blast
  qed
  then show ?thesis using g by (auto simp: extends_def)
qed

text \<open>The first step of a copied page: a fresh page that receives the contents of a page in use.\<close>

lemma extends_fill:
  assumes wf: "pt_wf (entry (p_mem st)) pt (used_pages st)" and p: "p \<notin> used_pages st" "page_aligned p"
    and st': "used_pages st' = insert p (used_pages st)" "\<forall>x. x \<notin> rgn p PAGESIZE \<longrightarrow> p_mem st' x = p_mem st x"
  shows "extends pt st st'" and "pt_wf (entry (p_mem st')) pt (used_pages st')" and "p \<notin> tables (p_mem st') pt"
    and "virtual_memory_lookup (p_mem st') pt va = virtual_memory_lookup (p_mem st) pt va"
proof -
  have same: "p_mem st' x = p_mem st x" if "t \<in> used_pages st" "x \<in> rgn t PAGESIZE" for t x
  proof (rule st'(2) [rule_format])
    have "t \<noteq> p" using that p by blast
    then show "x \<notin> rgn p PAGESIZE"
      using page_rgn_disjoint [of t p] used_pages_aligned [OF that(1)] p that(2) by (auto simp: PAGESIZE_def)
  qed
  have used: "t \<in> used_pages st" if "t \<in> tables (p_mem st) pt" for t
    using that pt_wf_table [OF wf] by (auto simp: tables_def)
  have tab: "p_mem st' x = p_mem st x" if "t \<in> tables (p_mem st) pt" "x \<in> rgn t 4096" for t x
    using same [OF used [OF that(1)]] that(2) by (simp add: PAGESIZE_def)
  have eq: "tables (p_mem st') pt = tables (p_mem st) pt"
    using walk_frame [OF wf tab] by (simp add: tables_def cong: conj_cong)
  show "extends pt st st'" using st'(1) same eq by (auto simp: extends_def)
  show wf': "pt_wf (entry (p_mem st')) pt (used_pages st')" by (rule table_frame(1) [OF wf _ tab]) (simp_all add: st'(1) subset_insertI)
  show "p \<notin> tables (p_mem st') pt" using used p(1) by (auto simp: eq)
  show "virtual_memory_lookup (p_mem st') pt va = virtual_memory_lookup (p_mem st) pt va"
    using table_frame(2) [OF wf subset_refl tab] by (simp add: lookup_leaf [OF wf] lookup_leaf [OF wf'])
qed

lemma fill_page:
  assumes g: "grants st0 w st" and w: "ucast w \<noteq> PO_FREE" and a: "page_alloc w st = (p, st1)" "p \<noteq> 0"
    and src: "src \<in> used_pages st"
  defines "st' \<equiv> st1\<lparr>p_mem := memcpy p src PAGESIZE (p_mem st1)\<rparr>"
  shows "grants st0 w st'" and "p \<notin> used_pages st" and "page_aligned p" and "p < MEMSIZE_PHYSICAL"
    and "used_pages st' = insert p (used_pages st)" and "\<forall>x. x \<notin> rgn p PAGESIZE \<longrightarrow> p_mem st' x = p_mem st x"
    and "load_bytes (p_mem st') p PAGESIZE = load_bytes (p_mem st) src PAGESIZE"
proof -
  note f = page_alloc.alloc_fresh [OF grants_ok [OF g] w a] and fr = page_alloc.alloc_frame [OF grants_ok [OF g] w a]
  show "grants st0 w st'" using grants_alloc [OF g w] a by (simp add: st'_def)
  show p: "p \<notin> used_pages st" "page_aligned p" "p < MEMSIZE_PHYSICAL" and "used_pages st' = insert p (used_pages st)"
    using f by (simp_all add: st'_def)
  have d: "rgn p PAGESIZE \<inter> rgn src PAGESIZE = {}"
    using page_rgn_disjoint [of p src] p used_pages_aligned [OF src] src by (auto simp: PAGESIZE_def)
  have mc: "p_mem st' = store_bytes (load_bytes (p_mem st1) src PAGESIZE) p (p_mem st1)"
    using memcpy_eq_store [OF d] by (simp add: st'_def PAGESIZE_def)
  show "\<forall>x. x \<notin> rgn p PAGESIZE \<longrightarrow> p_mem st' x = p_mem st x"
    using fr by (simp add: mc store_bytes_apply PAGESIZE_def)
  have "load_bytes (p_mem st1) src PAGESIZE = load_bytes (p_mem st) src PAGESIZE"
    using d fr by (intro load_bytes_cong) (auto simp: PAGESIZE_def)
  then show "load_bytes (p_mem st') p PAGESIZE = load_bytes (p_mem st) src PAGESIZE"
    unfolding mc using load_store_bytes [of "load_bytes (p_mem st1) src PAGESIZE" p "p_mem st1"] by (simp add: PAGESIZE_def)
qed

text \<open>The second step: one page is mapped.\<close>

lemma page_asserts:
  assumes "pt_wf E pt U" and va: "page_aligned va" "unat va + 4096 \<le> 2 ^ 48" and pa: "page_aligned pa" "pa < MEMSIZE_PHYSICAL"
    and pm: "pm < 0x1000"
  shows "map_asserts pt va pa (of_nat PAGESIZE) pm"
proof -
  have "page_aligned pt" using pt_wf_table [OF assms(1), of 0 0 pt] by simp
  moreover have "unat pa + 4096 \<le> 0x200000"
    using pa by (auto simp: page_aligned_unat MEMSIZE_PHYSICAL_def word_less_nat_alt elim!: dvdE)
  then have "va \<le> va + 4096" "pa \<le> pa + 4096" "pa + 4096 \<le> MEMSIZE_PHYSICAL"
    using va by (simp_all add: word_le_nat_alt unat_word_ariths MEMSIZE_PHYSICAL_def)
  ultimately show ?thesis using va pa pm by (simp add: map_asserts_def PAGESIZE_def page_aligned_unat)
qed

lemma map_child_range:
  assumes "grants st0 w st" and "ucast w \<noteq> PO_FREE" and "pt_wf (entry (p_mem st)) pt (used_pages st)"
    and va: "page_aligned va" "unat va + 4096 \<le> 2 ^ 48" and pa: "page_aligned pa" "pa < MEMSIZE_PHYSICAL"
    and pm: "scast pm < (0x1000 :: uint64)" "(scast pm :: uint64) AND PTE_P \<noteq> 0"
  obtains r st' where "virtual_memory_map pt va pa (of_nat PAGESIZE) pm (Some (page_alloc w)) st = Some (r, st')"
    and "grants st0 w st'" and "pt_wf (entry (p_mem st')) pt (used_pages st')" and "extends pt st st'"
    and "adds 3 (used_pages st) (used_pages st')"
    and "\<And>va'. unat va \<le> unat va' \<Longrightarrow> unat va' < unat va + 4096 \<Longrightarrow> exhausted st' \<or>
      virtual_memory_lookup (p_mem st') pt va' = \<lparr>vam_pn = PAGENUMBER (pa + (va' - va)), vam_pa = pa + (va' - va), vam_perm = pm\<rparr>"
    and "\<And>va'. unat va' < 2 ^ 48 \<Longrightarrow> \<not> (unat va \<le> unat va' \<and> unat va' < unat va + 4096) \<Longrightarrow>
           virtual_memory_lookup (p_mem st') pt va' = virtual_memory_lookup (p_mem st) pt va'"
proof -
  note as = page_asserts [OF assms(3) va pa pm(1)]
  obtain r st' where r: "virtual_memory_map pt va pa (of_nat PAGESIZE) pm (Some (page_alloc w)) st = Some (r, st')"
      "r = 0 \<or> page_alloc w st' = (0, st')" "grants st0 w st'"
      "pt_grows pt (p_mem st) (used_pages st) (p_mem st') (used_pages st')" "adds 3 (used_pages st) (used_pages st')"
      "\<And>va'. unat va' < 2 ^ 48 \<Longrightarrow>
       (if unat va \<le> unat va' \<and> unat va' < unat va + 4096
        then r = 0 \<longrightarrow> vam_of (leaf (entry (p_mem st')) pt va') va' =
                       vam_of (mapped_entry pa (scast pm) (unat va' - unat va)) va'
        else vam_of (leaf (entry (p_mem st')) pt va') va' = vam_of (leaf (entry (p_mem st)) pt va') va')"
    using child_pages.map_spec [OF assms(1) _ _ assms(3) as, of w "Some (page_alloc w)"] assms(2) va(2)
    by (auto simp: PAGESIZE_def)
  have wf': "pt_wf (entry (p_mem st')) pt (used_pages st')" using r(4) by (simp add: pt_grows_def)
  note lk = lookup_leaf [OF assms(3)] lookup_leaf [OF wf']
  show ?thesis
  proof (rule that [OF r(1,3) wf' extends_grows [OF r(4)] r(5)])
    fix va' :: addr assume v: "unat va \<le> unat va'" "unat va' < unat va + 4096"
    then show "exhausted st' \<or>
      virtual_memory_lookup (p_mem st') pt va' = \<lparr>vam_pn = PAGENUMBER (pa + (va' - va)), vam_pa = pa + (va' - va), vam_perm = pm\<rparr>"
      using r(2) exhausted_alloc [OF grants_ok [OF r(3)]] r(6) [of va'] va(2) vam_of_mapped [OF pa(1) va(1) v(1) pm(1)] pm(2)
      by (auto simp: lk)
  next
    fix va' :: addr assume v: "unat va' < 2 ^ 48" "\<not> (unat va \<le> unat va' \<and> unat va' < unat va + 4096)"
    then show "virtual_memory_lookup (p_mem st') pt va' = virtual_memory_lookup (p_mem st) pt va'"
      using r(6) [OF v(1)] by (auto simp: lk)
  qed
qed

lemma map_child_page:
  assumes "grants st0 w st" and "ucast w \<noteq> PO_FREE" and "pt_wf (entry (p_mem st)) pt (used_pages st)"
    and va: "page_aligned va" "unat va + 4096 \<le> 2 ^ 48" and pa: "page_aligned pa" "pa < MEMSIZE_PHYSICAL"
    and pm: "scast pm < (0x1000 :: uint64)" "(scast pm :: uint64) AND PTE_P \<noteq> 0"
  obtains r st' where "virtual_memory_map pt va pa (of_nat PAGESIZE) pm (Some (page_alloc w)) st = Some (r, st')"
    and "grants st0 w st'" and "pt_wf (entry (p_mem st')) pt (used_pages st')" and "extends pt st st'"
    and "adds 3 (used_pages st) (used_pages st')"
    and "exhausted st' \<or> virtual_memory_lookup (p_mem st') pt va = \<lparr>vam_pn = PAGENUMBER pa, vam_pa = pa, vam_perm = pm\<rparr>"
    and "\<And>va'. page_aligned va' \<Longrightarrow> unat va' < 2 ^ 48 \<Longrightarrow> va' \<noteq> va \<Longrightarrow>
           virtual_memory_lookup (p_mem st') pt va' = virtual_memory_lookup (p_mem st) pt va'"
proof -
  have off: "\<not> (unat va \<le> unat va' \<and> unat va' < unat va + 4096)" if "page_aligned va'" "va' \<noteq> va" for va'
    using aligned_apart [OF va(1) that(1)] that(2) by auto
  show ?thesis
  proof (rule map_child_range [OF assms])
    fix r st'
    assume 1: "virtual_memory_map pt va pa (of_nat PAGESIZE) pm (Some (page_alloc w)) st = Some (r, st')" "grants st0 w st'"
        "pt_wf (entry (p_mem st')) pt (used_pages st')" "extends pt st st'" "adds 3 (used_pages st) (used_pages st')"
      and 2: "\<And>va'. unat va \<le> unat va' \<Longrightarrow> unat va' < unat va + 4096 \<Longrightarrow> exhausted st' \<or>
        virtual_memory_lookup (p_mem st') pt va' = \<lparr>vam_pn = PAGENUMBER (pa + (va' - va)), vam_pa = pa + (va' - va), vam_perm = pm\<rparr>"
      and 3: "\<And>va'. unat va' < 2 ^ 48 \<Longrightarrow> \<not> (unat va \<le> unat va' \<and> unat va' < unat va + 4096) \<Longrightarrow>
        virtual_memory_lookup (p_mem st') pt va' = virtual_memory_lookup (p_mem st) pt va'"
    show ?thesis using 2 [of va] by (intro that [OF 1 _ 3 [OF _ off]]) simp_all
  qed
qed

section \<open>The copy of an address space\<close>

text \<open>
  \<open>copied ppid par st0 pt st va\<close>: the page at \<open>va\<close> of the page table \<open>pt\<close> in \<open>st\<close> is what fork makes of that of \<open>par\<close> in \<open>st0\<close>.
  A page that belongs to the process \<open>ppid\<close> is copied to a new page with the same permissions, any other
  mapping (the kernel's, the console's) is shared.
\<close>

definition private_page :: "uint32 \<Rightarrow> addr \<Rightarrow> phys \<Rightarrow> addr \<Rightarrow> bool" where
  "private_page ppid par st va \<longleftrightarrow> (let a = virtual_memory_lookup (p_mem st) par va in
     vam_pn a \<noteq> - 1 \<and> scast (owner (pageinfo st ! unat (vam_pn a))) = ppid)"

definition copied :: "uint32 \<Rightarrow> addr \<Rightarrow> phys \<Rightarrow> addr \<Rightarrow> phys \<Rightarrow> addr \<Rightarrow> bool" where
  "copied ppid par st0 pt st va \<longleftrightarrow>
     (let a = virtual_memory_lookup (p_mem st0) par va; b = virtual_memory_lookup (p_mem st) pt va in
      if private_page ppid par st0 va
      then b = \<lparr>vam_pn = PAGENUMBER (vam_pa b), vam_pa = vam_pa b, vam_perm = vam_perm a\<rparr> \<and>
           vam_pa b \<in> used_pages st - used_pages st0 - tables (p_mem st) pt \<and>
           load_bytes (p_mem st) (vam_pa b) PAGESIZE = load_bytes (p_mem st0) (vam_pa a) PAGESIZE
      else b = a)"

lemma copied_extends:
  assumes c: "copied ppid par st0 pt st va" and e: "extends pt st st'"
    and lk: "virtual_memory_lookup (p_mem st') pt va = virtual_memory_lookup (p_mem st) pt va"
  shows "copied ppid par st0 pt st' va"
proof (cases "private_page ppid par st0 va")
  case True
  let ?p = "vam_pa (virtual_memory_lookup (p_mem st) pt va)"
  have p: "?p \<in> used_pages st - used_pages st0 - tables (p_mem st) pt" using c True by (simp add: copied_def Let_def)
  have "p_mem st' x = p_mem st x" if "x \<in> rgn ?p PAGESIZE" for x using e p that unfolding extends_def by blast
  then have "load_bytes (p_mem st') ?p PAGESIZE = load_bytes (p_mem st) ?p PAGESIZE" by (intro load_bytes_cong) (simp_all add: PAGESIZE_def)
  moreover have "?p \<in> used_pages st' - used_pages st0 - tables (p_mem st') pt" using e p unfolding extends_def by blast
  ultimately show ?thesis using c True lk by (simp add: copied_def Let_def)
next
  case False
  then show ?thesis using c lk by (simp add: copied_def Let_def)
qed

text \<open>What holds of a page that is mapped and in use.\<close>

lemma vam_in_use:
  assumes "pt_wf (entry (p_mem st)) pt U" and va: "page_aligned va"
    and use: "vam_pa (virtual_memory_lookup (p_mem st) pt va) \<in> used_pages st"
  defines "a \<equiv> virtual_memory_lookup (p_mem st) pt va"
  shows "vam_pn a = PAGENUMBER (vam_pa a)" and "unat (vam_pn a) < NPAGES" and "vam_pn a \<noteq> - 1" and "0 \<le> sint (vam_pn a)"
    and "scast (vam_perm a) < (0x1000 :: uint64)" and "(scast (vam_perm a) :: uint64) AND PTE_P \<noteq> 0"
proof -
  define pe where "pe = leaf (entry (p_mem st)) pt va"
  have a: "a = vam_of pe va" by (simp add: a_def pe_def lookup_leaf [OF assms(1)])
  have off: "PAGEOFFSET va = 0" using va by (simp add: PAGEOFFSET_def page_aligned_def)
  have "(- 1 :: addr) \<notin> used_pages st" using used_pages_aligned [of "- 1" st] by (auto simp: page_aligned_def)
  then have pr: "pe AND PTE_P \<noteq> 0" using use by (auto simp: a_def [symmetric] a vam_of_def split: if_splits)
  then have a': "a = \<lparr>vam_pn = PAGENUMBER pe, vam_pa = PTE_ADDR pe, vam_perm = ucast (PTE_FLAGS pe)\<rparr>"
    by (simp add: a vam_of_def off)
  have b: "PTE_ADDR pe < MEMSIZE_PHYSICAL" "page_aligned (PTE_ADDR pe)"
    using used_pages_aligned [OF use] by (simp_all add: a_def [symmetric] a')
  have "drop_bit 12 (PTE_ADDR pe) = drop_bit 12 pe"
    by (rule bit_word_eqI) (auto simp: PTE_ADDR_def mask12 bit_simps dest: bit_imp_le_length)
  then show n: "vam_pn a = PAGENUMBER (vam_pa a)" by (simp add: a' PAGENUMBER_def)
  have "unat (PTE_ADDR pe) < 0x200000" using b by (simp add: word_less_nat_alt MEMSIZE_PHYSICAL_def)
  then have "unat (PTE_ADDR pe) div 4096 < 512" by simp
  then show u: "unat (vam_pn a) < NPAGES" using unat_PAGENUMBER [OF b(1)] n by (simp add: a' NPAGES_def)
  then have u': "unat (vam_pn a) < 2 ^ 31" by (simp add: NPAGES_def)
  show "0 \<le> sint (vam_pn a)" using sint_small [OF u'] by simp
  then show "vam_pn a \<noteq> - 1" by auto
  have "PTE_FLAGS pe \<le> 0xFFF" unfolding PTE_FLAGS_def by (rule word_and_le1)
  then have f: "PTE_FLAGS pe < 0x1000" by (simp add: word_le_nat_alt word_less_nat_alt)
  have s: "scast (ucast (PTE_FLAGS pe) :: uint32) = PTE_FLAGS pe"
    by (rule bit_word_eqI) (auto simp: PTE_FLAGS_def mask12 bit_simps)
  show "scast (vam_perm a) < (0x1000 :: uint64)" using f s by (simp add: a')
  have "PTE_FLAGS pe AND PTE_P = pe AND PTE_P" by (simp add: PTE_FLAGS_def PTE_P_def and.assoc)
  then show "(scast (vam_perm a) :: uint64) AND PTE_P \<noteq> 0" using pr s by (simp add: a')
qed

text \<open>While the pages are copied: the child owns what is new, and what was in use stays as it was.\<close>

definition fork_base :: "phys \<Rightarrow> uint32 \<Rightarrow> addr \<Rightarrow> phys \<Rightarrow> bool" where
  "fork_base st0 w pt st \<longleftrightarrow> grants st0 w st \<and> pt_wf (entry (p_mem st)) pt (used_pages st) \<and>
     tables (p_mem st) pt \<inter> used_pages st0 = {} \<and>
     (\<forall>p\<in>used_pages st0. \<forall>x\<in>rgn p PAGESIZE. p_mem st x = p_mem st0 x)"

lemma fork_base_extends:
  assumes b: "fork_base st0 w pt st" and w: "ucast w \<noteq> PO_FREE" and "grants st0 w st'"
    and "pt_wf (entry (p_mem st')) pt (used_pages st')" and e: "extends pt st st'"
  shows "fork_base st0 w pt st'"
proof -
  have u: "used_pages st0 \<subseteq> used_pages st" using b w grants_used unfolding fork_base_def by blast
  have "tables (p_mem st') pt \<inter> used_pages st0 = {}" using b e u unfolding fork_base_def extends_def by blast
  moreover have "p_mem st' x = p_mem st0 x" if "p \<in> used_pages st0" "x \<in> rgn p PAGESIZE" for p x
  proof -
    have "p \<in> used_pages st - tables (p_mem st) pt" using that(1) u b unfolding fork_base_def by blast
    then have "p_mem st' x = p_mem st x" using e that(2) unfolding extends_def by blast
    then show ?thesis using b that unfolding fork_base_def by simp
  qed
  ultimately show ?thesis using assms(3,4) unfolding fork_base_def by blast
qed

lemma fork_base_parent:
  assumes b: "fork_base st0 w pt st" and w: "ucast w \<noteq> PO_FREE" and wf: "pt_wf (entry (p_mem st0)) par (used_pages st0)"
  shows "virtual_memory_lookup (p_mem st) par va = virtual_memory_lookup (p_mem st0) par va"
    and "p \<in> used_pages st0 \<Longrightarrow> load_bytes (p_mem st) p PAGESIZE = load_bytes (p_mem st0) p PAGESIZE"
    and "PAGEADDRESS pn \<in> used_pages st0 \<Longrightarrow> pn < NPAGES \<Longrightarrow> pageinfo st ! pn = pageinfo st0 ! pn"
proof -
  have u: "used_pages st0 \<subseteq> used_pages st" using b w grants_used unfolding fork_base_def by blast
  have same: "p_mem st x = p_mem st0 x" if "t \<in> tables (p_mem st0) par" "x \<in> rgn t 4096" for t x
    using that pt_wf_table [OF wf] b by (auto simp: tables_def fork_base_def PAGESIZE_def)
  note f = table_frame [OF wf u same]
  show "virtual_memory_lookup (p_mem st) par va = virtual_memory_lookup (p_mem st0) par va"
    by (simp add: lookup_leaf [OF f(1)] lookup_leaf [OF wf] f(2))
  show "load_bytes (p_mem st) p PAGESIZE = load_bytes (p_mem st0) p PAGESIZE" if "p \<in> used_pages st0"
    using that b by (intro load_bytes_cong) (auto simp: fork_base_def PAGESIZE_def)
  show "pageinfo st ! pn = pageinfo st0 ! pn" if "PAGEADDRESS pn \<in> used_pages st0" "pn < NPAGES"
    using that used_pages_fresh [of st0 pn] b unfolding fork_base_def grants_def by blast
qed

lemma fork_page_bounds:
  assumes "va \<in> set fork_pages"
  shows "page_aligned va" and "unat va + 4096 \<le> 2 ^ 48" and "unat va < 2 ^ 48"
proof -
  obtain j where j: "va = PAGEADDRESS j" "j < 768"
    using assms by (auto simp: fork_pages_def MEMSIZE_VIRTUAL_def PAGESIZE_def)
  then have u: "unat va = j * 4096" by (simp add: PAGEADDRESS_def push_bit_eq_mult unat_word_ariths unat_of_nat)
  show "page_aligned va" by (simp add: page_aligned_unat u)
  show "unat va + 4096 \<le> 2 ^ 48" "unat va < 2 ^ 48" using u j(2) by simp_all
qed

text \<open>What one iteration adds: the page at \<open>va\<close>, unless memory has run out.\<close>

definition page_forked :: "uint32 \<Rightarrow> addr \<Rightarrow> phys \<Rightarrow> addr \<Rightarrow> addr \<Rightarrow> phys \<Rightarrow> phys \<Rightarrow> bool" where
  "page_forked ppid par st0 pt va st st' \<longleftrightarrow>
     (virtual_memory_lookup (p_mem st) pt va = no_vam \<longrightarrow> copied ppid par st0 pt st' va) \<and>
     (\<forall>va'\<in>set fork_pages - {va}. virtual_memory_lookup (p_mem st') pt va' = virtual_memory_lookup (p_mem st) pt va') \<and>
     (private_page ppid par st0 va \<longrightarrow> vam_pa (virtual_memory_lookup (p_mem st') pt va) \<notin> used_pages st)"

lemma fork_private_page:
  assumes b: "fork_base st0 w pt st" and w: "ucast w \<noteq> PO_FREE" and wf: "pt_wf (entry (p_mem st0)) par (used_pages st0)"
    and va: "va \<in> set fork_pages" and pr: "private_page ppid par st0 va"
    and use: "vam_pa (virtual_memory_lookup (p_mem st0) par va) \<in> used_pages st0"
    and al: "page_alloc w st = (p, st1)" "p \<noteq> 0"
  defines "a \<equiv> virtual_memory_lookup (p_mem st0) par va"
  obtains r st' where "virtual_memory_map pt va p (of_nat PAGESIZE) (vam_perm a) (Some (page_alloc w))
      (st1\<lparr>p_mem := memcpy p (vam_pa a) PAGESIZE (p_mem st1)\<rparr>) = Some (r, st')"
    and "fork_base st0 w pt st'" and "extends pt st st'" and "adds 4 (used_pages st) (used_pages st')"
    and "exhausted st' \<or> page_forked ppid par st0 pt va st st'"
proof -
  have u: "used_pages st0 \<subseteq> used_pages st" using b w grants_used unfolding fork_base_def by blast
  have g: "grants st0 w st" and ptwf: "pt_wf (entry (p_mem st)) pt (used_pages st)" using b by (simp_all add: fork_base_def)
  have src: "vam_pa a \<in> used_pages st" using use u by (auto simp: a_def)
  define st2 where "st2 = st1\<lparr>p_mem := memcpy p (vam_pa a) PAGESIZE (p_mem st1)\<rparr>"
  note fp = fill_page [OF g w al src, folded st2_def]
  note ef = extends_fill [OF ptwf fp(2,3,5,6)]
  note v = vam_in_use [OF wf fork_page_bounds(1) [OF va] use, folded a_def]
  obtain r st' where r: "virtual_memory_map pt va p (of_nat PAGESIZE) (vam_perm a) (Some (page_alloc w)) st2 = Some (r, st')"
      "grants st0 w st'" "pt_wf (entry (p_mem st')) pt (used_pages st')" "extends pt st2 st'" "adds 3 (used_pages st2) (used_pages st')"
      "exhausted st' \<or> virtual_memory_lookup (p_mem st') pt va = \<lparr>vam_pn = PAGENUMBER p, vam_pa = p, vam_perm = vam_perm a\<rparr>"
      "\<And>va'. page_aligned va' \<Longrightarrow> unat va' < 2 ^ 48 \<Longrightarrow> va' \<noteq> va \<Longrightarrow>
           virtual_memory_lookup (p_mem st') pt va' = virtual_memory_lookup (p_mem st2) pt va'"
    by (rule map_child_page [OF fp(1) w ef(2) fork_page_bounds(1,2) [OF va] fp(3,4) v(5,6)]) (rule that)
  have e: "extends pt st st'" by (rule extends_trans [OF ef(1) r(4)])
  have n: "adds 4 (used_pages st) (used_pages st')" by (rule adds_trans [OF adds_insert r(5) [unfolded fp(5)]]) simp
  have pn: "p \<in> used_pages st2 - tables (p_mem st2) pt" using fp(5) ef(3) by simp
  then have p': "p \<in> used_pages st' - tables (p_mem st') pt" "load_bytes (p_mem st') p PAGESIZE = load_bytes (p_mem st2) p PAGESIZE"
    using r(4) by (auto simp: extends_def PAGESIZE_def intro!: load_bytes_cong)
  have "p \<notin> used_pages st0" using fp(2) u by blast
  moreover have "load_bytes (p_mem st2) p PAGESIZE = load_bytes (p_mem st0) (vam_pa a) PAGESIZE"
    using fp(7) fork_base_parent(2) [OF b w wf use] by (simp add: a_def)
  ultimately have "exhausted st' \<or> page_forked ppid par st0 pt va st st'"
    using r(6,7) p' pr fp(2) ef(4) fork_page_bounds by (auto simp: page_forked_def copied_def a_def [symmetric] Let_def)
  then show ?thesis using that [OF r(1) [unfolded st2_def] fork_base_extends [OF b w r(2,3) e] e n] by blast
qed

lemma fork_shared_page:
  assumes b: "fork_base st0 w pt st" and w: "ucast w \<noteq> PO_FREE" and wf: "pt_wf (entry (p_mem st0)) par (used_pages st0)"
    and va: "va \<in> set fork_pages" and pr: "\<not> private_page ppid par st0 va"
    and use: "vam_pa (virtual_memory_lookup (p_mem st0) par va) \<in> used_pages st0"
  defines "a \<equiv> virtual_memory_lookup (p_mem st0) par va"
  obtains r st' where "virtual_memory_map pt va (vam_pa a) (of_nat PAGESIZE) (vam_perm a) (Some (page_alloc w)) st = Some (r, st')"
    and "fork_base st0 w pt st'" and "extends pt st st'" and "adds 4 (used_pages st) (used_pages st')"
    and "exhausted st' \<or> page_forked ppid par st0 pt va st st'"
proof -
  have g: "grants st0 w st" and ptwf: "pt_wf (entry (p_mem st)) pt (used_pages st)" using b by (simp_all add: fork_base_def)
  note v = vam_in_use [OF wf fork_page_bounds(1) [OF va] use, folded a_def]
  note al = used_pages_aligned [OF use, folded a_def]
  obtain r st' where r: "virtual_memory_map pt va (vam_pa a) (of_nat PAGESIZE) (vam_perm a) (Some (page_alloc w)) st = Some (r, st')"
      "grants st0 w st'" "pt_wf (entry (p_mem st')) pt (used_pages st')" "extends pt st st'" "adds 3 (used_pages st) (used_pages st')"
      "exhausted st' \<or> virtual_memory_lookup (p_mem st') pt va = \<lparr>vam_pn = PAGENUMBER (vam_pa a), vam_pa = vam_pa a, vam_perm = vam_perm a\<rparr>"
      "\<And>va'. page_aligned va' \<Longrightarrow> unat va' < 2 ^ 48 \<Longrightarrow> va' \<noteq> va \<Longrightarrow>
           virtual_memory_lookup (p_mem st') pt va' = virtual_memory_lookup (p_mem st) pt va'"
    by (rule map_child_page [OF g w ptwf fork_page_bounds(1,2) [OF va] conjunct1 [OF al] conjunct2 [OF al] v(5,6)]) (rule that)
  have "exhausted st' \<or> page_forked ppid par st0 pt va st st'"
    using r(6,7) pr v(1) fork_page_bounds by (auto simp: page_forked_def copied_def a_def [symmetric] Let_def)
  then show ?thesis using that [OF r(1) fork_base_extends [OF b w r(2-4)] r(4) adds_mono [OF r(5)]] by simp
qed

text \<open>
  \<open>forking parent pid par s\<close>: process \<open>pid\<close> is the current one, and \<open>parent\<close> has the page table \<open>par\<close>. Their numbers are
  their indices.
\<close>

definition forking :: "nat \<Rightarrow> nat \<Rightarrow> addr \<Rightarrow> 'd kernel \<Rightarrow> bool" where
  "forking parent pid par s \<longleftrightarrow> current s = pid \<and> p_pid (processes s ! pid) = of_nat pid \<and>
     p_pid (processes s ! parent) = of_nat parent \<and> p_pagetable (processes s ! parent) = par"

lemma fork_page_step:
  assumes f: "forking parent pid par s" and b: "fork_base st0 (of_nat pid) pt st" and w: "ucast (of_nat pid :: uint32) \<noteq> PO_FREE"
    and wf: "pt_wf (entry (p_mem st0)) par (used_pages st0)" and va: "va \<in> set fork_pages"
    and use: "virtual_memory_lookup (p_mem st0) par va = no_vam \<or> vam_pa (virtual_memory_lookup (p_mem st0) par va) \<in> used_pages st0"
  shows "\<exists>r st'. fork_page parent (of_nat pid) pt va (s\<lparr>ph := st\<rparr>) = (r, s\<lparr>ph := st'\<rparr>) \<and> (r = Ok () \<or> exhausted st') \<and>
    fork_base st0 (of_nat pid) pt st' \<and> extends pt st st' \<and>
    adds (if virtual_memory_lookup (p_mem st0) par va = no_vam then 0 else 4) (used_pages st) (used_pages st') \<and>
    (exhausted st' \<or> page_forked (of_nat parent) par st0 pt va st st')"
proof -
  let ?a = "virtual_memory_lookup (p_mem st0) par va"
  note par = fork_base_parent [OF b w wf]
  note run = fork_page_def forking_def io_bind_def k_mem_run k_get_run get_current_def on_ph_def on_ph_opt_def map_for_current_def
    k_store_run io_return_def Let_def io_assert_def io_stuck_def
  show ?thesis
  proof (cases "?a = no_vam")
    case True
    then have "vam_pn ?a = - 1" by (simp add: no_vam_def)
    then have "fork_page parent (of_nat pid) pt va (s\<lparr>ph := st\<rparr>) = (Ok (), s\<lparr>ph := st\<rparr>)"
      using f by (simp add: run par(1))
    moreover have "page_forked (of_nat parent) par st0 pt va st st"
      using True \<open>vam_pn ?a = - 1\<close> by (simp add: page_forked_def copied_def private_page_def Let_def)
    ultimately show ?thesis using True b extends_refl adds_refl by (intro exI [of _ "Ok ()"] exI [of _ st]) simp
  next
    case False
    then have use: "vam_pa ?a \<in> used_pages st0" using use by blast
    note v = vam_in_use [OF wf fork_page_bounds(1) [OF va] use]
    have "PAGEADDRESS (unat (vam_pn ?a)) = vam_pa ?a"
      using PAGEADDRESS_PAGENUMBER used_pages_aligned [OF use] v(1) by simp
    then have own: "pageinfo st ! unat (vam_pn ?a) = pageinfo st0 ! unat (vam_pn ?a)" using par(3) use v(2) by simp
    show ?thesis
    proof (cases "private_page (of_nat parent) par st0 va")
      case True
      then have o: "scast (owner (pageinfo st0 ! unat (vam_pn ?a))) = (of_nat parent :: uint32)"
        by (simp add: private_page_def Let_def)
      obtain p st1 where al: "page_alloc (of_nat pid) st = (p, st1)" by force
      have ok: "phys_ok st" using b by (simp add: fork_base_def grants_def)
      show ?thesis
      proof (cases "p = 0")
        case p: True
        then have "st1 = st" "exhausted st" using page_alloc.alloc_none [OF ok w] exhausted_alloc [OF ok] al by auto
        then have "fork_page parent (of_nat pid) pt va (s\<lparr>ph := st\<rparr>) = (Stuck, s\<lparr>ph := st\<rparr>)"
          using f v p al o own by (simp add: run par(1))
        then show ?thesis using b extends_refl adds_refl \<open>exhausted st\<close> by blast
      next
        case p: False
        obtain r st' where r: "virtual_memory_map pt va p (of_nat PAGESIZE) (vam_perm ?a) (Some (page_alloc (of_nat pid)))
              (st1\<lparr>p_mem := memcpy p (vam_pa ?a) PAGESIZE (p_mem st1)\<rparr>) = Some (r, st')"
            "fork_base st0 (of_nat pid) pt st'" "extends pt st st'" "adds 4 (used_pages st) (used_pages st')"
            "exhausted st' \<or> page_forked (of_nat parent) par st0 pt va st st'"
          by (rule fork_private_page [OF b w wf va True use al p])
        then have "fork_page parent (of_nat pid) pt va (s\<lparr>ph := st\<rparr>) = (Ok (), s\<lparr>ph := st'\<rparr>)"
          using f v p al o own by (simp add: run par(1))
        then show ?thesis using r False by (intro exI [of _ "Ok ()"] exI [of _ st']) simp
      qed
    next
      case sh: False
      then have o: "scast (owner (pageinfo st0 ! unat (vam_pn ?a))) \<noteq> (of_nat parent :: uint32)"
        using v(3) by (simp add: private_page_def Let_def)
      obtain r st' where r: "virtual_memory_map pt va (vam_pa ?a) (of_nat PAGESIZE) (vam_perm ?a) (Some (page_alloc (of_nat pid))) st = Some (r, st')"
          "fork_base st0 (of_nat pid) pt st'" "extends pt st st'" "adds 4 (used_pages st) (used_pages st')"
          "exhausted st' \<or> page_forked (of_nat parent) par st0 pt va st st'"
        by (rule fork_shared_page [OF b w wf va sh use])
      then have "fork_page parent (of_nat pid) pt va (s\<lparr>ph := st\<rparr>) = (Ok (), s\<lparr>ph := st'\<rparr>)"
        using f v o own by (simp add: run par(1))
      then show ?thesis using r False by (intro exI [of _ "Ok ()"] exI [of _ st']) simp
    qed
  qed
qed

section \<open>The loop\<close>

text \<open>The pages \<open>D\<close> have been copied, each private one to a page of its own, and the others are not mapped yet.\<close>

definition fork_done :: "uint32 \<Rightarrow> addr \<Rightarrow> phys \<Rightarrow> addr \<Rightarrow> phys \<Rightarrow> addr set \<Rightarrow> bool" where
  "fork_done ppid par st0 pt st D \<longleftrightarrow> (\<forall>va\<in>D. copied ppid par st0 pt st va) \<and>
     (\<forall>va\<in>set fork_pages - D. virtual_memory_lookup (p_mem st) pt va = no_vam) \<and>
     inj_on (\<lambda>va. vam_pa (virtual_memory_lookup (p_mem st) pt va)) {va\<in>D. private_page ppid par st0 va}"

lemma fork_done_step:
  assumes d: "fork_done ppid par st0 pt st D" and D: "D \<subseteq> set fork_pages" "va \<in> set fork_pages - D"
    and e: "extends pt st st'" and p: "page_forked ppid par st0 pt va st st'"
  shows "fork_done ppid par st0 pt st' (insert va D)"
proof -
  let ?P = "\<lambda>st va. vam_pa (virtual_memory_lookup (p_mem st) pt va)"
  have lk: "virtual_memory_lookup (p_mem st') pt va' = virtual_memory_lookup (p_mem st) pt va'" if "va' \<in> set fork_pages - {va}" for va'
    using p that by (simp add: page_forked_def)
  have "copied ppid par st0 pt st' va" using p d D(2) by (simp add: page_forked_def fork_done_def)
  moreover have "copied ppid par st0 pt st' va'" if "va' \<in> D" for va'
    using that d D by (intro copied_extends [OF _ e lk]) (auto simp: fork_done_def)
  moreover have "virtual_memory_lookup (p_mem st') pt va' = no_vam" if "va' \<in> set fork_pages - insert va D" for va'
    using that d lk [of va'] by (simp add: fork_done_def)
  moreover have "inj_on (?P st') {va'\<in>insert va D. private_page ppid par st0 va'}"
  proof (rule inj_onI)
    have u: "?P st' va' \<in> used_pages st" if "va' \<in> D" "private_page ppid par st0 va'" for va'
    proof -
      have "copied ppid par st0 pt st va'" using that(1) d by (simp add: fork_done_def)
      moreover have "va' \<in> set fork_pages - {va}" using that(1) D by blast
      ultimately show ?thesis using that(2) lk [of va'] by (simp add: copied_def Let_def)
    qed
    have n: "private_page ppid par st0 va \<Longrightarrow> ?P st' va \<notin> used_pages st" using p by (simp add: page_forked_def)
    have i: "x = y" if "x \<in> D" "y \<in> D" "private_page ppid par st0 x" "private_page ppid par st0 y" "?P st' x = ?P st' y" for x y
    proof -
      have "x \<in> set fork_pages - {va}" "y \<in> set fork_pages - {va}" using that(1,2) D by blast+
      then have "?P st x = ?P st y" using that(5) lk by simp
      then show ?thesis using that(1-4) d by (auto simp: fork_done_def dest: inj_onD)
    qed
    fix x y assume "x \<in> {va'\<in>insert va D. private_page ppid par st0 va'}" "y \<in> {va'\<in>insert va D. private_page ppid par st0 va'}"
      "?P st' x = ?P st' y"
    then show "x = y" using u n i by (metis (no_types, lifting) insert_iff mem_Collect_eq)
  qed
  ultimately show ?thesis unfolding fork_done_def by blast
qed

lemma fork_loop:
  assumes f: "forking parent pid par s" and w: "ucast (of_nat pid :: uint32) \<noteq> PO_FREE"
    and wf: "pt_wf (entry (p_mem st0)) par (used_pages st0)"
    and use: "\<And>va. va \<in> set fork_pages \<Longrightarrow> virtual_memory_lookup (p_mem st0) par va = no_vam \<or>
      vam_pa (virtual_memory_lookup (p_mem st0) par va) \<in> used_pages st0"
    and "fork_base st0 (of_nat pid) pt st" and "set xs \<subseteq> set fork_pages - D" and "distinct xs" and "D \<subseteq> set fork_pages"
    and "exhausted st \<or> fork_done (of_nat parent) par st0 pt st D"
  shows "\<exists>r st'. for_all (fork_page parent (of_nat pid) pt) xs (s\<lparr>ph := st\<rparr>) = (r, s\<lparr>ph := st'\<rparr>) \<and> (r = Ok () \<or> exhausted st') \<and>
    fork_base st0 (of_nat pid) pt st' \<and> adds (4 * length (filter (\<lambda>va. virtual_memory_lookup (p_mem st0) par va \<noteq> no_vam) xs)) (used_pages st) (used_pages st') \<and>
    (exhausted st' \<or> fork_done (of_nat parent) par st0 pt st' (D \<union> set xs))"
  using assms(5-)
proof (induction xs arbitrary: st D)
  case Nil
  then show ?case by (auto simp: io_return_def adds_refl)
next
  case (Cons va xs)
  let ?n = "\<lambda>xs. 4 * length (filter (\<lambda>va. virtual_memory_lookup (p_mem st0) par va \<noteq> no_vam) xs)"
  have va: "va \<in> set fork_pages" using Cons.prems(2) by simp
  obtain r st1 where r: "fork_page parent (of_nat pid) pt va (s\<lparr>ph := st\<rparr>) = (r, s\<lparr>ph := st1\<rparr>)" "r = Ok () \<or> exhausted st1"
      "fork_base st0 (of_nat pid) pt st1" "extends pt st st1" "adds (?n [va]) (used_pages st) (used_pages st1)"
      "exhausted st1 \<or> page_forked (of_nat parent) par st0 pt va st st1"
    using fork_page_step [OF f Cons.prems(1) w wf va use [OF va]] by (auto split: if_splits)
  have "exhausted st1 \<or> fork_done (of_nat parent) par st0 pt st1 (insert va D)"
    using r(4,6) Cons.prems exhausted_used [of st st1] fork_done_step [of "of_nat parent" par st0 pt st D va st1]
    by (auto simp: extends_def)
  then obtain r' st' where r': "for_all (fork_page parent (of_nat pid) pt) xs (s\<lparr>ph := st1\<rparr>) = (r', s\<lparr>ph := st'\<rparr>)" "r' = Ok () \<or> exhausted st'"
      "fork_base st0 (of_nat pid) pt st'" "adds (?n xs) (used_pages st1) (used_pages st')"
      "exhausted st' \<or> fork_done (of_nat parent) par st0 pt st' (insert va D \<union> set xs)"
    using Cons.IH [OF r(3), of "insert va D"] Cons.prems by auto
  have n: "adds (?n (va # xs)) (used_pages st) (used_pages st')" by (rule adds_trans [OF r(5) r'(4)]) simp
  have n1: "adds (?n (va # xs)) (used_pages st) (used_pages st1)" by (rule adds_mono [OF r(5)]) simp
  show ?case
  proof (cases "r = Ok ()")
    case True
    then have "for_all (fork_page parent (of_nat pid) pt) (va # xs) (s\<lparr>ph := st\<rparr>) = (r', s\<lparr>ph := st'\<rparr>)"
      using r(1) r'(1) by (simp add: io_bind_def)
    then show ?thesis using r' n by auto
  next
    case False
    then have "for_all (fork_page parent (of_nat pid) pt) (va # xs) (s\<lparr>ph := st\<rparr>) = (r, s\<lparr>ph := st1\<rparr>)"
      using r(1) by (cases r) (simp_all add: io_bind_def)
    then show ?thesis using False r(2,3) n1 by blast
  qed
qed

section \<open>The system call\<close>

text \<open>The pages that a process can reach are unmapped or in use.\<close>

definition pages_in_use :: "addr \<Rightarrow> phys \<Rightarrow> bool" where
  "pages_in_use par st \<longleftrightarrow> (\<forall>va\<in>set fork_pages. virtual_memory_lookup (p_mem st) par va = no_vam \<or>
     vam_pa (virtual_memory_lookup (p_mem st) par va) \<in> used_pages st)"

lemma distinct_fork_pages: "distinct fork_pages"
proof -
  have "inj_on PAGEADDRESS {0..<768}"
    by (rule inj_onI) (auto simp: PAGEADDRESS_def push_bit_eq_mult word_unat_eq_iff unat_word_ariths unat_of_nat)
  then show ?thesis by (simp add: fork_pages_def distinct_map MEMSIZE_VIRTUAL_def PAGESIZE_def)
qed

text \<open>The child starts with an empty page table.\<close>

lemma fork_start:
  assumes ok: "phys_ok st0" and w: "ucast w \<noteq> PO_FREE" and al: "page_alloc w st0 = (pt, st)" "pt \<noteq> 0"
  shows "fork_base st0 w pt st" and "fork_done ppid par st0 pt st {}" and "virtual_memory_lookup (p_mem st) pt va = no_vam"
proof -
  obtain pn where pn: "free_page st0 pn" "pt = PAGEADDRESS pn" "p_mem st = memset pt 0 PAGESIZE (p_mem st0)"
    using al by (rule_tac page_alloc_cases [OF ok, of w]) auto
  note f = page_alloc.alloc_fresh [OF ok w al]
  have z: "entry (p_mem st) pt i = 0" if "i < 512" for i
    using f that by (simp add: pn(3) PAGESIZE_def entry_memset)
  have wf: "pt_wf (entry (p_mem st)) pt (used_pages st)"
    by (rule pt_wf_empty) (use z f al(2) in auto)
  have wk: "walk (entry (p_mem st)) pt va k = (if k = 0 then Some pt else None)" for va k
    by (induction k) (auto simp: z PAGEINDEX_less)
  then have tab: "tables (p_mem st) pt = {pt}" by (auto simp: tables_def)
  have "p_mem st x = p_mem st0 x" if "p \<in> used_pages st0" "x \<in> rgn p PAGESIZE" for p x
  proof -
    have "p \<noteq> pt" using f that by blast
    then have "x \<notin> rgn pt PAGESIZE"
      using page_rgn_disjoint [of p pt] used_pages_aligned [OF that(1)] f that(2) by (auto simp: PAGESIZE_def)
    then show ?thesis by (rule page_alloc.alloc_frame [OF ok w al])
  qed
  moreover have "grants st0 w st" using grants_alloc [OF grants_refl [OF ok] w] al by simp
  ultimately show "fork_base st0 w pt st" using wf tab f by (auto simp: fork_base_def)
  show lk: "virtual_memory_lookup (p_mem st) pt va = no_vam" for va
    using wk [of va 3] by (simp add: lookup_leaf [OF wf] leaf_def vam_of_def no_vam_def)
  show "fork_done ppid par st0 pt st {}" by (simp add: fork_done_def lk)
qed

lemma free_slot_facts:
  assumes "free_slot ps = Some pid"
  shows "0 < pid" and "pid < NPROC" and "p_state (ps ! pid) = P_FREE"
  using assms by (auto simp: free_slot_def find_Some_iff nth_upt)

lemma adds_exhausted:
  assumes "adds n (used_pages st) (used_pages st')" and "\<And>pn. pn \<in> P \<Longrightarrow> free_page st pn" and "n < card P"
  shows "\<not> exhausted st'"
proof
  assume e: "exhausted st'"
  obtain A where A: "finite A" "card A \<le> n" "used_pages st' = used_pages st \<union> A" using assms(1) by (auto simp: adds_def)
  have P: "P \<subseteq> {..<NPAGES}" using assms(2) by (auto simp: free_page_def)
  have "PAGEADDRESS ` P \<subseteq> A"
  proof (rule image_subsetI)
    fix pn assume pn: "pn \<in> P"
    then have "PAGEADDRESS pn \<in> used_pages st'" using e P by (auto simp: used_pages_def exhausted_def)
    then show "PAGEADDRESS pn \<in> A" using A(3) used_pages_fresh [OF assms(2) [OF pn]] by blast
  qed
  moreover have "inj_on PAGEADDRESS P" using P by (intro inj_onI) (simp add: PAGEADDRESS_eq_iff subset_iff)
  ultimately have "card P \<le> card A" using A(1) by (metis card_inj_on_le)
  then show False using assms(3) A(2) by simp
qed

lemma length_cstr_less: "0 \<in> set s \<Longrightarrow> length (cstr s) < length s"
  by (induction s) auto

lemma fork_run:
  assumes p: "procs_ok s" "current s < NPROC" "p_state (current_proc s) \<noteq> P_FREE" and ok: "phys_ok (ph s)"
    and slot: "free_slot (processes s) = Some pid"
    and wf: "pt_wf (entry (p_mem (ph s))) (p_pagetable (current_proc s)) (used_pages (ph s))"
    and use: "pages_in_use (p_pagetable (current_proc s)) (ph s)"
  obtains r s' where "sys_fork s = (r, s')" and "grants (ph s) (of_nat pid) (ph s')"
    and "\<forall>p\<in>used_pages (ph s). \<forall>x\<in>rgn p PAGESIZE. p_mem (ph s') x = p_mem (ph s) x"
    and "adds (1 + 4 * length (filter (\<lambda>va. virtual_memory_lookup (p_mem (ph s)) (p_pagetable (current_proc s)) va \<noteq> no_vam) fork_pages))
           (used_pages (ph s)) (used_pages (ph s'))"
    and "exhausted (ph s') \<or> r = Ok () \<and> (\<exists>pt cwd. cstr cwd = cstr (p_cwd (current_proc s)) \<and>
      s' = s\<lparr>ph := ph s', processes := (processes s)
        [pid := (processes s ! pid)\<lparr>p_parent := of_nat (current s), p_pagetable := pt,
           p_registers := (p_registers (current_proc s))\<lparr>reg_rax := 0\<rparr>, p_state := P_RUNNABLE, p_wait_pid := - 1, p_cwd := cwd\<rparr>,
         current s := (current_proc s)\<lparr>p_registers := (p_registers (current_proc s))\<lparr>reg_rax := of_nat pid\<rparr>\<rparr>]\<rparr> \<and>
      fork_base (ph s) (of_nat pid) pt (ph s') \<and>
      fork_done (of_nat (current s)) (p_pagetable (current_proc s)) (ph s) pt (ph s') (set fork_pages))"
proof -
  note pid = free_slot_facts [OF slot]
  have "pid \<in> set [1..<16]" using pid by (simp add: NPROC_def)
  then have w: "ucast (of_nat pid :: uint32) \<noteq> PO_FREE" by (auto simp: upt_rec PO_FREE_def)
  let ?par = "current_proc s" and ?k = "current s"
  let ?n = "length (filter (\<lambda>va. virtual_memory_lookup (p_mem (ph s)) (p_pagetable ?par) va \<noteq> no_vam) fork_pages)"
  have ne: "?k \<noteq> pid" using p(3) pid(3) by auto
  have len: "length (processes s) = NPROC" using p(1) by (simp add: procs_ok_def)
  have ids: "p_pid (processes s ! pid) = of_nat pid" "p_pid ?par = of_nat ?k" using p(1,2) pid(2) by (simp_all add: procs_ok_def proc_ok_def)
  have cw: "0 \<in> set (p_cwd ?par)" "length (p_cwd ?par) = 256" "length (p_cwd (processes s ! pid)) = 256"
    using p(1,2) pid(2) by (simp_all add: procs_ok_def proc_ok_def)
  obtain pt st where al: "page_alloc (of_nat pid) (ph s) = (pt, st)" by force
  define s1 where "s1 = s\<lparr>current := pid\<rparr>"
  have pa: "pagetable_alloc (s\<lparr>current := pid\<rparr>) = (Ok pt, s1\<lparr>ph := st\<rparr>)"
    by (simp add: pagetable_alloc_def io_bind_def kernel_simps on_ph_def ids al s1_def)
  note start = sys_fork_def io_bind_get prod.case slot option.case io_bind_put io_bind_Ok [where m = pagetable_alloc, OF pa]
  show ?thesis
  proof (cases "pt = 0")
    case True
    then have "st = ph s" "exhausted (ph s)" using page_alloc.alloc_none [OF ok w] exhausted_alloc [OF ok] al by auto
    moreover have fk: "sys_fork s = (Ok (), upd_proc ?k (\<lambda>p. p\<lparr>p_registers := (p_registers p)\<lparr>reg_rax := - 1\<rparr>\<rparr>) s)"
      by (simp only: start True if_True refl) (simp add: set_rax_def kernel_simps s1_def upd_proc_def \<open>st = ph s\<close>)
    ultimately show ?thesis
      by (intro that [OF fk]) (simp_all add: upd_proc_def grants_refl [OF ok] adds_refl)
  next
    case False
    note st = fork_start [OF ok w al False]
    let ?loop = "for_all (fork_page ?k (of_nat pid) pt) fork_pages"
    have f: "forking ?k pid (p_pagetable ?par) s1" by (simp add: forking_def s1_def ids)
    have use': "virtual_memory_lookup (p_mem (ph s)) (p_pagetable ?par) va = no_vam \<or>
        vam_pa (virtual_memory_lookup (p_mem (ph s)) (p_pagetable ?par) va) \<in> used_pages (ph s)" if "va \<in> set fork_pages" for va
      using use that by (simp add: pages_in_use_def)
    obtain r st' where r: "for_all (fork_page ?k (of_nat pid) pt) fork_pages (s1\<lparr>ph := st\<rparr>) = (r, s1\<lparr>ph := st'\<rparr>)"
        "r = Ok () \<or> exhausted st'" "fork_base (ph s) (of_nat pid) pt st'" "adds (4 * ?n) (used_pages st) (used_pages st')"
        "exhausted st' \<or> fork_done (of_nat ?k) (p_pagetable ?par) (ph s) pt st' (set fork_pages)"
      using fork_loop [OF f w wf use' st(1) _ distinct_fork_pages, of "{}"] st(2) by auto
    have "adds 1 (used_pages (ph s)) (used_pages st)"
      using page_alloc.alloc_fresh [OF ok w al False] adds_insert [of "used_pages (ph s)" pt] by simp
    then have n: "adds (1 + 4 * ?n) (used_pages (ph s)) (used_pages st')" by (rule adds_trans [OF _ r(4)]) simp
    show ?thesis
    proof (cases "r = Ok ()")
      case r': True
      define cwd where "cwd = cstr (p_cwd ?par) @ 0 # drop (Suc (length (cstr (p_cwd ?par)))) (p_cwd (processes s ! pid))"
      have "length (cstr (p_cwd ?par)) < 256" using length_cstr_less [OF cw(1)] cw(2) by simp
      then have "strcpy (p_cwd (processes s ! pid)) (p_cwd ?par) = Some cwd" using strcpy_cstr cw by (simp add: cwd_def)
      then have fk: "sys_fork s = (Ok (), s\<lparr>ph := st', processes := (processes s)
        [pid := (processes s ! pid)\<lparr>p_parent := of_nat ?k, p_pagetable := pt,
           p_registers := (p_registers ?par)\<lparr>reg_rax := 0\<rparr>, p_state := P_RUNNABLE, p_wait_pid := - 1, p_cwd := cwd\<rparr>,
         ?k := ?par\<lparr>p_registers := (p_registers ?par)\<lparr>reg_rax := of_nat pid\<rparr>\<rparr>]\<rparr>)"
        using ne by (simp only: start False if_False io_bind_Ok [where m = ?loop, OF r(1) [unfolded r']])
          (simp add: set_rax_def kernel_simps io_bind_def s1_def upd_proc_def ids io_some_def io_return_def)
      moreover have "cstr cwd = cstr (p_cwd ?par)" by (simp add: cwd_def cstr_append_nul cstr_no_nul)
      ultimately show ?thesis
        by (intro that [OF fk]) (use r(3,5) n in \<open>auto simp: fork_base_def\<close>)
    next
      case r': False
      then have fk: "sys_fork s = (r, s1\<lparr>ph := st'\<rparr>)"
        using r(1) by (cases r) (simp, simp_all only: start False if_False io_bind_Err [where m = ?loop] io_bind_Stuck [where m = ?loop])
      show ?thesis by (intro that [OF fk]) (use r(2,3) r' n in \<open>auto simp: fork_base_def\<close>)
    qed
  qed
qed

section \<open>Properties\<close>

text \<open>
  C33: \<open>INT_SYS_FORK\<close> with a free process slot. Whatever happens, memory that was in use keeps its contents and
  its owners, what is new belongs to the child, and at most four pages per page of the parent and one more are
  taken. Unless that exhausts physical memory, the call returns: the child is runnable with the parent's registers
  and directory, result 0 for it and its number for the parent, and its page table is well-formed, has
  tables of its own and maps a copy of the address space: every page of the parent is copied to a
  fresh page of its own, at the same address with the same permissions and contents, the
  mappings of the kernel are shared, and unmapped addresses stay unmapped.
\<close>

theorem fork_copies_process:
  assumes "procs_ok s" and "phys_ok (ph s)" and "current s < NPROC" and "p_state (current_proc s) \<noteq> P_FREE"
    and "free_slot (processes s) = Some pid"
    and "pt_wf (entry (p_mem (ph s))) (p_pagetable (current_proc s)) (used_pages (ph s))"
    and "pages_in_use (p_pagetable (current_proc s)) (ph s)"
  shows "\<exists>r s'. sys_fork s = (r, s') \<and>
    (let par = current_proc s; ppt = p_pagetable par; child = processes s' ! pid; pt = p_pagetable child; n = of_nat (current s) in
     grants (ph s) (of_nat pid) (ph s') \<and>
     (\<forall>p\<in>used_pages (ph s). load_bytes (p_mem (ph s')) p PAGESIZE = load_bytes (p_mem (ph s)) p PAGESIZE) \<and>
     adds (1 + 4 * length (filter (\<lambda>va. virtual_memory_lookup (p_mem (ph s)) ppt va \<noteq> no_vam) fork_pages))
       (used_pages (ph s)) (used_pages (ph s')) \<and>
     (exhausted (ph s') \<or>
      r = Ok () \<and> current s' = current s \<and>
      (\<forall>i<NPROC. i \<noteq> pid \<longrightarrow> i \<noteq> current s \<longrightarrow> processes s' ! i = processes s ! i) \<and>
      processes s' ! current s = par\<lparr>p_registers := (p_registers par)\<lparr>reg_rax := of_nat pid\<rparr>\<rparr> \<and>
      p_state child = P_RUNNABLE \<and> p_parent child = n \<and> p_registers child = (p_registers par)\<lparr>reg_rax := 0\<rparr> \<and>
      cstr (p_cwd child) = cstr (p_cwd par) \<and>
      pt_wf (entry (p_mem (ph s'))) pt (used_pages (ph s')) \<and> tables (p_mem (ph s')) pt \<inter> used_pages (ph s) = {} \<and>
      (\<forall>va\<in>set fork_pages. copied n ppt (ph s) pt (ph s') va) \<and>
      inj_on (\<lambda>va. vam_pa (virtual_memory_lookup (p_mem (ph s')) pt va)) {va\<in>set fork_pages. private_page n ppt (ph s) va}))"
proof -
  note pid = free_slot_facts [OF assms(5)]
  have ne: "current s \<noteq> pid" using assms(4) pid(3) by auto
  have len: "length (processes s) = NPROC" using assms(1) by (simp add: procs_ok_def)
  let ?par = "current_proc s"
  let ?new = "\<lambda>pt cwd. (processes s)
        [pid := (processes s ! pid)\<lparr>p_parent := of_nat (current s), p_pagetable := pt,
           p_registers := (p_registers ?par)\<lparr>reg_rax := 0\<rparr>, p_state := P_RUNNABLE, p_wait_pid := - 1, p_cwd := cwd\<rparr>,
         current s := ?par\<lparr>p_registers := (p_registers ?par)\<lparr>reg_rax := of_nat pid\<rparr>\<rparr>]"
  obtain r s' where r: "sys_fork s = (r, s')" "grants (ph s) (of_nat pid) (ph s')"
      "\<forall>p\<in>used_pages (ph s). \<forall>x\<in>rgn p PAGESIZE. p_mem (ph s') x = p_mem (ph s) x"
      "adds (1 + 4 * length (filter (\<lambda>va. virtual_memory_lookup (p_mem (ph s)) (p_pagetable ?par) va \<noteq> no_vam) fork_pages))
           (used_pages (ph s)) (used_pages (ph s'))"
      "exhausted (ph s') \<or> r = Ok () \<and> (\<exists>pt cwd. cstr cwd = cstr (p_cwd ?par) \<and> s' = s\<lparr>ph := ph s', processes := ?new pt cwd\<rparr> \<and>
      fork_base (ph s) (of_nat pid) pt (ph s') \<and> fork_done (of_nat (current s)) (p_pagetable ?par) (ph s) pt (ph s') (set fork_pages))"
    by (rule fork_run [OF assms(1,3,4,2,5-7)]) (rule that)
  have m: "\<forall>p\<in>used_pages (ph s). load_bytes (p_mem (ph s')) p PAGESIZE = load_bytes (p_mem (ph s)) p PAGESIZE"
    using r(3) by (auto simp: PAGESIZE_def intro!: load_bytes_cong)
  show ?thesis
  proof (cases "exhausted (ph s')")
    case True
    then show ?thesis using r(1,2,4) m by (intro exI [of _ r] exI [of _ s']) (simp add: Let_def)
  next
    case False
    then obtain pt cwd where c: "r = Ok ()" "cstr cwd = cstr (p_cwd ?par)" "s' = s\<lparr>ph := ph s', processes := ?new pt cwd\<rparr>"
        "fork_base (ph s) (of_nat pid) pt (ph s')" "fork_done (of_nat (current s)) (p_pagetable ?par) (ph s) pt (ph s') (set fork_pages)"
      using r(5) by blast
    have ps: "processes s' = ?new pt cwd" "current s' = current s" by (subst c(3), simp)+
    have "p_pagetable (processes s' ! pid) = pt" using ps ne pid(2) len by simp
    then show ?thesis
      using r(1,2,4) m c(1,2,4,5) ps ne pid(2) assms(3) len
      by (intro exI [of _ r] exI [of _ s']) (simp add: Let_def fork_base_def fork_done_def)
  qed
qed

text \<open>A process with one page, at 0x100000, for the witness.\<close>

lemma initially_free: "pn \<in> {256..<276} \<Longrightarrow> free_page (pageinfo_init 0x60000 boot_phys) pn"
  by (simp add: free_page_def boot_phys_init_nth NPAGES_def initial_pageinfo_def Let_def initial_owner_def
      physical_memory_isreserved_def page_consts owner_consts PAGEADDRESS_def push_bit_eq_mult word_less_nat_alt word_le_nat_alt
      word_unat_eq_iff unat_word_ariths unat_of_nat)

lemma process_with_page:
  obtains pt p st where "phys_ok st" and "pt_wf (entry (p_mem st)) pt (used_pages st)" and "p \<in> used_pages st - tables (p_mem st) pt"
    and "\<And>va. unat va < 2 ^ 48 \<Longrightarrow> virtual_memory_lookup (p_mem st) pt va =
      (if 0x100000 \<le> unat va \<and> unat va < 0x101000
       then \<lparr>vam_pn = PAGENUMBER (p + (va - 0x100000)), vam_pa = p + (va - 0x100000), vam_perm = 7\<rparr> else no_vam)"
    and "owner (pageinfo st ! unat (PAGENUMBER p)) = 1" and "p < MEMSIZE_PHYSICAL"
    and "adds 5 (used_pages (pageinfo_init 0x60000 boot_phys)) (used_pages st)"
proof -
  define st0 where "st0 = pageinfo_init 0x60000 boot_phys"
  have ok: "phys_ok st0" unfolding st0_def by (rule boot_phys_init_ok)
  have w: "ucast (1 :: uint32) \<noteq> PO_FREE" by (simp add: PO_FREE_def)
  have free: "\<not> exhausted st" if "adds n (used_pages st0) (used_pages st)" "n < 20" for st n
    using adds_exhausted [OF that(1) [unfolded st0_def] initially_free, of "{256..<276}"] that(2) by simp
  obtain pt st1 where 1: "page_alloc 1 st0 = (pt, st1)" by force
  have "pt \<noteq> 0" using 1 exhausted_alloc [OF ok] free [OF adds_refl, of 0] by auto
  note f1 = fork_start [OF ok w 1 this] and a1 = page_alloc.alloc_fresh [OF ok w 1 this]
  have g1: "grants st0 1 st1" and wf1: "pt_wf (entry (p_mem st1)) pt (used_pages st1)" using f1(1) by (simp_all add: fork_base_def)
  have n1: "adds 1 (used_pages st0) (used_pages st1)" using a1 adds_insert [of "used_pages st0" pt] by simp
  obtain p st2 where 2: "page_alloc 1 st1 = (p, st2)" by force
  have "p \<noteq> 0" using 2 exhausted_alloc [OF grants_ok [OF g1]] free [OF n1] by auto
  note a2 = child_pages.alloc_fresh [OF g1 _ 2 this] and fr = page_alloc.alloc_frame [OF grants_ok [OF g1] w 2 this]
  have g2: "grants st0 1 st2" using grants_alloc [OF g1 w] 2 by simp
  have p: "p \<notin> used_pages st1" "page_aligned p" "p < MEMSIZE_PHYSICAL" "used_pages st2 = insert p (used_pages st1)"
    using a2 w by simp_all
  have "\<forall>x. x \<notin> rgn p PAGESIZE \<longrightarrow> p_mem st2 x = p_mem st1 x" using fr by blast
  note e2 = extends_fill [OF wf1 p(1,2,4) this]
  have n2: "adds 2 (used_pages st0) (used_pages st2)" by (rule adds_trans [OF n1 adds_insert [of "used_pages st1" p, folded p(4)]]) simp
  have va: "page_aligned 0x100000" "unat (0x100000 :: addr) + 4096 \<le> 2 ^ 48" by (simp_all add: page_aligned_def)
  have pm: "scast (7 :: uint32) < (0x1000 :: uint64)" "(scast (7 :: uint32) :: uint64) AND PTE_P \<noteq> 0" by (simp_all add: PTE_P_def)
  obtain r st where 3: "virtual_memory_map pt 0x100000 p (of_nat PAGESIZE) 7 (Some (page_alloc 1)) st2 = Some (r, st)"
      "grants st0 1 st" "pt_wf (entry (p_mem st)) pt (used_pages st)" "extends pt st2 st" "adds 3 (used_pages st2) (used_pages st)"
      "\<And>va'. unat (0x100000 :: addr) \<le> unat va' \<Longrightarrow> unat va' < unat (0x100000 :: addr) + 4096 \<Longrightarrow> exhausted st \<or>
        virtual_memory_lookup (p_mem st) pt va' = \<lparr>vam_pn = PAGENUMBER (p + (va' - 0x100000)), vam_pa = p + (va' - 0x100000), vam_perm = 7\<rparr>"
      "\<And>va'. unat va' < 2 ^ 48 \<Longrightarrow> \<not> (unat (0x100000 :: addr) \<le> unat va' \<and> unat va' < unat (0x100000 :: addr) + 4096) \<Longrightarrow>
           virtual_memory_lookup (p_mem st) pt va' = virtual_memory_lookup (p_mem st2) pt va'"
    by (rule map_child_range [OF g2 w e2(2) va p(2,3) pm]) (rule that)
  have n3: "adds 5 (used_pages st0) (used_pages st)" by (rule adds_trans [OF n2 3(5)]) simp
  have pu: "p \<in> used_pages st - tables (p_mem st) pt" using 3(4) p(4) e2(3) by (auto simp: extends_def)
  have lk: "virtual_memory_lookup (p_mem st) pt va =
      (if 0x100000 \<le> unat va \<and> unat va < 0x101000
       then \<lparr>vam_pn = PAGENUMBER (p + (va - 0x100000)), vam_pa = p + (va - 0x100000), vam_perm = 7\<rparr> else no_vam)"
    if "unat va < 2 ^ 48" for va
    using that 3(6) [of va] free [OF n3] 3(7) [of va] e2(4) [of va] f1(3) [of va] by auto
  have pn: "PAGEADDRESS (unat (PAGENUMBER p)) = p" "unat (PAGENUMBER p) < NPAGES"
    using PAGEADDRESS_PAGENUMBER [OF p(2,3)] p(3) unat_PAGENUMBER [OF p(3)]
    by (simp_all add: NPAGES_def MEMSIZE_PHYSICAL_def word_less_nat_alt less_mult_imp_div_less)
  have "p \<notin> used_pages st0" using p(1) grants_used [OF g1 w] by blast
  then have "free_page st0 (unat (PAGENUMBER p))" using pn unfolding used_pages_def by (metis (mono_tags, lifting) imageI mem_Collect_eq)
  moreover have "\<not> free_page st (unat (PAGENUMBER p))" using pu used_pages_fresh [of st] pn(1) by (metis DiffD1)
  ultimately have "owner (pageinfo st ! unat (PAGENUMBER p)) = 1" using 3(2) pn(2) by (auto simp: grants_def free_page_def)
  from that [OF grants_ok [OF 3(2)] 3(3) pu lk this p(3) n3 [unfolded st0_def]] show ?thesis .
qed

theorem fork_copies_process_witness:
  "\<exists>s s' :: nat kernel. sys_fork s = (Ok (), s') \<and> current s = 1 \<and>
     (let a = virtual_memory_lookup (p_mem (ph s)) (p_pagetable (processes s ! 1)) 0x100000;
          b = virtual_memory_lookup (p_mem (ph s')) (p_pagetable (processes s' ! 2)) 0x100000 in
      vam_perm a = 7 \<and> vam_perm b = 7 \<and> vam_pa b \<noteq> vam_pa a \<and> vam_pa b \<in> used_pages (ph s') \<and>
      load_bytes (p_mem (ph s')) (vam_pa b) PAGESIZE = load_bytes (p_mem (ph s)) (vam_pa a) PAGESIZE)"
proof -
  obtain pt p st where wf: "phys_ok st" "pt_wf (entry (p_mem st)) pt (used_pages st)" and pu: "p \<in> used_pages st - tables (p_mem st) pt"
      and lk: "\<And>va. unat va < 2 ^ 48 \<Longrightarrow> virtual_memory_lookup (p_mem st) pt va =
      (if 0x100000 \<le> unat va \<and> unat va < 0x101000
       then \<lparr>vam_pn = PAGENUMBER (p + (va - 0x100000)), vam_pa = p + (va - 0x100000), vam_perm = 7\<rparr> else no_vam)"
      and st': "owner (pageinfo st ! unat (PAGENUMBER p)) = 1" "p < MEMSIZE_PHYSICAL"
      "adds 5 (used_pages (pageinfo_init 0x60000 boot_phys)) (used_pages st)"
    by (rule process_with_page) (rule that)
  have pu': "p \<in> used_pages st" using pu by simp
  have lk': "virtual_memory_lookup (p_mem st) pt va = (if va = 0x100000 then \<lparr>vam_pn = PAGENUMBER p, vam_pa = p, vam_perm = 7\<rparr> else no_vam)"
    if "va \<in> set fork_pages" for va
  proof -
    have "0x100000 \<le> unat va \<and> unat va < 0x101000 \<longleftrightarrow> va = 0x100000"
      using aligned_apart [OF fork_page_bounds(1) [OF that], of "0x100000"] by (cases "va = 0x100000") (auto simp: page_aligned_def)
    then show ?thesis using lk [OF fork_page_bounds(3) [OF that]] by simp
  qed
  note st = wf pu' lk' st'
  define s where "s = upd_proc 1 (\<lambda>p. p\<lparr>p_pagetable := pt\<rparr>) (witness_state\<lparr>ph := st\<rparr>)"
  have ps: "length (processes witness_state) = NPROC" "current witness_state = 1" "p_state (processes witness_state ! 1) = P_RUNNABLE"
      "procs_ok witness_state"
    using witness_state_running by (auto simp: running_ok_def procs_ok_def witness_state_def upd_proc_def initial_processes_def NPROC_def)
  have s: "procs_ok s" "phys_ok (ph s)" "current s = 1" "current s < NPROC" "p_state (current_proc s) \<noteq> P_FREE"
      "p_pagetable (current_proc s) = pt" "ph s = st"
    using ps st(1) by (auto simp: s_def upd_proc_def procs_ok_def proc_ok_def NPROC_def nth_list_update)
  have slot: "free_slot (processes s) = Some 2"
    by (simp add: free_slot_def s_def witness_state_def upd_proc_def initial_processes_def NPROC_def upt_rec zero_proc_def process_init_def Let_def)
  have page: "0x100000 \<in> set fork_pages"
    unfolding fork_pages_def set_map by (rule image_eqI [of _ _ 256]) (simp_all add: PAGEADDRESS_def push_bit_eq_mult MEMSIZE_VIRTUAL_def PAGESIZE_def)
  have use: "pages_in_use pt st" using st(3,4) by (simp add: pages_in_use_def)
  have "filter (\<lambda>va. virtual_memory_lookup (p_mem st) pt va \<noteq> no_vam) fork_pages = filter (\<lambda>va. va = 0x100000) fork_pages"
    using st(4) by (intro filter_cong) (auto simp: no_vam_def)
  moreover have "length (filter (\<lambda>va. va = 0x100000) fork_pages) = 1"
    using distinct_fork_pages page by (simp add: distinct_length_filter Collect_conv_if)
  ultimately have n: "length (filter (\<lambda>va. virtual_memory_lookup (p_mem st) pt va \<noteq> no_vam) fork_pages) = 1" by simp
  obtain r s' where r: "sys_fork s = (r, s')" "adds 5 (used_pages st) (used_pages (ph s'))"
      "exhausted (ph s') \<or> r = Ok () \<and> (\<forall>va\<in>set fork_pages. copied 1 pt st (p_pagetable (processes s' ! 2)) (ph s') va)"
    using fork_copies_process [OF s(1,2,4,5) slot] st(2) use n s(3,6,7) by (auto simp: Let_def)
  have "adds 10 (used_pages (pageinfo_init 0x60000 boot_phys)) (used_pages (ph s'))" by (rule adds_trans [OF st(7) r(2)]) simp
  then have "\<not> exhausted (ph s')" using adds_exhausted [OF _ initially_free, of 10 "ph s'" "{256..<276}"] by simp
  then have c: "r = Ok ()" "copied 1 pt st (p_pagetable (processes s' ! 2)) (ph s') 0x100000" using r(3) page by auto
  have "vam_pn (virtual_memory_lookup (p_mem st) pt 0x100000) \<noteq> - 1"
    using vam_in_use(3) [OF st(2) fork_page_bounds(1) [OF page]] st(3,4) page by simp
  then have "private_page 1 pt st 0x100000" using st(4,5) page by (simp add: private_page_def)
  moreover define b where "b = virtual_memory_lookup (p_mem (ph s')) (p_pagetable (processes s' ! 2)) 0x100000"
  moreover have a: "virtual_memory_lookup (p_mem st) pt 0x100000 = \<lparr>vam_pn = PAGENUMBER p, vam_pa = p, vam_perm = 7\<rparr>"
    using st(4) page by simp
  ultimately have b: "b = \<lparr>vam_pn = PAGENUMBER (vam_pa b), vam_pa = vam_pa b, vam_perm = 7\<rparr>"
      "vam_pa b \<in> used_pages (ph s') - used_pages st"
      "load_bytes (p_mem (ph s')) (vam_pa b) PAGESIZE = load_bytes (p_mem st) p PAGESIZE"
    using c(2) by (simp_all add: copied_def Let_def)
  have "vam_perm b = 7" by (subst b(1)) simp
  moreover have "vam_pa b \<noteq> p" using b(2) st(3) by auto
  moreover have "p_pagetable (processes s ! 1) = pt" using s(3,6) by simp
  ultimately show ?thesis
    using r(1) c(1) s(3,7) a b(2,3) by - (rule exI [where x = s], rule exI [where x = s'], simp add: b_def [symmetric])
qed

end
