(* ===== verification/User_Memory.thy ===== *)
theory User_Memory
  imports Fork_Correct
begin

unbundle bit_operations_syntax

text \<open>
  Memory as a process sees it, through its page table, and what the system call \<open>INT_SYS_PAGE_ALLOC\<close> does to that view:
  the kernel's side of the contract on which \<open>malloc\<close> of the processes rests.
\<close>

section \<open>The view of a process\<close>

text \<open>The byte at a virtual address, if the page table gives programs access to it.\<close>

definition user_view :: "mem \<Rightarrow> addr \<Rightarrow> addr \<Rightarrow> byte option" where
  "user_view m pt va =
     (let vam = virtual_memory_lookup m pt va
      in if vam_perm vam AND PTE_USER = PTE_USER then Some (m (vam_pa vam)) else None)"

definition user_pages :: "mem \<Rightarrow> addr \<Rightarrow> addr set" where
  "user_pages m pt = {p. page_aligned p \<and> (\<exists>va. unat va < 2 ^ 48 \<and> user_view m pt va \<noteq> None \<and>
     vam_pa (virtual_memory_lookup m pt va) \<in> rgn p PAGESIZE)}"

text \<open>A page table in order: its tables and the pages of its process are in use, and the process has no access to the tables.\<close>

definition space_ok :: "mem \<Rightarrow> addr \<Rightarrow> addr set \<Rightarrow> bool" where
  "space_ok m pt U \<longleftrightarrow> pt_wf (entry m) pt U \<and> user_pages m pt \<subseteq> U - tables m pt"

lemma page_of:
  obtains p where "page_aligned p" and "a \<in> rgn p PAGESIZE"
proof -
  have "unat (PTE_ADDR a) = unat a div 4096 * 4096"
    using unat_round_down [of 12 a] by (simp add: PTE_ADDR_def mask12)
  then have "page_aligned (PTE_ADDR a)" "a \<in> rgn (PTE_ADDR a) PAGESIZE"
    using unat_aligned_bound [of "PTE_ADDR a"] by (simp_all add: page_aligned_unat rgn_nat PAGESIZE_def)
  then show ?thesis by (rule that)
qed

lemma view_same:
  assumes "virtual_memory_lookup m' pt va = virtual_memory_lookup m pt va" and "unat va < 2 ^ 48"
    and "\<And>p x. p \<in> user_pages m pt \<Longrightarrow> x \<in> rgn p PAGESIZE \<Longrightarrow> m' x = m x"
  shows "user_view m' pt va = user_view m pt va"
proof (cases "user_view m pt va")
  case None
  then show ?thesis using assms(1) by (auto simp: user_view_def Let_def split: if_splits)
next
  case (Some b)
  obtain p where p: "page_aligned p" "vam_pa (virtual_memory_lookup m pt va) \<in> rgn p PAGESIZE" by (rule page_of)
  then have "p \<in> user_pages m pt" using assms(2) Some by (auto simp: user_pages_def)
  then have "m' (vam_pa (virtual_memory_lookup m pt va)) = m (vam_pa (virtual_memory_lookup m pt va))" using assms(3) p(2) by blast
  then show ?thesis using assms(1) by (simp add: user_view_def Let_def)
qed


lemma user_pages_lookup:
  assumes "\<And>va. unat va < 2 ^ 48 \<Longrightarrow> virtual_memory_lookup m' pt' va = virtual_memory_lookup m pt va"
  shows "user_pages m' pt' = user_pages m pt"
  using assms unfolding user_pages_def user_view_def by (auto simp: Let_def split: if_splits)

section \<open>Mapping a new page\<close>

lemma map_page_absent:
  assumes wf: "pt_wf (entry (p_mem st)) pt U" and va: "unat va < 2 ^ 48" and w3: "walk (entry (p_mem st)) pt va 3 = None"
    and a: "map_asserts pt va pad (of_nat PAGESIZE) (scast pm)" and pm: "(scast pm :: uint64) AND PTE_P \<noteq> 0"
  shows "virtual_memory_map pt va pad (of_nat PAGESIZE) pm None st = Some (- 1, st)"
proof -
  obtain l4 st' where l: "(if ucast (drop_bit 21 va) \<noteq> (- 1 :: uint32) then lookup_l4pagetable pt va (scast pm) None st
      else Some (0, st)) = Some (l4, st')" "walk (entry (p_mem st')) pt va 3 = (if l4 = 0 then None else Some l4)"
    using no_pages.cached_or_looked_up [OF TrueI TrueI _ wf va, of None "scast pm" "- 1" 0] by (auto simp: cache_ok_def)
  have "st' = st" using descend_None l(1) by (auto simp: lookup_l4pagetable_def split: if_splits)
  moreover have "l4 = 0" using l(2) w3 calculation by (simp split: if_splits)
  moreover have "unat (of_nat PAGESIZE :: uint64) div PAGESIZE = Suc 0" by (simp add: PAGESIZE_def)
  ultimately show ?thesis using a pm l(1) by (simp add: virtual_memory_map_def Let_def)
qed

text \<open>The bytes of the page at \<open>va\<close>.\<close>

definition in_page :: "addr \<Rightarrow> addr \<Rightarrow> bool" where
  "in_page va va' \<longleftrightarrow> unat va \<le> unat va' \<and> unat va' < unat va + 4096"

lemma in_page_rgn:
  assumes "page_aligned p" and "in_page va va'"
  shows "p + (va' - va) \<in> rgn p PAGESIZE"
proof -
  have "unat (va' - va) = unat va' - unat va" using assms(2) by (simp add: in_page_def unat_sub word_le_nat_alt)
  moreover have "unat p + (unat va' - unat va) < 2 ^ 64"
    using assms(2) unat_aligned_bound [OF assms(1)] unfolding in_page_def by arith
  ultimately have "unat (p + (va' - va)) = unat p + (unat va' - unat va)" by (simp add: unat_word_ariths)
  then show ?thesis using assms unat_aligned_bound [OF assms(1)] by (auto simp: rgn_nat PAGESIZE_def in_page_def)
qed

text \<open>A page that \<open>page_alloc\<close> delivers is cleared and disturbs no page in use.\<close>

lemma fresh_page:
  assumes ok: "phys_ok st" and w: "ucast w \<noteq> PO_FREE" and sp: "space_ok (p_mem st) pt (used_pages st)"
    and a: "page_alloc w st = (p, st1)" "p \<noteq> 0"
  shows "phys_ok st1" and "p \<notin> used_pages st" and "page_aligned p" and "p < MEMSIZE_PHYSICAL"
    and "used_pages st1 = insert p (used_pages st)" and "extends pt st st1"
    and "pt_wf (entry (p_mem st1)) pt (used_pages st1)"
    and "virtual_memory_lookup (p_mem st1) pt va = virtual_memory_lookup (p_mem st) pt va"
    and "p \<notin> tables (p_mem st1) pt" and "tables (p_mem st1) pt = tables (p_mem st) pt"
    and "walk (entry (p_mem st1)) pt va 3 = walk (entry (p_mem st)) pt va 3" and "x \<in> rgn p PAGESIZE \<Longrightarrow> p_mem st1 x = 0"
proof -
  note f = page_alloc.alloc_fresh [OF ok w a] and fr = page_alloc.alloc_frame [OF ok w a]
  have wf: "pt_wf (entry (p_mem st)) pt (used_pages st)" using sp by (simp add: space_ok_def)
  have p: "p \<notin> used_pages st" "page_aligned p" "used_pages st1 = insert p (used_pages st)" using f by simp_all
  have "\<forall>x. x \<notin> rgn p PAGESIZE \<longrightarrow> p_mem st1 x = p_mem st x" using fr by blast
  note e = extends_fill [OF wf p this]
  show "phys_ok st1" using phys_ok_page_alloc [OF ok w] a by simp
  show "p \<notin> used_pages st" "page_aligned p" "p < MEMSIZE_PHYSICAL" "used_pages st1 = insert p (used_pages st)"
    using f by simp_all
  show "extends pt st st1" "pt_wf (entry (p_mem st1)) pt (used_pages st1)" "p \<notin> tables (p_mem st1) pt"
      "virtual_memory_lookup (p_mem st1) pt va = virtual_memory_lookup (p_mem st) pt va"
    using e by simp_all
  have tab: "p_mem st1 x = p_mem st x" if "t \<in> tables (p_mem st) pt" "x \<in> rgn t 4096" for t x
  proof (rule fr)
    have "t \<in> used_pages st" using that(1) pt_wf_table [OF wf] by (auto simp: tables_def)
    then show "x \<notin> rgn p PAGESIZE"
      using page_rgn_disjoint [of t p] used_pages_aligned [of t st] p that(2) by (auto simp: PAGESIZE_def)
  qed
  show "walk (entry (p_mem st1)) pt va 3 = walk (entry (p_mem st)) pt va 3" using walk_frame [OF wf tab] by simp
  show "tables (p_mem st1) pt = tables (p_mem st) pt" using walk_frame [OF wf tab] by (simp add: tables_def cong: conj_cong)
  assume x: "x \<in> rgn p PAGESIZE"
  then have "unat (x - p) < PAGESIZE" by (simp add: rgn_def)
  then show "p_mem st1 x = 0"
    using x a by (rule_tac page_alloc_cases [OF ok, of w]) (auto simp: memset_eq_store store_bytes_apply PAGESIZE_def)
qed

text \<open>The page at \<open>va\<close> is replaced by \<open>p\<close>, provided that its table of level 4 exists.\<close>

lemma map_user_page:
  assumes wf: "pt_wf (entry (p_mem st)) pt (used_pages st)" and p: "p \<notin> tables (p_mem st) pt" "page_aligned p" "p < MEMSIZE_PHYSICAL"
    and va: "page_aligned va" "unat va + 4096 \<le> 2 ^ 48"
  obtains r m where "virtual_memory_map pt va p (of_nat PAGESIZE) PTE_USER None st = Some (r, st\<lparr>p_mem := m\<rparr>)"
    and "pt_wf (entry m) pt (used_pages st)" and "extends pt st (st\<lparr>p_mem := m\<rparr>)" and "tables m pt = tables (p_mem st) pt"
    and "\<And>va'. unat va' < 2 ^ 48 \<Longrightarrow> virtual_memory_lookup m pt va' =
      (if in_page va va' \<and> walk (entry (p_mem st)) pt va 3 \<noteq> None
       then \<lparr>vam_pn = PAGENUMBER (p + (va' - va)), vam_pa = p + (va' - va), vam_perm = PTE_USER\<rparr>
       else virtual_memory_lookup (p_mem st) pt va')"
proof -
  have pm: "scast PTE_USER < (0x1000 :: uint64)" "(scast PTE_USER :: uint64) AND PTE_P \<noteq> 0"
    by (simp_all add: PTE_USER_def PTE_P_def PTE_W_def PTE_U_def)
  note as = page_asserts [OF wf va p(2,3) pm(1)]
  have v: "unat va < 2 ^ 48" using va by simp
  show ?thesis
  proof (cases "walk (entry (p_mem st)) pt va 3")
    case None
    show ?thesis
      by (rule that [of "- 1" "p_mem st"]) (simp_all add: map_page_absent [OF wf v None as pm(2)] wf extends_refl None)
  next
    case (Some l4)
    note mo = map_one_page [OF wf Some as v]
    let ?m = "set_entry l4 (PAGEINDEX va 3) (mapped_entry p (scast PTE_USER) 0) (p_mem st)"
    have t: "tables ?m pt = tables (p_mem st) pt" using mo(2) by (auto simp: pt_grows_def)
    have lk: "virtual_memory_lookup ?m pt va' = (if in_page va va' \<and> walk (entry (p_mem st)) pt va 3 \<noteq> None
       then \<lparr>vam_pn = PAGENUMBER (p + (va' - va)), vam_pa = p + (va' - va), vam_perm = PTE_USER\<rparr>
       else virtual_memory_lookup (p_mem st) pt va')" if "unat va' < 2 ^ 48" for va'
      using mo(3) [OF that] vam_of_mapped [OF p(2) va(1) _ pm(1), of va'] pm(2) Some by (simp add: in_page_def)
    show ?thesis
      by (rule that [OF mo(1) _ _ t lk]) (use mo(2) in \<open>simp_all add: pt_grows_def extends_grows\<close>)
  qed
qed

text \<open>Pages in use that are not tables of \<open>pt\<close> keep their contents, hence other processes keep their view.\<close>

lemma other_view:
  assumes sp: "space_ok (p_mem st) pt2 (used_pages st)" and e: "extends pt st st'"
    and d: "tables (p_mem st) pt \<inter> (tables (p_mem st) pt2 \<union> user_pages (p_mem st) pt2) = {}"
  shows "space_ok (p_mem st') pt2 (used_pages st')"
    and "unat va < 2 ^ 48 \<Longrightarrow> user_view (p_mem st') pt2 va = user_view (p_mem st) pt2 va"
proof -
  have wf: "pt_wf (entry (p_mem st)) pt2 (used_pages st)" and u: "user_pages (p_mem st) pt2 \<subseteq> used_pages st - tables (p_mem st) pt2"
    using sp by (simp_all add: space_ok_def)
  have U: "used_pages st \<subseteq> used_pages st'" using e by (simp add: extends_def)
  have "t \<in> used_pages st - tables (p_mem st) pt" if "t \<in> tables (p_mem st) pt2" for t
    using that d pt_wf_table [OF wf] by (auto simp: tables_def)
  then have tab: "p_mem st' x = p_mem st x" if "t \<in> tables (p_mem st) pt2" "x \<in> rgn t 4096" for t x
    using that e unfolding extends_def PAGESIZE_def by blast
  note f = table_frame [OF wf U tab]
  have lk: "virtual_memory_lookup (p_mem st') pt2 va = virtual_memory_lookup (p_mem st) pt2 va" for va
    by (simp add: lookup_leaf [OF f(1)] lookup_leaf [OF wf] f(2))
  have t: "tables (p_mem st') pt2 = tables (p_mem st) pt2"
    using walk_frame [OF wf tab] by (simp add: tables_def cong: conj_cong)
  show "space_ok (p_mem st') pt2 (used_pages st')"
    unfolding space_ok_def t user_pages_lookup [OF lk] using table_frame(1) [OF wf U tab] u U by fast
  have same: "p_mem st' x = p_mem st x" if "q \<in> user_pages (p_mem st) pt2" "x \<in> rgn q PAGESIZE" for q x
    using that u d e unfolding extends_def by blast
  show "user_view (p_mem st') pt2 va = user_view (p_mem st) pt2 va" if "unat va < 2 ^ 48"
    using view_same [OF lk that same] .
qed

text \<open>\<open>page_alloc\<close> followed by \<open>virtual_memory_map\<close>, as a process sees them.\<close>

lemma alloc_user_page:
  assumes ok: "phys_ok st" and w: "ucast w \<noteq> PO_FREE" and sp: "space_ok (p_mem st) pt (used_pages st)"
    and a: "page_alloc w st = (p, st1)" "p \<noteq> 0" and va: "page_aligned va" "unat va + 4096 \<le> 2 ^ 48"
  obtains r st' where "virtual_memory_map pt va p (of_nat PAGESIZE) PTE_USER None st1 = Some (r, st')"
    and "phys_ok st'" and "used_pages st' = insert p (used_pages st)" and "p \<notin> used_pages st" and "extends pt st st'"
    and "space_ok (p_mem st') pt (used_pages st')"
    and "\<And>va'. unat va' < 2 ^ 48 \<Longrightarrow> user_view (p_mem st') pt va' =
      (if in_page va va' \<and> walk (entry (p_mem st)) pt va 3 \<noteq> None then Some 0 else user_view (p_mem st) pt va')"
proof -
  note f = fresh_page [OF ok w sp a]
  obtain r m where m: "virtual_memory_map pt va p (of_nat PAGESIZE) PTE_USER None st1 = Some (r, st1\<lparr>p_mem := m\<rparr>)"
      "pt_wf (entry m) pt (used_pages st1)" "extends pt st1 (st1\<lparr>p_mem := m\<rparr>)" "tables m pt = tables (p_mem st1) pt"
      "\<And>va'. unat va' < 2 ^ 48 \<Longrightarrow> virtual_memory_lookup m pt va' =
      (if in_page va va' \<and> walk (entry (p_mem st1)) pt va 3 \<noteq> None
       then \<lparr>vam_pn = PAGENUMBER (p + (va' - va)), vam_pa = p + (va' - va), vam_perm = PTE_USER\<rparr>
       else virtual_memory_lookup (p_mem st1) pt va')"
    by (rule map_user_page [OF f(7,9,3,4) va]) (rule that)
  let ?new = "\<lambda>va'. in_page va va' \<and> walk (entry (p_mem st)) pt va 3 \<noteq> None"
  have lk: "virtual_memory_lookup m pt va' = (if ?new va'
       then \<lparr>vam_pn = PAGENUMBER (p + (va' - va)), vam_pa = p + (va' - va), vam_perm = PTE_USER\<rparr>
       else virtual_memory_lookup (p_mem st) pt va')" if "unat va' < 2 ^ 48" for va'
    using m(5) [OF that] by (simp only: f(8,11))
  have e: "extends pt st (st1\<lparr>p_mem := m\<rparr>)" by (rule extends_trans [OF f(6) m(3)])
  have u: "user_pages (p_mem st) pt \<subseteq> used_pages st - tables (p_mem st) pt" using sp by (simp add: space_ok_def)
  have "q = p \<or> q \<in> user_pages (p_mem st) pt" if q: "q \<in> user_pages m pt" for q
  proof -
    obtain va' where v: "page_aligned q" "unat va' < 2 ^ 48" "user_view m pt va' \<noteq> None"
        "vam_pa (virtual_memory_lookup m pt va') \<in> rgn q PAGESIZE"
      using q by (auto simp: user_pages_def)
    show ?thesis
    proof (cases "?new va'")
      case True
      then have "p + (va' - va) \<in> rgn p PAGESIZE \<inter> rgn q PAGESIZE" using v(4) lk [OF v(2)] in_page_rgn [OF f(3)] by simp
      then show ?thesis using page_rgn_disjoint [OF f(3) v(1)] by (auto simp: PAGESIZE_def)
    next
      case False
      then have "virtual_memory_lookup m pt va' = virtual_memory_lookup (p_mem st) pt va'" using lk [OF v(2)] by (simp only: if_False)
      then show ?thesis using v by (auto simp: user_pages_def user_view_def Let_def split: if_splits)
    qed
  qed
  then have sp': "space_ok m pt (used_pages st1)" using m(2,4) u f(5,9,10) unfolding space_ok_def by blast
  have same: "m x = p_mem st x" if "q \<in> user_pages (p_mem st) pt" "x \<in> rgn q PAGESIZE" for q x
    using that u e unfolding extends_def by fastforce
  have zero: "m x = 0" if "x \<in> rgn p PAGESIZE" for x
    using m(3) f(5,9,12) that unfolding extends_def by fastforce
  have view: "user_view m pt va' = (if ?new va' then Some 0 else user_view (p_mem st) pt va')" if v: "unat va' < 2 ^ 48" for va'
  proof (cases "?new va'")
    case True
    then show ?thesis using lk [OF v] zero [OF in_page_rgn [OF f(3)]] by (simp add: user_view_def Let_def)
  next
    case False
    then have "virtual_memory_lookup m pt va' = virtual_memory_lookup (p_mem st) pt va'" using lk [OF v] by (simp only: if_False)
    from view_same [OF this v same] False show ?thesis by (simp only: if_False)
  qed
  show ?thesis
    by (rule that [OF m(1) _ _ f(2) e]) (use f(1,5) sp' view in \<open>simp_all add: phys_ok_def\<close>)
qed

section \<open>The system call\<close>

lemma sys_page_alloc_run:
  assumes a: "page_alloc (p_pid (current_proc s)) (ph s) = (p, st1)"
  shows "p = 0 \<Longrightarrow> \<exists>s'. sys_page_alloc s = (Ok (), s') \<and> ph s' = st1 \<and> processes s' = processes (upd_proc (current s)
      (\<lambda>q. q\<lparr>p_registers := (p_registers q)\<lparr>reg_rax := - 1\<rparr>\<rparr>) s) \<and> current s' = current s"
    and "p \<noteq> 0 \<Longrightarrow> virtual_memory_map (p_pagetable (current_proc s)) va p (of_nat PAGESIZE) PTE_USER None st1 = Some (r, st') \<Longrightarrow>
      va = reg_rdi (p_registers (current_proc s)) \<Longrightarrow>
      sys_page_alloc s = (Ok (), upd_proc (current s) (\<lambda>q. q\<lparr>p_registers := (p_registers q)\<lparr>reg_rax := va\<rparr>\<rparr>) (s\<lparr>ph := st'\<rparr>))"
  using a
  by (auto simp: sys_page_alloc_def arg_def get_current_def set_rax_def set_current_def out_of_memory_def kernel_simps io_bind_def
      on_ph_def on_ph_opt_def upd_proc_def reset_cursor_def)

text \<open>The assertions of \<open>virtual_memory_map\<close> meet the argument of the process unchecked: an unaligned address stops the kernel.\<close>

lemma page_alloc_unaligned_stops:
  assumes ok: "phys_ok (ph s)" and w: "ucast (p_pid (current_proc s)) \<noteq> PO_FREE" and free: "\<not> exhausted (ph s)"
    and va: "\<not> page_aligned (reg_rdi (p_registers (current_proc s)))"
  shows "fst (sys_page_alloc s) = Stuck"
proof -
  obtain p st1 where a: "page_alloc (p_pid (current_proc s)) (ph s) = (p, st1)" by force
  have "p \<noteq> 0" using a exhausted_alloc [OF ok] free by auto
  moreover have "virtual_memory_map pt (reg_rdi (p_registers (current_proc s))) p (of_nat PAGESIZE) PTE_USER None st1 = None" for pt
    using va by (auto simp: virtual_memory_map_def map_asserts_def page_aligned_unat PAGESIZE_def)
  ultimately show ?thesis
    using a by (simp add: sys_page_alloc_def arg_def get_current_def kernel_simps io_bind_def on_ph_def on_ph_opt_def)
qed


text \<open>A process that owns the page at 0x100000 asks for the next one.\<close>

lemma process_space:
  obtains pt st where "phys_ok st" and "space_ok (p_mem st) pt (used_pages st)" and "\<not> exhausted st"
    and "user_view (p_mem st) pt 0x101008 = None" and "walk (entry (p_mem st)) pt 0x101000 3 \<noteq> None"
proof -
  obtain pt p st where ok: "phys_ok st" and wf: "pt_wf (entry (p_mem st)) pt (used_pages st)" and pu: "p \<in> used_pages st - tables (p_mem st) pt"
    and lk: "\<And>va. unat va < 2 ^ 48 \<Longrightarrow> virtual_memory_lookup (p_mem st) pt va =
      (if 0x100000 \<le> unat va \<and> unat va < 0x101000
       then \<lparr>vam_pn = PAGENUMBER (p + (va - 0x100000)), vam_pa = p + (va - 0x100000), vam_perm = 7\<rparr> else no_vam)"
    and n: "adds 5 (used_pages (pageinfo_init 0x60000 boot_phys)) (used_pages st)"
    by (rule process_with_page) (rule that)
  have p: "page_aligned p" using pu used_pages_aligned by blast
  have "q = p" if q: "page_aligned q" "unat va < 2 ^ 48" "user_view (p_mem st) pt va \<noteq> None"
      "vam_pa (virtual_memory_lookup (p_mem st) pt va) \<in> rgn q PAGESIZE" for q va
  proof -
    have "0x100000 \<le> unat va \<and> unat va < 0x101000"
      using q(3) lk [OF q(2)] by (auto simp: user_view_def no_vam_def PTE_USER_def PTE_P_def PTE_W_def PTE_U_def split: if_splits)
    then have "p + (va - 0x100000) \<in> rgn p PAGESIZE \<inter> rgn q PAGESIZE"
      using in_page_rgn [OF p, of "0x100000" va] q(4) lk [OF q(2)] by (simp add: in_page_def)
    then show ?thesis using page_rgn_disjoint [OF p q(1)] by (auto simp: PAGESIZE_def)
  qed
  then have "user_pages (p_mem st) pt \<subseteq> {p}" by (auto simp: user_pages_def)
  then have sp: "space_ok (p_mem st) pt (used_pages st)" using pu wf by (auto simp: space_ok_def)
  have "virtual_memory_lookup (p_mem st) pt 0x100000 \<noteq> no_vam" using lk [of "0x100000"] by (simp add: no_vam_def)
  then have "walk (entry (p_mem st)) pt 0x100000 3 \<noteq> None"
    by (rule contrapos_nn) (simp add: lookup_leaf [OF wf] leaf_def vam_of_def no_vam_def)
  moreover have "same_path 3 0x100000 0x101000" 
  proof -
    have "j = 0 \<or> j = 1 \<or> j = 2" if "j < 3" for j :: nat using that by arith
    moreover have "PAGEINDEX 0x100000 j = PAGEINDEX 0x101000 j" if "j = 0 \<or> j = 1 \<or> j = 2" for j
      using that by (auto simp: PAGEINDEX_def)
    ultimately show ?thesis by (simp add: same_path_def)
  qed
  ultimately have "walk (entry (p_mem st)) pt 0x101000 3 \<noteq> None" using walk_same_path by metis
  moreover have "\<not> exhausted st" using adds_exhausted [OF n initially_free, of "{256..<276}"] by simp
  moreover have "user_view (p_mem st) pt 0x101008 = None"
    using lk [of "0x101008"] by (simp add: user_view_def no_vam_def PTE_USER_def PTE_P_def PTE_W_def PTE_U_def)
  ultimately show ?thesis using ok sp by (intro that [of st pt])
qed


end
