(* ===== verification/Exec_Arguments.thy ===== *)
theory Exec_Arguments
  imports User_Memory
begin

unbundle bit_operations_syntax

text \<open>
  The arguments of a program. \<open>INT_SYS_EXECV\<close> copies them from the old address space to a fresh page, which the new program
  finds at \<open>PARGS_VA\<close>: first the pointers with a null pointer after the last one, then the strings one after the other.
\<close>

section \<open>The layout of the page\<close>

definition arg_offset :: "byte list list \<Rightarrow> nat \<Rightarrow> nat" where
  "arg_offset args i = 8 * (length args + 1) + sum_list (map (\<lambda>a. length a + 1) (take i args))"

lemma arg_offset_0 [simp]: "arg_offset args 0 = 8 * (length args + 1)"
  by (simp add: arg_offset_def)

lemma arg_offset_Suc: "i < length args \<Longrightarrow> arg_offset args (Suc i) = arg_offset args i + length (args ! i) + 1"
  by (simp add: arg_offset_def take_Suc_conv_app_nth)

lemma arg_offset_mono: "i \<le> j \<Longrightarrow> arg_offset args i \<le> arg_offset args j"
proof -
  assume "i \<le> j"
  then obtain k where "j = i + k" using le_Suc_ex by blast
  then show ?thesis by (simp add: arg_offset_def take_add)
qed

text \<open>The entry of argument \<open>j\<close> in the page at the physical address \<open>p\<close> that is mapped at \<open>va\<close>.\<close>

definition arg_entry :: "mem \<Rightarrow> addr \<Rightarrow> addr \<Rightarrow> byte list list \<Rightarrow> nat \<Rightarrow> bool" where
  "arg_entry m p va args j \<longleftrightarrow> load64 m (p + 8 * of_nat j) = va + of_nat (arg_offset args j) \<and>
     load_bytes m (p + of_nat (arg_offset args j)) (length (args ! j) + 1) = args ! j @ [0]"

text \<open>
  The arguments of the old program: pointers and strings in physical memory, apart from the page at \<open>p\<close>. A string is read in
  one piece from the physical address of its first byte.
\<close>

definition source_arg :: "mem \<Rightarrow> addr \<Rightarrow> addr \<Rightarrow> addr \<Rightarrow> nat \<Rightarrow> byte list \<Rightarrow> bool" where
  "source_arg m pt p argv i str \<longleftrightarrow> 0 \<notin> set str \<and>
     readable_at (argv + 8 * of_nat i) 8 \<and> rgn (argv + 8 * of_nat i) 8 \<inter> rgn p PAGESIZE = {} \<and>
     load64 m (argv + 8 * of_nat i) \<noteq> 0 \<and>
     (let pa = vam_pa (virtual_memory_lookup m pt (load64 m (argv + 8 * of_nat i))) in
      readable_at pa (length str + 1) \<and> rgn pa (length str + 1) \<inter> rgn p PAGESIZE = {} \<and>
      load_bytes m pa (length str + 1) = str @ [0])"

section \<open>Copying a string\<close>

lemma k_strcpy_spec:
  assumes "load_bytes m src (length str + 1) = str @ [0]" and "0 \<notin> set str" and "length str < n"
    and "readable_at src (length str + 1)" and "writable_at dst (length str + 1)"
    and "rgn src (length str + 1) \<inter> rgn dst (length str + 1) = {}"
  shows "k_strcpy n dst src m = Some (store_bytes (str @ [0]) dst m)"
  using assms
proof (induction str arbitrary: m src dst n)
  case Nil
  then obtain k where "n = Suc k" by (cases n) auto
  with Nil show ?case by (simp add: load_bytes_Suc fun_upd_def)
next
  case (Cons c cs)
  obtain k where k: "n = Suc k" using Cons.prems(3) by (cases n) auto
  have b: "unat src + length cs + 2 \<le> 0x200000" "unat dst + length cs + 2 \<le> 0x200000" "4096 \<le> unat dst"
    using Cons.prems(4,5) by (simp_all add: writable_at_def readable_at_def MEMSIZE_PHYSICAL_def PAGESIZE_def)
  have u: "unat (src + 1) = unat src + 1" "unat (dst + 1) = unat dst + 1" using b by (simp_all add: unat_word_ariths)
  have rg: "x \<in> rgn a l \<longleftrightarrow> unat a \<le> unat x \<and> unat x < unat a + l" if "unat a + l \<le> 0x200000" for x a l
    using that by (intro rgn_nat) simp
  have dj: "\<not> (unat src \<le> unat x \<and> unat x < unat src + length cs + 2 \<and> unat dst \<le> unat x \<and> unat x < unat dst + length cs + 2)" for x :: addr
    using Cons.prems(6) b rg [of src "length (c # cs) + 1" x] rg [of dst "length (c # cs) + 1" x] by auto
  have c: "m src = c" "load_bytes m (src + 1) (length cs + 1) = cs @ [0]" using Cons.prems(1) by (simp_all add: load_bytes_Suc)
  have "load_bytes (m(dst := c)) (src + 1) (length cs + 1) = load_bytes m (src + 1) (length cs + 1)"
  proof (rule load_bytes_cong)
    fix x assume "x \<in> rgn (src + 1) (length cs + 1)"
    then have "unat src \<le> unat x" "unat x < unat src + length cs + 2" using rg [of "src + 1" "length cs + 1" x] b u by auto
    then have "x \<noteq> dst" using dj [of x] by auto
    then show "(m(dst := c)) x = m x" by simp
  qed (use b in simp)
  moreover have "rgn (src + 1) (length cs + 1) \<inter> rgn (dst + 1) (length cs + 1) = {}"
    using dj rg [of "src + 1" "length cs + 1"] rg [of "dst + 1" "length cs + 1"] b u by fastforce
  ultimately have "k_strcpy k (dst + 1) (src + 1) (m(dst := c)) = Some (store_bytes (cs @ [0]) (dst + 1) (m(dst := c)))"
    using Cons.prems(2,3) b u c k
    by (intro Cons.IH) (simp_all add: fun_upd_def writable_at_def readable_at_def MEMSIZE_PHYSICAL_def PAGESIZE_def)
  then show ?case using Cons.prems(2) b c k
    by (simp add: writable_at_def readable_at_def MEMSIZE_PHYSICAL_def PAGESIZE_def Let_def)
qed

lemma strlen_mem_from:
  assumes "load_bytes m a (length str + 1) = str @ [0]" and "0 \<notin> set str" and "readable_at a (length str + 1)"
  shows "strlen (mem_from m a) = Some (length str)"
proof -
  let ?N = "unat MEMSIZE_PHYSICAL - unat a"
  have "take (length str + 1) (load_bytes m a ?N) = load_bytes m a (length str + 1)"
    using assms(3) by (simp add: load_bytes_def take_map readable_at_def)
  then obtain rest where r: "mem_from m a = str @ 0 # rest"
    unfolding mem_from_def using assms(1) by (metis append_take_drop_id append.assoc append_Cons append_Nil)
  then show ?thesis using strlen_cstr [of "mem_from m a"] cstr_append_nul [OF assms(2)] by simp
qed

section \<open>Copying the arguments\<close>

text \<open>What the loop reads is not affected by what it has written to the page.\<close>

lemma off_table_page:
  assumes wf: "pt_wf (entry m) pt U" and p: "page_aligned p" "p \<notin> tables m pt"
    and same: "\<forall>x. x \<notin> rgn p PAGESIZE \<longrightarrow> m' x = m x"
  shows "pt_wf (entry m') pt U" and "virtual_memory_lookup m' pt va = virtual_memory_lookup m pt va"
proof -
  have tab: "m' x = m x" if "t \<in> tables m pt" "x \<in> rgn t 4096" for t x
  proof -
    have "page_aligned t" using that(1) pt_wf_table [OF wf] by (auto simp: tables_def)
    moreover have "t \<noteq> p" using that(1) p(2) by blast
    ultimately have "x \<notin> rgn p PAGESIZE" using page_rgn_disjoint [of t p] p(1) that(2) by (auto simp: PAGESIZE_def)
    then show ?thesis using same by blast
  qed
  show wf': "pt_wf (entry m') pt U" by (rule table_frame(1) [OF wf subset_refl tab])
  show "virtual_memory_lookup m' pt va = virtual_memory_lookup m pt va"
    using lookup_leaf [OF wf'] lookup_leaf [OF wf] table_frame(2) [OF wf subset_refl tab] by simp
qed

lemma source_arg_page:
  assumes wf: "pt_wf (entry m) pt U" and p: "page_aligned p" "p \<notin> tables m pt" and src: "source_arg m pt p argv i str"
    and same: "\<forall>x. x \<notin> rgn p PAGESIZE \<longrightarrow> m' x = m x"
  shows "source_arg m' pt p argv i str" and "load64 m' (argv + 8 * of_nat i) = load64 m (argv + 8 * of_nat i)"
    and "virtual_memory_lookup m' pt va = virtual_memory_lookup m pt va"
proof -
  note lk = off_table_page(2) [OF wf p same]
  then show "virtual_memory_lookup m' pt va = virtual_memory_lookup m pt va" .
  show l: "load64 m' (argv + 8 * of_nat i) = load64 m (argv + 8 * of_nat i)"
    using src same by (intro load64_cong) (auto simp: source_arg_def)
  let ?pa = "vam_pa (virtual_memory_lookup m pt (load64 m (argv + 8 * of_nat i)))"
  have "length str + 1 \<le> 2 ^ 64" using src by (simp add: source_arg_def Let_def readable_at_def MEMSIZE_PHYSICAL_def)
  then have "load_bytes m' ?pa (length str + 1) = load_bytes m ?pa (length str + 1)"
    using src same by (intro load_bytes_cong) (auto simp: source_arg_def Let_def)
  then show "source_arg m' pt p argv i str" using src unfolding source_arg_def Let_def l lk by simp
qed

lemma page_offset:
  assumes "page_aligned p" and "unat p + 4096 \<le> 0x200000"
  shows "k < 4096 \<Longrightarrow> unat (p + of_nat k) = unat p + k"
    and "k + n \<le> 4096 \<Longrightarrow> x \<in> rgn (p + of_nat k) n \<longleftrightarrow> unat p + k \<le> unat x \<and> unat x < unat p + k + n"
proof -
  have u: "unat (p + of_nat k) = unat p + k" if "k \<le> 4096" for k using assms that by (simp add: unat_word_ariths unat_of_nat)
  then show "k < 4096 \<Longrightarrow> unat (p + of_nat k) = unat p + k" by simp
  show "x \<in> rgn (p + of_nat k) n \<longleftrightarrow> unat p + k \<le> unat x \<and> unat x < unat p + k + n" if "k + n \<le> 4096"
    using rgn_nat [of "p + of_nat k" n x] u [of k] assms(2) that by simp
qed

text \<open>One iteration: the pointer and the string of argument \<open>i\<close>.\<close>

lemma copy_one:
  assumes wf: "pt_wf (entry m) pt U" and p: "page_aligned p" "p \<notin> tables m pt" "4096 \<le> unat p" "unat p + 4096 \<le> 0x200000"
    and src: "source_arg m pt p argv i (args ! i)" and i: "i < length args" and tot: "arg_offset args (length args) \<le> 4096"
    and same: "\<forall>x. x \<notin> rgn p PAGESIZE \<longrightarrow> m0 x = m x"
  obtains m1 where "copy_args (Suc n) pt argv p va i (of_nat (arg_offset args i)) m0 =
      copy_args n pt argv p va (Suc i) (of_nat (arg_offset args (Suc i))) m1"
    and "arg_entry m1 p va args i"
    and "\<forall>x. \<not> (unat p + 8 * i \<le> unat x \<and> unat x < unat p + 8 * Suc i) \<and>
      \<not> (unat p + arg_offset args i \<le> unat x \<and> unat x < unat p + arg_offset args (Suc i)) \<longrightarrow> m1 x = m0 x"
proof -
  let ?o = "arg_offset args i" and ?str = "args ! i"
  have o: "8 * Suc i \<le> ?o" "?o + length ?str + 1 \<le> 4096" "arg_offset args (Suc i) = ?o + length ?str + 1"
    using i tot arg_offset_mono [of "Suc i" "length args" args] arg_offset_mono [of 0 i args] by (simp_all add: arg_offset_Suc)
  have slot: "x \<in> rgn (p + 8 * of_nat i) 8 \<longleftrightarrow> unat p + 8 * i \<le> unat x \<and> unat x < unat p + 8 * i + 8" for x
    using page_offset(2) [OF p(1,4), of "8 * i" 8 x] o by simp
  have dst: "x \<in> rgn (p + of_nat ?o) (Suc (length ?str)) \<longleftrightarrow> unat p + ?o \<le> unat x \<and> unat x < unat p + ?o + length ?str + 1" for x
    using page_offset(2) [OF p(1,4), of ?o "length ?str + 1" x] o by simp
  have pg: "x \<in> rgn p PAGESIZE \<longleftrightarrow> unat p \<le> unat x \<and> unat x < unat p + 4096" for x
    using page_offset(2) [OF p(1,4), of 0 4096 x] by (simp add: PAGESIZE_def)
  define m1 where "m1 = store64 (p + 8 * of_nat i) (va + of_nat ?o) m0"
  define m2 where "m2 = store_bytes (?str @ [0]) (p + of_nat ?o) m1"
  have f1: "m1 x = m0 x" if "x \<notin> rgn (p + 8 * of_nat i) 8" for x using that by (simp add: m1_def store64_apply_outside)
  have f2: "m2 x = m1 x" if "x \<notin> rgn (p + of_nat ?o) (Suc (length ?str))" for x using that o(2) by (simp add: m2_def store_bytes_apply)
  have s1: "\<forall>x. x \<notin> rgn p PAGESIZE \<longrightarrow> m1 x = m x" using same f1 o by (auto simp: slot pg)
  have s2: "\<forall>x. x \<notin> rgn p PAGESIZE \<longrightarrow> m2 x = m x" using s1 f2 o by (auto simp: dst pg)
  note a1 = source_arg_page [OF wf p(1,2) src s1] and a2 = source_arg_page [OF wf p(1,2) src s2]
  let ?ptr = "load64 m (argv + 8 * of_nat i)" and ?pa = "vam_pa (virtual_memory_lookup m pt (load64 m (argv + 8 * of_nat i)))"
  have x1: "0 \<notin> set ?str" "load_bytes m1 ?pa (length ?str + 1) = ?str @ [0]" "readable_at ?pa (length ?str + 1)"
      "rgn ?pa (length ?str + 1) \<inter> rgn p PAGESIZE = {}" "readable_at (argv + 8 * of_nat i) 8"
    using a1(1) by (simp_all add: source_arg_def Let_def a1(2,3))
  have x2: "load_bytes m2 ?pa (length ?str + 1) = ?str @ [0]" using a2(1) by (simp add: source_arg_def Let_def a2(2,3))
  have w8: "writable_at (p + 8 * of_nat i) 8"
    using page_offset(1) [OF p(1,4), of "8 * i"] o p(3,4) by (simp add: writable_at_def readable_at_def MEMSIZE_PHYSICAL_def PAGESIZE_def)
  have wd: "writable_at (p + of_nat ?o) (length ?str + 1)"
    using page_offset(1) [OF p(1,4), of ?o] o p(3,4) by (simp add: writable_at_def readable_at_def MEMSIZE_PHYSICAL_def PAGESIZE_def)
  have "rgn ?pa (length ?str + 1) \<inter> rgn (p + of_nat ?o) (length ?str + 1) = {}" using x1(4) o by (auto simp: dst pg)
  then have cp: "k_strcpy (unat MEMSIZE_PHYSICAL) (p + of_nat ?o) ?pa m1 = Some m2"
    unfolding m2_def using x1 o wd by (intro k_strcpy_spec) (simp_all add: MEMSIZE_PHYSICAL_def)
  have off: "of_nat ?o + of_nat (length ?str) + 1 = (of_nat (arg_offset args (Suc i)) :: uint64)" by (simp add: o(3))
  have "copy_args (Suc n) pt argv p va i (of_nat ?o) m0 = copy_args n pt argv p va (Suc i) (of_nat (arg_offset args (Suc i))) m2"
    using w8 x1(5) strlen_mem_from [OF x2 x1(1,3)] cp
    by (simp add: m1_def [symmetric] argv_at_def Let_def a1(2,3) off)
  moreover have "arg_entry m2 p va args i"
  proof -
    have "load64 m2 (p + 8 * of_nat i) = load64 m1 (p + 8 * of_nat i)"
      using f2 o by (intro load64_cong) (auto simp: slot dst)
    then show ?thesis using load_store_bytes [of "?str @ [0]" "p + of_nat ?o" m1] o(2) by (simp add: arg_entry_def m1_def m2_def)
  qed
  moreover have "m2 x = m0 x" if "\<not> (unat p + 8 * i \<le> unat x \<and> unat x < unat p + 8 * Suc i) \<and>
      \<not> (unat p + ?o \<le> unat x \<and> unat x < unat p + arg_offset args (Suc i))" for x
    using that f1 [of x] f2 [of x] o(3) by (auto simp: slot dst)
  ultimately show ?thesis by (intro that [of m2]) blast+
qed

lemma copy_args_spec:
  assumes wf: "pt_wf (entry m) pt U" and p: "page_aligned p" "p \<notin> tables m pt" "4096 \<le> unat p" "unat p + 4096 \<le> 0x200000"
    and src: "\<forall>i<length args. source_arg m pt p argv i (args ! i)" and tot: "arg_offset args (length args) \<le> 4096"
  shows "i + n = length args \<Longrightarrow> \<forall>x. x \<notin> rgn p PAGESIZE \<longrightarrow> m0 x = m x \<Longrightarrow>
    \<exists>m'. copy_args n pt argv p va i (of_nat (arg_offset args i)) m0 = Some m' \<and>
      (\<forall>j. i \<le> j \<and> j < length args \<longrightarrow> arg_entry m' p va args j) \<and>
      (\<forall>x. \<not> (unat p + 8 * i \<le> unat x \<and> unat x < unat p + 8 * length args) \<and>
        \<not> (unat p + arg_offset args i \<le> unat x \<and> unat x < unat p + arg_offset args (length args)) \<longrightarrow> m' x = m0 x)"
proof (induction n arbitrary: i m0)
  case 0
  then show ?case by auto
next
  case (Suc n)
  have i: "i < length args" using Suc.prems(1) by simp
  have si: "source_arg m pt p argv i (args ! i)" using src i by blast
  obtain m1 where m1: "copy_args (Suc n) pt argv p va i (of_nat (arg_offset args i)) m0 =
      copy_args n pt argv p va (Suc i) (of_nat (arg_offset args (Suc i))) m1" "arg_entry m1 p va args i"
      "\<forall>x. \<not> (unat p + 8 * i \<le> unat x \<and> unat x < unat p + 8 * Suc i) \<and>
      \<not> (unat p + arg_offset args i \<le> unat x \<and> unat x < unat p + arg_offset args (Suc i)) \<longrightarrow> m1 x = m0 x"
    by (rule copy_one [OF wf p si i tot Suc.prems(2)])
  have mono: "arg_offset args (Suc i) \<le> arg_offset args (length args)" "8 * (length args + 1) \<le> arg_offset args i"
    using i arg_offset_mono [of "Suc i" "length args" args] arg_offset_mono [of 0 i args] by simp_all
  have next_off: "arg_offset args (Suc i) = arg_offset args i + length (args ! i) + 1" by (rule arg_offset_Suc [OF i])
  have pg: "x \<in> rgn p PAGESIZE \<longleftrightarrow> unat p \<le> unat x \<and> unat x < unat p + 4096" for x
    using page_offset(2) [OF p(1,4), of 0 4096 x] by (simp add: PAGESIZE_def)
  have s1: "\<forall>x. x \<notin> rgn p PAGESIZE \<longrightarrow> m1 x = m x"
  proof (intro allI impI)
    fix x assume x: "x \<notin> rgn p PAGESIZE"
    have "8 * Suc i \<le> 4096" using mono next_off i tot by simp
    then have "m1 x = m0 x" using x m1(3) mono tot by (simp add: pg) fastforce
    then show "m1 x = m x" using Suc.prems(2) x by simp
  qed
  obtain m' where m': "copy_args n pt argv p va (Suc i) (of_nat (arg_offset args (Suc i))) m1 = Some m'"
      "\<forall>j. Suc i \<le> j \<and> j < length args \<longrightarrow> arg_entry m' p va args j"
      "\<forall>x. \<not> (unat p + 8 * Suc i \<le> unat x \<and> unat x < unat p + 8 * length args) \<and>
        \<not> (unat p + arg_offset args (Suc i) \<le> unat x \<and> unat x < unat p + arg_offset args (length args)) \<longrightarrow> m' x = m1 x"
    using Suc.IH [OF _ s1, of "Suc i"] Suc.prems(1) by auto
  have "arg_entry m' p va args i"
  proof -
    have b: "8 * i + 8 \<le> 4096" "arg_offset args i + (length (args ! i) + 1) \<le> 4096" using mono next_off tot i by simp_all
    have "load64 m' (p + 8 * of_nat i) = load64 m1 (p + 8 * of_nat i)"
    proof (rule load64_cong)
      fix x assume "x \<in> rgn (p + 8 * of_nat i) 8"
      then have "unat p + 8 * i \<le> unat x" "unat x < unat p + 8 * i + 8"
        using page_offset(2) [OF p(1,4) b(1), of x] by simp_all
      then show "m' x = m1 x" using m'(3) mono next_off i by simp
    qed
    moreover have "load_bytes m' (p + of_nat (arg_offset args i)) (length (args ! i) + 1) =
        load_bytes m1 (p + of_nat (arg_offset args i)) (length (args ! i) + 1)"
    proof (rule load_bytes_cong)
      fix x assume "x \<in> rgn (p + of_nat (arg_offset args i)) (length (args ! i) + 1)"
      then have "unat p + arg_offset args i \<le> unat x" "unat x < unat p + arg_offset args (Suc i)"
        using page_offset(2) [OF p(1,4) b(2), of x] next_off by simp_all
      then show "m' x = m1 x" using m'(3) mono by simp
    qed (use b in simp)
    ultimately show ?thesis using m1(2) by (simp add: arg_entry_def)
  qed
  then have "\<forall>j. i \<le> j \<and> j < length args \<longrightarrow> arg_entry m' p va args j" using m'(2) by (metis Suc_leI le_neq_implies_less)
  moreover have "m' x = m0 x" if x: "\<not> (unat p + 8 * i \<le> unat x \<and> unat x < unat p + 8 * length args) \<and>
        \<not> (unat p + arg_offset args i \<le> unat x \<and> unat x < unat p + arg_offset args (length args))" for x
  proof -
    have "m' x = m1 x" using m'(3) x next_off by auto
    also have "m1 x = m0 x" using m1(3) x mono i next_off by auto
    finally show ?thesis .
  qed
  ultimately show ?case using m1(1) m'(1) by auto
qed

text \<open>The number of the arguments.\<close>

lemma count_args_spec:
  assumes "\<forall>i<length args. source_arg m pt p argv i (args ! i)" and "readable_at (argv + 8 * of_nat (length args)) 8"
    and "load64 m (argv + 8 * of_nat (length args)) = 0"
  shows "i + n = length args \<Longrightarrow> n < k \<Longrightarrow> count_args k m argv i = Some (length args)"
proof (induction n arbitrary: i k)
  case 0
  then obtain k' where "k = Suc k'" by (cases k) auto
  then show ?case using 0 assms(2,3) by (simp add: argv_at_def)
next
  case (Suc n)
  obtain k' where k: "k = Suc k'" using Suc.prems(2) by (cases k) auto
  have "source_arg m pt p argv i (args ! i)" using assms(1) Suc.prems(1) by simp
  then have "readable_at (argv + 8 * of_nat i) 8" "load64 m (argv + 8 * of_nat i) \<noteq> 0" by (simp_all add: source_arg_def)
  then show ?case using Suc k by (simp add: argv_at_def)
qed

section \<open>Properties\<close>

text \<open>Argument \<open>i\<close> of a program: its pointer in the array and its string lie in pages in use, each in one page.\<close>

definition in_used_page :: "phys \<Rightarrow> addr \<Rightarrow> nat \<Rightarrow> bool" where
  "in_used_page st a n \<longleftrightarrow> (\<exists>q\<in>used_pages st. unat q \<le> unat a \<and> unat a + n \<le> unat q + 4096)"

definition argument :: "phys \<Rightarrow> addr \<Rightarrow> addr \<Rightarrow> nat \<Rightarrow> byte list \<Rightarrow> bool" where
  "argument st pt argv i str \<longleftrightarrow> 0 \<notin> set str \<and> in_used_page st (argv + 8 * of_nat i) 8 \<and>
     load64 (p_mem st) (argv + 8 * of_nat i) \<noteq> 0 \<and>
     (let pa = vam_pa (virtual_memory_lookup (p_mem st) pt (load64 (p_mem st) (argv + 8 * of_nat i))) in
      in_used_page st pa (length str + 1) \<and> load_bytes (p_mem st) pa (length str + 1) = str @ [0])"

lemma used_page_end: "q \<in> used_pages st \<Longrightarrow> unat q + 4096 \<le> 0x200000"
  using used_pages_aligned [of q st] by (auto simp: page_aligned_unat MEMSIZE_PHYSICAL_def word_less_nat_alt elim!: dvdE)

lemma in_used_page_apart:
  assumes "in_used_page st a n" and "page_aligned p" and "p \<notin> used_pages st"
  shows "readable_at a n" and "rgn a n \<inter> rgn p PAGESIZE = {}"
proof -
  obtain q where q: "q \<in> used_pages st" "unat q \<le> unat a" "unat a + n \<le> unat q + 4096" using assms(1) by (auto simp: in_used_page_def)
  note e = used_page_end [OF q(1)]
  show "readable_at a n" using q e by (simp add: readable_at_def MEMSIZE_PHYSICAL_def)
  have "rgn a n \<subseteq> rgn q PAGESIZE" using q e by (auto simp: rgn_nat PAGESIZE_def)
  moreover have "rgn q PAGESIZE \<inter> rgn p PAGESIZE = {}"
    using page_rgn_disjoint [of q p] used_pages_aligned [OF q(1)] assms(2,3) q(1) by (auto simp: PAGESIZE_def)
  ultimately show "rgn a n \<inter> rgn p PAGESIZE = {}" by blast
qed



end
