(* ===== verification/Boot.thy ===== *)
theory Boot
  imports Elf Disk Physical_Memory
begin

unbundle bit_operations_syntax

text \<open>
  The boot loader (\<^verbatim>\<open>boot/boot.c\<close>), which reads the kernel from the disk and jumps to it, and the function
  \<open>readseg\<close> of \<^verbatim>\<open>kernel/k-hardware.c\<close> with the same purpose. They work on the flat physical memory and on the
  disk controller. The control transfer at the end of \<open>boot\<close> is the returned entry address. Its code up to
  there is the assembly file \<^verbatim>\<open>bootentry.S\<close>, which is not modelled.
\<close>

section \<open>Segments\<close>

record 'd boot =
  b_mem :: mem
  b_dev :: 'd

definition on_dev :: "('d, 'a) io \<Rightarrow> ('d boot, 'a) io" where
  "on_dev m = (\<lambda>st. case m (b_dev st) of (r, d) \<Rightarrow> (r, st\<lparr>b_dev := d\<rparr>))"

definition b_store :: "(mem \<Rightarrow> mem) \<Rightarrow> ('d boot, unit) io" where
  "b_store f = (\<lambda>st. (Ok (), st\<lparr>b_mem := f (b_mem st)\<rparr>))"

definition b_load :: "(mem \<Rightarrow> 'a) \<Rightarrow> ('d boot, 'a) io" where
  "b_load f = (\<lambda>st. (Ok (f (b_mem st)), st))"

definition boot_waitdisk :: "'d ports \<Rightarrow> ('d, unit) io" where
  "boot_waitdisk io = io_poll io (\<lambda>st. st AND 0xC0 = 0x40)"

definition boot_readsect :: "'d ports \<Rightarrow> addr \<Rightarrow> uint32 \<Rightarrow> ('d boot, unit) io" where
  "boot_readsect io dst src_sect =
     io_bind (on_dev (
       io_bind (boot_waitdisk io) (\<lambda>_.
       io_bind (io_outb io 0x1F2 1) (\<lambda>_.
       io_bind (io_outb io 0x1F3 (ucast src_sect)) (\<lambda>_.
       io_bind (io_outb io 0x1F4 (ucast (drop_bit 8 src_sect))) (\<lambda>_.
       io_bind (io_outb io 0x1F5 (ucast (drop_bit 16 src_sect))) (\<lambda>_.
       io_bind (io_outb io 0x1F6 (ucast (drop_bit 24 src_sect OR 0xE0))) (\<lambda>_.
       io_bind (io_outb io 0x1F7 0x20) (\<lambda>_.
       io_bind (boot_waitdisk io) (\<lambda>_.
       io_insl io 0x1F0 (SECTORSIZE div 4))))))))))) (\<lambda>bs.
     b_store (store_bytes bs dst))"

text \<open>The loop over the sectors does not end when it wraps around the address space.\<close>

partial_function (option) read_segment ::
  "(addr \<Rightarrow> uint32 \<Rightarrow> ('d boot, unit) io) \<Rightarrow> addr \<Rightarrow> addr \<Rightarrow> uint32 \<Rightarrow> 'd boot \<Rightarrow> (unit outcome \<times> 'd boot) option" where
  "read_segment rs ptr end_ptr src_sect st =
     (if ptr < end_ptr
      then case rs ptr src_sect st of
             (Ok _, st) \<Rightarrow> read_segment rs (ptr + of_nat SECTORSIZE) end_ptr (src_sect + 1) st
           | r \<Rightarrow> Some r
      else Some (Ok (), st))"

definition read_segment_io ::
  "(addr \<Rightarrow> uint32 \<Rightarrow> ('d boot, unit) io) \<Rightarrow> addr \<Rightarrow> addr \<Rightarrow> uint32 \<Rightarrow> ('d boot, unit) io" where
  "read_segment_io rs ptr end_ptr src_sect =
     (\<lambda>st. case read_segment rs ptr end_ptr src_sect st of None \<Rightarrow> (Stuck, st) | Some r \<Rightarrow> r)"

lemma unat_Suc_below: "unat (a + 1) = unat a + 1" if "a < b" for a b :: addr
proof -
  have "unat b < 2 ^ LENGTH(64)" by (rule unsigned_less)
  then show ?thesis using that by (simp add: word_less_nat_alt unat_word_ariths)
qed

function clear_bss :: "addr \<Rightarrow> addr \<Rightarrow> mem \<Rightarrow> mem" where
  "clear_bss end_ptr end_mem m =
     (if end_ptr < end_mem then clear_bss (end_ptr + 1) end_mem (m(end_ptr := 0)) else m)"
  by pat_completeness auto

termination
  by (relation "measure (\<lambda>(a, b, m). unat b - unat a)") (auto simp: word_less_nat_alt unat_Suc_below)

declare clear_bss.simps [simp del]

definition boot_readseg :: "'d ports \<Rightarrow> addr \<Rightarrow> uint32 \<Rightarrow> uint64 \<Rightarrow> uint64 \<Rightarrow> ('d boot, unit) io" where
  "boot_readseg io ptr src_sect filesz memsz =
     (let end_ptr = ptr + filesz; end_mem = memsz + ptr; ptr = ptr AND NOT (of_nat SECTORSIZE - 1)
      in io_bind (read_segment_io (boot_readsect io) ptr end_ptr src_sect) (\<lambda>_.
         b_store (clear_bss end_ptr end_mem)))"

text \<open>The kernel's variant does not round the address, and ignores the result of \<open>readsect\<close>.\<close>

definition readseg :: "'d ports \<Rightarrow> addr \<Rightarrow> uint32 \<Rightarrow> uint64 \<Rightarrow> uint64 \<Rightarrow> ('d boot, unit) io" where
  "readseg io ptr src_sect filesz memsz =
     (let end_ptr = ptr + filesz; end_mem = memsz + ptr
      in io_bind (read_segment_io (\<lambda>ptr src_sect.
           io_ignore (io_bind (on_dev (readsect io src_sect)) (\<lambda>bs. b_store (store_bytes bs ptr)))) ptr end_ptr src_sect) (\<lambda>_.
         b_store (clear_bss end_ptr end_mem)))"

section \<open>Loading the kernel\<close>

definition ELFHDR :: addr where "ELFHDR = 0x10000"

text \<open>\<open>boot_segments n\<close> loads the segments of the last \<open>n\<close> program headers, from address \<open>pha\<close> on.\<close>

primrec boot_segments :: "nat \<Rightarrow> 'd ports \<Rightarrow> addr \<Rightarrow> ('d boot, unit) io" where
  "boot_segments 0 io pha = io_return ()"
| "boot_segments (Suc n) io pha =
     io_bind (b_load (\<lambda>m. read_elf_program m pha)) (\<lambda>eph.
     io_bind (boot_readseg io (p_va eph) (ucast (p_offset eph div of_nat SECTORSIZE + 1)) (p_filesz eph) (p_memsz eph)) (\<lambda>_.
     boot_segments n io (pha + 56)))"

definition boot :: "'d ports \<Rightarrow> ('d boot, addr) io" where
  "boot io =
     io_bind (boot_readseg io ELFHDR 1 (of_nat PAGESIZE) (of_nat PAGESIZE)) (\<lambda>_.
     io_bind (b_load (\<lambda>m. read_elf_header m ELFHDR)) (\<lambda>h.
     if e_magic h \<noteq> ELF_MAGIC then io_stuck
     else
       io_bind (boot_segments (unat (e_phnum h)) io (ELFHDR + e_phoff h)) (\<lambda>_.
       b_load (\<lambda>m. e_entry (read_elf_header m ELFHDR)))))"


section \<open>What a segment becomes\<close>

text \<open>
  \<open>segment_base\<close> and \<open>segment_sectors\<close> are where the sectors of a segment go, \<open>segment_end\<close> the end of what the
  loader writes, and \<open>loaded f s eph m\<close> the memory after a segment was loaded from sector \<open>s\<close> on of a disk with the
  bytes \<open>f\<close>.
\<close>

definition segment_base :: "elf_program \<Rightarrow> nat" where
  "segment_base eph = unat (p_va eph) - unat (p_va eph) mod 512"

definition segment_sectors :: "elf_program \<Rightarrow> nat" where
  "segment_sectors eph = (unat (p_va eph) mod 512 + unat (p_filesz eph) + 511) div 512"

definition segment_end :: "elf_program \<Rightarrow> nat" where
  "segment_end eph = max (segment_base eph + 512 * segment_sectors eph) (unat (p_va eph) + unat (p_memsz eph))"

definition loaded :: "(nat \<Rightarrow> byte) \<Rightarrow> nat \<Rightarrow> elf_program \<Rightarrow> mem \<Rightarrow> mem" where
  "loaded f s eph m = (\<lambda>x.
     if unat (p_va eph) + unat (p_filesz eph) \<le> unat x \<and> unat x < unat (p_va eph) + unat (p_memsz eph) then 0
     else if segment_base eph \<le> unat x \<and> unat x < segment_base eph + 512 * segment_sectors eph
     then f (512 * s + (unat x - segment_base eph))
     else m x)"

lemma unat_sector_base: "unat (a AND - 512 :: addr) = unat a - unat a mod 512"
  using unat_round_down [of 9 a] by (simp add: mask_eq_exp_minus_1 minus_mod_eq_div_mult)

lemma sector_count:
  fixes q :: nat
  shows "q \<le> 512 * ((q + 511) div 512)" and "0 < (q + 511) div 512 \<Longrightarrow> 512 * ((q + 511) div 512 - 1) < q"
  by linarith+

lemma clear_bss_apply:
  "clear_bss a b m x = (if unat a \<le> unat x \<and> unat x < unat b then 0 else m x)"
proof (induction a b m rule: clear_bss.induct)
  case (1 a b m)
  show ?case
  proof (cases "a < b")
    case True
    have "clear_bss a b m x = clear_bss (a + 1) b (m(a := 0)) x" using True by (subst clear_bss.simps) simp
    also have "\<dots> = (if unat a + 1 \<le> unat x \<and> unat x < unat b then 0 else (m(a := 0)) x)"
      using 1 [OF True] unat_Suc_below [OF True] by (simp del: fun_upd_apply)
    also have "\<dots> = (if unat a \<le> unat x \<and> unat x < unat b then 0 else m x)"
      using True by (auto simp: word_less_nat_alt le_less word_unat_eq_iff)
    finally show ?thesis .
  next
    case False
    then show ?thesis by (subst clear_bss.simps) (auto simp: word_less_nat_alt)
  qed
qed

context ata_device
begin

lemma boot_readsect_spec:
  assumes "ok (b_dev st)" and "phase (b_dev st) = Idle" and "unat s < nsect"
  shows "\<exists>d'. boot_readsect io dst s st =
      (Ok (), \<lparr>b_mem = store_bytes (sect (b_dev st) (unat s)) dst (b_mem st), b_dev = d'\<rparr>) \<and>
    ok d' \<and> phase d' = Idle \<and> sect d' = sect (b_dev st)"
proof -
  let ?d = "b_dev st"
  obtain d1 where d1: "send_command io s 0x20 ?d = (Ok (), outb io 0x1F7 0x20 d1)" "ok d1" "phase d1 = Idle"
      "sect d1 = sect ?d" "busy d1 = 0" "reg d1 0x1F2 = 1" "ata_lba (reg d1) = Some (unat s)"
    using send_command_spec [OF assms] by blast
  have c: "ok (outb io 0x1F7 0x20 d1)" "phase (outb io 0x1F7 0x20 d1) = DataIn (unat s)"
      "sect (outb io 0x1F7 0x20 d1) = sect ?d"
    using cmd_read [OF d1(2,3,5,6,7) assms(3)] d1(4) by auto
  obtain d2 where d2: "waitdisk io (outb io 0x1F7 0x20 d1) = (Ok (), d2)" "ok d2" "phase d2 = DataIn (unat s)"
      "sect d2 = sect ?d" "busy d2 = 0"
    using waitdisk_ends [OF c(1)] c by auto
  obtain bs d3 where d3: "insl io 0x1F0 128 d2 = (bs, d3)" by force
  have "boot_readsect io dst s =
      io_bind (on_dev (io_bind (send_command io s 0x20) (\<lambda>_. io_bind (waitdisk io) (\<lambda>_. io_insl io 0x1F0 128))))
        (\<lambda>bs. b_store (store_bytes bs dst))"
    by (simp add: boot_readsect_def send_command_def boot_waitdisk_def waitdisk_def io_bind_assoc SECTORSIZE_def)
  then show ?thesis
    using data_in [OF d2(2,3,5) d3] d1(1) d2(1,4) d3
    by (intro exI [of _ d3], cases st) (simp add: on_dev_def b_store_def io_bind_def io_insl_def)
qed

lemma read_segment_spec:
  assumes "ok (b_dev st)" and "phase (b_dev st) = Idle" and "unat s + n \<le> nsect"
    and "unat ptr + 512 * n < 2 ^ 64" and "unat e \<le> unat ptr + 512 * n" and "0 < n \<Longrightarrow> unat ptr + 512 * (n - 1) < unat e"
  shows "\<exists>d'. read_segment (boot_readsect io) ptr e s st =
      Some (Ok (), \<lparr>b_mem = store_bytes (disk_bytes (sect (b_dev st)) (512 * unat s) (512 * n)) ptr (b_mem st), b_dev = d'\<rparr>) \<and>
    ok d' \<and> phase d' = Idle \<and> sect d' = sect (b_dev st)"
  using assms
proof (induction n arbitrary: ptr s st)
  case 0
  then have "\<not> ptr < e" by (simp add: word_less_nat_alt)
  then show ?case using 0 by (subst read_segment.simps, intro exI [of _ "b_dev st"]) simp
next
  case (Suc n)
  let ?f = "sect (b_dev st)"
  have p: "ptr < e" using Suc.prems(6) by (simp add: word_less_nat_alt)
  obtain d1 where d1: "boot_readsect io ptr s st = (Ok (), \<lparr>b_mem = store_bytes (?f (unat s)) ptr (b_mem st), b_dev = d1\<rparr>)"
      "ok d1" "phase d1 = Idle" "sect d1 = ?f"
    using boot_readsect_spec [of st s ptr] Suc.prems by auto
  have ptr: "unat (ptr + 512) = unat ptr + 512" using Suc.prems(4) by (simp add: unat_word_ariths)
  have s: "unat (s + 1) = unat s + 1" using Suc.prems(3) nsect_lba28 by (simp add: unat_word_ariths)
  have n: "unat (ptr + 512) + 512 * (n - 1) < unat e" if "0 < n" using that Suc.prems(6) ptr by (cases n) simp_all
  obtain d2 where d2: "read_segment (boot_readsect io) (ptr + 512) e (s + 1) \<lparr>b_mem = store_bytes (?f (unat s)) ptr (b_mem st), b_dev = d1\<rparr> =
      Some (Ok (), \<lparr>b_mem = store_bytes (disk_bytes ?f (512 * (unat s + 1)) (512 * n)) (ptr + 512) (store_bytes (?f (unat s)) ptr (b_mem st)), b_dev = d2\<rparr>)"
      "ok d2" "phase d2 = Idle" "sect d2 = ?f"
    using Suc.IH [of "\<lparr>b_mem = store_bytes (?f (unat s)) ptr (b_mem st), b_dev = d1\<rparr>" "s + 1" "ptr + 512", OF _ _ _ _ _ n]
      Suc.prems(3-5) d1 ptr s by auto
  have len: "length (?f (unat s)) = 512" using sect_length [OF Suc.prems(1)] .
  have "disk_bytes ?f (512 * unat s) (512 * Suc n) = ?f (unat s) @ disk_bytes ?f (512 * (unat s + 1)) (512 * n)"
    using disk_bytes_sector [of ?f "unat s" 0 512] len disk_bytes_add [of ?f "512 * unat s" 512 "512 * n"]
    by (simp add: algebra_simps)
  then have "store_bytes (disk_bytes ?f (512 * unat s) (512 * Suc n)) ptr (b_mem st) =
      store_bytes (disk_bytes ?f (512 * (unat s + 1)) (512 * n)) (ptr + 512) (store_bytes (?f (unat s)) ptr (b_mem st))"
    by (simp add: store_bytes_append len)
  then show ?case using d1(1) d2 p by (subst read_segment.simps) (auto simp: SECTORSIZE_def)
qed

lemma boot_readseg_spec:
  assumes dev: "ok (b_dev st)" "phase (b_dev st) = Idle" and s: "unat s + segment_sectors eph \<le> nsect"
    and e: "segment_end eph < 2 ^ 63"
  shows "\<exists>d'. boot_readseg io (p_va eph) s (p_filesz eph) (p_memsz eph) st =
      (Ok (), \<lparr>b_mem = loaded (disk_byte (sect (b_dev st))) (unat s) eph (b_mem st), b_dev = d'\<rparr>) \<and>
    ok d' \<and> phase d' = Idle \<and> sect d' = sect (b_dev st)"
proof -
  let ?va = "p_va eph" and ?f = "sect (b_dev st)" and ?n = "segment_sectors eph"
  define ptr where "ptr = ?va AND - 512"
  have ptr: "unat ptr = segment_base eph" by (simp add: ptr_def segment_base_def unat_sector_base)
  have b: "segment_base eph + 512 * ?n < 2 ^ 63" "unat ?va + unat (p_memsz eph) < 2 ^ 63"
    using e by (simp_all add: segment_end_def)
  have va: "unat ?va = segment_base eph + unat ?va mod 512" by (simp add: segment_base_def)
  have n: "unat ?va + unat (p_filesz eph) \<le> segment_base eph + 512 * ?n"
      "0 < ?n \<Longrightarrow> segment_base eph + 512 * (?n - 1) < unat ?va + unat (p_filesz eph)"
    using va sector_count [of "unat ?va mod 512 + unat (p_filesz eph)"] by (simp_all add: segment_sectors_def)
  have ends: "unat (?va + p_filesz eph) = unat ?va + unat (p_filesz eph)" "unat (p_memsz eph + ?va) = unat ?va + unat (p_memsz eph)"
    using b n(1) by (simp_all add: unat_word_ariths)
  obtain d' where d': "read_segment (boot_readsect io) ptr (?va + p_filesz eph) s st =
      Some (Ok (), \<lparr>b_mem = store_bytes (disk_bytes ?f (512 * unat s) (512 * ?n)) ptr (b_mem st), b_dev = d'\<rparr>)"
      "ok d'" "phase d' = Idle" "sect d' = ?f"
    using read_segment_spec [OF dev s, of ptr "?va + p_filesz eph"] ptr b(1) n ends by auto
  have "clear_bss (?va + p_filesz eph) (p_memsz eph + ?va) (store_bytes (disk_bytes ?f (512 * unat s) (512 * ?n)) ptr (b_mem st)) =
      loaded (disk_byte ?f) (unat s) eph (b_mem st)"
  proof
    fix x
    show "clear_bss (?va + p_filesz eph) (p_memsz eph + ?va) (store_bytes (disk_bytes ?f (512 * unat s) (512 * ?n)) ptr (b_mem st)) x =
        loaded (disk_byte ?f) (unat s) eph (b_mem st) x"
      using b n(1) rgn_nat [of ptr "512 * ?n" x] unat_sub [of ptr x]
      by (auto simp: clear_bss_apply ends loaded_def ptr store_bytes_apply disk_bytes_def word_le_nat_alt)
  qed
  then show ?thesis
    using d' by (simp add: boot_readseg_def read_segment_io_def b_store_def io_bind_def SECTORSIZE_def ptr_def Let_def)
qed

end

section \<open>The loaded kernel\<close>

definition first_sector :: "elf_program \<Rightarrow> nat" where
  "first_sector eph = unat (p_offset eph) div 512 + 1"

definition in_segment :: "elf_program \<Rightarrow> addr \<Rightarrow> bool" where
  "in_segment eph x \<longleftrightarrow> segment_base eph \<le> unat x \<and> unat x < segment_end eph"

text \<open>
  What the loader needs of a segment: it lies on the disk and in memory, clear of the page of the headers,
  and its address and its position in the file agree within a sector.
\<close>

definition bootable :: "nat \<Rightarrow> elf_program \<Rightarrow> bool" where
  "bootable nsect eph \<longleftrightarrow> segment_end eph < 2 ^ 63 \<and> first_sector eph + segment_sectors eph \<le> nsect \<and>
     unat (p_offset eph) mod 512 = unat (p_va eph) mod 512 \<and>
     (segment_end eph \<le> 0x10000 \<or> 0x11000 \<le> segment_base eph)"

text \<open>The kernel image is the contents of the disk from sector 1 on.\<close>

definition kernel_file :: "(nat \<Rightarrow> byte) \<Rightarrow> mem" where
  "kernel_file f = (\<lambda>a. f (512 + unat a))"

definition kernel_header :: "(nat \<Rightarrow> byte) \<Rightarrow> elf_header" where
  "kernel_header f = read_elf_header (kernel_file f) 0"

definition kernel_segments :: "(nat \<Rightarrow> byte) \<Rightarrow> elf_program list" where
  "kernel_segments f = map (\<lambda>i. read_elf_program (kernel_file f) (e_phoff (kernel_header f) + of_nat (56 * i)))
     [0..<unat (e_phnum (kernel_header f))]"

definition headers_at :: "mem \<Rightarrow> mem \<Rightarrow> bool" where
  "headers_at file m \<longleftrightarrow> (\<forall>a. unat a < 4096 \<longrightarrow> m (ELFHDR + a) = file a)"

lemma unat_ELFHDR: "unat a < 4096 \<Longrightarrow> unat (ELFHDR + a) = 0x10000 + unat a"
  by (simp add: ELFHDR_def unat_word_ariths)

lemma headers_at_cong:
  "headers_at file m \<Longrightarrow> (\<And>x. 0x10000 \<le> unat x \<Longrightarrow> unat x < 0x11000 \<Longrightarrow> m' x = m x) \<Longrightarrow> headers_at file m'"
  by (simp add: headers_at_def unat_ELFHDR)

lemma headers_load:
  assumes "headers_at file m" and "unat a + n \<le> 4096"
  shows "load_bytes m (ELFHDR + a) n = load_bytes file a n"
proof (rule nth_equalityI)
  fix i assume "i < length (load_bytes m (ELFHDR + a) n)"
  then have i: "i < n" by simp
  then have "unat (a + of_nat i) < 4096" using assms(2) by (simp add: unat_word_ariths unat_of_nat)
  then show "load_bytes m (ELFHDR + a) n ! i = load_bytes file a n ! i"
    using assms(1) i by (simp add: headers_at_def add.assoc)
qed simp

lemma headers_load_at:
  assumes "headers_at file m" and "unat a + k + n \<le> 4096"
  shows "load_bytes m (ELFHDR + a + of_nat k) n = load_bytes file (a + of_nat k) n"
proof -
  have "unat (a + of_nat k) = unat a + k" using assms(2) by (simp add: unat_word_ariths unat_of_nat)
  then show ?thesis using headers_load [OF assms(1), of "a + of_nat k" n] assms(2) by (simp add: add.assoc)
qed

lemma read_elf_header_at:
  assumes "headers_at file m"
  shows "read_elf_header m ELFHDR = read_elf_header file 0"
  using headers_load_at [OF assms, of 0 0 4] headers_load_at [OF assms, of 0 "0x18" 8]
    headers_load_at [OF assms, of 0 "0x20" 8] headers_load_at [OF assms, of 0 "0x38" 2]
  by (simp add: read_elf_header_def load32_def load64_def load16_def)

lemma read_elf_program_at:
  assumes "headers_at file m" and "unat a + 56 \<le> 4096"
  shows "read_elf_program m (ELFHDR + a) = read_elf_program file a"
  using headers_load_at [OF assms(1), of a 0 4] headers_load_at [OF assms(1), of a 8 8]
    headers_load_at [OF assms(1), of a "0x10" 8] headers_load_at [OF assms(1), of a "0x20" 8]
    headers_load_at [OF assms(1), of a "0x28" 8] assms(2)
  by (simp add: read_elf_program_def load32_def load64_def)

lemma segment_covered:
  assumes "in_segment eph x"
  shows "segment_base eph \<le> unat x \<and> (unat x < segment_base eph + 512 * segment_sectors eph \<or>
    unat (p_va eph) + unat (p_filesz eph) \<le> unat x \<and> unat x < unat (p_va eph) + unat (p_memsz eph))"
proof -
  have "unat (p_va eph) + unat (p_filesz eph) \<le> segment_base eph + 512 * segment_sectors eph"
    using sector_count(1) [of "unat (p_va eph) mod 512 + unat (p_filesz eph)"] by (simp add: segment_base_def segment_sectors_def)
  then show ?thesis using assms by (auto simp: in_segment_def segment_end_def)
qed

lemma loaded_outside: "\<not> in_segment eph x \<Longrightarrow> loaded f s eph m x = m x"
proof -
  have "segment_base eph \<le> unat (p_va eph)" by (simp add: segment_base_def)
  then show "\<not> in_segment eph x \<Longrightarrow> loaded f s eph m x = m x" by (auto simp: in_segment_def loaded_def segment_end_def)
qed

lemma loaded_inside: "in_segment eph x \<Longrightarrow> loaded f s eph m x = loaded f s eph m' x"
  using segment_covered [of eph x] by (auto simp: loaded_def)

abbreviation load_all :: "(nat \<Rightarrow> byte) \<Rightarrow> elf_program list \<Rightarrow> mem \<Rightarrow> mem" where
  "load_all f \<equiv> fold (\<lambda>eph. loaded f (first_sector eph) eph)"

lemma load_all_outside: "\<forall>eph\<in>set ephs. \<not> in_segment eph x \<Longrightarrow> load_all f ephs m x = m x"
  by (induction ephs arbitrary: m) (simp_all add: loaded_outside)

lemma load_all_inside:
  assumes "sorted_wrt (\<lambda>e e'. \<forall>x. \<not> (in_segment e x \<and> in_segment e' x)) ephs" and "eph \<in> set ephs" and "in_segment eph x"
  shows "load_all f ephs m x = loaded f (first_sector eph) eph m' x"
  using assms
proof (induction ephs arbitrary: m)
  case (Cons e ephs)
  show ?case
  proof (cases "eph = e")
    case True
    then have "\<forall>e'\<in>set ephs. \<not> in_segment e' x" using Cons.prems by auto
    then have "load_all f (e # ephs) m x = loaded f (first_sector e) e m x" by (simp add: load_all_outside)
    then show ?thesis using True loaded_inside [of e x f "first_sector e" m m'] Cons.prems(3) by simp
  next
    case False
    then show ?thesis using Cons by simp
  qed
qed simp

lemma loaded_contents:
  assumes boot: "bootable nsect eph" and nsect: "nsect \<le> 2 ^ 28" and sz: "unat (p_filesz eph) \<le> unat (p_memsz eph)"
    and k: "k < unat (p_memsz eph)"
  shows "in_segment eph (p_va eph + of_nat k)" and "loaded f (first_sector eph) eph m (p_va eph + of_nat k) =
    (if k < unat (p_filesz eph) then kernel_file f (p_offset eph + of_nat k) else 0)"
proof -
  let ?va = "unat (p_va eph)" and ?off = "unat (p_offset eph)" and ?b = "segment_base eph" and ?n = "segment_sectors eph"
  have e: "segment_end eph < 2 ^ 63" "?off mod 512 = ?va mod 512" and s: "?off div 512 + 1 + ?n \<le> nsect"
    using boot by (simp_all add: bootable_def first_sector_def)
  have va: "?va = ?b + ?va mod 512" by (simp add: segment_base_def)
  have n: "?va + unat (p_filesz eph) \<le> ?b + 512 * ?n"
    using va sector_count(1) [of "?va mod 512 + unat (p_filesz eph)"] by (simp add: segment_sectors_def)
  have x: "unat (p_va eph + of_nat k) = ?va + k"
    using e k by (simp add: segment_end_def unat_word_ariths unat_of_nat)
  show "in_segment eph (p_va eph + of_nat k)"
    using va k by (simp add: in_segment_def segment_end_def x)
  show "loaded f (first_sector eph) eph m (p_va eph + of_nat k) =
    (if k < unat (p_filesz eph) then kernel_file f (p_offset eph + of_nat k) else 0)"
  proof (cases "k < unat (p_filesz eph)")
    case True
    have off: "?off = 512 * (?off div 512) + ?va mod 512" using e(2) mult_div_mod_eq [of 512 ?off] by simp
    have "?off + k < 512 * nsect" using s n va off True by linarith
    then have "unat (p_offset eph + of_nat k) = ?off + k" using nsect by (simp add: unat_word_ariths unat_of_nat)
    moreover have "512 * first_sector eph + (?va + k - ?b) = 512 + (?off + k)"
    proof -
      have "?va + k - ?b = ?va mod 512 + k" by (subst (1) va) simp
      then show ?thesis unfolding first_sector_def by (subst (2) off) simp
    qed
    ultimately show ?thesis using True k n va by (simp add: loaded_def x kernel_file_def)
  next
    case False
    then show ?thesis using k by (simp add: loaded_def x)
  qed
qed

context ata_device
begin

lemma boot_segments_spec:
  assumes "ok (b_dev st)" "phase (b_dev st) = Idle" "headers_at file (b_mem st)"
    and "unat a + 56 * n \<le> 4096" and "\<forall>i<n. bootable nsect (read_elf_program file (a + of_nat (56 * i)))"
  shows "\<exists>d'. boot_segments n io (ELFHDR + a) st =
      (Ok (), \<lparr>b_mem = load_all (disk_byte (sect (b_dev st))) (map (\<lambda>i. read_elf_program file (a + of_nat (56 * i))) [0..<n]) (b_mem st),
               b_dev = d'\<rparr>)"
  using assms
proof (induction n arbitrary: a st)
  case 0
  then show ?case by (intro exI [of _ "b_dev st"]) simp
next
  case (Suc n)
  let ?f = "disk_byte (sect (b_dev st))" and ?g = "\<lambda>i. read_elf_program file (a + of_nat (56 * i))"
  define eph where "eph = read_elf_program file a"
  have e: "read_elf_program (b_mem st) (ELFHDR + a) = eph"
    using read_elf_program_at [OF Suc.prems(3), of a] Suc.prems(4) by (simp add: eph_def)
  have boot: "bootable nsect eph" using Suc.prems(5) by (force simp: eph_def)
  have sect: "unat (ucast (p_offset eph div 512 + 1) :: uint32) = first_sector eph"
  proof -
    have "unat (p_offset eph) div 512 + 1 \<le> 2 ^ 28" using boot nsect_lba28 by (simp add: bootable_def first_sector_def)
    then have "unat (p_offset eph div 512 + 1) = unat (p_offset eph) div 512 + 1" by (simp add: unat_word_ariths unat_div)
    then show ?thesis using \<open>_ \<le> 2 ^ 28\<close> by (simp add: unsigned_ucast_eq take_bit_nat_eq_self first_sector_def)
  qed
  obtain d1 where d1: "boot_readseg io (p_va eph) (ucast (p_offset eph div 512 + 1)) (p_filesz eph) (p_memsz eph) st =
      (Ok (), \<lparr>b_mem = loaded ?f (first_sector eph) eph (b_mem st), b_dev = d1\<rparr>)" "ok d1" "phase d1 = Idle" "sect d1 = sect (b_dev st)"
    using boot_readseg_spec [OF Suc.prems(1,2), of "ucast (p_offset eph div 512 + 1)" eph] boot
    by (auto simp: bootable_def sect)
  let ?st = "\<lparr>b_mem = loaded ?f (first_sector eph) eph (b_mem st), b_dev = d1\<rparr>"
  have keep: "headers_at file (b_mem ?st)"
    by (rule headers_at_cong [OF Suc.prems(3)]) (use boot in \<open>auto intro!: loaded_outside simp: bootable_def in_segment_def\<close>)
  have a: "n = 0 \<or> unat (a + 56) = unat a + 56" using Suc.prems(4) by (auto simp: unat_word_ariths)
  have shift: "a + 56 + of_nat (56 * i) = a + of_nat (56 * Suc i)" for i by (simp add: algebra_simps)
  have "\<forall>i<n. bootable nsect (read_elf_program file (a + 56 + of_nat (56 * i)))"
    unfolding shift using Suc.prems(5) by blast
  then obtain d2 where d2: "boot_segments n io (ELFHDR + (a + 56)) ?st =
      (Ok (), \<lparr>b_mem = load_all ?f (map (\<lambda>i. ?g (Suc i)) [0..<n]) (b_mem ?st), b_dev = d2\<rparr>)"
    using Suc.IH [of ?st "a + 56"] d1 keep a Suc.prems(4) unfolding shift by (cases "n = 0") auto
  have "map ?g [0..<Suc n] = eph # map (\<lambda>i. ?g (Suc i)) [0..<n]"
    by (simp add: upt_conv_Cons map_Suc_upt [symmetric] eph_def o_def del: upt_Suc)
  then show ?case
    using d1(1) d2 by (simp add: b_load_def io_bind_def e SECTORSIZE_def add.assoc del: upt_Suc)
qed

lemma boot_header_spec:
  assumes "ok (b_dev st)" and "phase (b_dev st) = Idle" and "9 \<le> nsect"
  defines "f \<equiv> disk_byte (sect (b_dev st))"
  shows "\<exists>m d'. boot_readseg io ELFHDR 1 (of_nat PAGESIZE) (of_nat PAGESIZE) st = (Ok (), \<lparr>b_mem = m, b_dev = d'\<rparr>) \<and>
    ok d' \<and> phase d' = Idle \<and> sect d' = sect (b_dev st) \<and> headers_at (kernel_file f) m \<and>
    (\<forall>x. unat x < 0x10000 \<or> 0x11000 \<le> unat x \<longrightarrow> m x = b_mem st x)"
proof -
  define eph where "eph = \<lparr>p_type = 0, p_offset = 0, p_va = ELFHDR, p_filesz = 4096, p_memsz = 4096\<rparr>"
  have e: "segment_base eph = 0x10000" "segment_sectors eph = 8" "segment_end eph = 0x11000"
    by (simp_all add: eph_def segment_base_def segment_sectors_def segment_end_def ELFHDR_def)
  obtain d' where d': "boot_readseg io ELFHDR 1 4096 4096 st = (Ok (), \<lparr>b_mem = loaded f 1 eph (b_mem st), b_dev = d'\<rparr>)"
      "ok d'" "phase d' = Idle" "sect d' = sect (b_dev st)"
    using boot_readseg_spec [OF assms(1,2), of 1 eph] assms(3) e by (auto simp: eph_def f_def)
  have "headers_at (kernel_file f) (loaded f 1 eph (b_mem st))"
    unfolding headers_at_def
    by (simp add: loaded_def kernel_file_def e unat_ELFHDR) (auto simp: eph_def ELFHDR_def)
  moreover have "\<forall>x. unat x < 0x10000 \<or> 0x11000 \<le> unat x \<longrightarrow> loaded f 1 eph (b_mem st) x = b_mem st x"
    using e by (auto intro!: loaded_outside simp: in_segment_def)
  ultimately show ?thesis using d' by (auto simp: PAGESIZE_def)
qed

end

lemma kernel_segments_disjoint:
  assumes "\<forall>i j. i < j \<and> j < length es \<longrightarrow> (\<forall>x. \<not> (in_segment (es ! i) x \<and> in_segment (es ! j) x))"
  shows "sorted_wrt (\<lambda>e e'. \<forall>x. \<not> (in_segment e x \<and> in_segment e' x)) es"
  using assms by (auto simp: sorted_wrt_iff_nth_less)

section \<open>Properties\<close>

text \<open>
  C40: Booting. Let the disk hold from sector 1 on an ELF file whose headers fit in the first page and whose segments lie in disjoint
  places outside the page of the headers, with file position and address congruent modulo the sector size. Then \<open>boot\<close> returns the entry
  point of the file: every segment is in memory at its address, first its bytes of the file and then zeroes, and memory outside the
  segments (with their sectors) and the page of the headers is unchanged.
\<close>

theorem boot_loads_kernel:
  fixes st :: "'d boot" and sect :: "'d \<Rightarrow> nat \<Rightarrow> byte list"
  defines "f \<equiv> disk_byte (sect (b_dev st))"
  assumes dev: "ata_device io sect reg phase busy ok nsect" "ok (b_dev st)" "phase (b_dev st) = Idle" "9 \<le> nsect"
    and hdr: "e_magic (kernel_header f) = ELF_MAGIC"
      "unat (e_phoff (kernel_header f)) + 56 * length (kernel_segments f) \<le> 4096"
    and seg: "\<forall>eph\<in>set (kernel_segments f). bootable nsect eph \<and> unat (p_filesz eph) \<le> unat (p_memsz eph)"
    and disj: "\<forall>i j. i < j \<and> j < length (kernel_segments f) \<longrightarrow>
      (\<forall>x. \<not> (in_segment (kernel_segments f ! i) x \<and> in_segment (kernel_segments f ! j) x))"
  shows "\<exists>m d'. boot io st = (Ok (e_entry (kernel_header f)), \<lparr>b_mem = m, b_dev = d'\<rparr>) \<and>
    (\<forall>eph\<in>set (kernel_segments f). \<forall>k<unat (p_memsz eph). m (p_va eph + of_nat k) =
       (if k < unat (p_filesz eph) then kernel_file f (p_offset eph + of_nat k) else 0)) \<and>
    (\<forall>x. unat x < 0x10000 \<or> 0x11000 \<le> unat x \<longrightarrow> (\<forall>eph\<in>set (kernel_segments f). \<not> in_segment eph x) \<longrightarrow> m x = b_mem st x)"
proof -
  let ?h = "kernel_header f" and ?es = "kernel_segments f"
  obtain m1 d1 where 1: "boot_readseg io ELFHDR 1 (of_nat PAGESIZE) (of_nat PAGESIZE) st = (Ok (), \<lparr>b_mem = m1, b_dev = d1\<rparr>)"
      "ok d1" "phase d1 = Idle" "sect d1 = sect (b_dev st)" "headers_at (kernel_file f) m1"
      "\<forall>x. unat x < 0x10000 \<or> 0x11000 \<le> unat x \<longrightarrow> m1 x = b_mem st x"
    using ata_device.boot_header_spec [OF dev] unfolding f_def by blast
  have h: "read_elf_header m1 ELFHDR = ?h" using read_elf_header_at [OF 1(5)] by (simp add: kernel_header_def)
  let ?n = "unat (e_phnum ?h)" and ?a = "e_phoff ?h"
  have es: "?es = map (\<lambda>i. read_elf_program (kernel_file f) (?a + of_nat (56 * i))) [0..<?n]" by (simp add: kernel_segments_def)
  have n: "unat ?a + 56 * ?n \<le> 4096" using hdr(2) by (simp add: es)
  have boots: "\<forall>i<?n. bootable nsect (read_elf_program (kernel_file f) (?a + of_nat (56 * i)))" using seg by (simp add: es)
  define m where "m = load_all f ?es m1"
  obtain d2 where 2: "boot_segments ?n io (ELFHDR + ?a) \<lparr>b_mem = m1, b_dev = d1\<rparr> = (Ok (), \<lparr>b_mem = m, b_dev = d2\<rparr>)"
    using ata_device.boot_segments_spec [OF dev(1), of "\<lparr>b_mem = m1, b_dev = d1\<rparr>" "kernel_file f" ?a ?n] 1(2-5) n boots
    by (auto simp: m_def kernel_segments_def f_def)
  have out: "m x = m1 x" if "\<forall>eph\<in>set ?es. \<not> in_segment eph x" for x using load_all_outside [OF that] by (simp add: m_def)
  have "m x = m1 x" if "0x10000 \<le> unat x" "unat x < 0x11000" for x
    by (rule out) (use seg that in \<open>fastforce simp: bootable_def in_segment_def\<close>)
  then have "headers_at (kernel_file f) m" using headers_at_cong [OF 1(5)] by blast
  then have "read_elf_header m ELFHDR = ?h" using read_elf_header_at by (simp add: kernel_header_def)
  then have "boot io st = (Ok (e_entry ?h), \<lparr>b_mem = m, b_dev = d2\<rparr>)"
    using 1(1) 2 h hdr(1) by (simp add: boot_def b_load_def io_bind_def)
  moreover have "\<forall>eph\<in>set ?es. \<forall>k<unat (p_memsz eph). m (p_va eph + of_nat k) =
       (if k < unat (p_filesz eph) then kernel_file f (p_offset eph + of_nat k) else 0)"
  proof (intro ballI allI impI)
    fix eph k
    assume e: "eph \<in> set ?es" and k: "k < unat (p_memsz eph)"
    note c = loaded_contents [OF _ ata_device.nsect_lba28 [OF dev(1)] _ k]
    show "m (p_va eph + of_nat k) = (if k < unat (p_filesz eph) then kernel_file f (p_offset eph + of_nat k) else 0)"
      using load_all_inside [OF kernel_segments_disjoint [OF disj] e c(1), of f m1 m1] c(2) [where f = f and m = m1] seg e by (simp add: m_def)
  qed
  ultimately show ?thesis using out 1(6) by auto
qed


text \<open>A disk with a kernel of one segment: 600 bytes at \<open>0x40000\<close>, followed by 100 zeroes.\<close>

definition sample_header :: "byte list" where
  "sample_header = le_of_word 4 ELF_MAGIC @ replicate 20 0 @ le_of_word 8 (0x40004 :: uint64) @ le_of_word 8 (64 :: uint64) @
     replicate 16 0 @ le_of_word 2 (1 :: uint16) @ replicate 6 0 @
     le_of_word 4 ELF_PTYPE_LOAD @ replicate 4 0 @ le_of_word 8 (512 :: uint64) @ le_of_word 8 (0x40000 :: uint64) @
     replicate 8 0 @ le_of_word 8 (600 :: uint64) @ le_of_word 8 (700 :: uint64) @ replicate 400 0"

definition sample_disk :: ata_sim where
  "sample_disk = blank_disk\<lparr>sim_sect := (\<lambda>k. if k = 1 then sample_header else replicate 512 0x90)\<rparr>"

lemma length_sample_header: "length sample_header = 512"
  by (simp add: sample_header_def)

lemma sample_disk_ok: "sim_ok sample_disk" "sim_phase sample_disk = Idle"
  by (simp_all add: sample_disk_def sim_ok_def blank_disk_def length_sample_header)

lemma sample_load:
  assumes "unat a + n \<le> 512"
  shows "load_bytes (kernel_file (disk_byte (sim_sect sample_disk))) a n = take n (drop (unat a) sample_header)"
proof (rule nth_equalityI)
  fix i assume "i < length (load_bytes (kernel_file (disk_byte (sim_sect sample_disk))) a n)"
  then have i: "i < n" by simp
  then have "unat (a + of_nat i) = unat a + i" using assms by (simp add: unat_word_ariths unat_of_nat)
  then show "load_bytes (kernel_file (disk_byte (sim_sect sample_disk))) a n ! i = take n (drop (unat a) sample_header) ! i"
    using i assms sector_div [of "unat a + i" 1]
    by (simp add: kernel_file_def disk_byte_def sample_disk_def length_sample_header)
qed (use assms in \<open>simp add: length_sample_header\<close>)

lemma sample_kernel:
  "kernel_header (disk_byte (sim_sect sample_disk)) = \<lparr>e_magic = ELF_MAGIC, e_entry = 0x40004, e_phoff = 64, e_phnum = 1\<rparr>"
  "kernel_segments (disk_byte (sim_sect sample_disk)) =
     [\<lparr>p_type = ELF_PTYPE_LOAD, p_offset = 512, p_va = 0x40000, p_filesz = 600, p_memsz = 700\<rparr>]"
proof -
  show h: "kernel_header (disk_byte (sim_sect sample_disk)) = \<lparr>e_magic = ELF_MAGIC, e_entry = 0x40004, e_phoff = 64, e_phnum = 1\<rparr>"
    by (simp add: kernel_header_def read_elf_header_def load32_def load64_def load16_def sample_load sample_header_def codec_simps)
  show "kernel_segments (disk_byte (sim_sect sample_disk)) =
     [\<lparr>p_type = ELF_PTYPE_LOAD, p_offset = 512, p_va = 0x40000, p_filesz = 600, p_memsz = 700\<rparr>]"
    by (simp add: kernel_segments_def h read_elf_program_def load32_def load64_def sample_load sample_header_def codec_simps)
qed

theorem boot_loads_kernel_witness:
  "\<exists>m d'. boot sim_ports \<lparr>b_mem = \<lambda>_. 0xFF, b_dev = sample_disk\<rparr> = (Ok 0x40004, \<lparr>b_mem = m, b_dev = d'\<rparr>) \<and>
     m 0x40000 = 0x90 \<and> m 0x402BB = 0 \<and> m 0x9000 = 0xFF"
proof -
  let ?st = "\<lparr>b_mem = \<lambda>_. 0xFF, b_dev = sample_disk\<rparr>" and ?f = "disk_byte (sim_sect sample_disk)"
  let ?e = "\<lparr>p_type = ELF_PTYPE_LOAD, p_offset = 512, p_va = 0x40000, p_filesz = 600, p_memsz = 700\<rparr>"
  have e: "segment_base ?e = 0x40000" "segment_sectors ?e = 2" "segment_end ?e = 0x40400" "first_sector ?e = 2"
    by (simp_all add: segment_base_def segment_sectors_def segment_end_def first_sector_def)
  have "bootable 65536 ?e" by (simp add: bootable_def e)
  then obtain m d' where m: "boot sim_ports ?st = (Ok 0x40004, \<lparr>b_mem = m, b_dev = d'\<rparr>)"
    "\<forall>k<700. m (0x40000 + of_nat k) = (if k < 600 then kernel_file ?f (512 + of_nat k) else 0)"
    "\<forall>x. unat x < 0x10000 \<or> 0x11000 \<le> unat x \<longrightarrow> \<not> in_segment ?e x \<longrightarrow> m x = 0xFF"
    using boot_loads_kernel [OF sim.ata_device_axioms, of ?st, unfolded boot.select_convs sample_kernel list.set ball_simps elf_program.select_convs] sample_disk_ok
    by auto
  have "m 0x40000 = 0x90" using m(2) [rule_format, of 0] by (simp add: kernel_file_def disk_byte_def sample_disk_def)
  moreover have "m 0x402BB = 0" using m(2) [rule_format, of 699] by simp
  moreover have "m 0x9000 = 0xFF" using m(3) [rule_format, of "0x9000"] by (simp add: in_segment_def e)
  ultimately show ?thesis using m(1) by blast
qed

end
