(* ===== verification/Boot_Disk.thy ===== *)
theory Boot_Disk
  imports Boot
begin

text \<open>
  The tool \<^verbatim>\<open>build/mkbootdisk.c\<close> that makes the boot disk: a boot sector with the BIOS signature, then the kernel and
  the image of the file system at given sectors; with \<open>-p\<close> it writes into a partition of an existing disk.
  The state is that of the host: the file behind \<open>diskfd\<close>, its position, and the outcomes of the \<open>write\<close> calls to
  come, each of which may be partial or interrupted. \<open>Err 1\<close> is the end of the program in \<open>usage\<close>;
  messages are left out.
\<close>

section \<open>Writing\<close>

datatype write_result = Wrote nat | Interrupted | Failed

record host =
  disk :: "byte list"
  pos :: nat
  curoff :: nat
  maxoff :: nat
  writes :: "write_result list"

definition usage :: "(host, 'a) io" where
  "usage = io_fail 1"

text \<open>Writing \<open>bs\<close> at position \<open>p\<close> of a file.\<close>

definition patch :: "nat \<Rightarrow> byte list \<Rightarrow> byte list \<Rightarrow> byte list" where
  "patch p bs d = take p d @ replicate (p - length d) 0 @ bs @ drop (p + length bs) d"

text \<open>A \<open>write\<close> of \<open>n\<close> bytes transfers at most the data that is left; 0 bytes are the end of the file.\<close>

fun diskwrite_loop :: "write_result list \<Rightarrow> byte list \<Rightarrow> (host, unit) io" where
  "diskwrite_loop ws [] h = (Ok (), h\<lparr>writes := ws\<rparr>)"
| "diskwrite_loop [] data h = (Stuck, h)"
| "diskwrite_loop (Interrupted # ws) data h = diskwrite_loop ws data h"
| "diskwrite_loop (Failed # ws) data h = usage (h\<lparr>writes := ws\<rparr>)"
| "diskwrite_loop (Wrote n # ws) data h =
     (if n = 0 then usage (h\<lparr>writes := ws\<rparr>)
      else let w = min n (length data)
           in diskwrite_loop ws (drop w data)
                (h\<lparr>disk := patch (pos h) (take w data) (disk h), pos := pos h + w, curoff := curoff h + w\<rparr>))"

definition diskwrite :: "byte list \<Rightarrow> (host, unit) io" where
  "diskwrite data = (\<lambda>h.
     if maxoff h \<noteq> 0 \<and> curoff h + length data > maxoff h then usage h else diskwrite_loop (writes h) data h)"

definition zerobuf :: "byte list" where "zerobuf = replicate 512 0"

text \<open>The loops that write sectors of zeroes: \<open>n\<close> of them.\<close>

primrec write_zeroes :: "nat \<Rightarrow> (host, unit) io" where
  "write_zeroes 0 = io_return ()"
| "write_zeroes (Suc n) = io_bind (diskwrite zerobuf) (\<lambda>_. write_zeroes n)"

section \<open>Arguments\<close>

text \<open>\<open>files\<close> gives the bytes that \<open>fread\<close> delivers of a file, or \<open>None\<close> when \<open>fopen\<close> fails.\<close>

type_synonym files = "string \<Rightarrow> byte list option"

definition fopencheck :: "files \<Rightarrow> string \<Rightarrow> (host, byte list) io" where
  "fopencheck files name = (case files name of None \<Rightarrow> usage | Some bs \<Rightarrow> io_return bs)"

text \<open>\<open>strtoul\<close> with base 0 on a string that starts with a digit: the value and the rest of the string.\<close>

definition digit_value :: "char \<Rightarrow> nat" where
  "digit_value c = (let n = of_char c :: nat in
     if 48 \<le> n \<and> n \<le> 57 then n - 48 else if 97 \<le> n \<and> n \<le> 122 then n - 87
     else if 65 \<le> n \<and> n \<le> 90 then n - 55 else 36)"

fun strtoul_loop :: "nat \<Rightarrow> nat \<Rightarrow> string \<Rightarrow> nat \<times> string" where
  "strtoul_loop base n [] = (n, [])"
| "strtoul_loop base n (c # s) =
     (if digit_value c < base then strtoul_loop base (n * base + digit_value c) s else (n, c # s))"

definition ULONG_MAX :: nat where "ULONG_MAX = 2 ^ 64 - 1"

definition strtoul :: "string \<Rightarrow> nat \<times> string" where
  "strtoul s = apfst (min ULONG_MAX)
     (case s of
        c # x # d # rest \<Rightarrow>
          if c = CHR ''0'' \<and> x \<in> {CHR ''x'', CHR ''X''} \<and> digit_value d < 16 then strtoul_loop 16 0 (d # rest)
          else if c = CHR ''0'' then strtoul_loop 8 0 s else strtoul_loop 10 0 s
      | c # rest \<Rightarrow> if c = CHR ''0'' then strtoul_loop 8 0 s else strtoul_loop 10 0 s
      | [] \<Rightarrow> (0, []))"

text \<open>An argument of the form \<open>@X\<close>: skip to sector \<open>X\<close>.\<close>

definition skipto_sector :: "string \<Rightarrow> nat option" where
  "skipto_sector a =
     (case a of
        c # d # s \<Rightarrow> if c = CHR ''@'' \<and> digit_value d < 10
                    then case strtoul (d # s) of (n, rest) \<Rightarrow> if rest = [] then Some n else None
                    else None
      | _ \<Rightarrow> None)"

section \<open>The image\<close>

function copy_file :: "byte list \<Rightarrow> (host, unit) io" where
  "copy_file data =
     (if data = [] then io_return ()
      else io_bind (diskwrite (take 4096 data)) (\<lambda>_. copy_file (drop 4096 data)))"
  by pat_completeness auto
termination by (relation "measure length") auto

declare copy_file.simps [simp del]

text \<open>One iteration of the loop over the arguments: \<open>nsectors\<close> before and after.\<close>

definition write_arg :: "files \<Rightarrow> string \<Rightarrow> nat \<Rightarrow> (host, nat) io" where
  "write_arg files a nsectors =
     (case skipto_sector a of
        Some n \<Rightarrow> if nsectors > n then usage else io_bind (write_zeroes (n - nsectors)) (\<lambda>_. io_return n)
      | None \<Rightarrow>
          io_bind (fopencheck files a) (\<lambda>data.
          io_bind (copy_file data) (\<lambda>_.
          let p = length data in
          if p mod 512 \<noteq> 0
          then io_bind (diskwrite (take (512 - p mod 512) zerobuf)) (\<lambda>_.
               io_return (nsectors + (p + (512 - p mod 512)) div 512))
          else io_return (nsectors + p div 512))))"

primrec write_args :: "files \<Rightarrow> string list \<Rightarrow> nat \<Rightarrow> (host, nat) io" where
  "write_args files [] nsectors = io_return nsectors"
| "write_args files (a # as) nsectors = io_bind (write_arg files a nsectors) (write_args files as)"

definition boot_sector :: "byte list \<Rightarrow> byte list" where
  "boot_sector code = code @ replicate (510 - length code) 0 @ [0x55, 0xAA]"

definition write_boot_sector :: "files \<Rightarrow> string \<Rightarrow> (host, unit) io" where
  "write_boot_sector files name =
     io_bind (fopencheck files name) (\<lambda>data.
     let n = min 4096 (length data) in
     if n > 510 then usage else diskwrite (boot_sector (take n data)))"

section \<open>Partitions\<close>

definition PTABLE_OFFSET :: nat where "PTABLE_OFFSET = 446"
definition PTABLE_MAGIC_OFFSET :: nat where "PTABLE_MAGIC_OFFSET = 510"
definition PTYPE_JOS_KERN :: byte where "PTYPE_JOS_KERN = 0x27"
definition PTYPE_DOS_EXTENDED :: byte where "PTYPE_DOS_EXTENDED = 0x05"
definition PTYPE_W95_EXTENDED :: byte where "PTYPE_W95_EXTENDED = 0x0F"
definition PTYPE_LINUX_EXTENDED :: byte where "PTYPE_LINUX_EXTENDED = 0x85"

record Partitiondesc =
  pd_type :: byte
  lba_start :: nat
  lba_length :: nat

definition partition_entry :: "byte list \<Rightarrow> nat \<Rightarrow> Partitiondesc" where
  "partition_entry buf i =
     (let e = drop (PTABLE_OFFSET + 16 * i) buf
      in \<lparr>pd_type = e ! 4, lba_start = unat (word_of_le (take 4 (drop 8 e)) :: uint32),
          lba_length = unat (word_of_le (take 4 (drop 12 e)) :: uint32)\<rparr>)"

definition has_magic :: "byte list \<Rightarrow> bool" where
  "has_magic buf \<longleftrightarrow> buf ! PTABLE_MAGIC_OFFSET = 0x55 \<and> buf ! (PTABLE_MAGIC_OFFSET + 1) = 0xAA"

text \<open>\<open>readsect\<close>: a sector number is a \<open>uint32_t\<close>.\<close>

definition host_readsect :: "nat \<Rightarrow> (host, byte list) io" where
  "host_readsect sectno = (\<lambda>h.
     let off = (sectno mod 2 ^ 32) * SECTORSIZE; buf = take SECTORSIZE (drop off (disk h))
     in if length buf = SECTORSIZE then (Ok buf, h\<lparr>pos := off + SECTORSIZE\<rparr>) else usage (h\<lparr>pos := off + length buf\<rparr>))"

definition use_partition :: "nat \<Rightarrow> Partitiondesc \<Rightarrow> (host, int) io" where
  "use_partition partition_sect e = (\<lambda>h.
     (Ok 1, h\<lparr>pos := (partition_sect + lba_start e) * SECTORSIZE, maxoff := lba_length e * SECTORSIZE\<rparr>))"

definition extended :: "Partitiondesc \<Rightarrow> bool" where
  "extended e \<longleftrightarrow> pd_type e \<in> {PTYPE_DOS_EXTENDED, PTYPE_W95_EXTENDED, PTYPE_LINUX_EXTENDED}"

text \<open>
  \<open>search_table i buf\<close>: the loop over the entries of the table in \<open>buf\<close> from entry \<open>i\<close> on, with the recursive call for
  an extended partition. A cycle of extended partitions is followed for ever: \<open>None\<close>.
\<close>

partial_function (option) search_table ::
  "nat \<Rightarrow> byte list \<Rightarrow> nat \<Rightarrow> nat \<Rightarrow> host \<Rightarrow> (int outcome \<times> host) option" where
  "search_table i buf partition_sect extended_sect h =
     (if i \<ge> 4 then Some (Ok 0, h)
      else let e = partition_entry buf i in
        if lba_length e = 0 then search_table (i + 1) buf partition_sect extended_sect h
        else if pd_type e = PTYPE_JOS_KERN then Some (use_partition partition_sect e h)
        else if extended e
        then case host_readsect (lba_start e + extended_sect) h of
               (Ok buf', h) \<Rightarrow>
                 Option.bind
                   (if has_magic buf'
                    then search_table 0 buf' (lba_start e + extended_sect)
                           (if extended_sect = 0 then lba_start e else extended_sect) h
                    else Some (Ok 0, h))
                   (\<lambda>(r, h). case r of
                      Ok r \<Rightarrow> if r > 0 then Some (Ok r, h) else search_table (i + 1) buf partition_sect extended_sect h
                    | Err x \<Rightarrow> Some (Err x, h) | Stuck \<Rightarrow> Some (Stuck, h))
             | (Err x, h) \<Rightarrow> Some (Err x, h)
             | (Stuck, h) \<Rightarrow> Some (Stuck, h)
        else search_table (i + 1) buf partition_sect extended_sect h)"

definition find_partition :: "nat \<Rightarrow> nat \<Rightarrow> (host, int) io" where
  "find_partition partition_sect extended_sect =
     io_bind (host_readsect partition_sect) (\<lambda>buf.
     if has_magic buf
     then (\<lambda>h. case search_table 0 buf partition_sect extended_sect h of None \<Rightarrow> (Stuck, h) | Some r \<Rightarrow> r)
     else io_return 0)"

section \<open>The program\<close>

definition open_disk :: "files \<Rightarrow> string \<Rightarrow> (host, unit) io" where
  "open_disk files name =
     (case files name of None \<Rightarrow> usage | Some bs \<Rightarrow> (\<lambda>h. (Ok (), h\<lparr>disk := bs, pos := 0\<rparr>)))"

text \<open>The rest of the image behind the first \<open>nsectors\<close> sectors, filled up to 1024 sectors.\<close>

definition write_files :: "files \<Rightarrow> string list \<Rightarrow> nat \<Rightarrow> (host, int) io" where
  "write_files files args nsectors =
     io_bind (write_args files args nsectors) (\<lambda>n.
     io_bind (write_zeroes (1024 - n)) (\<lambda>_.
     io_return 0))"

definition mkbootdisk :: "files \<Rightarrow> string list \<Rightarrow> (host, int) io" where
  "mkbootdisk files argv =
     (if 2 \<le> length argv \<and> argv ! 1 = ''-p''
      then if length argv < 3 then usage
           else io_bind (open_disk files (argv ! 2)) (\<lambda>_.
                io_bind (find_partition 0 0) (\<lambda>r.
                if r \<le> 0 then usage
                else if length argv < 4 then usage
                else write_files files (drop 3 argv) 0))
      else if length argv < 2 then usage
      else io_bind (write_boot_sector files (argv ! 1)) (\<lambda>_.
           write_files files (drop 2 argv) 1))"

section \<open>What the program writes\<close>

text \<open>
  A host on which the writes to come succeed: none fails or ends, and at least \<open>n\<close> of them transfer something. The
  output is appended, without a limit.
\<close>

definition progress :: "write_result list \<Rightarrow> nat" where
  "progress ws = length (filter (\<lambda>w. w \<noteq> Interrupted) ws)"

definition writable_host :: "host \<Rightarrow> nat \<Rightarrow> bool" where
  "writable_host h n \<longleftrightarrow> Failed \<notin> set (writes h) \<and> Wrote 0 \<notin> set (writes h) \<and> n \<le> progress (writes h) \<and>
     maxoff h = 0 \<and> pos h = length (disk h)"

text \<open>\<open>m\<close> returns \<open>x\<close> after it has appended \<open>bs\<close>, on a host that can write so many bytes.\<close>

definition emits :: "(host, 'a) io \<Rightarrow> 'a \<Rightarrow> byte list \<Rightarrow> bool" where
  "emits m x bs \<longleftrightarrow> (\<forall>h n. writable_host h (length bs + n) \<longrightarrow>
     (\<exists>h'. m h = (Ok x, h') \<and> writable_host h' n \<and> disk h' = disk h @ bs))"

lemma emits_return: "emits (io_return x) x []"
  by (auto simp: emits_def io_return_def)

lemma emits_bind: "emits m x bs \<Longrightarrow> emits (f x) y cs \<Longrightarrow> emits (io_bind m f) y (bs @ cs)"
  unfolding emits_def by (simp add: add.assoc) (metis append.assoc io_bind_Ok)

lemma diskwrite_loop_appends:
  assumes "Failed \<notin> set ws" and "Wrote 0 \<notin> set ws" and "length data + n \<le> progress ws" and "pos h = length (disk h)"
    and "maxoff h = 0"
  shows "\<exists>h'. diskwrite_loop ws data h = (Ok (), h') \<and> writable_host h' n \<and> disk h' = disk h @ data"
  using assms
proof (induction ws data h arbitrary: n rule: diskwrite_loop.induct)
  case (1 ws h)
  then show ?case by (simp add: writable_host_def)
next
  case (5 m ws b data h)
  let ?data = "b # data"
  define w where "w = min m (length ?data)"
  have m: "m \<noteq> 0" using "5.prems" by auto
  have w: "0 < w" "w \<le> length ?data" using m by (auto simp: w_def)
  let ?h = "h\<lparr>disk := patch (pos h) (take w ?data) (disk h), pos := pos h + w, curoff := curoff h + w\<rparr>"
  have d: "disk ?h = disk h @ take w ?data" using "5.prems" by (simp add: patch_def)
  have "\<exists>h'. diskwrite_loop ws (drop w ?data) ?h = (Ok (), h') \<and> writable_host h' n \<and> disk h' = disk ?h @ drop w ?data"
    using m w "5.prems" d by (intro "5.IH" [OF _ w_def]) (auto simp: progress_def)
  moreover have "diskwrite_loop (Wrote m # ws) ?data h = diskwrite_loop ws (drop w ?data) ?h"
    using m unfolding w_def by (simp add: Let_def)
  moreover have "disk ?h @ drop w ?data = disk h @ ?data" unfolding d append_assoc append_take_drop_id ..
  ultimately show ?case by simp
qed (simp_all add: progress_def)

lemma emits_diskwrite: "emits (diskwrite data) () data"
  unfolding emits_def
proof (intro allI impI)
  fix h n assume "writable_host h (length data + n)"
  then show "\<exists>h'. diskwrite data h = (Ok (), h') \<and> writable_host h' n \<and> disk h' = disk h @ data"
    using diskwrite_loop_appends [of "writes h" data n h] by (auto simp: diskwrite_def writable_host_def)
qed

lemma emits_write_zeroes: "emits (write_zeroes n) () (replicate (512 * n) 0)"
proof (induction n)
  case (Suc n)
  have "emits (write_zeroes (Suc n)) () (zerobuf @ replicate (512 * n) 0)"
    unfolding write_zeroes.simps by (rule emits_bind [OF emits_diskwrite Suc])
  then show ?case by (simp add: zerobuf_def replicate_add [symmetric])
qed (simp only: write_zeroes.simps mult_0_right replicate_0 emits_return)

lemma emits_copy_file: "emits (copy_file data) () data"
proof (induction data rule: copy_file.induct)
  case (1 data)
  show ?case
  proof (cases "data = []")
    case False
    have "emits (copy_file data) () (take 4096 data @ drop 4096 data)"
      unfolding copy_file.simps [of data] using False "1" by (simp only: if_False) (rule emits_bind [OF emits_diskwrite], simp)
    then show ?thesis by simp
  qed (simp only: copy_file.simps [of "[]"] simp_thms if_True emits_return)
qed

text \<open>A file is padded with zeroes to a multiple of the sector size.\<close>

definition sectors :: "nat \<Rightarrow> nat" where
  "sectors n = n div 512 + (if n mod 512 \<noteq> 0 then 1 else 0)"

definition pad :: "byte list \<Rightarrow> byte list" where
  "pad bs = bs @ replicate (512 * sectors (length bs) - length bs) 0"

lemma round_sector: "n + (512 - n mod 512) = 512 * Suc (n div 512)" for n :: nat
proof -
  have "512 * q + r + (512 - r) = 512 * Suc q" if "r < 512" for q r :: nat using that by simp
  from this [of "n mod 512" "n div 512"] show ?thesis by (simp only: mult_div_mod_eq mod_less_divisor zero_less_numeral)
qed

lemma sectors_round: "sectors n = (if n mod 512 \<noteq> 0 then (n + (512 - n mod 512)) div 512 else n div 512)"
  unfolding round_sector sectors_def by simp

lemma sectors_rest: "512 * sectors n = n + (if n mod 512 \<noteq> 0 then 512 - n mod 512 else 0)"
  using round_sector [of n] mult_div_mod_eq [of 512 n] by (cases "n mod 512 = 0") (simp_all only: sectors_def simp_thms if_True if_False, simp_all)

lemma length_pad: "length (pad bs) = 512 * sectors (length bs)"
  by (simp add: pad_def sectors_rest)

lemma emits_write_file:
  assumes "skipto_sector a = None" and "files a = Some bs"
  shows "emits (write_arg files a n) (n + sectors (length bs)) (pad bs)"
proof -
  let ?p = "length bs" and ?x = "n + sectors (length bs)"
  let ?rest = "if ?p mod 512 \<noteq> 0
          then io_bind (diskwrite (take (512 - ?p mod 512) zerobuf)) (\<lambda>_. io_return (n + (?p + (512 - ?p mod 512)) div 512))
          else io_return (n + ?p div 512)"
  have "emits ?rest ?x (replicate (512 * sectors ?p - ?p) 0)"
  proof (cases "?p mod 512 = 0")
    case True
    then have r: "?rest = io_return ?x" and z: "replicate (512 * sectors ?p - ?p) 0 = []"
      using sectors_rest [of ?p] by (simp_all only: sectors_round [of ?p] simp_thms if_False if_True) simp
    show ?thesis unfolding r z by (rule emits_return)
  next
    case False
    then have r: "?rest = io_bind (diskwrite (take (512 - ?p mod 512) zerobuf)) (\<lambda>_. io_return ?x)"
      by (simp only: sectors_round [of ?p] simp_thms if_True)
    have z: "replicate (512 * sectors ?p - ?p) 0 = take (512 - ?p mod 512) zerobuf @ []"
      using False sectors_rest [of ?p] by (simp add: zerobuf_def)
    show ?thesis unfolding r z by (rule emits_bind [OF emits_diskwrite emits_return])
  qed
  then have "emits (io_bind (copy_file bs) (\<lambda>_. ?rest)) ?x (pad bs)"
    unfolding pad_def by (rule emits_bind [OF emits_copy_file])
  moreover have "write_arg files a n = io_bind (copy_file bs) (\<lambda>_. ?rest)"
    using assms by (simp only: write_arg_def fopencheck_def option.case io_bind_return Let_def)
  ultimately show ?thesis by simp
qed

lemma emits_skip:
  assumes "skipto_sector a = Some k" and "n \<le> k"
  shows "emits (write_arg files a n) k (replicate (512 * (k - n)) 0)"
  using emits_bind [OF emits_write_zeroes [of "k - n"] emits_return [of k]] assms by (simp add: write_arg_def del: io_return_run)

lemma emits_boot_sector:
  assumes "files a = Some bs" and "length bs \<le> 510"
  shows "emits (write_boot_sector files a) () (boot_sector bs)"
  using assms emits_diskwrite by (simp add: write_boot_sector_def fopencheck_def Let_def)

lemma emits_write_files:
  assumes "emits (write_args files args n) k bs"
  shows "emits (write_files files args n) 0 (bs @ replicate (512 * (1024 - k)) 0)"
proof -
  have "emits (io_bind (write_zeroes (1024 - k)) (\<lambda>_. io_return 0)) 0 (replicate (512 * (1024 - k)) 0)"
    using emits_bind [OF emits_write_zeroes [of "1024 - k"] emits_return [of 0]] by (simp only: append_Nil2)
  then show ?thesis unfolding write_files_def by (rule emits_bind [OF assms])
qed

lemma skipto_1024: "skipto_sector ''@1024'' = Some 1024"
  by (simp add: skipto_sector_def strtoul_def digit_value_def ULONG_MAX_def)

text \<open>The image of the Makefile: the boot sector, the kernel, and from sector 1024 on the file system.\<close>

definition boot_image :: "byte list \<Rightarrow> byte list \<Rightarrow> byte list \<Rightarrow> byte list" where
  "boot_image code kern fs = boot_sector code @ pad kern @ replicate (512 * (1024 - (1 + sectors (length kern)))) 0 @ pad fs"

lemma emits_boot_image:
  assumes "b \<noteq> ''-p''" and "files b = Some code" and "length code \<le> 510"
    and "skipto_sector k = None" and "files k = Some kern" and "1 + sectors (length kern) \<le> 1024"
    and "skipto_sector f = None" and "files f = Some fs"
  shows "emits (mkbootdisk files [p, b, k, ''@1024'', f]) 0 (boot_image code kern fs)"
proof -
  let ?n = "1 + sectors (length kern)"
  have "emits (write_args files [k, ''@1024'', f] 1) (1024 + sectors (length fs))
      (pad kern @ replicate (512 * (1024 - ?n)) 0 @ pad fs @ [])"
    unfolding write_args.simps
    by (intro emits_bind [OF emits_write_file [of k files kern]] emits_bind [OF emits_skip [OF skipto_1024 assms(6)]]
        emits_bind [OF emits_write_file [of f files fs]] emits_return assms)
  then have "emits (write_files files [k, ''@1024'', f] 1) 0 (pad kern @ replicate (512 * (1024 - ?n)) 0 @ pad fs)"
    using emits_write_files by fastforce
  then have "emits (io_bind (write_boot_sector files b) (\<lambda>_. write_files files [k, ''@1024'', f] 1)) 0 (boot_image code kern fs)"
    unfolding boot_image_def by (rule emits_bind [OF emits_boot_sector [of files b code, OF assms(2,3)]])
  moreover have "mkbootdisk files [p, b, k, ''@1024'', f] = io_bind (write_boot_sector files b) (\<lambda>_. write_files files [k, ''@1024'', f] 1)"
    using assms(1) by (simp add: mkbootdisk_def)
  ultimately show ?thesis by simp
qed

text \<open>Where the parts of the image are.\<close>

lemma boot_image_parts:
  assumes "length code \<le> 510" and "1 + sectors (length kern) \<le> 1024"
  shows "take 512 (boot_image code kern fs) = boot_sector code"
    and "i < length kern \<Longrightarrow> kernel_file (nth (boot_image code kern fs)) (of_nat i) = kern ! i"
    and "drop FILESYSTEM_DISK_OFFSET (boot_image code kern fs) = pad fs"
proof -
  let ?z = "replicate (512 * (1024 - (1 + sectors (length kern)))) 0 :: byte list"
  have l: "length (boot_sector code) = 512" using assms(1) by (simp add: boot_sector_def)
  then show "take 512 (boot_image code kern fs) = boot_sector code" by (simp add: boot_image_def)
  have k: "length kern \<le> 512 * sectors (length kern)" by (simp add: sectors_rest)
  show "kernel_file (nth (boot_image code kern fs)) (of_nat i) = kern ! i" if i: "i < length kern"
  proof -
    have "unat (of_nat i :: addr) = i" using i k assms(2) by (simp add: unat_of_nat)
    then show ?thesis using i k l by (simp add: kernel_file_def boot_image_def nth_append pad_def)
  qed
  have "length (boot_sector code @ pad kern @ ?z) = FILESYSTEM_DISK_OFFSET"
    using assms(2) l by (simp add: length_pad FILESYSTEM_DISK_OFFSET_def algebra_simps)
  then show "drop FILESYSTEM_DISK_OFFSET (boot_image code kern fs) = pad fs"
    unfolding boot_image_def by (metis append.assoc append_eq_conv_conj)
qed

section \<open>Properties\<close>

text \<open>
  C39: The boot disk. Called as in the Makefile, with a boot sector of at most 510 bytes and a kernel below sector 1024, and on a host
  whose writes are partial or interrupted but do not fail, \<open>mkbootdisk\<close> succeeds; the disk it writes starts
  with the code and the BIOS signature, has the kernel file where \<open>boot\<close> reads it and the file system image where the kernel mounts it.
\<close>

theorem mkbootdisk_image:
  assumes "b \<noteq> ''-p''" and "files b = Some code" and "length code \<le> 510"
    and "skipto_sector k = None" and "files k = Some kern" and "1 + sectors (length kern) \<le> 1024"
    and "skipto_sector f = None" and "files f = Some fs"
    and "writable_host h (length (boot_image code kern fs))" and "disk h = []"
  shows "\<exists>h'. mkbootdisk files [p, b, k, ''@1024'', f] h = (Ok 0, h') \<and>
    take 512 (disk h') = code @ replicate (510 - length code) 0 @ [0x55, 0xAA] \<and>
    (\<forall>i<length kern. kernel_file (nth (disk h')) (of_nat i) = kern ! i) \<and>
    take (length fs) (drop FILESYSTEM_DISK_OFFSET (disk h')) = fs \<and> length (disk h') = FILESYSTEM_DISK_OFFSET + 512 * sectors (length fs)"
proof -
  obtain h' where h': "mkbootdisk files [p, b, k, ''@1024'', f] h = (Ok 0, h')" "disk h' = boot_image code kern fs"
    using emits_boot_image [OF assms(1-8), of p] assms(9,10) unfolding emits_def by (metis add.right_neutral append_Nil)
  note parts = boot_image_parts [OF assms(3,6)]
  have "length (disk h') = FILESYSTEM_DISK_OFFSET + 512 * sectors (length fs)"
    using assms(3,6) by (simp add: h'(2) boot_image_def boot_sector_def length_pad FILESYSTEM_DISK_OFFSET_def algebra_simps)
  then show ?thesis using h' parts by (auto simp: boot_sector_def pad_def)
qed

theorem mkbootdisk_image_witness:
  "\<exists>h'. mkbootdisk [''boot'' \<mapsto> [0xEB, 0xFE], ''kernel'' \<mapsto> [0x7F, 0x45], ''fs'' \<mapsto> [7]] [''mkbootdisk'', ''boot'', ''kernel'', ''@1024'', ''fs'']
     \<lparr>disk = [], pos = 0, curoff = 0, maxoff = 0, writes = Interrupted # replicate 525000 (Wrote 100)\<rparr> = (Ok 0, h') \<and>
     kernel_file (nth (disk h')) 1 = 0x45 \<and> length (disk h') = 524800"
proof -
  let ?files = "[''boot'' \<mapsto> [0xEB, 0xFE], ''kernel'' \<mapsto> [0x7F, 0x45], ''fs'' \<mapsto> [7]] :: files"
  let ?h = "\<lparr>disk = [], pos = 0, curoff = 0, maxoff = 0, writes = Interrupted # replicate 525000 (Wrote 100)\<rparr>"
  have "writable_host ?h (length (boot_image [0xEB, 0xFE] [0x7F, 0x45] [7]))"
    by (simp add: writable_host_def progress_def boot_image_def boot_sector_def pad_def sectors_def)
  then obtain h' where "mkbootdisk ?files [''mkbootdisk'', ''boot'', ''kernel'', ''@1024'', ''fs''] ?h = (Ok 0, h')"
      "\<forall>i<2. kernel_file (nth (disk h')) (of_nat i) = [0x7F, 0x45] ! i" "length (disk h') = 524800"
    using mkbootdisk_image [of "''boot''" ?files "[0xEB, 0xFE]" "''kernel''" "[0x7F, 0x45]" "''fs''" "[7]" ?h "''mkbootdisk''"]
    by (auto simp: skipto_sector_def sectors_def FILESYSTEM_DISK_OFFSET_def)
  then show ?thesis by (intro exI [of _ h']) (auto dest: spec [of _ 1])
qed

end
