(* ===== verification/User_Library.thy ===== *)
theory User_Library
  imports Syscalls Printing
begin

unbundle bit_operations_syntax

text \<open>
  The library of the user processes: the system call wrappers of \<^verbatim>\<open>lib/process.h\<close>, the functions of \<^verbatim>\<open>lib/process.c\<close> and the
  allocator of \<^verbatim>\<open>lib/lib-malloc.c\<close>. A process is seen from the inside: its memory, its static variables, the shared console and
  the rest of the world. The instruction \<open>int n\<close> is a parameter \<open>int_n\<close> of every function that uses it:
  with the registers rdi, rsi and rdx it acts on the process and the world and returns the register rax.
\<close>

section \<open>Processes from the inside\<close>

record 'w user =
  u_mem :: mem
  u_mapped :: "addr \<Rightarrow> bool"
  u_heap_top :: addr
  u_page_top :: addr
  u_cursorpos :: int
  u_console :: cells
  u_rand :: rand_state
  world :: 'w

type_synonym 'w int_n = "uint64 \<Rightarrow> uint64 \<Rightarrow> uint64 \<Rightarrow> uint64 \<Rightarrow> ('w user, uint64) io"

definition u_get :: "('w user \<Rightarrow> 'a) \<Rightarrow> ('w user, 'a) io" where
  "u_get f = (\<lambda>s. (Ok (f s), s))"

definition u_put :: "('w user \<Rightarrow> 'w user) \<Rightarrow> ('w user, unit) io" where
  "u_put f = (\<lambda>s. (Ok (), f s))"

text \<open>An access outside the mapped pages ends the process. The pages of a process are accessible for reading and writing alike.\<close>

definition u_load :: "addr \<Rightarrow> ('w user, byte) io" where
  "u_load a = (\<lambda>s. if u_mapped s a then (Ok (u_mem s a), s) else (Stuck, s))"

definition u_store :: "addr \<Rightarrow> byte \<Rightarrow> ('w user, unit) io" where
  "u_store a b = (\<lambda>s. if u_mapped s a then (Ok (), s\<lparr>u_mem := (u_mem s)(a := b)\<rparr>) else (Stuck, s))"

definition mapped_range :: "'w user \<Rightarrow> addr \<Rightarrow> nat \<Rightarrow> bool" where
  "mapped_range s a n \<longleftrightarrow> (\<forall>i<n. u_mapped s (a + of_nat i))"

definition u_load64 :: "addr \<Rightarrow> ('w user, uint64) io" where
  "u_load64 a = (\<lambda>s. if mapped_range s a 8 then (Ok (load64 (u_mem s) a), s) else (Stuck, s))"

definition u_store64 :: "addr \<Rightarrow> uint64 \<Rightarrow> ('w user, unit) io" where
  "u_store64 a v = (\<lambda>s. if mapped_range s a 8 then (Ok (), s\<lparr>u_mem := store64 a v (u_mem s)\<rparr>) else (Stuck, s))"

text \<open>
  The bytes from an address on up to the first zero, as the library functions on strings read them. The address space
  of a process ends at \<open>MEMSIZE_VIRTUAL\<close>, which bounds the number of bytes.
\<close>

primrec string_bytes :: "nat \<Rightarrow> 'w user \<Rightarrow> addr \<Rightarrow> byte list" where
  "string_bytes 0 s a = []"
| "string_bytes (Suc n) s a =
     (if u_mapped s a then u_mem s a # (if u_mem s a = 0 then [] else string_bytes n s (a + 1)) else [])"

definition u_string :: "addr \<Rightarrow> ('w user, byte list) io" where
  "u_string a = u_get (\<lambda>s. string_bytes (unat MEMSIZE_VIRTUAL) s a)"

text \<open>Loops that may not end: \<open>None\<close> is a loop that runs for ever.\<close>

definition u_loop :: "('w user \<Rightarrow> ('a outcome \<times> 'w user) option) \<Rightarrow> ('w user, 'a) io" where
  "u_loop f = (\<lambda>s. case f s of None \<Rightarrow> (Stuck, s) | Some r \<Rightarrow> r)"

section \<open>System calls\<close>

text \<open>A result of C type \<open>int\<close> is the low half of rax. The registers that a wrapper does not set are passed as 0.\<close>

definition int_result :: "('w user, uint64) io \<Rightarrow> ('w user, int) io" where
  "int_result m = io_bind m (\<lambda>rax. io_return (sint (ucast rax :: uint32)))"

definition ssize_result :: "('w user, uint64) io \<Rightarrow> ('w user, int) io" where
  "ssize_result m = io_bind m (\<lambda>rax. io_return (sint rax))"

definition no_result :: "('w user, uint64) io \<Rightarrow> ('w user, unit) io" where
  "no_result m = io_bind m (\<lambda>_. io_return ())"

definition usys_chdir :: "'w int_n \<Rightarrow> addr \<Rightarrow> ('w user, int) io" where
  "usys_chdir int_n path = int_result (int_n INT_SYS_CHDIR path 0 0)"

definition usys_execv :: "'w int_n \<Rightarrow> addr \<Rightarrow> addr \<Rightarrow> ('w user, int) io" where
  "usys_execv int_n path argv = int_result (int_n INT_SYS_EXECV path argv 0)"

definition usys_getpid :: "'w int_n \<Rightarrow> ('w user, int) io" where
  "usys_getpid int_n = int_result (int_n INT_SYS_GETPID 0 0 0)"

definition usys_hello :: "'w int_n \<Rightarrow> ('w user, unit) io" where
  "usys_hello int_n = no_result (int_n INT_SYS_HELLO 0 0 0)"

definition usys_open :: "'w int_n \<Rightarrow> addr \<Rightarrow> ('w user, int) io" where
  "usys_open int_n pathname = int_result (int_n INT_SYS_OPEN pathname 0 0)"

definition usys_remove :: "'w int_n \<Rightarrow> addr \<Rightarrow> ('w user, int) io" where
  "usys_remove int_n pathname = int_result (int_n INT_SYS_REMOVE pathname 0 0)"

definition usys_keybord :: "'w int_n \<Rightarrow> ('w user, int) io" where
  "usys_keybord int_n = int_result (int_n INT_SYS_KEYBORD 0 0 0)"

definition usys_kill :: "'w int_n \<Rightarrow> int \<Rightarrow> int \<Rightarrow> ('w user, int) io" where
  "usys_kill int_n pid sig = int_result (int_n INT_SYS_KILL (of_int pid) (of_int sig) 0)"

definition usys_read :: "'w int_n \<Rightarrow> int \<Rightarrow> addr \<Rightarrow> uint64 \<Rightarrow> ('w user, int) io" where
  "usys_read int_n fd buf count = ssize_result (int_n INT_SYS_READ (of_int fd) buf count)"

definition usys_write :: "'w int_n \<Rightarrow> int \<Rightarrow> addr \<Rightarrow> uint64 \<Rightarrow> ('w user, int) io" where
  "usys_write int_n fd buf count = ssize_result (int_n INT_SYS_WRITE (of_int fd) buf count)"

definition usys_mkdir :: "'w int_n \<Rightarrow> addr \<Rightarrow> ('w user, int) io" where
  "usys_mkdir int_n path = int_result (int_n INT_SYS_MKDIR path 0 0)"

definition usys_touch :: "'w int_n \<Rightarrow> addr \<Rightarrow> ('w user, int) io" where
  "usys_touch int_n path = int_result (int_n INT_SYS_TOUCH path 0 0)"

definition usys_listdir :: "'w int_n \<Rightarrow> addr \<Rightarrow> addr \<Rightarrow> ('w user, int) io" where
  "usys_listdir int_n path buffer = int_result (int_n INT_SYS_LISTDIR path buffer 0)"

definition usys_wait :: "'w int_n \<Rightarrow> int \<Rightarrow> addr \<Rightarrow> ('w user, int) io" where
  "usys_wait int_n pid exit_code = int_result (int_n INT_SYS_WAIT (of_int pid) exit_code 0)"

definition usys_forget :: "'w int_n \<Rightarrow> int \<Rightarrow> ('w user, int) io" where
  "usys_forget int_n pid = int_result (int_n INT_SYS_FORGET (of_int pid) 0 0)"

definition usys_getcwd :: "'w int_n \<Rightarrow> addr \<Rightarrow> uint64 \<Rightarrow> ('w user, int) io" where
  "usys_getcwd int_n buffer sz = int_result (int_n INT_SYS_GETCWD buffer sz 0)"

definition usys_yield :: "'w int_n \<Rightarrow> ('w user, unit) io" where
  "usys_yield int_n = no_result (int_n INT_SYS_SCHED_YIELD 0 0 0)"

definition usys_getrandom :: "'w int_n \<Rightarrow> ('w user, uint32) io" where
  "usys_getrandom int_n = io_bind (int_n INT_SYS_GETRANDOM 0 0 0) (\<lambda>rax. io_return (ucast rax))"

definition usys_page_alloc :: "'w int_n \<Rightarrow> addr \<Rightarrow> ('w user, int) io" where
  "usys_page_alloc int_n a = int_result (int_n INT_SYS_PAGE_ALLOC a 0 0)"

definition usys_fork :: "'w int_n \<Rightarrow> ('w user, int) io" where
  "usys_fork int_n = int_result (int_n INT_SYS_FORK 0 0 0)"

text \<open>\<open>Err code\<close> is the end of the process with this exit code.\<close>

definition usys_exit :: "'w int_n \<Rightarrow> int \<Rightarrow> ('w user, 'a) io" where
  "usys_exit int_n exit_code = io_bind (int_n INT_SYS_EXIT (of_int exit_code) 0 0) (\<lambda>_. io_fail exit_code)"

definition INT_SYS_PANIC :: uint64 where "INT_SYS_PANIC = SYSCALL (- 1)"

definition usys_panic :: "'w int_n \<Rightarrow> addr \<Rightarrow> ('w user, 'a) io" where
  "usys_panic int_n msg = io_bind (int_n INT_SYS_PANIC msg 0 0) (\<lambda>_. io_stuck)"

section \<open>Output\<close>

definition app_color :: "int \<Rightarrow> uint32" where
  "app_color colorid =
     (if colorid < 0 then 0x0700
      else push_bit 8 ([0x0F, 0x0C, 0x0A, 0x09, 0x0E] ! nat (colorid mod 5)))"

definition app_printf :: "int \<Rightarrow> string \<Rightarrow> va list \<Rightarrow> ('w user, unit) io" where
  "app_printf colorid format val =
     io_bind (u_get (\<lambda>s. console_vprintf (u_cursorpos s) (app_color colorid) (string_literal format) val (u_console s))) (\<lambda>r.
     io_bind (io_some r) (\<lambda>(cur, cells).
     u_put (\<lambda>s. s\<lparr>u_cursorpos := int cur, u_console := cells\<rparr>)))"

definition print_at :: "nat \<Rightarrow> uint32 \<Rightarrow> string \<Rightarrow> va list \<Rightarrow> ('w user, unit) io" where
  "print_at cpos color format val =
     io_bind (u_get (\<lambda>s. console_printf (int cpos) color (string_literal format) val (u_console s))) (\<lambda>r.
     io_bind (io_some r) (\<lambda>(cur, cells). u_put (\<lambda>s. s\<lparr>u_console := cells\<rparr>)))"

text \<open>\<open>panic\<close> formats its message into a local buffer of 160 bytes.\<close>

definition panic_message :: "string \<Rightarrow> va list \<Rightarrow> byte list option" where
  "panic_message format val =
     Option.bind (vsnprintf (replicate 153 0) 153 (string_literal format) val) (\<lambda>(n, text).
     let buf = map of_char ''PANIC: '' @ text; len = n + 7
     in if buf ! (len - 1) \<noteq> 10
        then map_option (\<lambda>t. take (len - of_bool (len = 159)) buf @ t) (strcpy (drop (len - of_bool (len = 159)) buf) [10, 0])
        else Some buf)"

definition panic :: "'w int_n \<Rightarrow> string \<Rightarrow> va list \<Rightarrow> ('w user, 'a) io" where
  "panic int_n format val =
     io_bind (io_some (panic_message format val)) (\<lambda>buf.
     io_bind (print_at (CPOS 23 0) 0xC000 ''%s'' [VStr buf]) (\<lambda>_.
     usys_panic int_n 0))"

definition SIGABRT :: int where "SIGABRT = - 1"

definition raise :: "'w int_n \<Rightarrow> int \<Rightarrow> ('w user, int) io" where
  "raise int_n sig = io_bind (usys_getpid int_n) (\<lambda>pid. usys_kill int_n pid sig)"

definition abort :: "'w int_n \<Rightarrow> ('w user, 'a) io" where
  "abort int_n = io_bind (raise int_n SIGABRT) (\<lambda>_. io_stuck)"

definition assert_fail :: "'w int_n \<Rightarrow> string \<Rightarrow> int \<Rightarrow> string \<Rightarrow> ('w user, 'a) io" where
  "assert_fail int_n file line msg =
     io_bind (print_at (CPOS 23 0) 0xC000 ''PANIC: %s:%d: assertion '%s' failed\<newline>''
                [VStr (string_literal file), VInt (of_int line), VStr (string_literal msg)]) (\<lambda>_.
     abort int_n)"

definition u_assert :: "'w int_n \<Rightarrow> string \<Rightarrow> int \<Rightarrow> string \<Rightarrow> bool \<Rightarrow> ('w user, unit) io" where
  "u_assert int_n file line msg b = (if b then io_return () else assert_fail int_n file line msg)"

definition app_print_error :: "int \<Rightarrow> ('w user, unit) io" where
  "app_print_error r =
     (let msg = (if r = ENOENT then Some ''No such file or directory''
                 else if r = EIO then Some ''I/O error''
                 else if r = ENOTDIR then Some ''Not a directory''
                 else if r = EINVAL then Some ''Invalid argument''
                 else if r = ENOSPC then Some ''No space left on device''
                 else if r = EEXIST then Some ''File already exists''
                 else if r = ENAMETOOLONG then Some ''File name too long'' else None)
      in case msg of
           Some m \<Rightarrow> app_printf 1 ''Error: %s\<newline>'' [VStr (string_literal m)]
         | None \<Rightarrow> app_printf 1 ''Error %d: %s\<newline>'' [VInt (of_int r), VStr (string_literal ''Unknown error'')])"

definition handle_error :: "'w int_n \<Rightarrow> int \<Rightarrow> ('w user, 'a) io" where
  "handle_error int_n r = io_bind (app_print_error r) (\<lambda>_. usys_exit int_n r)"

section \<open>Input\<close>

definition poll_key :: "'w int_n \<Rightarrow> ('w user, int) io" where
  "poll_key int_n = io_bind (usys_keybord int_n) (\<lambda>c. io_bind (usys_yield int_n) (\<lambda>_. io_return c))"

partial_function (option) scan_char_loop :: "'w int_n \<Rightarrow> 'w user \<Rightarrow> (byte outcome \<times> 'w user) option" where
  "scan_char_loop int_n s =
     (case poll_key int_n s of
        (Ok c, s) \<Rightarrow> if c = - 1 then scan_char_loop int_n s else Some (Ok (of_int c), s)
      | (Err e, s) \<Rightarrow> Some (Err e, s)
      | (Stuck, s) \<Rightarrow> Some (Stuck, s))"

definition scan_char :: "'w int_n \<Rightarrow> ('w user, byte) io" where
  "scan_char int_n = u_loop (scan_char_loop int_n)"

text \<open>One iteration of the loop of \<open>scan_line\<close>: the new length, or the result.\<close>

definition scan_step :: "'w int_n \<Rightarrow> addr \<Rightarrow> uint32 \<Rightarrow> uint32 \<Rightarrow> ('w user, uint32 + uint32) io" where
  "scan_step int_n dst length_max len =
     io_bind (scan_char int_n) (\<lambda>c.
     if c = 8
     then if len \<noteq> 0 then io_bind (app_printf 0 ''%c'' [VInt (ucast c)]) (\<lambda>_. io_return (Inl (len - 1)))
          else io_return (Inl len)
     else if c = 10
     then io_bind (app_printf 0 ''%c'' [VInt (ucast c)]) (\<lambda>_.
          io_bind (u_store (dst + ucast len) 0) (\<lambda>_.
          io_return (Inr len)))
     else if 32 \<le> c \<and> c \<le> 127
     then if len < length_max
          then io_bind (app_printf 0 ''%c'' [VInt (ucast c)]) (\<lambda>_.
               io_bind (u_store (dst + ucast len) c) (\<lambda>_.
               io_return (Inl (len + 1))))
          else io_return (Inl len)
     else io_return (Inl len))"

partial_function (option) scan_line_loop ::
  "'w int_n \<Rightarrow> addr \<Rightarrow> uint32 \<Rightarrow> uint32 \<Rightarrow> 'w user \<Rightarrow> (uint32 outcome \<times> 'w user) option" where
  "scan_line_loop int_n dst length_max len s =
     (case scan_step int_n dst length_max len s of
        (Ok (Inl len), s) \<Rightarrow> scan_line_loop int_n dst length_max len s
      | (Ok (Inr len), s) \<Rightarrow> Some (Ok len, s)
      | (Err e, s) \<Rightarrow> Some (Err e, s)
      | (Stuck, s) \<Rightarrow> Some (Stuck, s))"

definition scan_line :: "'w int_n \<Rightarrow> addr \<Rightarrow> uint32 \<Rightarrow> ('w user, uint32) io" where
  "scan_line int_n dst length_max = u_loop (scan_line_loop int_n dst length_max 0)"

section \<open>Memory\<close>

definition ROUNDDOWN :: "uint64 \<Rightarrow> uint64 \<Rightarrow> uint64" where
  "ROUNDDOWN a n = a - a mod n"

partial_function (option) malloc_loop :: "'w int_n \<Rightarrow> uint64 \<Rightarrow> 'w user \<Rightarrow> (unit outcome \<times> 'w user) option" where
  "malloc_loop int_n sz s =
     (if ROUNDDOWN (u_heap_top s + sz) (of_nat PAGESIZE) \<ge> u_page_top s
      then case (io_bind (usys_page_alloc int_n (u_page_top s)) (\<lambda>r.
                 io_bind (u_assert int_n ''lib/lib-malloc.c'' 10 ''r >= 0'' (r \<ge> 0)) (\<lambda>_.
                 u_put (\<lambda>s. s\<lparr>u_page_top := u_page_top s + of_nat PAGESIZE\<rparr>)))) s of
             (Ok _, s) \<Rightarrow> malloc_loop int_n sz s
           | (Err e, s) \<Rightarrow> Some (Err e, s)
           | (Stuck, s) \<Rightarrow> Some (Stuck, s)
      else Some (Ok (), s))"

definition u_malloc :: "'w int_n \<Rightarrow> uint64 \<Rightarrow> ('w user, addr) io" where
  "u_malloc int_n sz =
     io_bind (u_loop (malloc_loop int_n sz)) (\<lambda>_.
     io_bind (u_get u_heap_top) (\<lambda>a.
     io_bind (u_put (\<lambda>s. s\<lparr>u_heap_top := u_heap_top s + sz\<rparr>)) (\<lambda>_.
     io_return a)))"

text \<open>\<open>split_string\<close>: the first loop returns the number of separators plus one and the length of the string.\<close>

primrec count_parts :: "nat \<Rightarrow> addr \<Rightarrow> byte \<Rightarrow> nat \<Rightarrow> nat \<Rightarrow> ('w user, nat \<times> nat) io" where
  "count_parts 0 str sep s n = io_stuck"
| "count_parts (Suc k) str sep s n =
     io_bind (u_load (str + of_nat n)) (\<lambda>c.
     if c \<noteq> 0 then count_parts k str sep (if c = sep then s + 1 else s) (n + 1) else io_return (s, n))"

text \<open>The second loop, from index \<open>i\<close> on with \<open>k\<close> iterations left.\<close>

primrec split_loop :: "nat \<Rightarrow> addr \<Rightarrow> byte \<Rightarrow> addr \<Rightarrow> addr \<Rightarrow> nat \<Rightarrow> nat \<Rightarrow> ('w user, unit) io" where
  "split_loop 0 str sep part buffer i word_n = io_return ()"
| "split_loop (Suc k) str sep part buffer i word_n =
     io_bind (u_load (str + of_nat i)) (\<lambda>c.
     if c = sep
     then io_bind (u_store (buffer + of_nat i) 0) (\<lambda>_.
          io_bind (u_store64 (part + 8 * of_nat (word_n + 1)) (buffer + of_nat (i + 1))) (\<lambda>_.
          split_loop k str sep part buffer (i + 1) (word_n + 1)))
     else io_bind (u_store (buffer + of_nat i) c) (\<lambda>_.
          split_loop k str sep part buffer (i + 1) word_n))"

definition split_string :: "'w int_n \<Rightarrow> addr \<Rightarrow> byte \<Rightarrow> ('w user, addr) io" where
  "split_string int_n str sep =
     io_bind (count_parts (unat MEMSIZE_VIRTUAL) str sep 1 0) (\<lambda>(s, n).
     io_bind (u_malloc int_n (of_nat ((s + 1) * 8))) (\<lambda>part.
     io_bind (u_malloc int_n (of_nat (n + 1))) (\<lambda>buffer.
     io_bind (u_store64 part buffer) (\<lambda>_.
     io_bind (u_store64 (part + 8 * of_nat s) 0) (\<lambda>_.
     io_bind (u_store (buffer + of_nat n) 0) (\<lambda>_.
     io_bind (split_loop n str sep part buffer 0 0) (\<lambda>_.
     io_return part)))))))"

end
