(* ===== verification/User_Library_Correct.thy ===== *)
theory User_Library_Correct
  imports User_Library
begin

text \<open>
  The library of the processes does what its users rely on: a line is read with editing and without overrunning its buffer,
  and a string is split into its fields in freshly allocated memory.
\<close>

section \<open>The screen\<close>

definition screen_ok :: "'w user \<Rightarrow> bool" where
  "screen_ok s \<longleftrightarrow> 0 \<le> u_cursorpos s \<and> u_cursorpos s < 23 * 80 \<and> length (u_console s) = CONSOLE_ROWS * CONSOLE_COLUMNS"

lemma parse_flags_plain: "parse_flags 0 [99] = (0, [99])"
  by (simp add: flag_chars_def)

lemma convert_char: "\<exists>out. convert_spec color [99] [VInt v] = Some (out, color, [], [])"
  by (simp add: convert_spec_def parse_flags_plain parse_width_def parse_precision_def convert_def field_def
      layout_def new_color_def del: parse_flags.simps)

lemma formatted_char: "\<exists>out. formatted color (string_literal ''%c'') [VInt v] = Some out"
  using convert_char [of color v]
  by (auto simp: formatted_def printer_vprintf_def string_literal_def emit_record)

lemma app_printf_safe:
  assumes "screen_ok s" and "formatted (app_color i) (string_literal f) val = Some out"
  obtains cur cells where "app_printf i f val s = (Ok (), s\<lparr>u_cursorpos := int cur, u_console := cells\<rparr>)"
    and "screen_ok (s\<lparr>u_cursorpos := int cur, u_console := cells\<rparr>)"
    and "putc_all console_putc out (nat (u_cursorpos s), u_console s) = Some (cur, cells)"
proof -
  have "in_text_area (drop (23 * 80) (u_console s)) (nat (u_cursorpos s), u_console s)"
    using assms by (auto simp: in_text_area_def console_dims screen_ok_def)
  from console.vprintf_safe [OF this assms(2)] obtain cur cells where
    "printer_vprintf console_putc (nat (u_cursorpos s), u_console s) (app_color i) (string_literal f) val = Some (cur, cells)"
    "in_text_area (drop (23 * 80) (u_console s)) (cur, cells)" by auto
  moreover from this(1) have "putc_all console_putc out (nat (u_cursorpos s), u_console s) = Some (cur, cells)"
    using assms(2) by (simp add: printer_vprintf_formatted)
  ultimately show ?thesis
    using assms(1) by (intro that)
      (auto simp: app_printf_def u_get_def u_put_def io_bind_def console_vprintf_def in_text_area_def console_dims screen_ok_def)
qed

section \<open>Typing\<close>

text \<open>
  What a process relies on when it waits for keys: with keys \<open>keys w\<close> to come in world \<open>w\<close>, the keyboard system call returns the
  next one or \<open>- 1\<close>, the latter at most \<open>wait w\<close> times in a row; and \<open>INT_SYS_SCHED_YIELD\<close> comes back. Both leave the process alone.
\<close>

definition typing :: "'w int_n \<Rightarrow> ('w \<Rightarrow> byte list) \<Rightarrow> ('w \<Rightarrow> nat) \<Rightarrow> bool" where
  "typing int_n keys wait \<longleftrightarrow>
     (\<forall>s. keys (world s) \<noteq> [] \<longrightarrow> (\<exists>rax w. int_n INT_SYS_KEYBORD 0 0 0 s = (Ok rax, s\<lparr>world := w\<rparr>) \<and>
       (rax = - 1 \<and> keys w = keys (world s) \<and> wait w < wait (world s) \<or>
        rax = ucast (hd (keys (world s))) \<and> keys w = tl (keys (world s))))) \<and>
     (\<forall>s. \<exists>rax w. int_n INT_SYS_SCHED_YIELD 0 0 0 s = (Ok rax, s\<lparr>world := w\<rparr>) \<and>
       keys w = keys (world s) \<and> wait w \<le> wait (world s))"

lemma sint_char: "sint (ucast (ucast c :: uint64) :: uint32) = uint c" for c :: byte
proof -
  have "uint (ucast (ucast c :: uint64) :: uint32) = uint c" by transfer (simp add: take_bit_take_bit)
  moreover have "uint c < 2 ^ 8" using uint_lt2p [of c] by simp
  moreover have "- (2 ^ 31) \<le> uint c" by (rule order_trans [OF _ uint_ge_0]) simp
  ultimately show ?thesis by (simp add: sint_uint signed_take_bit_int_eq_self_iff)
qed

lemma poll_key_typing:
  assumes "typing int_n keys wait" and "keys (world s) = c # cs"
  obtains w where "poll_key int_n s = (Ok (- 1), s\<lparr>world := w\<rparr>)" and "keys w = c # cs" and "wait w < wait (world s)"
  | w where "poll_key int_n s = (Ok (uint c), s\<lparr>world := w\<rparr>)" and "keys w = cs"
proof -
  obtain rax w where k: "int_n INT_SYS_KEYBORD 0 0 0 s = (Ok rax, s\<lparr>world := w\<rparr>)"
      "rax = - 1 \<and> keys w = c # cs \<and> wait w < wait (world s) \<or> rax = ucast c \<and> keys w = cs"
    using assms unfolding typing_def by (metis list.distinct(1) list.sel(1,3))
  obtain r w' where y: "int_n INT_SYS_SCHED_YIELD 0 0 0 (s\<lparr>world := w\<rparr>) = (Ok r, s\<lparr>world := w'\<rparr>)"
      "keys w' = keys w" "wait w' \<le> wait w"
    using assms(1) [unfolded typing_def, THEN conjunct2, THEN spec, of "s\<lparr>world := w\<rparr>"] by auto
  have "poll_key int_n s = (Ok (sint (ucast rax :: uint32)), s\<lparr>world := w'\<rparr>)"
    using k(1) y(1) by (simp add: poll_key_def usys_keybord_def usys_yield_def int_result_def no_result_def io_bind_def)
  moreover have "sint (ucast (- 1 :: uint64) :: uint32) = - 1" by code_simp
  moreover have "sint (ucast (ucast c :: uint64) :: uint32) = uint c" by (rule sint_char)
  ultimately show ?thesis using k(2) y(2,3) that by auto
qed

lemma scan_char_typing:
  assumes "typing int_n keys wait" and "keys (world s) = c # cs"
  shows "\<exists>w. scan_char int_n s = (Ok c, s\<lparr>world := w\<rparr>) \<and> keys w = cs"
proof -
  have "\<exists>w. scan_char_loop int_n s = Some (Ok c, s\<lparr>world := w\<rparr>) \<and> keys w = cs"
    using assms(2)
  proof (induction "wait (world s)" arbitrary: s rule: less_induct)
    case less
    from poll_key_typing [OF assms(1) less.prems] show ?case
    proof cases
      case (1 w)
      then show ?thesis using less.hyps [of "s\<lparr>world := w\<rparr>"] by (subst scan_char_loop.simps) auto
    next
      case (2 w)
      have "uint c \<noteq> - 1" using uint_ge_0 [of c] by linarith
      then show ?thesis using 2 by (subst scan_char_loop.simps) auto
    qed
  qed
  then show ?thesis by (auto simp: scan_char_def u_loop_def)
qed

text \<open>The editing of a line: backspace removes the last character, others are ignored when the line is full.\<close>

definition edit :: "nat \<Rightarrow> byte list \<Rightarrow> byte \<Rightarrow> byte list" where
  "edit n l c = (if c = 8 then butlast l else if 32 \<le> c \<and> c \<le> 127 \<and> length l < n then l @ [c] else l)"

lemma length_edit: "length l \<le> n \<Longrightarrow> length (edit n l c) \<le> n"
  by (auto simp: edit_def)

lemma length_foldl_edit: "length l \<le> n \<Longrightarrow> length (foldl (edit n) l ks) \<le> n"
  by (induction ks arbitrary: l) (simp_all add: length_edit)

text \<open>The state in which \<open>l\<close> has been read into the buffer at \<open>dst\<close> of \<open>n + 1\<close> bytes.\<close>

definition line_ok :: "addr \<Rightarrow> nat \<Rightarrow> byte list \<Rightarrow> 'w user \<Rightarrow> bool" where
  "line_ok dst n l s \<longleftrightarrow> screen_ok s \<and> mapped_range s dst (n + 1) \<and> length l \<le> n \<and> load_bytes (u_mem s) dst (length l) = l"

definition same_outside :: "addr \<Rightarrow> nat \<Rightarrow> 'w user \<Rightarrow> 'w user \<Rightarrow> bool" where
  "same_outside dst n s s' \<longleftrightarrow> (\<forall>a. a \<notin> rgn dst n \<longrightarrow> u_mem s' a = u_mem s a)"

lemma print_char:
  assumes "screen_ok s"
  obtains cur cells where "app_printf i ''%c'' [VInt v] s = (Ok (), s\<lparr>u_cursorpos := int cur, u_console := cells\<rparr>)"
    and "screen_ok (s\<lparr>u_cursorpos := int cur, u_console := cells\<rparr>)"
  using app_printf_safe [OF assms] formatted_char by metis

lemma load_bytes_upd_next: "n < 2 ^ 64 \<Longrightarrow> load_bytes (m(a + of_nat n := c)) a n = load_bytes m a n"
  by (rule load_bytes_cong) (auto simp: rgn_def unat_of_nat)

lemma load_bytes_butlast: "load_bytes m a (length l) = l \<Longrightarrow> load_bytes m a (length (butlast l)) = butlast l"
  by (cases l rule: rev_cases) (simp_all add: load_bytes_snoc)

lemma ucast_len: "n < 2 ^ 32 \<Longrightarrow> (ucast (of_nat n :: uint32) :: addr) = of_nat n"
  by transfer (simp add: take_bit_int_eq_self)

lemma scan_step_key:
  fixes dst :: addr and m :: uint32
  assumes t: "typing int_n keys wait" and k: "keys (world s) = c # cs" and c: "c \<noteq> 10" and l: "line_ok dst (unat m) l s"
  shows "\<exists>s'. scan_step int_n dst m (of_nat (length l)) s = (Ok (Inl (of_nat (length (edit (unat m) l c)))), s') \<and>
    keys (world s') = cs \<and> line_ok dst (unat m) (edit (unat m) l c) s' \<and> same_outside dst (unat m + 1) s s'"
proof -
  obtain w where w: "scan_char int_n s = (Ok c, s\<lparr>world := w\<rparr>)" "keys w = cs" using scan_char_typing [OF t k] by blast
  let ?s = "s\<lparr>world := w\<rparr>"
  have ml: "length l \<le> unat m" "unat m < 2 ^ 32" using l unsigned_less [where 'a = nat, of m] by (auto simp: line_ok_def)
  then have n: "unat (of_nat (length l) :: uint32) = length l" by (simp add: unat_of_nat)
  have s: "screen_ok ?s" "line_ok dst (unat m) l ?s" using l by (simp_all add: line_ok_def screen_ok_def mapped_range_def)
  from print_char [OF s(1), of 0 "ucast c"] obtain cur cells where
    p: "app_printf 0 ''%c'' [VInt (ucast c)] ?s = (Ok (), ?s\<lparr>u_cursorpos := int cur, u_console := cells\<rparr>)"
      "screen_ok (?s\<lparr>u_cursorpos := int cur, u_console := cells\<rparr>)" .
  let ?t = "?s\<lparr>u_cursorpos := int cur, u_console := cells\<rparr>"
  consider "c = 8" "l = []" | "c = 8" "l \<noteq> []" | "c \<noteq> 8" "32 \<le> c \<and> c \<le> 127" "length l < unat m"
    | "c \<noteq> 8" "\<not> (32 \<le> c \<and> c \<le> 127 \<and> length l < unat m)" by auto
  then show ?thesis
  proof cases
    case 1
    then show ?thesis using w s c by (auto simp: scan_step_def io_bind_def edit_def same_outside_def)
  next
    case 2
    then have "(of_nat (length l) :: uint32) \<noteq> 0" using n by (metis length_0_conv unat_0)
    moreover have "(of_nat (length l) :: uint32) - 1 = of_nat (length l - 1)" using 2(2) by (cases l) simp_all
    moreover have "line_ok dst (unat m) (butlast l) ?t"
      using l p(2) load_bytes_butlast by (auto simp: line_ok_def mapped_range_def)
    ultimately show ?thesis using 2 w p(1) by (auto simp: scan_step_def io_bind_def edit_def same_outside_def)
  next
    case 3
    let ?a = "dst + of_nat (length l)"
    let ?u = "?t\<lparr>u_mem := (u_mem s)(?a := c)\<rparr>"
    have a: "dst + ucast (of_nat (length l) :: uint32) = ?a" using ml by (simp add: ucast_len)
    have "load_bytes (u_mem ?u) dst (length (l @ [c])) = l @ [c]"
      using l ml by (simp add: load_bytes_snoc load_bytes_upd_next line_ok_def)
    then have "line_ok dst (unat m) (l @ [c]) ?u"
      using l p(2) 3(3) by (auto simp: line_ok_def mapped_range_def screen_ok_def)
    moreover have "u_mapped ?t ?a" using l 3(3) by (simp add: line_ok_def mapped_range_def)
    moreover have "(of_nat (length l) :: uint32) < m" using n 3(3) by (simp add: word_less_nat_alt)
    moreover have "same_outside dst (unat m + 1) s ?u"
      using in_rgn_offset [of "length l" "unat m + 1" dst] ml 3(3) by (auto simp: same_outside_def)
    ultimately show ?thesis
      using 3 w p(1) c a by (auto simp: scan_step_def io_bind_def edit_def u_store_def add.commute)
  next
    case 4
    have "\<not> (of_nat (length l) :: uint32) < m" if "32 \<le> c \<and> c \<le> 127" using 4 n that by (simp add: word_less_nat_alt)
    then show ?thesis using 4 w s c by (auto simp: scan_step_def io_bind_def edit_def same_outside_def)
  qed
qed

lemma scan_step_newline:
  assumes t: "typing int_n keys wait" and k: "keys (world s) = 10 # cs" and l: "line_ok dst (unat m) l s"
  shows "\<exists>s'. scan_step int_n dst m (of_nat (length l)) s = (Ok (Inr (of_nat (length l))), s') \<and> keys (world s') = cs \<and>
    screen_ok s' \<and> load_bytes (u_mem s') dst (length l + 1) = l @ [0] \<and> same_outside dst (unat m + 1) s s'"
proof -
  obtain w where w: "scan_char int_n s = (Ok 10, s\<lparr>world := w\<rparr>)" "keys w = cs" using scan_char_typing [OF t k] by blast
  have ml: "length l \<le> unat m" "unat m < 2 ^ 32" using l unsigned_less [where 'a = nat, of m] by (auto simp: line_ok_def)
  have "screen_ok (s\<lparr>world := w\<rparr>)" using l by (simp add: line_ok_def screen_ok_def)
  from print_char [OF this, of 0 10] obtain cur cells where
    p: "app_printf 0 ''%c'' [VInt 10] (s\<lparr>world := w\<rparr>) = (Ok (), s\<lparr>world := w\<rparr>\<lparr>u_cursorpos := int cur, u_console := cells\<rparr>)"
      "screen_ok (s\<lparr>world := w\<rparr>\<lparr>u_cursorpos := int cur, u_console := cells\<rparr>)" .
  let ?a = "dst + of_nat (length l)"
  let ?t = "s\<lparr>world := w\<rparr>\<lparr>u_cursorpos := int cur, u_console := cells\<rparr>" and ?m = "(u_mem s)(?a := 0)"
  have a: "(ucast (of_nat (length l) :: uint32) :: addr) = of_nat (length l)" using ml by (simp add: ucast_len)
  have "u_mapped ?t ?a" using l by (simp add: line_ok_def mapped_range_def)
  then have "scan_step int_n dst m (of_nat (length l)) s = (Ok (Inr (of_nat (length l))), ?t\<lparr>u_mem := ?m\<rparr>)"
    using w p(1) by (simp add: scan_step_def io_bind_def u_store_def a)
  moreover have "load_bytes ?m dst (length l + 1) = l @ [0]"
    using l ml by (simp add: load_bytes_snoc load_bytes_upd_next line_ok_def)
  moreover have "same_outside dst (unat m + 1) s (?t\<lparr>u_mem := ?m\<rparr>)"
    using in_rgn_offset [of "length l" "unat m + 1" dst] ml by (auto simp: same_outside_def)
  moreover have "screen_ok (?t\<lparr>u_mem := ?m\<rparr>)" using p(2) by (simp add: screen_ok_def)
  ultimately show ?thesis using w(2) by (intro exI [of _ "?t\<lparr>u_mem := ?m\<rparr>"]) simp
qed

lemma scan_line_loop_edits:
  assumes "typing int_n keys wait" and "keys (world s) = ks @ 10 # rest" and "10 \<notin> set ks" and "line_ok dst (unat m) l s"
  shows "\<exists>s'. scan_line_loop int_n dst m (of_nat (length l)) s = Some (Ok (of_nat (length (foldl (edit (unat m)) l ks))), s') \<and>
    keys (world s') = rest \<and> screen_ok s' \<and> load_bytes (u_mem s') dst (length (foldl (edit (unat m)) l ks) + 1) = foldl (edit (unat m)) l ks @ [0] \<and>
    same_outside dst (unat m + 1) s s'"
  using assms(2-4)
proof (induction ks arbitrary: l s)
  case Nil
  from scan_step_newline [OF assms(1), of s rest dst m l] Nil show ?case by (subst scan_line_loop.simps) auto
next
  case (Cons c ks)
  obtain s1 where 1: "scan_step int_n dst m (of_nat (length l)) s = (Ok (Inl (of_nat (length (edit (unat m) l c)))), s1)"
      "keys (world s1) = ks @ 10 # rest" "line_ok dst (unat m) (edit (unat m) l c) s1" "same_outside dst (unat m + 1) s s1"
    using scan_step_key [OF assms(1), of s c "ks @ 10 # rest" dst m l] Cons.prems by auto
  have "same_outside dst (unat m + 1) s1 s2 \<Longrightarrow> same_outside dst (unat m + 1) s s2" for s2
    using 1(4) by (simp add: same_outside_def)
  then show ?case using Cons.IH [OF 1(2) _ 1(3)] Cons.prems(2) 1(1) by (subst scan_line_loop.simps) auto
qed

section \<open>Allocation\<close>

text \<open>
  What \<open>malloc\<close> relies on: while \<open>pages w\<close> is positive, \<open>INT_SYS_PAGE_ALLOC\<close> maps a page at a page-aligned address below \<open>MEMSIZE_VIRTUAL\<close>, with a
  result that is not negative as an \<open>int\<close>, and changes nothing else of the process.
\<close>

definition allocating :: "'w int_n \<Rightarrow> ('w \<Rightarrow> nat) \<Rightarrow> bool" where
  "allocating int_n pages \<longleftrightarrow> (\<forall>s a. 0 < pages (world s) \<and> unat a mod 4096 = 0 \<and> unat a + 4096 \<le> unat MEMSIZE_VIRTUAL \<longrightarrow>
     (\<exists>rax w m. int_n INT_SYS_PAGE_ALLOC a 0 0 s = (Ok rax, s\<lparr>u_mem := m, u_mapped := \<lambda>x. u_mapped s x \<or> x \<in> rgn a 4096, world := w\<rparr>) \<and>
       0 \<le> sint (ucast rax :: uint32) \<and> pages (world s) \<le> Suc (pages w) \<and> (\<forall>x. x \<notin> rgn a 4096 \<longrightarrow> m x = u_mem s x)))"

definition HEAP_START :: nat where "HEAP_START = 0x200000"

definition heap_ok :: "'w user \<Rightarrow> bool" where
  "heap_ok s \<longleftrightarrow> HEAP_START \<le> unat (u_heap_top s) \<and> unat (u_heap_top s) \<le> unat (u_page_top s) \<and> unat (u_page_top s) mod 4096 = 0 \<and>
     unat (u_page_top s) \<le> unat MEMSIZE_VIRTUAL \<and>
     (\<forall>x. HEAP_START \<le> unat x \<and> unat x < unat (u_page_top s) \<longrightarrow> u_mapped s x)"

definition pages_needed :: "'w user \<Rightarrow> nat \<Rightarrow> nat" where
  "pages_needed s n = (unat (u_heap_top s) + n) div 4096 + 1 - unat (u_page_top s) div 4096"

text \<open>How allocation changes a process: pages are added at the top of the heap.\<close>

definition grown :: "'w user \<Rightarrow> 'w user \<Rightarrow> bool" where
  "grown s s' \<longleftrightarrow> u_page_top s \<le> u_page_top s' \<and>
     (\<forall>x. u_mapped s x \<longrightarrow> u_mapped s' x) \<and>
     (\<forall>x. unat x < unat (u_page_top s) \<or> unat (u_page_top s') \<le> unat x \<longrightarrow> u_mem s' x = u_mem s x) \<and>
     u_cursorpos s' = u_cursorpos s \<and> u_console s' = u_console s"

lemma grown_trans: "grown s t \<Longrightarrow> grown t u \<Longrightarrow> grown s u"
  by (auto simp: grown_def word_le_nat_alt)

lemma ROUNDDOWN_unat: "unat (ROUNDDOWN a (of_nat PAGESIZE)) = unat a div 4096 * 4096"
proof -
  have m: "unat (a mod 4096) = unat a mod 4096" by (simp add: unat_mod)
  then have "a mod 4096 \<le> a" by (simp add: word_le_nat_alt)
  then have "unat (a - a mod 4096) = unat a - unat a mod 4096" using m by (metis unat_sub)
  then show ?thesis by (simp only: ROUNDDOWN_def PAGESIZE_def of_nat_numeral minus_mod_eq_div_mult)
qed

lemma unat_MEMSIZE_VIRTUAL: "unat MEMSIZE_VIRTUAL = 0x300000"
  by (simp add: MEMSIZE_VIRTUAL_def)

text \<open>The condition of the loop of \<open>malloc\<close> counts the pages that are missing.\<close>

lemma malloc_condition:
  assumes "heap_ok s" and "unat (u_heap_top s) + unat sz < 2 ^ 64"
  shows "u_page_top s \<le> ROUNDDOWN (u_heap_top s + sz) (of_nat PAGESIZE) \<longleftrightarrow> 0 < pages_needed s (unat sz)"
proof -
  obtain q where q: "unat (u_page_top s) = 4096 * q" using assms(1) by (auto simp: heap_ok_def)
  have "unat (u_heap_top s + sz) = unat (u_heap_top s) + unat sz" using assms(2) by (simp add: unat_word_ariths)
  then show ?thesis by (auto simp: word_le_nat_alt ROUNDDOWN_unat pages_needed_def q)
qed

lemma malloc_page:
  assumes a: "allocating int_n pages" and s: "heap_ok s" and p: "0 < pages (world s)" "unat (u_page_top s) + 4096 \<le> unat MEMSIZE_VIRTUAL"
  obtains s' where "(io_bind (usys_page_alloc int_n (u_page_top s)) (\<lambda>r.
      io_bind (u_assert int_n f l t (r \<ge> 0)) (\<lambda>_. u_put (\<lambda>s. s\<lparr>u_page_top := u_page_top s + of_nat PAGESIZE\<rparr>)))) s = (Ok (), s')"
    and "heap_ok s'" and "grown s s'" and "pages (world s) \<le> Suc (pages (world s'))" and "u_heap_top s' = u_heap_top s"
    and "unat (u_page_top s') = unat (u_page_top s) + 4096"
proof -
  let ?P = "u_page_top s"
  have al: "unat ?P mod 4096 = 0" using s by (simp add: heap_ok_def)
  obtain rax w m where r: "int_n INT_SYS_PAGE_ALLOC ?P 0 0 s = (Ok rax, s\<lparr>u_mem := m, u_mapped := \<lambda>x. u_mapped s x \<or> x \<in> rgn ?P 4096, world := w\<rparr>)"
      "0 \<le> sint (ucast rax :: uint32)" "pages (world s) \<le> Suc (pages w)" "\<forall>x. x \<notin> rgn ?P 4096 \<longrightarrow> m x = u_mem s x"
    using a [unfolded allocating_def, THEN spec [of _ s], THEN spec [of _ ?P]] p al by blast
  let ?s = "s\<lparr>u_mem := m, u_mapped := \<lambda>x. u_mapped s x \<or> x \<in> rgn ?P 4096, world := w, u_page_top := ?P + 4096\<rparr>"
  have u: "unat (?P + 4096) = unat ?P + 4096" using p(2) by (simp add: unat_word_ariths unat_MEMSIZE_VIRTUAL)
  have rg: "x \<in> rgn ?P 4096 \<longleftrightarrow> unat ?P \<le> unat x \<and> unat x < unat ?P + 4096" for x
    using p(2) by (intro rgn_nat) (simp add: unat_MEMSIZE_VIRTUAL)
  have "heap_ok ?s" using s p(2) al by (auto simp: heap_ok_def u rg)
  moreover have "grown s ?s" using r(4) u by (auto simp: grown_def word_le_nat_alt rg)
  ultimately show ?thesis
    using r u by (intro that [of ?s]) (simp_all add: usys_page_alloc_def int_result_def u_assert_def u_put_def io_bind_def PAGESIZE_def)
qed

lemma malloc_loop_spec:
  assumes a: "allocating int_n pages"
  shows "heap_ok s \<Longrightarrow> ((unat (u_heap_top s) + unat sz) div 4096 + 1) * 4096 \<le> unat MEMSIZE_VIRTUAL \<Longrightarrow>
    pages_needed s (unat sz) + k \<le> pages (world s) \<Longrightarrow>
    \<exists>s'. malloc_loop int_n sz s = Some (Ok (), s') \<and> heap_ok s' \<and> grown s s' \<and> k \<le> pages (world s') \<and>
      u_heap_top s' = u_heap_top s \<and> unat (u_heap_top s) + unat sz < unat (u_page_top s') \<and>
      unat (u_page_top s') \<le> max (unat (u_page_top s)) (((unat (u_heap_top s) + unat sz) div 4096 + 1) * 4096)"
proof (induction "pages_needed s (unat sz)" arbitrary: s)
  case 0
  obtain q where q: "unat (u_page_top s) = 4096 * q" using "0.prems"(1) by (auto simp: heap_ok_def)
  have "unat (u_heap_top s) + unat sz < 2 ^ 64" using "0.prems"(2) by (simp add: unat_MEMSIZE_VIRTUAL)
  then have "\<not> u_page_top s \<le> ROUNDDOWN (u_heap_top s + sz) (of_nat PAGESIZE)"
    using malloc_condition [OF "0.prems"(1)] "0.hyps" by simp
  moreover have "(unat (u_heap_top s) + unat sz) div 4096 < q" using "0.hyps" by (simp add: pages_needed_def q)
  then have "unat (u_heap_top s) + unat sz < unat (u_page_top s)" unfolding q by (simp add: div_less_iff_less_mult mult.commute)
  ultimately show ?case using "0.prems" by (subst malloc_loop.simps) (simp add: grown_def)
next
  case (Suc n)
  obtain q where q: "unat (u_page_top s) = 4096 * q" using Suc.prems(1) by (auto simp: heap_ok_def)
  have "unat (u_heap_top s) + unat sz < 2 ^ 64" using Suc.prems(2) by (simp add: unat_MEMSIZE_VIRTUAL)
  then have c: "u_page_top s \<le> ROUNDDOWN (u_heap_top s + sz) (of_nat PAGESIZE)"
    using malloc_condition [OF Suc.prems(1)] Suc.hyps(2) by simp
  have n: "q + n = (unat (u_heap_top s) + unat sz) div 4096" using Suc.hyps(2) by (simp add: pages_needed_def q)
  then have m: "unat (u_page_top s) + 4096 \<le> unat MEMSIZE_VIRTUAL" using Suc.prems(2) by (simp add: q)
  have p: "0 < pages (world s)" using Suc.hyps(2) Suc.prems(3) by simp
  obtain s1 where 1:
    "(io_bind (usys_page_alloc int_n (u_page_top s)) (\<lambda>r.
      io_bind (u_assert int_n ''lib/lib-malloc.c'' 10 ''r >= 0'' (r \<ge> 0)) (\<lambda>_. u_put (\<lambda>s. s\<lparr>u_page_top := u_page_top s + of_nat PAGESIZE\<rparr>)))) s = (Ok (), s1)"
    "heap_ok s1" "grown s s1" "pages (world s) \<le> Suc (pages (world s1))" "u_heap_top s1 = u_heap_top s"
    "unat (u_page_top s1) = unat (u_page_top s) + 4096"
    by (rule malloc_page [OF a Suc.prems(1) p m])
  have "n = pages_needed s1 (unat sz)" using n by (simp add: pages_needed_def 1(5,6) q)
  from Suc.hyps(1) [OF this 1(2)] obtain s' where 2: "malloc_loop int_n sz s1 = Some (Ok (), s')" "heap_ok s'" "grown s1 s'" "k \<le> pages (world s')"
      "u_heap_top s' = u_heap_top s" "unat (u_heap_top s) + unat sz < unat (u_page_top s')"
      "unat (u_page_top s') \<le> max (unat (u_page_top s1)) (((unat (u_heap_top s) + unat sz) div 4096 + 1) * 4096)"
    using Suc.prems(2,3) Suc.hyps(2) 1(4,5) \<open>n = _\<close> by auto
  have "unat (u_page_top s') \<le> max (unat (u_page_top s)) (((unat (u_heap_top s) + unat sz) div 4096 + 1) * 4096)"
    using 2(7) n by (auto simp: 1(6) q)
  then show ?case using c 1(1) 2 grown_trans [OF 1(3) 2(3)] by (subst malloc_loop.simps) simp
qed

text \<open>The space that a block needs, and what \<open>malloc\<close> gives.\<close>

definition fits :: "('w \<Rightarrow> nat) \<Rightarrow> 'w user \<Rightarrow> nat \<Rightarrow> bool" where
  "fits pages s n \<longleftrightarrow> ((unat (u_heap_top s) + n) div 4096 + 1) * 4096 \<le> unat MEMSIZE_VIRTUAL \<and> pages_needed s n \<le> pages (world s)"

lemma fits_bound:
  assumes "fits pages s n"
  shows "unat (u_heap_top s) + n < 0x300000"
proof -
  have "(unat (u_heap_top s) + n) div 4096 < 768" using assms by (simp add: fits_def unat_MEMSIZE_VIRTUAL)
  then show ?thesis by (simp add: div_less_iff_less_mult)
qed

lemma u_malloc_spec:
  assumes "allocating int_n pages" and "heap_ok s" and "unat sz \<le> n" and "fits pages s n"
  obtains s' where "u_malloc int_n sz s = (Ok (u_heap_top s), s')" and "heap_ok s'" and "grown s s'"
    and "unat (u_heap_top s') = unat (u_heap_top s) + unat sz" and "fits pages s' (n - unat sz)" 
    and "unat (u_page_top s') \<le> max (unat (u_page_top s)) (((unat (u_heap_top s) + n) div 4096 + 1) * 4096)"
    and "pages (world s) - pages_needed s (unat sz) \<le> pages (world s')"
proof -
  let ?h = "unat (u_heap_top s)"
  have d: "(?h + unat sz) div 4096 \<le> (?h + n) div 4096" using assms(3) by (simp add: div_le_mono)
  let ?k = "pages (world s) - pages_needed s (unat sz)"
  have le: "pages_needed s (unat sz) \<le> pages_needed s n" using d by (simp add: pages_needed_def)
  obtain t where t: "malloc_loop int_n sz s = Some (Ok (), t)" "heap_ok t" "grown s t" "?k \<le> pages (world t)"
      "u_heap_top t = u_heap_top s" "?h + unat sz < unat (u_page_top t)"
      "unat (u_page_top t) \<le> max (unat (u_page_top s)) (((?h + unat sz) div 4096 + 1) * 4096)"
    using malloc_loop_spec [OF assms(1,2), of sz ?k] assms(4) d le by (auto simp: fits_def)
  let ?t = "t\<lparr>u_heap_top := u_heap_top s + sz\<rparr>"
  have u: "unat (u_heap_top s + sz) = ?h + unat sz"
    using t(2,6) by (simp add: unat_word_ariths heap_ok_def unat_MEMSIZE_VIRTUAL)
  have "heap_ok ?t" using t(2,6) assms(2) u by (auto simp: heap_ok_def)
  moreover have "grown s ?t" using t(3) by (simp add: grown_def)
  moreover have "fits pages ?t (n - unat sz)"
  proof -
    obtain q where q: "unat (u_page_top s) = 4096 * q" using assms(2) by (auto simp: heap_ok_def)
    obtain q' where q': "unat (u_page_top t) = 4096 * q'" using t(2) by (auto simp: heap_ok_def)
    have "q \<le> q'" using t(3) by (simp add: grown_def word_le_nat_alt q q')
    moreover have "(?h + unat sz) div 4096 < q'" using t(6) by (simp add: q' div_less_iff_less_mult mult.commute)
    moreover have "(?h + n) div 4096 + 1 - q \<le> pages (world s)" "pages (world s) - ((?h + unat sz) div 4096 + 1 - q) \<le> pages (world t)"
      using assms(4) t(4) by (simp_all add: fits_def pages_needed_def q)
    ultimately have "(?h + n) div 4096 + 1 - q' \<le> pages (world t)" by linarith
    then show ?thesis using assms(3,4) u q' by (simp add: fits_def pages_needed_def)
  qed
  ultimately show ?thesis
    using t u d by (intro that [of ?t]) (auto simp: u_malloc_def u_loop_def u_get_def u_put_def io_bind_def)
qed

section \<open>Splitting a string\<close>

text \<open>The fields between separators, and where they start after position \<open>i\<close>.\<close>

primrec split_fields :: "byte \<Rightarrow> byte list \<Rightarrow> byte list list" where
  "split_fields sep [] = [[]]"
| "split_fields sep (c # cs) = (if c = sep then [] # split_fields sep cs else (c # hd (split_fields sep cs)) # tl (split_fields sep cs))"

primrec starts :: "byte \<Rightarrow> nat \<Rightarrow> byte list \<Rightarrow> nat list" where
  "starts sep i [] = []"
| "starts sep i (c # cs) = (if c = sep then (i + 1) # starts sep (i + 1) cs else starts sep (i + 1) cs)"

definition blanked :: "byte \<Rightarrow> byte list \<Rightarrow> byte list" where
  "blanked sep cs = map (\<lambda>c. if c = sep then 0 else c) cs @ [0]"

lemma split_fields_not_Nil [simp]: "split_fields sep cs \<noteq> []"
  by (cases cs) simp_all

lemma length_starts: "length (starts sep i cs) = count_list cs sep"
  by (induction cs arbitrary: i) simp_all

lemma length_fields: "length (split_fields sep cs) = Suc (count_list cs sep)"
  by (induction cs) simp_all

text \<open>In the blanked string every field is a string at its start.\<close>

lemma blanked_fields:
  assumes "\<forall>j<length cs + 1. g (i + j) = blanked sep cs ! j" and "k < length (split_fields sep cs)"
  shows "\<forall>j<length (split_fields sep cs ! k) + 1. g ((i # starts sep i cs) ! k + j) = (split_fields sep cs ! k @ [0]) ! j"
  using assms
proof (induction cs arbitrary: i k)
  case (Cons c cs)
  have g0: "g i = (if c = sep then 0 else c)" using Cons.prems(1) by (auto simp: blanked_def dest: spec [of _ 0])
  have "g (Suc i + j) = blanked sep cs ! j" if "j < length cs + 1" for j
    using Cons.prems(1) [rule_format, of "Suc j"] that by (simp add: blanked_def)
  note IH = Cons.IH [of "Suc i", OF allI [OF impI [OF this]]]
  show ?case
  proof (cases "c = sep")
    case True
    then show ?thesis using IH [of "k - 1"] Cons.prems(2) g0 by (cases k) auto
  next
    case False
    show ?thesis
    proof (cases k)
      case 0
      have "\<forall>j<length (hd (split_fields sep cs)) + 1. g (Suc i + j) = (hd (split_fields sep cs) @ [0]) ! j"
        using IH [of 0] by (simp add: hd_conv_nth [symmetric])
      then show ?thesis using False 0 g0 by (auto simp: less_Suc_eq_0_disj)
    next
      case (Suc k')
      then show ?thesis using IH [of k] Cons.prems(2) False by (simp add: nth_tl)
    qed
  qed
qed (simp add: blanked_def)

text \<open>Reading the string.\<close>

definition holds_at :: "'w user \<Rightarrow> addr \<Rightarrow> byte list \<Rightarrow> bool" where
  "holds_at s a bs \<longleftrightarrow> (\<forall>j<length bs. u_mapped s (a + of_nat j) \<and> u_mem s (a + of_nat j) = bs ! j)"

lemma holds_at_Cons: "holds_at s a (b # bs) \<longleftrightarrow> u_mapped s a \<and> u_mem s a = b \<and> holds_at s (a + 1) bs"
  by (auto simp: holds_at_def less_Suc_eq_0_disj add.assoc)

lemma count_parts_spec:
  assumes "holds_at s (str + of_nat n) (cs @ [0])" and "0 \<notin> set cs" and "length cs < k"
  shows "count_parts k str sep p n s = (Ok (p + count_list cs sep, n + length cs), s)"
  using assms
proof (induction cs arbitrary: k p n)
  case Nil
  then show ?case by (cases k) (simp_all add: holds_at_Cons u_load_def io_bind_def)
next
  case (Cons c cs)
  obtain k' where "k = Suc k'" using Cons.prems(3) by (cases k) auto
  then show ?case
    using Cons.prems Cons.IH [of "n + 1" k' "if c = sep then p + 1 else p"]
    by (simp add: holds_at_Cons u_load_def io_bind_def add.assoc add.commute [of 1])
qed

lemma mapped_rangeI: "(\<And>x. x \<in> rgn a n \<Longrightarrow> u_mapped s x) \<Longrightarrow> n \<le> 2 ^ 64 \<Longrightarrow> mapped_range s a n"
  by (simp add: mapped_range_def in_rgn_offset)

text \<open>
  The second loop, with the pointers at \<open>P\<close>, the copy at \<open>B\<close> and the string at \<open>S\<close>. One step writes one byte of the copy and
  perhaps one pointer.
\<close>

definition split_layout :: "nat \<Rightarrow> nat \<Rightarrow> nat \<Rightarrow> nat \<Rightarrow> nat \<Rightarrow> bool" where
  "split_layout P B S N W \<longleftrightarrow> P + 8 * (W + 1) \<le> B \<and> B + N < 2 ^ 63 \<and> S + N < 2 ^ 63 \<and> (S + N \<le> P \<or> B + N < S)"

definition split_frame :: "nat \<Rightarrow> nat \<Rightarrow> nat \<Rightarrow> nat \<Rightarrow> nat \<Rightarrow> nat \<Rightarrow> mem \<Rightarrow> mem \<Rightarrow> bool" where
  "split_frame P B N W i w m m' \<longleftrightarrow> (\<forall>x. \<not> (P + 8 * (w + 1) \<le> unat x \<and> unat x < P + 8 * W) \<and>
     \<not> (B + i \<le> unat x \<and> unat x < B + N) \<longrightarrow> m' x = m x)"

lemma unat_small: "k < 2 ^ 63 \<Longrightarrow> unat (of_nat k :: addr) = k"
  by (simp add: unat_of_nat)

lemma holds_at_frame:
  assumes "holds_at s (of_nat a) bs" and "a + length bs < 2 ^ 63"
    and "\<forall>x. a \<le> unat x \<and> unat x < a + length bs \<longrightarrow> u_mem s' x = u_mem s x" and "u_mapped s' = u_mapped s"
  shows "holds_at s' (of_nat a) bs"
proof -
  have "unat (of_nat a + of_nat j :: addr) = a + j" if "j < length bs" for j
    using unat_small [of "a + j"] assms(2) that by simp
  then show ?thesis using assms(1,3,4) by (simp add: holds_at_def)
qed

lemma split_step_plain:
  fixes sep c :: byte
  assumes lay: "split_layout P B S N W" and map: "\<forall>x. P \<le> unat x \<and> unat x < B + N \<longrightarrow> u_mapped s x"
    and c: "holds_at s (of_nat (S + i)) (c # cs)" and i: "i + length (c # cs) = N"
  defines "b \<equiv> if c = sep then 0 else c"
  defines "s1 \<equiv> s\<lparr>u_mem := (u_mem s)(of_nat (B + i) := b)\<rparr>"
  shows "u_load (of_nat (S + i)) s = (Ok c, s)" and "u_store (of_nat (B + i)) b s = (Ok (), s1)"
    and "holds_at s1 (of_nat (S + (i + 1))) cs"
proof -
  have n: "unat (of_nat (B + i) :: addr) = B + i" using lay i by (intro unat_small) (simp add: split_layout_def)
  show "u_load (of_nat (S + i)) s = (Ok c, s)" using c by (simp add: holds_at_Cons u_load_def)
  show "u_store (of_nat (B + i)) b s = (Ok (), s1)" using map n i lay by (simp add: u_store_def s1_def split_layout_def)
  have h: "holds_at s (of_nat (S + (i + 1))) cs" using c by (simp add: holds_at_Cons add.assoc add.commute [of 1])
  show "holds_at s1 (of_nat (S + (i + 1))) cs"
    using lay i n by (intro holds_at_frame [OF h]) (auto simp: s1_def split_layout_def)
qed

lemma split_loop_spec:
  assumes lay: "split_layout P B S N W" and map: "\<forall>x. P \<le> unat x \<and> unat x < B + N \<longrightarrow> u_mapped s x"
    and "holds_at s (of_nat (S + i)) cs" and "i + length cs = N" and "w + count_list cs sep + 1 = W"
  shows "\<exists>m. split_loop (length cs) (of_nat S) sep (of_nat P) (of_nat B) i w s = (Ok (), s\<lparr>u_mem := m\<rparr>) \<and>
    (\<forall>j<length cs. m (of_nat (B + i + j)) = (if cs ! j = sep then 0 else cs ! j)) \<and>
    (\<forall>j<count_list cs sep. load64 m (of_nat (P + 8 * (w + 1 + j))) = of_nat (B + starts sep i cs ! j)) \<and>
    split_frame P B N W i w (u_mem s) m"
  using assms(2-5)
proof (induction cs arbitrary: i w s)
  case Nil
  then show ?case by (auto simp: split_frame_def intro!: exI [of _ "u_mem s"])
next
  case (Cons c cs)
  let ?b = "if c = sep then 0 else c" and ?w = "if c = sep then w + 1 else w"
  define s1 where "s1 = s\<lparr>u_mem := (u_mem s)(of_nat (B + i) := ?b)\<rparr>"
  define q :: addr where "q = of_nat (P + 8 * (w + 1))"
  define s2 where "s2 = (if c = sep then s1\<lparr>u_mem := store64 q (of_nat (B + (i + 1))) (u_mem s1)\<rparr> else s1)"
  note step = split_step_plain(1) [OF lay Cons.prems(1,2,3)] split_step_plain(2,3) [where sep = sep, OF lay Cons.prems(1,2,3), folded s1_def]
  have bi: "unat (of_nat (B + i) :: addr) = B + i" using lay Cons.prems(3) by (intro unat_small) (simp add: split_layout_def)
  have "P + 8 * (w + 1) < 2 ^ 63" using lay Cons.prems(4) by (auto simp: split_layout_def split: if_splits)
  then have q: "unat q = P + 8 * (w + 1)" "c = sep \<Longrightarrow> w + 1 < W" using Cons.prems(4) unfolding q_def by (simp_all only: unat_small) simp
  have qr: "x \<in> rgn q 8 \<longleftrightarrow> P + 8 * (w + 1) \<le> unat x \<and> unat x < P + 8 * (w + 2)" for x
    using lay Cons.prems(4) rgn_nat [of q 8 x] q(1) by (auto simp: split_layout_def)
  have map1: "\<forall>x. P \<le> unat x \<and> unat x < B + N \<longrightarrow> u_mapped s2 x" using Cons.prems(1) by (simp add: s2_def s1_def)
  have run: "split_loop (length (c # cs)) (of_nat S) sep (of_nat P) (of_nat B) i w s =
      split_loop (length cs) (of_nat S) sep (of_nat P) (of_nat B) (i + 1) ?w s2"
  proof -
    have "mapped_range s1 q 8" if "c = sep"
      using Cons.prems(1) q(2) lay that by (auto intro!: mapped_rangeI simp: qr s1_def split_layout_def)
    then show ?thesis
      using step(1,2) by (auto simp: s2_def io_bind_def u_store64_def q_def ac_simps)
  qed
  have h2: "holds_at s2 (of_nat (S + (i + 1))) cs"
    using step(3) lay Cons.prems(3) q(2)
    by (intro holds_at_frame [OF step(3)]) (auto simp: s2_def store64_apply_outside qr split_layout_def)
  have "(i + 1) + length cs = N" "?w + count_list cs sep + 1 = W" using Cons.prems(3,4) by auto
  with Cons.IH [OF map1 h2] obtain m where m: "split_loop (length cs) (of_nat S) sep (of_nat P) (of_nat B) (i + 1) ?w s2 = (Ok (), s2\<lparr>u_mem := m\<rparr>)"
      "\<forall>j<length cs. m (of_nat (B + (i + 1) + j)) = (if cs ! j = sep then 0 else cs ! j)"
      "\<forall>j<count_list cs sep. load64 m (of_nat (P + 8 * (?w + 1 + j))) = of_nat (B + starts sep (i + 1) cs ! j)"
      "split_frame P B N W (i + 1) ?w (u_mem s2) m"
    by blast
  have keep: "m x = u_mem s2 x" if "\<not> (P + 8 * (?w + 1) \<le> unat x \<and> unat x < P + 8 * W)" "\<not> (B + (i + 1) \<le> unat x \<and> unat x < B + N)" for x :: addr
    using m(4) that by (simp add: split_frame_def)
  have "m (of_nat (B + i)) = u_mem s2 (of_nat (B + i))" using lay Cons.prems(4) bi by (intro keep) (auto simp: split_layout_def)
  also have "\<dots> = ?b" using lay q(2) bi by (auto simp: s2_def s1_def store64_apply_outside qr split_layout_def)
  finally have "m (of_nat (B + i + j)) = (if (c # cs) ! j = sep then 0 else (c # cs) ! j)" if "j < length (c # cs)" for j
    using m(2) that by (cases j) auto
  moreover have "load64 m (of_nat (P + 8 * (w + 1 + j))) = of_nat (B + starts sep i (c # cs) ! j)" if j: "j < count_list (c # cs) sep" for j
  proof (cases "c = sep \<and> j = 0")
    case True
    have "load64 m q = load64 (u_mem s2) q"
      using lay q True by (intro load64_cong keep) (auto simp: qr split_layout_def)
    then show ?thesis using True by (simp add: s2_def q_def)
  next
    case False
    then show ?thesis using m(3) [rule_format, of "if c = sep then j - 1 else j"] j by (cases j) (auto split: if_splits)
  qed
  moreover have "split_frame P B N W i w (u_mem s) m"
    unfolding split_frame_def
  proof (intro allI impI)
    fix x :: addr assume x: "\<not> (P + 8 * (w + 1) \<le> unat x \<and> unat x < P + 8 * W) \<and> \<not> (B + i \<le> unat x \<and> unat x < B + N)"
    then have "m x = u_mem s2 x" by (intro keep) auto
    also have "\<dots> = u_mem s x" using x q(2) bi Cons.prems(3) by (auto simp: s2_def s1_def store64_apply_outside qr)
    finally show "m x = u_mem s x" .
  qed
  moreover have "s2\<lparr>u_mem := m\<rparr> = s\<lparr>u_mem := m\<rparr>" by (simp add: s2_def s1_def)
  ultimately show ?case using run m(1) by (intro exI [of _ m]) simp
qed

text \<open>The stores before the loop: the first pointer, the null pointer at the end and the terminator of the copy.\<close>

lemma split_start_spec:
  assumes lay: "split_layout P B S N W" and W: "0 < W" and map: "\<forall>x. P \<le> unat x \<and> unat x \<le> B + N \<longrightarrow> u_mapped s x"
  defines "p \<equiv> of_nat P :: addr" and "b \<equiv> of_nat B :: addr"
  shows "\<exists>m. io_bind (u_store64 p b) (\<lambda>_. io_bind (u_store64 (p + 8 * of_nat W) 0) (\<lambda>_.
      u_store (b + of_nat N) 0)) s = (Ok (), s\<lparr>u_mem := m\<rparr>) \<and>
    load64 m p = b \<and> load64 m (p + 8 * of_nat W) = 0 \<and> m (b + of_nat N) = 0 \<and>
    (\<forall>x. unat x < P \<or> B + N < unat x \<longrightarrow> m x = u_mem s x)"
proof -
  have u: "unat p = P" "unat (p + 8 * of_nat W) = P + 8 * W" "unat (b + of_nat N) = B + N"
    using lay unat_small [of P] unat_small [of "P + 8 * W"] unat_small [of "B + N"] by (auto simp: split_layout_def p_def b_def)
  have r: "x \<in> rgn p 8 \<longleftrightarrow> P \<le> unat x \<and> unat x < P + 8"
    "x \<in> rgn (p + 8 * of_nat W) 8 \<longleftrightarrow> P + 8 * W \<le> unat x \<and> unat x < P + 8 * W + 8" for x
    using lay rgn_nat [of p 8 x] rgn_nat [of "p + 8 * of_nat W" 8 x] u by (auto simp: split_layout_def)
  have mp: "mapped_range t p 8" "mapped_range t (p + 8 * of_nat W) 8" if "u_mapped t = u_mapped s" for t :: "'a user"
    using map lay that by (auto intro!: mapped_rangeI simp: r split_layout_def)
  let ?m1 = "store64 p b (u_mem s)"
  let ?m2 = "store64 (p + 8 * of_nat W) 0 ?m1"
  let ?m = "?m2(b + of_nat N := 0)"
  have "io_bind (u_store64 p b) (\<lambda>_. io_bind (u_store64 (p + 8 * of_nat W) 0) (\<lambda>_. u_store (b + of_nat N) 0)) s = (Ok (), s\<lparr>u_mem := ?m\<rparr>)"
    using mp map lay u by (simp add: io_bind_def u_store64_def u_store_def split_layout_def)
  moreover have "load64 ?m p = load64 ?m1 p"
    using lay W u by (intro load64_cong) (auto simp: r store64_apply_outside split_layout_def)
  moreover have "load64 ?m (p + 8 * of_nat W) = load64 ?m2 (p + 8 * of_nat W)"
    using lay u by (intro load64_cong) (auto simp: r split_layout_def)
  moreover have "?m x = u_mem s x" if "unat x < P \<or> B + N < unat x" for x
    using that lay u by (auto simp: r store64_apply_outside split_layout_def)
  ultimately show ?thesis by (intro exI [of _ ?m]) simp
qed

lemma u_malloc2_spec:
  assumes a: "allocating int_n pages" and s: "heap_ok s" and f: "fits pages s (n + k)"
  obtains t where "io_bind (u_malloc int_n (of_nat n)) (\<lambda>p. io_bind (u_malloc int_n (of_nat k)) (\<lambda>b. io_return (p, b))) s =
      (Ok (u_heap_top s, of_nat (unat (u_heap_top s) + n)), t)" and "heap_ok t" and "grown s t"
    and "unat (u_heap_top t) = unat (u_heap_top s) + n + k"
    and "unat (u_page_top t) \<le> max (unat (u_page_top s)) (((unat (u_heap_top s) + (n + k)) div 4096 + 1) * 4096)"
proof -
  have nk: "n + k < 0x300000" using fits_bound [OF f] by simp
  then have u: "unat (of_nat n :: uint64) = n" "unat (of_nat k :: uint64) = k" by (simp_all add: unat_of_nat)
  obtain t1 where 1: "u_malloc int_n (of_nat n) s = (Ok (u_heap_top s), t1)" "heap_ok t1" "grown s t1"
      "unat (u_heap_top t1) = unat (u_heap_top s) + n" "fits pages t1 k"
      "unat (u_page_top t1) \<le> max (unat (u_page_top s)) (((unat (u_heap_top s) + (n + k)) div 4096 + 1) * 4096)"
    by (rule u_malloc_spec [OF a s _ f, of "of_nat n"]) (simp_all add: u)
  obtain t2 where 2: "u_malloc int_n (of_nat k) t1 = (Ok (u_heap_top t1), t2)" "heap_ok t2" "grown t1 t2"
      "unat (u_heap_top t2) = unat (u_heap_top t1) + k"
      "unat (u_page_top t2) \<le> max (unat (u_page_top t1)) (((unat (u_heap_top t1) + k) div 4096 + 1) * 4096)"
    by (rule u_malloc_spec [OF a 1(2) _ 1(5), of "of_nat k"]) (simp_all add: u)
  have "u_heap_top t1 = of_nat (unat (u_heap_top s) + n)" using arg_cong [OF 1(4), of "of_nat :: nat \<Rightarrow> addr"] by simp
  moreover have "unat (u_page_top t2) \<le> max (unat (u_page_top s)) (((unat (u_heap_top s) + (n + k)) div 4096 + 1) * 4096)"
    using 1(6) 2(5) unfolding 1(4) by (simp add: add.assoc)
  ultimately show ?thesis
    using 1(1,3,4) 2(1-4) grown_trans [OF 1(3) 2(3)] by (intro that [of t2]) (simp_all add: io_bind_def)
qed

text \<open>What the pointers and the copy are in the end.\<close>

definition points_to_fields :: "mem \<Rightarrow> addr \<Rightarrow> byte list list \<Rightarrow> bool" where
  "points_to_fields m part fs \<longleftrightarrow>
     (\<forall>k<length fs. load_bytes m (load64 m (part + 8 * of_nat k)) (length (fs ! k) + 1) = fs ! k @ [0]) \<and>
     load64 m (part + 8 * of_nat (length fs)) = 0"

lemma points_to_fieldsI:
  assumes copy: "\<forall>j<length bs + 1. m (of_nat B + of_nat j) = blanked sep bs ! j"
    and first: "load64 m part = of_nat B"
    and rest: "\<forall>j<count_list bs sep. load64 m (part + 8 * of_nat (j + 1)) = of_nat (B + starts sep 0 bs ! j)"
    and last: "load64 m (part + 8 * of_nat (count_list bs sep + 1)) = 0"
  shows "points_to_fields m part (split_fields sep bs)"
  unfolding points_to_fields_def
proof (intro conjI allI impI)
  fix k assume k: "k < length (split_fields sep bs)"
  let ?f = "split_fields sep bs ! k" and ?p = "(0 # starts sep 0 bs) ! k"
  have p: "load64 m (part + 8 * of_nat k) = of_nat B + of_nat ?p"
    using first rest k by (cases k) (simp_all add: length_fields)
  have "\<forall>j<length ?f + 1. m (of_nat B + of_nat (?p + j)) = (?f @ [0]) ! j"
    by (rule blanked_fields [where g = "\<lambda>j. m (of_nat B + of_nat j)" and i = 0, OF _ k]) (use copy in simp)
  then show "load_bytes m (load64 m (part + 8 * of_nat k)) (length ?f + 1) = ?f @ [0]"
    unfolding p by (intro nth_equalityI) (simp_all add: add.assoc)
qed (use last in \<open>simp add: length_fields\<close>)

lemma split_string_loop_spec:
  fixes P B S :: nat
  defines "p \<equiv> of_nat P :: addr" and "b \<equiv> of_nat B :: addr"
  assumes lay: "split_layout P B S N W" and N: "N = length bs" and W: "W = count_list bs sep + 1"
    and map: "\<forall>x. P \<le> unat x \<and> unat x \<le> B + N \<longrightarrow> u_mapped t x" and str: "holds_at t (of_nat S) bs"
  shows "\<exists>m. io_bind (u_store64 p b) (\<lambda>_. io_bind (u_store64 (p + 8 * of_nat W) 0) (\<lambda>_.
     io_bind (u_store (b + of_nat N) 0) (\<lambda>_. split_loop N (of_nat S) sep p b 0 0))) t = (Ok (), t\<lparr>u_mem := m\<rparr>) \<and>
    points_to_fields m p (split_fields sep bs) \<and> (\<forall>x. unat x < P \<or> B + N < unat x \<longrightarrow> m x = u_mem t x)"
proof -
  have "0 < W" using W by simp
  from split_start_spec [OF lay this map] obtain m1 where
    1: "io_bind (u_store64 p b) (\<lambda>_. io_bind (u_store64 (p + 8 * of_nat W) 0) (\<lambda>_. u_store (b + of_nat N) 0)) t = (Ok (), t\<lparr>u_mem := m1\<rparr>)"
      "load64 m1 p = b" "load64 m1 (p + 8 * of_nat W) = 0" "m1 (b + of_nat N) = 0" "\<forall>x. unat x < P \<or> B + N < unat x \<longrightarrow> m1 x = u_mem t x"
    unfolding p_def b_def by blast
  let ?t = "t\<lparr>u_mem := m1\<rparr>"
  have "u_mem ?t x = u_mem t x" if "S \<le> unat x \<and> unat x < S + length bs" for x
    using lay 1(5) that N by (auto simp: split_layout_def)
  moreover have "S + length bs < 2 ^ 63" using lay N by (simp add: split_layout_def)
  ultimately have h: "holds_at ?t (of_nat (S + 0)) bs" using holds_at_frame [OF str, of ?t] by simp
  have map': "\<forall>x. P \<le> unat x \<and> unat x < B + N \<longrightarrow> u_mapped ?t x" using map by simp
  have "0 + length bs = N" "0 + count_list bs sep + 1 = W" using N W by simp_all
  from split_loop_spec [OF lay map' h this, folded p_def b_def N] obtain m where m: "split_loop N (of_nat S) sep p b 0 0 ?t = (Ok (), ?t\<lparr>u_mem := m\<rparr>)"
      "\<forall>j<N. m (of_nat (B + 0 + j)) = (if bs ! j = sep then 0 else bs ! j)"
      "\<forall>j<count_list bs sep. load64 m (of_nat (P + 8 * (0 + 1 + j))) = of_nat (B + starts sep 0 bs ! j)"
      "split_frame P B N W 0 0 (u_mem ?t) m"
    by (elim exE conjE)
  have keep: "m x = m1 x" if "\<not> (P + 8 \<le> unat x \<and> unat x < P + 8 * W)" "\<not> (B \<le> unat x \<and> unat x < B + N)" for x :: addr
    using m(4) that by (simp add: split_frame_def)
  have u: "unat p = P" "unat (p + 8 * of_nat W) = P + 8 * W" "unat (b + of_nat N) = B + N"
    using lay unat_small [of P] unat_small [of "P + 8 * W"] unat_small [of "B + N"] by (auto simp: split_layout_def p_def b_def)
  have "m (b + of_nat N) = 0" using 1(4) lay u by (subst keep) (auto simp: split_layout_def)
  then have c: "m (b + of_nat j) = blanked sep bs ! j" if "j < length bs + 1" for j
    using m(2) that N by (cases "j = N") (auto simp: blanked_def nth_append b_def)
  have r: "x \<in> rgn p 8 \<longleftrightarrow> P \<le> unat x \<and> unat x < P + 8"
    "x \<in> rgn (p + 8 * of_nat W) 8 \<longleftrightarrow> P + 8 * W \<le> unat x \<and> unat x < P + 8 * W + 8" for x
    using lay rgn_nat [of p 8 x] rgn_nat [of "p + 8 * of_nat W" 8 x] u by (auto simp: split_layout_def)
  have "load64 m p = load64 m1 p" using lay by (intro load64_cong keep) (auto simp: r split_layout_def)
  moreover have "load64 m (p + 8 * of_nat W) = load64 m1 (p + 8 * of_nat W)"
    using lay by (intro load64_cong keep) (auto simp: r split_layout_def)
  moreover have "load64 m (p + 8 * of_nat (j + 1)) = of_nat (B + starts sep 0 bs ! j)" if "j < count_list bs sep" for j
    using m(3) that by (simp add: p_def algebra_simps)
  ultimately have "points_to_fields m p (split_fields sep bs)"
    using c 1(2,3) W unfolding b_def by (intro points_to_fieldsI [where B = B]) simp_all
  moreover have "m x = u_mem t x" if "unat x < P \<or> B + N < unat x" for x
    using 1(5) keep [of x] lay that by (auto simp: split_layout_def)
  moreover have "io_bind (u_store64 p b) (\<lambda>_. io_bind (u_store64 (p + 8 * of_nat W) 0) (\<lambda>_.
     io_bind (u_store (b + of_nat N) 0) (\<lambda>_. split_loop N (of_nat S) sep p b 0 0))) t = (Ok (), t\<lparr>u_mem := m\<rparr>)"
  proof -
    let ?stores = "io_bind (u_store64 p b) (\<lambda>_. io_bind (u_store64 (p + 8 * of_nat W) 0) (\<lambda>_. u_store (b + of_nat N) 0))"
    have "io_bind ?stores (\<lambda>_. split_loop N (of_nat S) sep p b 0 0) t = (Ok (), t\<lparr>u_mem := m\<rparr>)"
      using io_bind_Ok [of ?stores t "()" ?t "\<lambda>_. split_loop N (of_nat S) sep p b 0 0"] 1(1) m(1) by simp
    then show ?thesis by (simp only: io_bind_assoc)
  qed
  ultimately show ?thesis by blast
qed

lemma holds_at_grown:
  assumes "holds_at s (of_nat S) (bs @ [0])" and "S + length bs < unat (u_heap_top s) \<or> unat (u_page_top t) \<le> S \<and> S + length bs < 2 ^ 63"
    and "grown s t" and "heap_ok s"
  shows "holds_at t (of_nat S) bs"
  unfolding holds_at_def
proof (intro allI impI)
  fix j assume j: "j < length bs"
  let ?x = "of_nat S + of_nat j :: addr"
  have "S + length bs < 2 ^ 63" using assms(2,4) by (auto simp: heap_ok_def unat_MEMSIZE_VIRTUAL)
  then have "unat ?x = S + j" using unat_small [of "S + j"] j by simp
  moreover have "u_mapped s ?x" "u_mem s ?x = bs ! j" using assms(1) j by (auto simp: holds_at_def nth_append dest: spec [of _ j])
  ultimately show "u_mapped t ?x \<and> u_mem t ?x = bs ! j"
    using assms(2-4) j by (auto simp: grown_def heap_ok_def)
qed

lemma io_bind_pair: "io_bind m (\<lambda>p. io_bind m' (G p)) = io_bind (io_bind m (\<lambda>p. io_bind m' (\<lambda>q. io_return (p, q)))) (\<lambda>(p, q). G p q)"
  by (simp add: io_bind_assoc)

lemma split_string_run:
  assumes "count_parts (unat MEMSIZE_VIRTUAL) str sep 1 0 s = (Ok (W, N), s)"
    and "io_bind (u_malloc int_n n) (\<lambda>p. io_bind (u_malloc int_n k) (\<lambda>b. io_return (p, b))) s = (Ok (p, b), t)"
    and "io_bind (u_store64 p b) (\<lambda>_. io_bind (u_store64 (p + 8 * of_nat W) 0) (\<lambda>_.
     io_bind (u_store (b + of_nat N) 0) (\<lambda>_. split_loop N str' sep p b 0 0))) t = (Ok (), u)"
    and "n = of_nat ((W + 1) * 8)" and "k = of_nat (N + 1)" and "str' = str"
  shows "split_string int_n str sep s = (Ok p, u)"
proof -
  let ?body = "\<lambda>p b. io_bind (u_store64 p b) (\<lambda>_. io_bind (u_store64 (p + 8 * of_nat W) 0) (\<lambda>_.
     io_bind (u_store (b + of_nat N) 0) (\<lambda>_. split_loop N str sep p b 0 0)))"
  have "io_bind (?body p b) (\<lambda>_. io_return p) t = (Ok p, u)"
    using assms(3,6) by (simp add: io_bind_def)
  then have "io_bind (u_malloc int_n n) (\<lambda>p. io_bind (u_malloc int_n k) (\<lambda>b. io_bind (?body p b) (\<lambda>_. io_return p))) s = (Ok p, u)"
    using assms(2) by (subst io_bind_pair) (simp add: io_bind_Ok)
  then show ?thesis
    using assms(1,4,5) by (simp add: split_string_def io_bind_assoc io_bind_Ok)
qed

section \<open>Properties\<close>

text \<open>
  C36: Reading a line. When the keys to come are some keys other than return, then return, \<open>scan_line\<close> returns; the buffer holds the
  line that the keys edit (backspace deletes, control characters and characters beyond \<open>length_max\<close> are ignored) and a terminator, the result
  is its length, at most \<open>length_max\<close>, the keys after return are left, and no byte beyond the \<open>length_max + 1\<close> of the buffer is written.
\<close>

theorem scan_line_edits:
  fixes m :: uint32
  assumes "typing int_n keys wait" and "keys (world s) = ks @ 10 # rest" and "10 \<notin> set ks"
    and "screen_ok s" and "mapped_range s dst (unat m + 1)"
  defines "line \<equiv> foldl (edit (unat m)) [] ks"
  shows "\<exists>s'. scan_line int_n dst m s = (Ok (of_nat (length line)), s') \<and> length line \<le> unat m \<and>
    load_bytes (u_mem s') dst (length line + 1) = line @ [0] \<and> keys (world s') = rest \<and>
    (\<forall>a. a \<notin> rgn dst (unat m + 1) \<longrightarrow> u_mem s' a = u_mem s a)"
proof -
  have "line_ok dst (unat m) [] s" using assms(4,5) by (simp add: line_ok_def load_bytes_def)
  from scan_line_loop_edits [OF assms(1-3) this] show ?thesis
    by (auto simp: scan_line_def u_loop_def line_def length_foldl_edit same_outside_def)
qed

text \<open>A world in which the keys are typed in advance, and a process with one page.\<close>

definition typed_int :: "byte list int_n" where
  "typed_int n a b c s =
     (if n = INT_SYS_KEYBORD
      then case world s of [] \<Rightarrow> (Ok (- 1), s) | k # ks \<Rightarrow> (Ok (ucast k), s\<lparr>world := ks\<rparr>)
      else (Ok 0, s))"

definition small_process :: "'w \<Rightarrow> 'w user" where
  "small_process w = \<lparr>u_mem = \<lambda>_. 7, u_mapped = \<lambda>a. a \<in> rgn 0x2FF000 4096, u_heap_top = 0x200000, u_page_top = 0x200000,
     u_cursorpos = 0, u_console = replicate 2000 0, u_rand = \<lparr>rand_seed_set = True, rand_seed = 1\<rparr>, world = w\<rparr>"

lemma typed_int_typing: "typing typed_int id (\<lambda>_. 0)"
  by (auto simp: typing_def typed_int_def syscall_numbers neq_Nil_conv split: list.split)

theorem scan_line_edits_witness:
  "\<exists>s'. scan_line typed_int 0x2FF010 2 (small_process [97, 98, 8, 99, 100, 10, 120]) = (Ok 2, s') \<and>
     load_bytes (u_mem s') 0x2FF010 3 = [97, 99, 0] \<and> world s' = [120]"
proof -
  let ?s = "small_process [97, 98, 8, 99, 100, 10, 120] :: byte list user"
  have "mapped_range ?s 0x2FF010 3"
    by (auto simp: mapped_range_def small_process_def rgn_def less_Suc_eq numeral_3_eq_3)
  moreover have "screen_ok ?s" "world ?s = [97, 98, 8, 99, 100] @ 10 # [120]" by (simp_all add: screen_ok_def small_process_def console_dims)
  ultimately show ?thesis
    using scan_line_edits [OF typed_int_typing, of ?s "[97, 98, 8, 99, 100]" "[120]" "0x2FF010" 2] by (auto simp: edit_def numeral_3_eq_3)
qed

text \<open>
  C37: Splitting a string. When the heap has room for it, \<open>split_string\<close> returns a fresh array of pointers: they point to the fields of the
  string between the separators, in order and each terminated by a zero, and the array ends with a null pointer. Nothing below
  the heap is changed, and the heap stays well formed.
\<close>

theorem split_string_fields:
  assumes alloc: "allocating int_n pages" and heap: "heap_ok s" and str: "holds_at s str (bs @ [0])" and nz: "0 \<notin> set bs"
    and room: "fits pages s (8 * (length (split_fields sep bs) + 1) + (length bs + 1))"
    and clear: "unat str + length bs < unat (u_heap_top s) \<or>
      max (unat (u_page_top s)) (((unat (u_heap_top s) + (8 * (length (split_fields sep bs) + 1) + (length bs + 1))) div 4096 + 1) * 4096) \<le> unat str \<and>
      unat str + length bs < 2 ^ 63"
  shows "\<exists>s'. split_string int_n str sep s = (Ok (u_heap_top s), s') \<and>
    points_to_fields (u_mem s') (u_heap_top s) (split_fields sep bs) \<and> heap_ok s' \<and>
    (\<forall>x. unat x < unat (u_heap_top s) \<longrightarrow> u_mem s' x = u_mem s x)"
proof -
  define W where "W = count_list bs sep + 1"
  define n where "n = 8 * (W + 1)"
  define k where "k = length bs + 1"
  define P where "P = unat (u_heap_top s)"
  have fl: "length (split_fields sep bs) = W" by (simp add: length_fields W_def)
  have hp: "u_heap_top s = of_nat P" by (simp add: P_def)
  obtain t where t: "io_bind (u_malloc int_n (of_nat n)) (\<lambda>p. io_bind (u_malloc int_n (of_nat k)) (\<lambda>b. io_return (p, b))) s =
      (Ok (of_nat P, of_nat (P + n)), t)" "heap_ok t" "grown s t" "unat (u_heap_top t) = P + n + k"
      "unat (u_page_top t) \<le> max (unat (u_page_top s)) (((P + (n + k)) div 4096 + 1) * 4096)"
    by (rule u_malloc2_spec [OF alloc heap, of n k]) (use room in \<open>simp_all add: fl n_def k_def P_def hp [symmetric]\<close>)
  define S where "S = unat str"
  have sp: "str = of_nat S" by (simp add: S_def)
  have top: "P + n + k \<le> unat (u_page_top t)" "unat (u_page_top t) \<le> 0x300000" "HEAP_START \<le> P"
    using t(2,4) heap by (simp_all add: heap_ok_def unat_MEMSIZE_VIRTUAL P_def)
  have cl: "S + length bs < P \<or> unat (u_page_top t) \<le> S \<and> S + length bs < 2 ^ 63"
    using clear t(5) by (auto simp: fl n_def k_def P_def S_def)
  have lay: "split_layout P (P + n) S (length bs) W"
    using top cl by (auto simp: split_layout_def n_def k_def)
  have map: "\<forall>x. P \<le> unat x \<and> unat x \<le> P + n + length bs \<longrightarrow> u_mapped t x"
    using t(2) top by (auto simp: heap_ok_def k_def)
  have "holds_at t (of_nat S) bs"
    using holds_at_grown [of s S bs t] str cl t(3) heap by (simp add: sp P_def)
  from split_string_loop_spec [OF lay refl W_def map this] obtain m where
    m: "io_bind (u_store64 (of_nat P) (of_nat (P + n))) (\<lambda>_. io_bind (u_store64 (of_nat P + 8 * of_nat W) 0) (\<lambda>_.
     io_bind (u_store (of_nat (P + n) + of_nat (length bs)) 0) (\<lambda>_. split_loop (length bs) (of_nat S) sep (of_nat P) (of_nat (P + n)) 0 0))) t =
     (Ok (), t\<lparr>u_mem := m\<rparr>)" "points_to_fields m (of_nat P) (split_fields sep bs)"
    "\<forall>x. unat x < P \<or> P + n + length bs < unat x \<longrightarrow> m x = u_mem t x" by blast
  have "length bs < unat MEMSIZE_VIRTUAL" using fits_bound [OF room] by (simp add: unat_MEMSIZE_VIRTUAL)
  then have "count_parts (unat MEMSIZE_VIRTUAL) str sep 1 0 s = (Ok (W, length bs), s)"
    using count_parts_spec [of s str 0 bs "unat MEMSIZE_VIRTUAL" sep 1] str nz by (simp add: W_def)
  then have "split_string int_n str sep s = (Ok (of_nat P), t\<lparr>u_mem := m\<rparr>)"
    by (rule split_string_run [OF _ t(1) m(1)]) (simp_all add: n_def k_def sp)
  moreover have "heap_ok (t\<lparr>u_mem := m\<rparr>)" using t(2) by (simp add: heap_ok_def)
  moreover have "m x = u_mem s x" if "unat x < P" for x
    using m(3) t(3) heap that by (simp add: grown_def heap_ok_def P_def)
  ultimately show ?thesis using m(2) by (intro exI [of _ "t\<lparr>u_mem := m\<rparr>"]) (simp add: P_def)
qed

text \<open>A world with pages to spare, and a process with the string \<open>ls /a\<close> on its stack.\<close>

definition paging_int :: "nat int_n" where
  "paging_int n a b c s =
     (if n = INT_SYS_PAGE_ALLOC
      then (Ok a, s\<lparr>u_mapped := \<lambda>x. u_mapped s x \<or> x \<in> rgn a 4096, world := world s - 1\<rparr>)
      else (Ok 0, s))"

lemma sint_ucast_small: "unat a < 2 ^ 31 \<Longrightarrow> 0 \<le> sint (ucast a :: uint32)" for a :: uint64
proof -
  assume "unat a < 2 ^ 31"
  then have "take_bit 31 (unat a) = unat a" by (simp add: take_bit_nat_eq_self)
  then have "\<not> bit (unat a) 31" by (metis bit_take_bit_iff less_irrefl)
  then show ?thesis by (simp add: sint_uint bit_unsigned_iff bit_ucast_iff)
qed

lemma paging_int_allocating: "allocating paging_int id"
  unfolding allocating_def
proof (intro allI impI, elim conjE)
  fix s :: "nat user" and a :: addr assume "0 < id (world s)" "unat a + 4096 \<le> unat MEMSIZE_VIRTUAL"
  moreover from this have "0 \<le> sint (ucast a :: uint32)" by (intro sint_ucast_small) (simp add: unat_MEMSIZE_VIRTUAL)
  ultimately show "\<exists>rax w m. paging_int INT_SYS_PAGE_ALLOC a 0 0 s = (Ok rax, s\<lparr>u_mem := m, u_mapped := \<lambda>x. u_mapped s x \<or> x \<in> rgn a 4096, world := w\<rparr>) \<and>
       0 \<le> sint (ucast rax :: uint32) \<and> id (world s) \<le> Suc (id w) \<and> (\<forall>x. x \<notin> rgn a 4096 \<longrightarrow> m x = u_mem s x)"
    by (intro exI [of _ a] exI [of _ "world s - 1"] exI [of _ "u_mem s"]) (simp add: paging_int_def)
qed

theorem split_string_fields_witness:
  "\<exists>s'. split_string paging_int 0x2FF010 32 ((small_process 5)\<lparr>u_mem := store_bytes [108, 115, 32, 47, 97, 0] 0x2FF010 (\<lambda>_. 7)\<rparr>) = (Ok 0x200000, s') \<and>
     load_bytes (u_mem s') (load64 (u_mem s') 0x200008) 3 = [47, 97, 0]"
proof -
  let ?s = "(small_process 5)\<lparr>u_mem := store_bytes [108, 115, 32, 47, 97, 0] 0x2FF010 (\<lambda>_. 7)\<rparr> :: nat user"
  have f: "split_fields 32 [108, 115, 32, 47, 97] = [[108, 115], [47, 97]]" by simp
  have "heap_ok ?s" by (auto simp: heap_ok_def small_process_def HEAP_START_def unat_MEMSIZE_VIRTUAL)
  moreover have "holds_at ?s 0x2FF010 ([108, 115, 32, 47, 97] @ [0])"
    by (simp add: holds_at_Cons small_process_def rgn_def) (simp add: holds_at_def)
  moreover have "fits id ?s 30" by (simp add: fits_def small_process_def unat_MEMSIZE_VIRTUAL pages_needed_def)
  ultimately obtain s' where "split_string paging_int 0x2FF010 32 ?s = (Ok 0x200000, s')" "points_to_fields (u_mem s') 0x200000 [[108, 115], [47, 97]]"
    using split_string_fields [OF paging_int_allocating, of ?s "0x2FF010" "[108, 115, 32, 47, 97]" 32, unfolded f]
    by (auto simp: small_process_def)
  moreover from this(2) have "load_bytes (u_mem s') (load64 (u_mem s') 0x200008) 3 = [47, 97, 0]"
    unfolding points_to_fields_def by (elim conjE allE [of _ 1]) (simp add: numeral_3_eq_3)
  ultimately show ?thesis by blast
qed

end
