(* ===== verification/User_Programs.thy ===== *)
theory User_Programs
  imports User_Library_Correct
begin

unbundle bit_operations_syntax

text \<open>
  The programs of \<^verbatim>\<open>processes/\<close>: the shell and the commands that it runs. A program is its \<open>process_main\<close> with the system calls \<open>int_n\<close> and
  with what \<open>execv\<close> leaves in its registers, the number \<open>argc\<close> and the address \<open>argv\<close> of its arguments. The addresses of
  local arrays, which the compiler chooses on the stack, are parameters too. \<open>Err code\<close> is the end by \<open>sys_exit\<close>.
\<close>

section \<open>Common parts\<close>

definition u_argv :: "addr \<Rightarrow> int \<Rightarrow> ('w user, addr) io" where
  "u_argv argv i = u_load64 (argv + 8 * of_int i)"

definition u_strcmp :: "addr \<Rightarrow> string \<Rightarrow> ('w user, int) io" where
  "u_strcmp a lit = io_bind (u_string a) (\<lambda>bs. io_some (strcmp bs (string_literal lit)))"

definition print_string :: "int \<Rightarrow> string \<Rightarrow> addr \<Rightarrow> ('w user, unit) io" where
  "print_string colorid format a = io_bind (u_string a) (\<lambda>bs. app_printf colorid format [VStr bs])"

text \<open>The function \<open>usage\<close> of the commands.\<close>

definition app_usage :: "'w int_n \<Rightarrow> int \<Rightarrow> string \<Rightarrow> ('w user, 'a) io" where
  "app_usage int_n colorid usage_str =
     io_bind (app_printf colorid ''%s'' [VStr (string_literal usage_str)]) (\<lambda>_. usys_exit int_n 1)"

definition u_when :: "bool \<Rightarrow> ('w user, unit) io \<Rightarrow> ('w user, unit) io" where
  "u_when b m = (if b then m else io_return ())"

text \<open>A loop that runs for ever unless the process ends in it.\<close>

partial_function (option) forever :: "('w user, unit) io \<Rightarrow> 'w user \<Rightarrow> ('a outcome \<times> 'w user) option" where
  "forever body s =
     (case body s of
        (Ok _, s) \<Rightarrow> forever body s
      | (Err e, s) \<Rightarrow> Some (Err e, s)
      | (Stuck, s) \<Rightarrow> Some (Stuck, s))"

section \<open>The shell\<close>

definition LINE_LENGTH :: uint32 where "LINE_LENGTH = 80"

abbreviation shell_assert :: "'w int_n \<Rightarrow> int \<Rightarrow> string \<Rightarrow> bool \<Rightarrow> ('w user, unit) io" where
  "shell_assert int_n \<equiv> u_assert int_n ''processes/p-shell.c''"

definition shell_cd :: "'w int_n \<Rightarrow> addr \<Rightarrow> ('w user, int) io" where
  "shell_cd int_n cmd_line =
     io_bind (u_argv cmd_line 1) (\<lambda>path.
     if path = 0 then io_return 0
     else io_bind (usys_chdir int_n path) (\<lambda>r.
          if r < 0 then io_bind (app_print_error (- r)) (\<lambda>_. io_return (- r)) else io_return 0))"

definition shell_pwd :: "'w int_n \<Rightarrow> addr \<Rightarrow> ('w user, int) io" where
  "shell_pwd int_n buffer =
     io_bind (usys_getcwd int_n buffer 256) (\<lambda>r.
     io_bind (shell_assert int_n 31 ''r == 0'' (r = 0)) (\<lambda>_.
     io_bind (print_string 0 ''%s\<newline>'' buffer) (\<lambda>_.
     io_return 0)))"

text \<open>A command that is not built in: the child replaces itself by the program, the parent waits for it.\<close>

definition shell_child :: "'w int_n \<Rightarrow> addr \<Rightarrow> addr \<Rightarrow> ('w user, 'a) io" where
  "shell_child int_n cmd cmd_line =
     io_bind (usys_execv int_n cmd cmd_line) (\<lambda>_.
     io_bind (app_printf 1 ''command not found\<newline>'' []) (\<lambda>_.
     usys_exit int_n 127))"

definition u_load_int :: "addr \<Rightarrow> ('w user, int) io" where
  "u_load_int a = (\<lambda>s. if mapped_range s a 4 then (Ok (sint (load32 (u_mem s) a)), s) else (Stuck, s))"

definition shell_parent :: "'w int_n \<Rightarrow> addr \<Rightarrow> int \<Rightarrow> ('w user, int) io" where
  "shell_parent int_n exit_code pid =
     io_bind (usys_wait int_n pid exit_code) (\<lambda>r.
     io_bind (shell_assert int_n 57 ''r >= 0'' (r \<ge> 0)) (\<lambda>_.
     io_bind (usys_forget int_n pid) (\<lambda>r.
     io_bind (shell_assert int_n 59 ''r == 0'' (r = 0)) (\<lambda>_.
     u_load_int exit_code))))"

definition shell_fork :: "'w int_n \<Rightarrow> addr \<Rightarrow> addr \<Rightarrow> addr \<Rightarrow> ('w user, int) io" where
  "shell_fork int_n exit_code cmd cmd_line =
     io_bind (usys_fork int_n) (\<lambda>pid.
     io_bind (shell_assert int_n 42 ''pid >= 0'' (pid \<ge> 0)) (\<lambda>_.
     if pid = 0 then shell_child int_n cmd cmd_line else shell_parent int_n exit_code pid))"

definition exec_simple_cmd :: "'w int_n \<Rightarrow> addr \<Rightarrow> addr \<Rightarrow> addr \<Rightarrow> ('w user, int) io" where
  "exec_simple_cmd int_n buffer exit_code cmd_line =
     io_bind (u_argv cmd_line 0) (\<lambda>cmd.
     io_bind (shell_assert int_n 10 ''cmd_line[0] != NULL'' (cmd \<noteq> 0)) (\<lambda>_.
     io_bind (u_strcmp cmd ''cd'') (\<lambda>r.
     if r = 0 then shell_cd int_n cmd_line
     else io_bind (u_strcmp cmd ''pwd'') (\<lambda>r.
     if r = 0 then shell_pwd int_n buffer
     else io_bind (u_strcmp cmd ''exit'') (\<lambda>r.
     if r = 0 then usys_exit int_n 0
     else shell_fork int_n exit_code cmd cmd_line)))))"

definition shell_iteration :: "'w int_n \<Rightarrow> addr \<Rightarrow> addr \<Rightarrow> addr \<Rightarrow> ('w user, unit) io" where
  "shell_iteration int_n buffer line exit_code =
     io_bind (usys_getcwd int_n buffer 256) (\<lambda>r.
     io_bind (shell_assert int_n 69 ''r == 0'' (r = 0)) (\<lambda>_.
     io_bind (print_string 3 ''%s'' buffer) (\<lambda>_.
     io_bind (app_printf 0 ''$ '' []) (\<lambda>_.
     io_bind (scan_line int_n line LINE_LENGTH) (\<lambda>_.
     io_bind (split_string int_n line 32) (\<lambda>cmd_line.
     io_bind (u_load line) (\<lambda>c.
     if c \<noteq> 0 then io_bind (exec_simple_cmd int_n buffer exit_code cmd_line) (\<lambda>_. io_return ())
     else io_return ())))))))"

definition shell_main :: "'w int_n \<Rightarrow> addr \<Rightarrow> addr \<Rightarrow> addr \<Rightarrow> ('w user, unit) io" where
  "shell_main int_n buffer line exit_code = u_loop (forever (shell_iteration int_n buffer line exit_code))"

section \<open>Files and directories\<close>

definition cat_usage :: string where
  "cat_usage = ''Usage: cat [FILE]...\<newline>Concatenate FILE(s) to standard output.\<newline>''"

text \<open>\<open>cat_files n\<close> runs the last \<open>n\<close> iterations of the loop over the files.\<close>

primrec cat_files :: "nat \<Rightarrow> 'w int_n \<Rightarrow> addr \<Rightarrow> int \<Rightarrow> uint32 \<Rightarrow> ('w user, unit) io" where
  "cat_files 0 int_n argv i read_count = io_return ()"
| "cat_files (Suc n) int_n argv i read_count =
     io_bind (u_argv argv i) (\<lambda>pathname.
     io_bind (usys_open int_n pathname) (\<lambda>fd.
     io_bind (u_when (fd < 0) (handle_error int_n (- fd))) (\<lambda>_.
     io_bind (u_malloc int_n (scast (read_count + 1))) (\<lambda>buf.
     io_bind (usys_read int_n fd buf (scast read_count)) (\<lambda>r.
     let r = sint (of_int r :: uint32) in
     io_bind (u_when (r < 0) (handle_error int_n (- r))) (\<lambda>_.
     io_bind (u_store (buf + of_int r) 0) (\<lambda>_.
     io_bind (print_string 4 ''%s'' buf) (\<lambda>_.
     cat_files n int_n argv (i + 1) read_count))))))))"

definition cat_main :: "'w int_n \<Rightarrow> int \<Rightarrow> addr \<Rightarrow> ('w user, unit) io" where
  "cat_main int_n argc argv =
     io_bind (u_when (argc \<le> 1) (app_usage int_n 0 cat_usage)) (\<lambda>_.
     io_bind (if argc = 2 then io_return (1024, argc + 1)
              else io_bind (u_argv argv (argc - 1)) (\<lambda>a.
                   io_bind (u_string a) (\<lambda>bs.
                   io_bind (io_some (string_to_char bs 0)) (\<lambda>(r, read_count).
                   io_bind (u_when (r < 0) (app_usage int_n 0 cat_usage)) (\<lambda>_.
                   io_bind (u_when (read_count = 0) (app_usage int_n 0 cat_usage)) (\<lambda>_.
                   io_return (read_count, argc))))))) (\<lambda>(read_count, argc).
     io_bind (cat_files (nat (argc - 2)) int_n argv 1 read_count) (\<lambda>_.
     usys_exit int_n 0)))"

text \<open>The string literal \<open>.\<close> of \<open>ls\<close> is at the address \<open>dot_lit\<close>.\<close>

definition ls_main :: "'w int_n \<Rightarrow> addr \<Rightarrow> addr \<Rightarrow> int \<Rightarrow> addr \<Rightarrow> ('w user, unit) io" where
  "ls_main int_n dot_lit buffer argc argv =
     io_bind (if argc = 1 then io_return dot_lit else u_argv argv 1) (\<lambda>path.
     io_bind (usys_listdir int_n path buffer) (\<lambda>r.
     io_bind (u_when (r < 0) (handle_error int_n (- r))) (\<lambda>_.
     io_bind (print_string 0 ''%s'' buffer) (\<lambda>_.
     usys_exit int_n 0))))"

definition mkdir_main :: "'w int_n \<Rightarrow> int \<Rightarrow> addr \<Rightarrow> ('w user, unit) io" where
  "mkdir_main int_n argc argv =
     io_bind (u_when (argc \<le> 1) (app_usage int_n 0 ''Usage: mkdir [FILE]\<newline>Make directory.\<newline>'')) (\<lambda>_.
     io_bind (u_argv argv 1) (\<lambda>path.
     io_bind (usys_mkdir int_n path) (\<lambda>r.
     io_bind (u_when (r < 0) (handle_error int_n (- r))) (\<lambda>_.
     usys_exit int_n 0))))"

definition touch_main :: "'w int_n \<Rightarrow> int \<Rightarrow> addr \<Rightarrow> ('w user, unit) io" where
  "touch_main int_n argc argv =
     io_bind (u_when (argc \<le> 1) (app_usage int_n 0 ''Usage: touch [FILE]\<newline>Touch a file.\<newline>'')) (\<lambda>_.
     io_bind (u_argv argv 1) (\<lambda>path.
     io_bind (usys_touch int_n path) (\<lambda>r.
     io_bind (u_when (r < 0) (handle_error int_n (- r))) (\<lambda>_.
     usys_exit int_n 0))))"

definition rm_main :: "'w int_n \<Rightarrow> int \<Rightarrow> addr \<Rightarrow> ('w user, unit) io" where
  "rm_main int_n argc argv =
     io_bind (u_when (argc \<le> 1) (app_usage int_n 1 ''Usage: rm [FILE]\<newline>Remove a file.\<newline>'')) (\<lambda>_.
     io_bind (u_argv argv 1) (\<lambda>path.
     io_bind (usys_remove int_n path) (\<lambda>r.
     io_bind (u_assert int_n ''processes/p-rm.c'' 22 ''r == 0'' (r = 0)) (\<lambda>_.
     usys_exit int_n 0))))"

definition TEXT_SIZE :: uint64 where "TEXT_SIZE = 64"

definition plane_main :: "'w int_n \<Rightarrow> addr \<Rightarrow> int \<Rightarrow> addr \<Rightarrow> ('w user, unit) io" where
  "plane_main int_n buffer argc argv =
     io_bind (u_when (argc \<le> 1) (app_usage int_n 1 ''Usage: plane [FILE]\<newline>Plane a file.\<newline>'')) (\<lambda>_.
     io_bind (scan_line int_n buffer (ucast TEXT_SIZE - 2)) (\<lambda>len.
     io_bind (u_store (buffer + ucast len) 10) (\<lambda>_.
     io_bind (u_store (buffer + ucast (len + 1)) 0) (\<lambda>_.
     io_bind (u_argv argv 1) (\<lambda>path.
     io_bind (usys_open int_n path) (\<lambda>fd.
     io_bind (u_when (fd < 0) (handle_error int_n (- fd))) (\<lambda>_.
     io_bind (usys_write int_n fd buffer TEXT_SIZE) (\<lambda>r.
     io_bind (u_when (r < 0) (handle_error int_n (sint (of_int (- r) :: uint32)))) (\<lambda>_.
     usys_exit int_n 0)))))))))"

section \<open>Other programs\<close>

text \<open>\<open>print_args n\<close>: the last \<open>n\<close> iterations of the loop over the arguments.\<close>

primrec print_args :: "nat \<Rightarrow> addr \<Rightarrow> int \<Rightarrow> ('w user, unit) io" where
  "print_args 0 argv i = io_return ()"
| "print_args (Suc n) argv i =
     io_bind (u_argv argv i) (\<lambda>a. io_bind (print_string 0 ''%s '' a) (\<lambda>_. print_args n argv (i + 1)))"

definition echo_main :: "'w int_n \<Rightarrow> int \<Rightarrow> addr \<Rightarrow> ('w user, unit) io" where
  "echo_main int_n argc argv =
     io_bind (print_args (nat (argc - 1)) argv 1) (\<lambda>_.
     io_bind (u_assert int_n ''processes/p-echo.c'' 9 ''0'' False) (\<lambda>_.
     io_bind (app_printf 0 ''\<newline>'' []) (\<lambda>_.
     usys_exit int_n 0)))"

definition rand_main :: "'w int_n \<Rightarrow> int \<Rightarrow> addr \<Rightarrow> ('w user, unit) io" where
  "rand_main int_n argc argv =
     io_bind (print_args (nat (argc - 1)) argv 1) (\<lambda>_.
     io_bind (app_printf 0 ''\<newline>'' []) (\<lambda>_.
     io_bind (usys_hello int_n) (\<lambda>_.
     usys_exit int_n 0)))"

definition entropy_iteration :: "'w int_n \<Rightarrow> int \<Rightarrow> ('w user, unit) io" where
  "entropy_iteration int_n i =
     io_bind (usys_getrandom int_n) (\<lambda>v.
     io_bind (app_printf 0 ''%d: %u\<newline>'' [VInt (of_int i), VInt v]) (\<lambda>_.
     u_when (i mod 50 = 49) (usys_yield int_n)))"

partial_function (option) entropy_loop :: "'w int_n \<Rightarrow> int \<Rightarrow> 'w user \<Rightarrow> (unit outcome \<times> 'w user) option" where
  "entropy_loop int_n i s =
     (case entropy_iteration int_n i s of
        (Ok _, s) \<Rightarrow> entropy_loop int_n (i + 1) s
      | (Err e, s) \<Rightarrow> Some (Err e, s)
      | (Stuck, s) \<Rightarrow> Some (Stuck, s))"

definition entropy_main :: "'w int_n \<Rightarrow> ('w user, unit) io" where
  "entropy_main int_n = u_loop (entropy_loop int_n 0)"

text \<open>The code behind the endless loop of \<^verbatim>\<open>p-fork.c\<close> is never reached.\<close>

definition fork_main :: "'w int_n \<Rightarrow> ('w user, unit) io" where
  "fork_main int_n =
     io_bind (usys_fork int_n) (\<lambda>p1.
     io_bind (u_assert int_n ''processes/p-fork.c'' 14 ''p1 >= 0'' (p1 \<ge> 0)) (\<lambda>_.
     io_bind (usys_fork int_n) (\<lambda>p2.
     io_bind (u_assert int_n ''processes/p-fork.c'' 16 ''p2 >= 0'' (p2 \<ge> 0)) (\<lambda>_.
     io_bind (usys_getpid int_n) (\<lambda>pid.
     io_bind (if pid = 1
              then u_assert int_n ''processes/p-fork.c'' 21 ''p1 != 0 && p2 != 0 && p1 != p2'' (p1 \<noteq> 0 \<and> p2 \<noteq> 0 \<and> p1 \<noteq> p2)
              else u_assert int_n ''processes/p-fork.c'' 24 ''p1 == 0 || p2 == 0'' (p1 = 0 \<or> p2 = 0)) (\<lambda>_.
     u_loop (forever (usys_yield int_n))))))))"

definition ALLOC_SLOWDOWN :: int where "ALLOC_SLOWDOWN = 100"

definition u_rand_next :: "('w user, int) io" where
  "u_rand_next = (\<lambda>s. case rand 0 (u_rand s) of (v, st) \<Rightarrow> (Ok (sint v), s\<lparr>u_rand := st\<rparr>))"

definition console_store :: "nat \<Rightarrow> uint16 \<Rightarrow> ('w user, unit) io" where
  "console_store i v = u_put (\<lambda>s. s\<lparr>u_console := (u_console s)[i := v]\<rparr>)"

text \<open>One iteration of the allocation loop: \<open>None\<close> leaves it, otherwise the new \<open>heap_top\<close>.\<close>

definition allocator_step :: "'w int_n \<Rightarrow> int \<Rightarrow> addr \<Rightarrow> addr \<Rightarrow> ('w user, addr option) io" where
  "allocator_step int_n p stack_bottom heap_top =
     io_bind u_rand_next (\<lambda>v.
     io_bind (if v mod ALLOC_SLOWDOWN < p
              then io_bind (if heap_top = stack_bottom then io_return (- 1) else usys_page_alloc int_n heap_top) (\<lambda>r.
                   if r < 0 then io_return None
                   else io_bind (u_store heap_top (of_int p)) (\<lambda>_.
                        io_bind (console_store (CPOS 24 79) (48 + of_int p)) (\<lambda>_.
                        io_return (Some (heap_top + of_nat PAGESIZE)))))
              else io_return (Some heap_top)) (\<lambda>r.
     case r of
       None \<Rightarrow> io_return None
     | Some h \<Rightarrow> io_bind (usys_yield int_n) (\<lambda>_. io_return (Some h))))"

partial_function (option) allocator_loop ::
  "'w int_n \<Rightarrow> int \<Rightarrow> addr \<Rightarrow> addr \<Rightarrow> 'w user \<Rightarrow> (unit outcome \<times> 'w user) option" where
  "allocator_loop int_n p stack_bottom heap_top s =
     (case allocator_step int_n p stack_bottom heap_top s of
        (Ok None, s) \<Rightarrow> Some (Ok (), s)
      | (Ok (Some h), s) \<Rightarrow> allocator_loop int_n p stack_bottom h s
      | (Err e, s) \<Rightarrow> Some (Err e, s)
      | (Stuck, s) \<Rightarrow> Some (Stuck, s))"

definition ROUNDUP :: "uint64 \<Rightarrow> uint64 \<Rightarrow> uint64" where
  "ROUNDUP a n = ROUNDDOWN (a + n - 1) n"

definition allocator_main :: "'w int_n \<Rightarrow> addr \<Rightarrow> addr \<Rightarrow> ('w user, unit) io" where
  "allocator_main int_n end_symbol rsp =
     io_bind (usys_getpid int_n) (\<lambda>p.
     io_bind (u_put (\<lambda>s. s\<lparr>u_rand := srand (of_int p) (u_rand s)\<rparr>)) (\<lambda>_.
     io_bind (u_loop (allocator_loop int_n p (ROUNDDOWN (rsp - 1) (of_nat PAGESIZE)) (ROUNDUP end_symbol (of_nat PAGESIZE)))) (\<lambda>_.
     u_loop (forever (usys_yield int_n)))))"

end
