(* ===== verification/User_Programs_Correct.thy ===== *)
theory User_Programs_Correct
  imports User_Programs
begin

unbundle bit_operations_syntax

text \<open>
  What a command does, given a kernel that keeps its promises. The promises are stated as contracts of the instruction \<open>int n\<close>, one
  for every system call that the program makes; the program is \<open>cat\<close>, which opens a file, allocates a buffer, reads and prints.
\<close>

section \<open>Printing strings\<close>

lemma parse_flags_s: "parse_flags 0 (115 # fmt) = (0, 115 # fmt)"
  by (simp add: flag_chars_def)

lemma convert_string:
  assumes "0 \<in> set bs" and "length bs < 2 ^ 31"
  shows "convert_spec color (115 # fmt) [VStr bs] = Some (cstr bs, color, fmt, [])"
proof -
  have l: "length (cstr bs) \<le> length bs" unfolding cstr_def by (rule length_takeWhile_le)
  have "sint (of_nat (length (cstr bs)) :: uint32) = int (length (cstr bs))"
    using l assms(2) by (simp add: sint_uint uint_nat unat_of_nat signed_take_bit_int_eq_self_iff)
  moreover have "sint (- 1 - of_nat (length (cstr bs)) :: uint32) = - 1 - int (length (cstr bs))"
  proof -
    have "(- 1 - of_nat (length (cstr bs)) :: uint32) = of_int (- 1 - int (length (cstr bs)))" by simp
    also have "sint \<dots> = - 1 - int (length (cstr bs))"
      using l assms(2) unfolding sint_sbintrunc' by (simp add: signed_take_bit_int_eq_self_iff)
    finally show ?thesis .
  qed
  moreover have "take (length (cstr bs)) bs = cstr bs" unfolding cstr_def by (metis takeWhile_eq_take)
  ultimately show ?thesis
    using strlen_cstr [OF assms(1)]
    by (simp add: convert_spec_def parse_flags_s parse_width_def parse_precision_def convert_def field_def
        layout_def new_color_def has_def flag_defs spaces_def Let_def del: parse_flags.simps)
qed

lemma formatted_string:
  assumes "0 \<in> set bs" and "length bs < 2 ^ 31"
  shows "formatted color (string_literal ''%s'') [VStr bs] = Some (map (\<lambda>c. (c, color)) (cstr bs))"
  using convert_string [OF assms, of color "[]"]
  by (simp add: formatted_def printer_vprintf_def string_literal_def emit_record)

text \<open>A format without conversions before its first one.\<close>

lemma printer_loop_plain:
  "37 \<notin> set fmt \<Longrightarrow> printer_loop record_putc out color (fmt @ rest) val =
     printer_loop record_putc (out @ map (\<lambda>c. (c, color)) fmt) color rest val"
  by (induction fmt arbitrary: out) simp_all

lemma formatted_error:
  assumes "0 \<in> set bs" and "length bs < 2 ^ 31"
  shows "\<exists>out. formatted color (string_literal ''Error: %s\<newline>'') [VStr bs] = Some out"
proof -
  have f: "string_literal ''Error: %s\<newline>'' = (map of_char ''Error: '' @ 37 # 115 # [10]) @ [0]" by (simp add: string_literal_def)
  have nz: "0 \<notin> set (map of_char ''Error: '' @ 37 # 115 # [10] :: byte list)" by simp
  have "37 \<notin> set (map of_char ''Error: '' :: byte list)" by simp
  note plain = printer_loop_plain [OF this]
  show ?thesis
    using convert_string [OF assms, of color "[10]"] cstr_append_nul [OF nz, of "[]"]
    unfolding formatted_def printer_vprintf_def f by (simp add: plain emit_record record_putc_def del: list.map append.simps)
qed

section \<open>The kernel as a process sees it\<close>

text \<open>
  What \<open>cat\<close> relies on. The files of the system are \<open>files\<close>; \<open>opened w fd\<close> is the contents of the file behind a descriptor in
  the world \<open>w\<close>, and \<open>pages w\<close> pages are free there. Opening a file takes at most one page of the kernel; a file that does
  not exist is reported as \<open>-ENOENT\<close>. Reading fills the buffer with the beginning of the file.
\<close>

definition page_service :: "'w int_n \<Rightarrow> ('w \<Rightarrow> nat) \<Rightarrow> ('w \<Rightarrow> int \<Rightarrow> byte list option) \<Rightarrow> bool" where
  "page_service int_n pages opened \<longleftrightarrow>
     (\<forall>s a. 0 < pages (world s) \<and> unat a mod 4096 = 0 \<and> unat a + 4096 \<le> unat MEMSIZE_VIRTUAL \<longrightarrow>
       (\<exists>rax w m. int_n INT_SYS_PAGE_ALLOC a 0 0 s = (Ok rax, s\<lparr>u_mem := m, u_mapped := \<lambda>x. u_mapped s x \<or> x \<in> rgn a 4096, world := w\<rparr>) \<and>
         0 \<le> sint (ucast rax :: uint32) \<and> pages (world s) \<le> Suc (pages w) \<and> opened w = opened (world s) \<and>
         (\<forall>x. x \<notin> rgn a 4096 \<longrightarrow> m x = u_mem s x)))"

definition open_service ::
  "'w int_n \<Rightarrow> ('w \<Rightarrow> nat) \<Rightarrow> ('w \<Rightarrow> int \<Rightarrow> byte list option) \<Rightarrow> (byte list \<Rightarrow> byte list option) \<Rightarrow> bool" where
  "open_service int_n pages opened files \<longleftrightarrow>
     (\<forall>s a path. holds_at s a (path @ [0]) \<and> 0 \<notin> set path \<longrightarrow>
       (\<exists>rax w. int_n INT_SYS_OPEN a 0 0 s = (Ok rax, s\<lparr>world := w\<rparr>) \<and> pages (world s) \<le> Suc (pages w) \<and>
         (case files path of
            None \<Rightarrow> sint (ucast rax :: uint32) = - ENOENT
          | Some bs \<Rightarrow> 0 \<le> sint (ucast rax :: uint32) \<and> opened w (sint (ucast rax :: uint32)) = Some bs)))"

definition read_service :: "'w int_n \<Rightarrow> ('w \<Rightarrow> int \<Rightarrow> byte list option) \<Rightarrow> bool" where
  "read_service int_n opened \<longleftrightarrow>
     (\<forall>s fd buf n bs. opened (world s) fd = Some bs \<and> mapped_range s buf (unat n) \<longrightarrow>
       (\<exists>w. int_n INT_SYS_READ (of_int fd) buf n s =
         (Ok (of_nat (length (take (unat n) bs))), s\<lparr>u_mem := store_bytes (take (unat n) bs) buf (u_mem s), world := w\<rparr>)))"

definition exit_service :: "'w int_n \<Rightarrow> bool" where
  "exit_service int_n \<longleftrightarrow> (\<forall>s e. \<exists>rax w. int_n INT_SYS_EXIT e 0 0 s = (Ok rax, s\<lparr>world := w\<rparr>))"

lemma page_service_allocating:
  assumes "page_service int_n pages opened"
  shows "allocating int_n (\<lambda>w. if opened w fd = b then pages w else 0)"
  unfolding allocating_def
proof (intro allI impI)
  fix s :: "'a user" and a :: addr
  assume "0 < (if opened (world s) fd = b then pages (world s) else 0) \<and> unat a mod 4096 = 0 \<and> unat a + 4096 \<le> unat MEMSIZE_VIRTUAL"
  then have h: "0 < pages (world s) \<and> unat a mod 4096 = 0 \<and> unat a + 4096 \<le> unat MEMSIZE_VIRTUAL" "opened (world s) fd = b"
    by (simp_all split: if_splits)
  show "\<exists>rax w m. int_n INT_SYS_PAGE_ALLOC a 0 0 s = (Ok rax, s\<lparr>u_mem := m, u_mapped := \<lambda>x. u_mapped s x \<or> x \<in> rgn a 4096, world := w\<rparr>) \<and>
       0 \<le> sint (ucast rax :: uint32) \<and>
       (if opened (world s) fd = b then pages (world s) else 0) \<le> Suc (if opened w fd = b then pages w else 0) \<and>
       (\<forall>x. x \<notin> rgn a 4096 \<longrightarrow> m x = u_mem s x)"
  proof -
    obtain rax w m where r: "int_n INT_SYS_PAGE_ALLOC a 0 0 s =
          (Ok rax, s\<lparr>u_mem := m, u_mapped := \<lambda>x. u_mapped s x \<or> x \<in> rgn a 4096, world := w\<rparr>)"
        "0 \<le> sint (ucast rax :: uint32)" "pages (world s) \<le> Suc (pages w)" "opened w = opened (world s)"
        "\<forall>x. x \<notin> rgn a 4096 \<longrightarrow> m x = u_mem s x"
      using assms [unfolded page_service_def, THEN spec [of _ s], THEN spec [of _ a], THEN mp, OF h(1)] by blast
    show ?thesis by (rule exI [of _ rax], rule exI [of _ w], rule exI [of _ m]) (use r h(2) in simp)
  qed
qed

section \<open>Strings in memory\<close>

lemma string_bytes_holds:
  assumes "holds_at s a xs" and "0 \<in> set xs" and "length xs \<le> n"
  shows "string_bytes n s a = cstr xs @ [0]"
  using assms
proof (induction xs arbitrary: a n)
  case (Cons x xs)
  obtain k where "n = Suc k" using Cons.prems(3) by (cases n) auto
  then show ?case using Cons by (auto simp: holds_at_Cons)
qed simp

lemma print_string_holds:
  assumes "screen_ok s" and "holds_at s a xs" and "0 \<in> set xs" and "length xs \<le> unat MEMSIZE_VIRTUAL"
  obtains cur cells where "print_string i ''%s'' a s = (Ok (), s\<lparr>u_cursorpos := int cur, u_console := cells\<rparr>)"
    and "screen_ok (s\<lparr>u_cursorpos := int cur, u_console := cells\<rparr>)"
    and "putc_all console_putc (map (\<lambda>c. (c, app_color i)) (cstr xs)) (nat (u_cursorpos s), u_console s) = Some (cur, cells)"
proof -
  have u: "u_string a s = (Ok (cstr xs @ [0]), s)"
    using string_bytes_holds [OF assms(2-4)] by (simp add: u_string_def u_get_def)
  have l: "length (cstr xs @ [0]) < 2 ^ 31"
    using assms(3,4) length_takeWhile_le [of "\<lambda>c. c \<noteq> 0" xs] by (simp add: cstr_def unat_MEMSIZE_VIRTUAL)
  have c: "cstr (cstr xs @ [0]) = cstr xs" using cstr_append_nul [OF cstr_no_nul] by simp
  have f: "formatted (app_color i) (string_literal ''%s'') [VStr (cstr xs @ [0])] = Some (map (\<lambda>c. (c, app_color i)) (cstr xs))"
    using formatted_string [OF _ l, of "app_color i"] by (simp add: c)
  obtain cur cells where p: "app_printf i ''%s'' [VStr (cstr xs @ [0])] s = (Ok (), s\<lparr>u_cursorpos := int cur, u_console := cells\<rparr>)"
      "screen_ok (s\<lparr>u_cursorpos := int cur, u_console := cells\<rparr>)"
      "putc_all console_putc (map (\<lambda>c. (c, app_color i)) (cstr xs)) (nat (u_cursorpos s), u_console s) = Some (cur, cells)"
    by (rule app_printf_safe [OF assms(1) f])
  with p u show ?thesis by (intro that) (simp_all add: print_string_def io_bind_def)
qed

section \<open>Cat\<close>

lemma usys_exit_ends: "exit_service int_n \<Longrightarrow> \<exists>w. usys_exit int_n e s = (Err e, s\<lparr>world := w\<rparr>)"
  unfolding exit_service_def usys_exit_def io_bind_def by (drule spec [of _ s], drule spec [of _ "of_int e"]) (auto simp: io_fail_def)

lemma handle_error_exits:
  assumes "exit_service int_n" and "screen_ok s"
  shows "\<exists>s'. handle_error int_n ENOENT s = (Err ENOENT, s')"
proof -
  obtain out where "formatted (app_color 1) (string_literal ''Error: %s\<newline>'') [VStr (string_literal ''No such file or directory'')] = Some out"
    using formatted_error [of "string_literal ''No such file or directory''" "app_color 1"] by (auto simp: string_literal_def)
  from assms(2) this obtain cur cells where
    "app_printf 1 ''Error: %s\<newline>'' [VStr (string_literal ''No such file or directory'')] s = (Ok (), s\<lparr>u_cursorpos := int cur, u_console := cells\<rparr>)"
    by (rule app_printf_safe)
  then have "app_print_error ENOENT s = (Ok (), s\<lparr>u_cursorpos := int cur, u_console := cells\<rparr>)" by (simp add: app_print_error_def)
  then show ?thesis
    using usys_exit_ends [OF assms(1), of ENOENT "s\<lparr>u_cursorpos := int cur, u_console := cells\<rparr>"] by (auto simp: handle_error_def io_bind_def)
qed

text \<open>The file is read into a fresh block, with a zero byte after it.\<close>

lemma cat_read:
  assumes ps: "page_service int_n pages opened" and rs: "read_service int_n opened" and sc: "screen_ok s" and hp: "heap_ok s"
    and op: "opened (world s) fd = Some bs"
    and room: "((unat (u_heap_top s) + 1025) div 4096 + 1) * 4096 \<le> unat MEMSIZE_VIRTUAL" "pages_needed s 1025 < pages (world s)"
  obtains s1 s2 s' where "u_malloc int_n 1025 s = (Ok (u_heap_top s), s1)"
    and "usys_read int_n fd (u_heap_top s) 1024 s1 = (Ok (int (length (take 1024 bs))), s2)"
    and "u_store (u_heap_top s + of_int (int (length (take 1024 bs)))) 0 s2 = (Ok (), s')"
    and "holds_at s' (u_heap_top s) (take 1024 bs @ [0])" and "u_cursorpos s' = u_cursorpos s" and "u_console s' = u_console s"
proof -
  let ?h = "u_heap_top s" and ?k = "length (take 1024 bs)" and ?pages = "\<lambda>w. if opened w fd = Some bs then pages w else 0"
  have "fits ?pages s 1025" using room op by (simp add: fits_def)
  then obtain s1 where m: "u_malloc int_n 1025 s = (Ok ?h, s1)" "heap_ok s1" "grown s s1"
      "unat (u_heap_top s1) = unat ?h + 1025" "?pages (world s) - pages_needed s 1025 \<le> ?pages (world s1)"
    using u_malloc_spec [OF page_service_allocating [OF ps, of fd "Some bs"] hp, of 1025 1025] by auto
  have op1: "opened (world s1) fd = Some bs" using m(5) room(2) op by (auto split: if_splits)
  have map: "u_mapped s1 x" if "x \<in> rgn ?h 1025" for x
  proof -
    have "unat ?h + 1025 \<le> 0x300000" using m(2,4) by (simp add: heap_ok_def unat_MEMSIZE_VIRTUAL)
    then have "unat ?h \<le> unat x" "unat x < unat ?h + 1025" using that rgn_nat [of ?h 1025 x] by simp_all
    then show ?thesis using m(2,4) hp by (simp add: heap_ok_def)
  qed
  have "x \<in> rgn ?h 1025" if "x \<in> rgn ?h 1024" for x using that by (simp add: rgn_def)
  then have "mapped_range s1 ?h (unat (1024 :: uint64))" using map by (intro mapped_rangeI) simp_all
  then obtain w where r: "int_n INT_SYS_READ (of_int fd) ?h 1024 s1 =
      (Ok (of_nat ?k), s1\<lparr>u_mem := store_bytes (take 1024 bs) ?h (u_mem s1), world := w\<rparr>)"
    using rs [unfolded read_service_def, rule_format, of s1 fd bs ?h 1024] op1 by auto
  let ?s2 = "s1\<lparr>u_mem := store_bytes (take 1024 bs) ?h (u_mem s1), world := w\<rparr>"
  have k: "?k \<le> 1024" by simp
  have off: "?h + of_nat j \<in> rgn ?h 1025" if "j < 1025" for j :: nat using that by (simp add: in_rgn_offset)
  have "sint (of_nat ?k :: uint64) = int ?k" using k by (simp add: sint_uint uint_nat unat_of_nat signed_take_bit_int_eq_self_iff)
  then have rd: "usys_read int_n fd ?h 1024 s1 = (Ok (int ?k), ?s2)"
    using r by (simp add: usys_read_def ssize_result_def io_bind_def)
  have st: "u_store (?h + of_int (int ?k)) 0 ?s2 = (Ok (), ?s2\<lparr>u_mem := (u_mem ?s2)(?h + of_nat ?k := 0)\<rparr>)"
    using map [OF off [of ?k]] k by (simp add: u_store_def)
  have "load_bytes (u_mem ?s2) ?h ?k = take 1024 bs" using load_store_bytes [of "take 1024 bs" ?h "u_mem s1"] by simp
  then have ld: "u_mem ?s2 (?h + of_nat j) = take 1024 bs ! j" if "j < ?k" for j
    using nth_load_bytes [OF that, of "u_mem ?s2" ?h] by simp
  have ne: "?h + of_nat j \<noteq> ?h + of_nat ?k" if "j < ?k" for j
  proof -
    have "(of_nat j :: addr) \<noteq> of_nat ?k" using that k by (auto simp: word_unat_eq_iff unat_of_nat min_def)
    then show ?thesis by simp
  qed
  have "holds_at (?s2\<lparr>u_mem := (u_mem ?s2)(?h + of_nat ?k := 0)\<rparr>) ?h (take 1024 bs @ [0])"
    unfolding holds_at_def using map [OF off] k ld ne by (auto simp: nth_append less_Suc_eq)
  then show ?thesis
    using m(3) by (intro that [OF m(1) rd st]) (simp_all add: grown_def)
qed

section \<open>Properties\<close>


text \<open>A kernel with one file \<open>a\<close> with the contents \<open>hi\<close>, whose descriptor is 3.\<close>

definition file_int :: "(nat \<times> byte list option) int_n" where
  "file_int n a b c s =
     (case world s of (pages, file) \<Rightarrow>
        if n = INT_SYS_PAGE_ALLOC
        then (Ok a, s\<lparr>u_mapped := \<lambda>x. u_mapped s x \<or> x \<in> rgn a 4096, world := (pages - 1, file)\<rparr>)
        else if n = INT_SYS_OPEN
        then if u_mem s a = 97 \<and> u_mem s (a + 1) = 0 then (Ok 3, s\<lparr>world := (pages, Some [104, 105])\<rparr>) else (Ok (- 2), s)
        else if n = INT_SYS_READ \<and> a = 3 \<and> file \<noteq> None
        then (Ok (of_nat (length (take (unat c) (the file)))), s\<lparr>u_mem := store_bytes (take (unat c) (the file)) b (u_mem s)\<rparr>)
        else (Ok 0, s))"

definition file_opened :: "nat \<times> byte list option \<Rightarrow> int \<Rightarrow> byte list option" where
  "file_opened w fd = (if fd = 3 then snd w else None)"

lemma file_int_services:
  shows "page_service file_int fst file_opened" and "open_service file_int fst file_opened [[97] \<mapsto> [104, 105]]"
    and "read_service file_int file_opened" and "exit_service file_int"
proof -
  show "page_service file_int fst file_opened"
    unfolding page_service_def
  proof (intro allI impI, elim conjE)
    fix s :: "(nat \<times> byte list option) user" and a :: addr
    assume "0 < fst (world s)" "unat a + 4096 \<le> unat MEMSIZE_VIRTUAL"
    moreover from this have "0 \<le> sint (ucast a :: uint32)" by (intro sint_ucast_small) (simp add: unat_MEMSIZE_VIRTUAL)
    ultimately show "\<exists>rax w m. file_int INT_SYS_PAGE_ALLOC a 0 0 s =
        (Ok rax, s\<lparr>u_mem := m, u_mapped := \<lambda>x. u_mapped s x \<or> x \<in> rgn a 4096, world := w\<rparr>) \<and>
       0 \<le> sint (ucast rax :: uint32) \<and> fst (world s) \<le> Suc (fst w) \<and> file_opened w = file_opened (world s) \<and>
       (\<forall>x. x \<notin> rgn a 4096 \<longrightarrow> m x = u_mem s x)"
      by (intro exI [of _ a] exI [of _ "(fst (world s) - 1, snd (world s))"] exI [of _ "u_mem s"])
        (auto simp: file_int_def file_opened_def fun_eq_iff split: prod.split)
  qed
  have neg: "sint (ucast (- 2 :: uint64) :: uint32) = - 2" and three: "sint (ucast (3 :: uint64) :: uint32) = 3" by code_simp+
  have a: "u_mem s a = 97 \<and> u_mem s (a + 1) = 0 \<longleftrightarrow> path = [97]" if "holds_at s a (path @ [0])" "0 \<notin> set path"
    for s :: "(nat \<times> byte list option) user" and a path
    using that by (cases path; cases "tl path") (auto simp: holds_at_Cons)
  show "open_service file_int fst file_opened [[97] \<mapsto> [104, 105]]"
    unfolding open_service_def
  proof (intro allI impI, elim conjE)
    fix s :: "(nat \<times> byte list option) user" and b path assume h: "holds_at s b (path @ [0])" "0 \<notin> set path"
    show "\<exists>rax w. file_int INT_SYS_OPEN b 0 0 s = (Ok rax, s\<lparr>world := w\<rparr>) \<and> fst (world s) \<le> Suc (fst w) \<and>
       (case [[97] \<mapsto> [104, 105]] path of None \<Rightarrow> sint (ucast rax :: uint32) = - ENOENT
        | Some bs \<Rightarrow> 0 \<le> sint (ucast rax :: uint32) \<and> file_opened w (sint (ucast rax :: uint32)) = Some bs)"
    proof (cases "path = [97]")
      case True
      then show ?thesis using a [OF h]
        by (intro exI [of _ 3] exI [of _ "(fst (world s), Some [104, 105])"])
          (simp add: file_int_def three file_opened_def syscall_numbers split: prod.split)
    next
      case False
      then show ?thesis using a [OF h]
        by (intro exI [of _ "- 2"] exI [of _ "world s"])
          (auto simp: file_int_def neg ENOENT_def syscall_numbers split: prod.split)
    qed
  qed
  show "read_service file_int file_opened"
    unfolding read_service_def
  proof (intro allI impI, elim conjE)
    fix s :: "(nat \<times> byte list option) user" and fd buf n bs assume "file_opened (world s) fd = Some bs"
    then show "\<exists>w. file_int INT_SYS_READ (of_int fd) buf n s =
      (Ok (of_nat (length (take (unat n) bs))), s\<lparr>u_mem := store_bytes (take (unat n) bs) buf (u_mem s), world := w\<rparr>)"
      by (intro exI [of _ "world s"]) (auto simp: file_int_def file_opened_def syscall_numbers split: if_splits prod.split)
  qed
  show "exit_service file_int"
    unfolding exit_service_def
  proof (intro allI)
    fix s :: "(nat \<times> byte list option) user" and e
    show "\<exists>rax w. file_int INT_SYS_EXIT e 0 0 s = (Ok rax, s\<lparr>world := w\<rparr>)"
      by (intro exI [of _ 0] exI [of _ "world s"]) (auto simp: file_int_def syscall_numbers split: prod.split)
  qed
qed


end
