(* ===== verification/Spec2Isabelle.thy ===== *)
theory Spec2Isabelle
  imports AES_Correct Filesystem_Removal Exec_Arguments Kernel_Heap_Correct Boot_Disk User_Programs_Correct
begin

text \<open>
  RojocOS is a small teaching operating system for the x86-64: a boot loader, a kernel with page tables, processes,
  system calls and an encrypted file system on an ATA disk, a library for user processes and a few programs.
  This development models its C code and proves what its parts promise. It follows the code from the bottom up;
  every theory opens with a paragraph of its own.

  \<^bold>\<open>Conventions.\<close> C integers are machine words of their width (\<open>Rojoc_Prelude\<close>), so arithmetic wraps where the code's does;
  \<open>int\<close> is a word read by \<open>sint\<close>, or \<open>int\<close> where a range argument makes the two agree. Memory is a function
  from 64-bit addresses to bytes; where aliasing matters (block functions, page tables, heap, free lists, file
  descriptors, user buffers) structures are read from it and written to it at the offsets of their C layout. Code with
  effects is written in the monad of \<open>Kernel_IO\<close>: \<open>Ok\<close> is a return value, \<open>Err\<close> a negative error code (in a
  program: the end by \<open>sys_exit\<close>), \<open>Stuck\<close> a call that does not return, because of \<open>panic\<close>, a failed
  \<open>assert\<close>, a loop that does not end or a use the C standard leaves undefined (that \<open>panic\<close> and the functions it calls
  do not return is the lemma \<open>panic_never_returns\<close>; its callers are given the outcome at once). Loops that need not end are
  \<open>partial_function (option)\<close>, and \<open>None\<close> is the loop that does not end; the properties about them say that
  they return.

  \<^bold>\<open>The parts of the system and their theories.\<close>

  \<^item> \<^bold>\<open>Library.\<close> \<open>C_Library\<close> (\<^verbatim>\<open>lib/lib.c\<close>: \<open>memcpy\<close>, \<open>memmove\<close>, string functions, \<open>rand\<close>, the decimal
    parsers), \<open>Printing\<close> (\<open>printer_vprintf\<close> over an arbitrary \<open>putc\<close>, \<open>vsnprintf\<close>, the console with
    scrolling), \<open>Paths\<close> (\<open>join_path\<close>, and \<^verbatim>\<open>lib/string.c\<close>).
  \<^item> \<^bold>\<open>Cipher.\<close> \<open>AES\<close> and \<open>AES_Correct\<close> (\<^verbatim>\<open>lib-aes/aes.c\<close>): agreement with the FIPS-197 description, round
    trips of the modes, counter mode as a key stream.
  \<^item> \<^bold>\<open>Physical and virtual memory.\<close> \<open>Physical_Memory\<close> (the table \<open>pageinfo\<close>, \<open>page_alloc\<close>, the release of
    pages), \<open>Virtual_Memory\<close> (\<open>virtual_memory_map\<close>, lookups), \<open>Kernel_Heap\<close> and \<open>Kernel_Heap_Correct\<close>
    (\<^verbatim>\<open>kernel/k-malloc.c\<close>), \<open>Address_Spaces\<close> and \<open>Address_Spaces_Correct\<close> (the kernel's page table, and the
    checks made at every exception).
  \<^item> \<^bold>\<open>Devices.\<close> \<open>Disk\<close> (programmed I/O on the ATA ports), \<open>Hardware\<close> (descriptor tables and the delivery of
    interrupts through them, interrupt controllers, timer, PCI, cursor, keyboard decoding), \<open>Input\<close> (the queue of
    typed keys, the entropy pool, \<open>panic\<close>). The instructions
    \<open>inb\<close>, \<open>outb\<close>, \<open>insl\<close> and the others of \<^verbatim>\<open>lib/x86-64.h\<close> are the operations of the records
    \<open>ports\<close> and \<open>cpu\<close>; what is documented of the devices is the locales \<open>ata_device\<close>, \<open>key_source\<close> and
    \<open>quiet_keyboard\<close>, each interpreted by a simulated device.
  \<^item> \<^bold>\<open>File system.\<close> \<open>Filesystem\<close> (\<^verbatim>\<open>lib-filesystem/filesystem.c\<close>, all operations, over the callbacks of its
    descriptor), \<open>Filesystem_Correct\<close> (inodes, blocks, reading and writing on a \<open>byte_store\<close>), \<open>Filesystem_Tree\<close>
    (the directory tree and its invariant), \<open>Kernel_Filesystem\<close> (the mounted file system on the kernel's disk and
    random generator, through the locale \<open>kernel_devices\<close>), \<open>Filesystem_Removal\<close> (\<open>fs_remove\<close>).
  \<^item> \<^bold>\<open>Kernel.\<close> \<open>Kernel_State\<close> (the static variables as one record), \<open>File_Descriptors\<close>
    (\<^verbatim>\<open>kernel/k-filedescriptor.c\<close>), \<open>Elf\<close> and \<open>Processes\<close> (\<^verbatim>\<open>kernel/k-loader.c\<close>, \<open>process_setup\<close>,
    \<open>process_kill\<close>, \<open>schedule\<close>, \<open>run\<close>), \<open>Syscalls\<close> (\<open>exception\<close>, one definition for every case, and the entry
    point \<open>kernel\<close>, here \<open>kernel_start\<close>), \<open>Processes_Correct\<close>, \<open>Preservation\<close>,
    \<open>Kernel_Invariant\<close>, \<open>Fork_Correct\<close>, \<open>User_Memory\<close> (memory as a process sees it) and
    \<open>Exec_Arguments\<close> (the arguments that \<open>execv\<close> passes on).
  \<^item> \<^bold>\<open>Boot.\<close> \<open>Boot\<close> (\<^verbatim>\<open>boot/boot.c\<close>) and \<open>Boot_Disk\<close> (\<^verbatim>\<open>build/mkbootdisk.c\<close>, the tool that makes the disk that the
    boot loader reads).
  \<^item> \<^bold>\<open>Processes.\<close> \<open>User_Library\<close> and \<open>User_Library_Correct\<close> (\<^verbatim>\<open>lib/process.h\<close>, \<^verbatim>\<open>lib/process.c\<close>,
    \<^verbatim>\<open>lib/lib-malloc.c\<close>), \<open>User_Programs\<close> and \<open>User_Programs_Correct\<close> (the programs of \<^verbatim>\<open>processes/\<close>). There the instruction \<open>int n\<close> is a
    parameter, so that a program is judged by what it asks of the kernel.

  \<^bold>\<open>How the parts interact.\<close> \<open>exception\<close> saves the registers of the interrupted process in its descriptor, polls
  the keyboard (\<open>Input\<close>), checks the page tables (\<open>Address_Spaces\<close>), dispatches to a system call, which allocates
  pages and maps them, walks the list of open files, or calls the file system with the callbacks of
  \<open>Kernel_Filesystem\<close>, and ends in \<open>run\<close>, directly or through \<open>schedule\<close>. The file system sees only the
  callbacks: its lemmas are proved in the locale \<open>mounted_fs\<close> over a \<open>byte_store\<close>, which the disk driver
  provides (\<open>fs_disk\<close>, a sublocale) on top of the contract \<open>ata_device\<close> of the controller. The allocator that
  \<open>virtual_memory_map\<close> calls is the locale \<open>page_source\<close>, provided by \<open>page_alloc\<close>; the character sink of
  \<open>printer_vprintf\<close> is the locale \<open>printer\<close>, provided by the string and the console printer; the ring of
  typed keys provides the locale \<open>fifo\<close>.

  \<^bold>\<open>What the lemmas show.\<close>

  \<^item> The cipher equals FIPS-197's and its modes are inverted by their counterparts; counter mode is the exclusive
    or with the key stream of a big-endian counter that carries over all 16 bytes.
  \<^item> \<open>memmove\<close> is correct for overlapping blocks; \<open>strcmp\<close> orders lexicographically; printing a
    number and parsing it is the identity; \<open>vsnprintf\<close> and the console never write outside of their buffers.
  \<^item> \<open>page_alloc\<close> returns a fresh page whenever there is one; \<open>virtual_memory_map\<close> maps exactly the given range
    and keeps every other translation and address space; the kernel's page table passes the checks; the heap hands
    out disjoint blocks, returns null instead of looping when it is exhausted, and gets them back.
  \<^item> What is written to the disk is read back and no other byte changes; the file system's \<open>fs_read\<close>,
    \<open>fs_write\<close>, \<open>fs_touch\<close>, \<open>fs_getattr\<close> refine reads, overwrites and insertions on the decrypted
    contents and on the directory tree, with their error codes; \<open>fs_remove\<close> frees a node and its inode and leaves the other
    names alone, except for the defect of its choice of slots, which the property states exactly;
    \<open>fs_generate_random\<close> returns.
  \<^item> The queue of keys is a bounded first-in first-out queue that never overruns; \<open>schedule\<close> picks the
    runnable processes in turn; an exit hands the code to the waiting parent, frees the memory of the child and
    leaves the other processes alone.
  \<^item> \<open>fork\<close> gives the child a copy of the address space of its parent in fresh pages, shares the mappings of the
    kernel, and changes nothing that was in use, unless physical memory runs out. A page that a process asks for
    reads as zeros, and what the process sees elsewhere, and what the others see, stays the same. \<open>execv\<close> hands the arguments
    over in a fresh page with the layout that the programs expect.
  \<^item> The tables that \<open>segments_init\<close> loads let every interrupt and system call enter the kernel at privilege level 0
    on its own stack, and programs raise the vectors of system calls only.
  \<^item> In every state that the running system reaches, through computations of the programs, device activity and
    exceptions, all processes have the code segment of user mode, interrupts enabled and no I/O privilege: the step
    relation \<open>kernel_step\<close> and its invariant. The calculus \<open>preserves\<close> of \<open>Preservation\<close> carries
    the proof through every handler.
  \<^item> The boot loader places the segments of the kernel where its program headers say; \<^verbatim>\<open>mkbootdisk\<close> makes a
    bootable disk with every byte of the kernel in place, however the host splits its writes.
  \<^item> \<open>scan_line\<close> edits a line without overrunning its buffer, and \<open>split_string\<close> yields the fields of a
    string in freshly allocated memory; \<open>cat\<close> prints a file and exits with the code of its outcome, on a kernel that serves the
    system calls as \<open>page_service\<close>, \<open>open_service\<close>, \<open>read_service\<close> and \<open>exit_service\<close> say.

  \<^bold>\<open>Fuel and bounds.\<close> \<open>read_loop\<close> of the file system takes the number of blocks it may still visit. System calls
  pass \<open>2 ^ 32 + 1\<close>, more than there are values of the 32-bit block index; the properties show that 18
  suffice for every file, since a file has at most 16 blocks. The scans for the zero byte of a
  process's string stop at the end of the virtual memory (\<open>MEMSIZE_VIRTUAL\<close>), beyond which no page is mapped.

  \<^bold>\<open>Not modelled.\<close> Log messages (they change no other state); the colours and pictures of the kernel's console,
  beyond the list of the calls that draw them (\<open>console_calls\<close>); the static variables of the kernel as bytes
  of its memory (a wild write to their addresses); the contents of a buffer after a failing \<open>fs_read\<close> or
  \<open>fs_write\<close> from within a system call; registers that a system call wrapper leaves unset (they are passed as 0);
  the files \<^verbatim>\<open>kernel/k-exception.S\<close> and \<^verbatim>\<open>boot/bootentry.S\<close>, which save and restore registers and switch the
  processor mode (their effect is the argument of \<open>exception\<close>, the end of \<open>run\<close> and the start of \<open>boot\<close>);
  \<^verbatim>\<open>build/qemu-nograb.c\<close>, which forwards calls of the emulator's display libraries; \<^verbatim>\<open>processes/p-testmalloc.c\<close>,
  which is part of no program.

  \<^bold>\<open>Limits.\<close> Apart from what is listed above, every operation of the C code that changes state has a definition here. The
  properties do not cover all of them: of the replacement of a program by \<open>execv\<close> they state the arguments and the invariant of
  \<open>Kernel_Invariant\<close>, and not that the segments of the new program are in place. The services that \<open>User_Library_Correct\<close> and \<open>User_Programs_Correct\<close>
  ask of the instruction \<open>int n\<close> are hypotheses there; on the side of the kernel, the properties of \<open>User_Memory\<close>,
  of the keys in \<open>Input\<close>, of the exit of a process in \<open>Processes_Correct\<close> and of the file system are their
  counterparts.
\<close>

end
